(* ===== verification/Prelude.thy ===== *)
theory Prelude
  imports Main "HOL-Library.Word"
begin

unbundle bit_operations_syntax

text \<open>
  The shared vocabulary of the development: the Rust integer types, results with an error
  or a panic, checked and saturating arithmetic, loops with an early return, and the
  decimal rendering and parsing of numbers that the string-building code uses.

  A Rust function that returns \<open>Result<T, E>\<close> becomes a value of \<open>'e failure + 'a\<close>:
  \<open>Inr x\<close> for \<open>Ok(x)\<close>, \<open>Inl (Err e)\<close> for \<open>Err(e)\<close> and \<open>Inl (Panic m)\<close> for a panic
  (an arithmetic overflow with overflow checks on, a slice out of range, an \<open>expect\<close>).
\<close>

section \<open>Integer types\<close>

type_synonym u8 = "8 word"
type_synonym u32 = "32 word"
type_synonym u64 = "64 word"
type_synonym u128 = "128 word"
type_synonym usize = "64 word"
type_synonym bytes = "u8 list"

section \<open>Results\<close>

datatype 'e failure = Panic string | Err 'e

type_synonym ('a, 'e) result = "'e failure + 'a"

named_theorems result_simps "rewriting a sequence of fallible calls"

fun bind_res :: "'e + 'a \<Rightarrow> ('a \<Rightarrow> 'e + 'b) \<Rightarrow> 'e + 'b" where
  "bind_res (Inl e) f = Inl e"
| "bind_res (Inr x) f = f x"

lemma bind_res_Inr_iff [result_simps]:
  "bind_res m f = Inr y \<longleftrightarrow> (\<exists>x. m = Inr x \<and> f x = Inr y)"
  by (cases m) auto

lemma bind_res_Inl_iff [result_simps]:
  "bind_res m f = Inl e \<longleftrightarrow> m = Inl e \<or> (\<exists>x. m = Inr x \<and> f x = Inl e)"
  by (cases m) auto

lemma bind_res_assoc:
  "bind_res (bind_res m f) g = bind_res m (\<lambda>x. bind_res (f x) g)"
  by (cases m) auto

lemma bind_res_cong [fundef_cong]:
  "m = m' \<Longrightarrow> (\<And>x. m' = Inr x \<Longrightarrow> f x = g x) \<Longrightarrow> bind_res m f = bind_res m' g"
  by (cases m') auto

text \<open>A \<open>for\<close> loop whose body may return early with an error.\<close>

fun fold_res :: "('s \<Rightarrow> 'a \<Rightarrow> 'e + 's) \<Rightarrow> 's \<Rightarrow> 'a list \<Rightarrow> 'e + 's" where
  "fold_res f s [] = Inr s"
| "fold_res f s (x # xs) = bind_res (f s x) (\<lambda>s'. fold_res f s' xs)"

lemma fold_res_append [simp]:
  "fold_res f s (xs @ ys) = bind_res (fold_res f s xs) (\<lambda>s'. fold_res f s' ys)"
  by (induction xs arbitrary: s) (auto simp: bind_res_assoc)

lemma fold_res_inv:
  assumes "fold_res f s xs = Inr t" and "P s"
    and "\<And>s x s'. P s \<Longrightarrow> x \<in> set xs \<Longrightarrow> f s x = Inr s' \<Longrightarrow> P s'"
  shows "P t"
  using assms
proof (induction xs arbitrary: s)
  case Nil
  then show ?case by simp
next
  case (Cons x xs)
  from Cons.prems(1) obtain s' where s': "f s x = Inr s'" and rest: "fold_res f s' xs = Inr t"
    by (auto simp: result_simps)
  have "P s'" by (rule Cons.prems(3) [OF Cons.prems(2) _ s']) simp
  with rest show ?case
    by (rule Cons.IH) (rule Cons.prems(3), auto)
qed

text \<open>\<open>iter().map(f).collect::<Result<Vec<_>, _>>()\<close>: the first error wins.\<close>

fun map_res :: "('a \<Rightarrow> 'e + 'b) \<Rightarrow> 'a list \<Rightarrow> 'e + 'b list" where
  "map_res f [] = Inr []"
| "map_res f (x # xs) = bind_res (f x) (\<lambda>y. bind_res (map_res f xs) (\<lambda>ys. Inr (y # ys)))"

lemma map_res_Inr_iff:
  "map_res f xs = Inr ys \<longleftrightarrow> list_all2 (\<lambda>x y. f x = Inr y) xs ys"
  by (induction xs arbitrary: ys) (auto simp: result_simps list_all2_Cons1)

lemma map_res_length [simp]: "map_res f xs = Inr ys \<Longrightarrow> length ys = length xs"
  by (simp add: map_res_Inr_iff list_all2_lengthD)

lemma map_res_all_Inr: "(\<And>x. x \<in> set xs \<Longrightarrow> f x = Inr (g x)) \<Longrightarrow> map_res f xs = Inr (map g xs)"
  by (induction xs) auto

subsection \<open>Fallible calls on a state\<close>

text \<open>
  A method that may fail after it has changed its object returns the result together with
  the state it leaves behind, on an error too: \<open>'s \<Rightarrow> ('e + 'a) \<times> 's\<close>.
\<close>

type_synonym ('s, 'e, 'a) call = "'s \<Rightarrow> ('e + 'a) \<times> 's"

definition ret :: "'a \<Rightarrow> ('s, 'e, 'a) call" where
  "ret x = (\<lambda>s. (Inr x, s))"

definition throw :: "'e \<Rightarrow> ('s, 'e, 'a) call" where
  "throw e = (\<lambda>s. (Inl e, s))"

definition seq :: "('s, 'e, 'a) call \<Rightarrow> ('a \<Rightarrow> ('s, 'e, 'b) call) \<Rightarrow> ('s, 'e, 'b) call" where
  "seq m f = (\<lambda>s. case m s of (Inl e, s') \<Rightarrow> (Inl e, s') | (Inr x, s') \<Rightarrow> f x s')"

text \<open>\<open>for x in xs { f(x)?; }\<close>\<close>

fun for_each :: "('a \<Rightarrow> ('s, 'e, unit) call) \<Rightarrow> 'a list \<Rightarrow> ('s, 'e, unit) call" where
  "for_each f [] = ret ()"
| "for_each f (x # xs) = seq (f x) (\<lambda>_. for_each f xs)"

named_theorems call_simps "rewriting calls on a state"

lemma ret_apply [call_simps]: "ret x s = (Inr x, s)"
  by (simp add: ret_def)

lemma throw_apply [call_simps]: "throw e s = (Inl e, s)"
  by (simp add: throw_def)

lemma seq_Inr [call_simps]: "m s = (Inr x, s') \<Longrightarrow> seq m f s = f x s'"
  by (simp add: seq_def)

lemma seq_Inl [call_simps]: "m s = (Inl e, s') \<Longrightarrow> seq m f s = (Inl e, s')"
  by (simp add: seq_def)

lemma seq_Inr_iff:
  "seq m f s = (Inr y, t) \<longleftrightarrow> (\<exists>x s'. m s = (Inr x, s') \<and> f x s' = (Inr y, t))"
  by (auto simp: seq_def split: prod.splits sum.splits)

lemma seq_inv:
  assumes "P s" and "\<And>s. P s \<Longrightarrow> P (snd (m s))" and "\<And>x s. P s \<Longrightarrow> P (snd (f x s))"
  shows "P (snd (seq m f s))"
  using assms(1) assms(2) [OF assms(1)] assms(3)
  by (auto simp: seq_def split: prod.splits sum.splits)

lemma for_each_inv:
  assumes "P s" and "\<And>x s. x \<in> set xs \<Longrightarrow> P s \<Longrightarrow> P (snd (f x s))"
  shows "P (snd (for_each f xs s))"
  using assms
proof (induction xs arbitrary: s)
  case Nil
  then show ?case by (simp add: ret_def)
next
  case (Cons x xs)
  have step: "P (snd (f x s))" using Cons.prems by simp
  have rest: "P (snd (for_each f xs t))" if "P t" for t
    using that Cons.prems(2) by (intro Cons.IH) auto
  show ?case
    using step rest by (auto simp: seq_def split: prod.splits sum.splits)
qed

section \<open>Arithmetic with overflow checks\<close>

definition overflow :: "string \<Rightarrow> 'e failure" where
  "overflow op = Panic (''attempt to '' @ op @ '' with overflow'')"

definition add_u :: "'w::len word \<Rightarrow> 'w word \<Rightarrow> 'e failure + 'w word" where
  "add_u a b = (if unat a + unat b < 2 ^ LENGTH('w) then Inr (a + b) else Inl (overflow ''add''))"

definition sub_u :: "'w::len word \<Rightarrow> 'w word \<Rightarrow> 'e failure + 'w word" where
  "sub_u a b = (if b \<le> a then Inr (a - b) else Inl (overflow ''subtract''))"

definition saturating_sub :: "'w::len word \<Rightarrow> 'w word \<Rightarrow> 'w word" where
  "saturating_sub a b = (if b \<le> a then a - b else 0)"

named_theorems word_nat_simps "reading word operations as natural numbers"

lemma add_u_Inr_iff [word_nat_simps]:
  "add_u a (b :: 'w::len word) = Inr c \<longleftrightarrow> unat c = unat a + unat b"
proof
  assume "add_u a b = Inr c"
  then have "unat a + unat b < 2 ^ LENGTH('w)" and "c = a + b"
    by (auto simp: add_u_def split: if_splits)
  then show "unat c = unat a + unat b" by (simp add: unat_word_ariths)
next
  assume c: "unat c = unat a + unat b"
  moreover have "unat c < 2 ^ LENGTH('w)" by (rule unsigned_less)
  ultimately have "unat a + unat b < 2 ^ LENGTH('w)" by simp
  moreover from this c have "unat c = unat (a + b)" by (simp add: unat_word_ariths)
  then have "c = a + b" by (simp add: word_unat_eq_iff)
  ultimately show "add_u a b = Inr c" by (simp add: add_u_def)
qed

lemma sub_u_Inr_iff [word_nat_simps]:
  "sub_u a (b :: 'w::len word) = Inr c \<longleftrightarrow> unat a = unat c + unat b"
proof
  assume "sub_u a b = Inr c"
  then have "b \<le> a" and "c = a - b" by (auto simp: sub_u_def split: if_splits)
  then show "unat a = unat c + unat b"
    by (simp add: unat_sub word_le_nat_alt)
next
  assume a: "unat a = unat c + unat b"
  then have le: "b \<le> a" by (simp add: word_le_nat_alt)
  then have "unat (a - b) = unat c" using a by (simp add: unat_sub)
  then have "a - b = c" by (simp add: word_unat_eq_iff)
  with le show "sub_u a b = Inr c" by (simp add: sub_u_def)
qed

lemma unat_saturating_sub [word_nat_simps]: "unat (saturating_sub a b) = unat a - unat b"
  by (auto simp: saturating_sub_def unat_sub word_le_nat_alt)

lemma add_u_ok: "unat a + unat (b :: 'w::len word) < 2 ^ LENGTH('w) \<Longrightarrow> add_u a b = Inr (a + b)"
  by (simp add: add_u_def)

lemma sub_u_ok: "b \<le> a \<Longrightarrow> sub_u a b = Inr (a - b)"
  by (simp add: sub_u_def)

lemma add_u_not_Err [simp]: "add_u a b \<noteq> Inl (Err e)" "sub_u a b \<noteq> Inl (Err e)"
  by (simp_all add: add_u_def sub_u_def overflow_def)

lemma unat_pred: "(w :: 'a::len word) \<noteq> 0 \<Longrightarrow> unat (w - 1) = unat w - 1"
  by (rule unat_minus_one)

lemma unat_pred_less: "(w :: 'a::len word) \<noteq> 0 \<Longrightarrow> unat (w - 1) < unat w"
  by (simp add: unat_pred unat_gt_0)

section \<open>Strings\<close>

text \<open>
  A Rust \<open>String\<close> is modelled by its bytes, a \<open>char list\<close>: \<open>len\<close> counts bytes. The
  case conversions below are those of ASCII.
\<close>

fun join :: "string \<Rightarrow> string list \<Rightarrow> string" where
  "join sep [] = []"
| "join sep [x] = x"
| "join sep (x # y # xs) = x @ sep @ join sep (y # xs)"

text \<open>The quote character and the double quote around identifiers.\<close>

abbreviation quote_char :: char where "quote_char \<equiv> CHR 0x27"

abbreviation dquote :: string where "dquote \<equiv> [CHR 0x22]"

definition quote_ident :: "string \<Rightarrow> string" where
  "quote_ident s = dquote @ s @ dquote"

text \<open>\<open>s.replace('\'', "''")\<close>.\<close>

fun escape_quotes :: "string \<Rightarrow> string" where
  "escape_quotes [] = []"
| "escape_quotes (c # cs) =
     (if c = quote_char then quote_char # quote_char # escape_quotes cs
      else c # escape_quotes cs)"

definition quote_text :: "string \<Rightarrow> string" where
  "quote_text s = quote_char # escape_quotes s @ [quote_char]"

subsection \<open>ASCII case and character classes\<close>

definition ascii_upper :: "char \<Rightarrow> char" where
  "ascii_upper c = (let n = of_char c :: nat in if 97 \<le> n \<and> n \<le> 122 then char_of (n - 32) else c)"

definition ascii_lower :: "char \<Rightarrow> char" where
  "ascii_lower c = (let n = of_char c :: nat in if 65 \<le> n \<and> n \<le> 90 then char_of (n + 32) else c)"

definition is_ascii_alphabetic :: "char \<Rightarrow> bool" where
  "is_ascii_alphabetic c =
     (let n = of_char c :: nat in (65 \<le> n \<and> n \<le> 90) \<or> (97 \<le> n \<and> n \<le> 122))"

definition is_digit :: "char \<Rightarrow> bool" where
  "is_digit c \<longleftrightarrow> 48 \<le> (of_char c :: nat) \<and> (of_char c :: nat) \<le> 57"

definition is_ascii_alphanumeric :: "char \<Rightarrow> bool" where
  "is_ascii_alphanumeric c \<longleftrightarrow> is_ascii_alphabetic c \<or> is_digit c"

lemma of_char_ascii_upper:
  "of_char (ascii_upper c) = (let n = of_char c :: nat in if 97 \<le> n \<and> n \<le> 122 then n - 32 else n)"
  by (auto simp: ascii_upper_def Let_def of_char_of)

lemma of_char_ascii_lower:
  "of_char (ascii_lower c) = (let n = of_char c :: nat in if 65 \<le> n \<and> n \<le> 90 then n + 32 else n)"
  by (auto simp: ascii_lower_def Let_def of_char_of)

lemma char_eq_nat_iff: "c = d \<longleftrightarrow> (of_char c :: nat) = of_char d"
  by simp

lemma ascii_lower_upper [simp]: "ascii_lower (ascii_upper c) = ascii_lower c"
  unfolding char_eq_nat_iff of_char_ascii_lower of_char_ascii_upper
  by (auto simp: Let_def)

lemma ascii_upper_idem [simp]: "ascii_upper (ascii_upper c) = ascii_upper c"
  unfolding char_eq_nat_iff of_char_ascii_upper by (auto simp: Let_def)

lemma ascii_lower_idem [simp]: "ascii_lower (ascii_lower c) = ascii_lower c"
  unfolding char_eq_nat_iff of_char_ascii_lower by (auto simp: Let_def)

subsection \<open>Decimal numbers\<close>

definition digit_char :: "nat \<Rightarrow> char" where
  "digit_char d = char_of (48 + d)"

definition digit_val :: "char \<Rightarrow> nat" where
  "digit_val c = of_char c - 48"

fun nat_str :: "nat \<Rightarrow> string" where
  "nat_str n = (if n < 10 then [digit_char n] else nat_str (n div 10) @ [digit_char (n mod 10)])"

declare nat_str.simps [simp del]

definition int_str :: "int \<Rightarrow> string" where
  "int_str i = (if i < 0 then CHR ''-'' # nat_str (nat (- i)) else nat_str (nat i))"

text \<open>The value of a string of digits, read from the left.\<close>

definition digits_val :: "string \<Rightarrow> nat" where
  "digits_val s = foldl (\<lambda>a c. 10 * a + digit_val c) 0 s"

text \<open>
  \<open>str::parse::<usize>()\<close> and \<open>parse::<u64>()\<close>: an optional plus sign, at least one
  digit, nothing else, and a value that fits.
\<close>

definition parse_nat :: "nat \<Rightarrow> string \<Rightarrow> nat option" where
  "parse_nat bits s =
     (let t = (case s of [] \<Rightarrow> [] | c # cs \<Rightarrow> if c = CHR ''+'' then cs else s)
      in if t \<noteq> [] \<and> list_all is_digit t \<and> digits_val t < 2 ^ bits
         then Some (digits_val t) else None)"

definition parse_u64 :: "string \<Rightarrow> u64 option" where
  "parse_u64 s = map_option of_nat (parse_nat 64 s)"

definition parse_u128 :: "string \<Rightarrow> u128 option" where
  "parse_u128 s = map_option of_nat (parse_nat 128 s)"

lemma digit_char_props:
  assumes "d < 10"
  shows "is_digit (digit_char d)" and "digit_val (digit_char d) = d"
  using assms by (simp_all add: is_digit_def digit_char_def digit_val_def)

lemma nat_str_digits: "list_all is_digit (nat_str n)"
proof (induction n rule: nat_str.induct)
  case (1 n)
  then show ?case
    by (cases "n < 10") (simp_all add: nat_str.simps [of n] digit_char_props)
qed

lemma nat_str_nonempty [simp]: "nat_str n \<noteq> []"
  by (simp add: nat_str.simps [of n])

lemma digits_val_snoc: "digits_val (s @ [c]) = 10 * digits_val s + digit_val c"
  by (simp add: digits_val_def)

lemma digits_val_nat_str [simp]: "digits_val (nat_str n) = n"
proof (induction n rule: nat_str.induct)
  case (1 n)
  show ?case
  proof (cases "n < 10")
    case True
    then show ?thesis
      by (simp add: nat_str.simps [of n] digits_val_def digit_char_props)
  next
    case False
    with 1 show ?thesis
      by (simp add: nat_str.simps [of n] digits_val_snoc digit_char_props)
  qed
qed

lemma nat_str_inj: "nat_str m = nat_str n \<longleftrightarrow> m = n"
  by (metis digits_val_nat_str)

lemma hd_nat_str_digit: "is_digit (hd (nat_str n))"
  using nat_str_digits [of n] nat_str_nonempty [of n]
  by (cases "nat_str n") auto

lemma parse_nat_nat_str:
  assumes "n < 2 ^ bits"
  shows "parse_nat bits (nat_str n) = Some n"
proof -
  obtain c cs where s: "nat_str n = c # cs" by (cases "nat_str n") auto
  then have "c \<noteq> CHR ''+''"
    using hd_nat_str_digit [of n] by (auto simp: is_digit_def)
  then show ?thesis
    using assms s nat_str_digits [of n] digits_val_nat_str [of n]
    by (simp add: parse_nat_def Let_def)
qed

lemma parse_u64_unat [simp]: "parse_u64 (nat_str (unat w)) = Some w"
  using parse_nat_nat_str [of "unat w" 64] unsigned_less [of w, where ?'a = nat]
  by (simp add: parse_u64_def)

lemma parse_u128_unat [simp]: "parse_u128 (nat_str (unat w)) = Some w"
  using parse_nat_nat_str [of "unat w" 128] unsigned_less [of w, where ?'a = nat]
  by (simp add: parse_u128_def)

lemma parse_nat_Some:
  assumes "parse_nat bits s = Some v"
  shows "v < 2 ^ bits" and "s \<noteq> []" and "\<forall>c \<in> set s. is_digit c \<or> c = CHR ''+''"
  using assms
  by (auto simp: parse_nat_def Let_def list_all_iff split: list.splits if_splits)

subsection \<open>Bytes\<close>

text \<open>The bytes of a string, and \<open>to_be_bytes\<close> / \<open>from_be_bytes\<close>.\<close>

definition str_bytes :: "string \<Rightarrow> bytes" where
  "str_bytes s = map of_char s"

definition u64_be_bytes :: "u64 \<Rightarrow> bytes" where
  "u64_be_bytes w = map (\<lambda>i. ucast (drop_bit (8 * i) w)) [7, 6, 5, 4, 3, 2, 1, 0]"

definition be_val :: "bytes \<Rightarrow> nat" where
  "be_val bs = foldl (\<lambda>a b. 256 * a + unat b) 0 bs"

lemma be_val_snoc: "be_val (bs @ [b]) = 256 * be_val bs + unat b"
  by (simp add: be_val_def)

lemma be_val_Nil [simp]: "be_val [] = 0"
  by (simp add: be_val_def)

lemma be_val_less: "be_val bs < 256 ^ length bs"
proof (induction bs rule: rev_induct)
  case Nil
  then show ?case by simp
next
  case (snoc b bs)
  have "unat b < 256" using unsigned_less [of b, where ?'a = nat] by simp
  with snoc show ?case by (simp add: be_val_snoc)
qed

lemma be_val_append: "be_val (as @ bs) = be_val as * 256 ^ length bs + be_val bs"
  by (induction bs rule: rev_induct)
    (auto simp: be_val_snoc simp flip: append_assoc simp: algebra_simps)

lemma be_val_zeros [simp]: "be_val (replicate n 0) = 0"
proof (induction n)
  case 0
  then show ?case by simp
next
  case (Suc n)
  then show ?case by (simp add: replicate_append_same [symmetric] be_val_snoc)
qed

section \<open>Lists\<close>

text \<open>\<open>IndexMap::insert\<close> on pairs in order of first insertion.\<close>

fun index_insert :: "'k \<Rightarrow> 'v \<Rightarrow> ('k \<times> 'v) list \<Rightarrow> ('k \<times> 'v) list" where
  "index_insert k v [] = [(k, v)]"
| "index_insert k v ((k', v') # m) = (if k' = k then (k, v) # m else (k', v') # index_insert k v m)"

lemma index_insert_fresh: "k \<notin> fst ` set m \<Longrightarrow> index_insert k v m = m @ [(k, v)]"
  by (induction m) auto

lemma map_of_index_insert [simp]: "map_of (index_insert k v m) = (map_of m)(k \<mapsto> v)"
  by (induction m) (auto simp: fun_eq_iff)

text \<open>\<open>unwrap_or\<close>.\<close>

definition or_else :: "'a option \<Rightarrow> 'a \<Rightarrow> 'a" where
  "or_else x d = (case x of Some v \<Rightarrow> v | None \<Rightarrow> d)"

text \<open>\<open>iter().filter_map(f)\<close>.\<close>

fun filter_map :: "('a \<Rightarrow> 'b option) \<Rightarrow> 'a list \<Rightarrow> 'b list" where
  "filter_map f [] = []"
| "filter_map f (x # xs) = (case f x of None \<Rightarrow> filter_map f xs | Some y \<Rightarrow> y # filter_map f xs)"

lemma filter_map_all: "(\<And>x. x \<in> set xs \<Longrightarrow> f x = Some (g x)) \<Longrightarrow> filter_map f xs = map g xs"
  by (induction xs) auto

lemma filter_map_append [simp]: "filter_map f (xs @ ys) = filter_map f xs @ filter_map f ys"
  by (induction xs) (auto split: option.splits)

lemma set_filter_map: "set (filter_map f xs) = {y. \<exists>x \<in> set xs. f x = Some y}"
  by (induction xs) (auto split: option.splits)

lemma filter_map_conv: "filter_map f xs = map (the \<circ> f) (filter (\<lambda>x. f x \<noteq> None) xs)"
  by (induction xs) (auto split: option.splits)

end
