(* ===== verification/Core_Types.thy ===== *)
theory Core_Types
  imports Prelude
begin

text \<open>
  The EVM data types of \<open>forge-index-core/src/types\<close>: addresses, hashes, logs, blocks and
  transactions, their hexadecimal text form and their construction from the RPC library's
  types.

  The crate \<open>hex\<close> and the hash function \<open>keccak256\<close> are code outside the repository. They
  are arguments of the definitions that call them; the locale \<open>hex_codec\<close> states what the
  documentation of \<open>hex\<close> promises.
\<close>

section \<open>The interface of the crate hex\<close>

text \<open>
  \<open>hex::encode\<close> writes two lower case digits per byte; \<open>hex::decode_to_slice\<close>, called on
  an output array of \<open>n\<close> bytes, accepts digits of either case.
\<close>

locale hex_codec =
  fixes encode :: "bytes \<Rightarrow> string"
    and decode_to_slice :: "nat \<Rightarrow> string \<Rightarrow> bytes option"
  assumes encode_length: "length (encode bs) = 2 * length bs"
    and encode_lower: "map ascii_lower (encode bs) = encode bs"
    and decode_encode: "decode_to_slice (length bs) (encode bs) = Some bs"
    and decode_length: "decode_to_slice n s = Some bs \<Longrightarrow> length bs = n"
    and decode_case: "decode_to_slice n (map ascii_lower s) = decode_to_slice n s"

section \<open>Addresses and hashes\<close>

datatype address = Address (addr_bytes: bytes)

datatype hash32 = Hash32 (hash_bytes: bytes)

text \<open>The array lengths that the Rust types \<open>[u8; 20]\<close> and \<open>[u8; 32]\<close> carry.\<close>

definition wf_address :: "address \<Rightarrow> bool" where
  "wf_address a \<longleftrightarrow> length (addr_bytes a) = 20"

definition wf_hash32 :: "hash32 \<Rightarrow> bool" where
  "wf_hash32 h \<longleftrightarrow> length (hash_bytes h) = 32"

definition zero_address :: address where "zero_address = Address (replicate 20 0)"

definition zero_hash32 :: hash32 where "zero_hash32 = Hash32 (replicate 32 0)"

definition strip_0x :: "string \<Rightarrow> string" where
  "strip_0x s = (if take 2 s = ''0x'' then drop 2 s else s)"

definition address_from_hex :: "(nat \<Rightarrow> string \<Rightarrow> bytes option) \<Rightarrow> string \<Rightarrow> address option" where
  "address_from_hex decode_to_slice s =
     (let s = strip_0x s
      in if length s \<noteq> 40 then None else map_option Address (decode_to_slice 20 s))"

definition hash32_from_hex :: "(nat \<Rightarrow> string \<Rightarrow> bytes option) \<Rightarrow> string \<Rightarrow> hash32 option" where
  "hash32_from_hex decode_to_slice s =
     (let s = strip_0x s
      in if length s \<noteq> 64 then None else map_option Hash32 (decode_to_slice 32 s))"

text \<open>\<open>From<&str>\<close> panics where \<open>from_hex\<close> gives nothing.\<close>

definition address_from_str :: "(nat \<Rightarrow> string \<Rightarrow> bytes option) \<Rightarrow> string \<Rightarrow> (address, 'e) result" where
  "address_from_str decode_to_slice s =
     (case address_from_hex decode_to_slice s of
        Some a \<Rightarrow> Inr a | None \<Rightarrow> Inl (Panic ''invalid hex address''))"

definition hash32_from_str :: "(nat \<Rightarrow> string \<Rightarrow> bytes option) \<Rightarrow> string \<Rightarrow> (hash32, 'e) result" where
  "hash32_from_str decode_to_slice s =
     (case hash32_from_hex decode_to_slice s of
        Some h \<Rightarrow> Inr h | None \<Rightarrow> Inl (Panic ''invalid hex hash''))"

definition hash32_to_string :: "(bytes \<Rightarrow> string) \<Rightarrow> hash32 \<Rightarrow> string" where
  "hash32_to_string encode h = ''0x'' @ encode (hash_bytes h)"

subsection \<open>The checksummed form of an address\<close>

text \<open>\<open>u8::from_str_radix(c, 16).unwrap_or(0)\<close> on one character.\<close>

definition nibble_or_0 :: "char \<Rightarrow> nat" where
  "nibble_or_0 c =
     (let n = of_char c :: nat
      in if 48 \<le> n \<and> n \<le> 57 then n - 48
         else if 97 \<le> n \<and> n \<le> 102 then n - 87
         else if 65 \<le> n \<and> n \<le> 70 then n - 55
         else 0)"

text \<open>
  The loop over the characters of the address; \<open>hash_hex\<close> is read at the same position,
  and reading past its end panics.
\<close>

fun checksum_chars :: "string \<Rightarrow> string \<Rightarrow> (string, 'e) result" where
  "checksum_chars hash_hex [] = Inr []"
| "checksum_chars hash_hex (c # cs) =
     bind_res
       (if is_ascii_alphabetic c then
          (case hash_hex of
             [] \<Rightarrow> Inl (Panic ''byte index out of range'')
           | h # _ \<Rightarrow> Inr (if nibble_or_0 h \<ge> 8 then ascii_upper c else c))
        else Inr c)
       (\<lambda>c'. bind_res (checksum_chars (drop 1 hash_hex) cs) (\<lambda>cs'. Inr (c' # cs')))"

definition checksum_hex ::
  "(bytes \<Rightarrow> string) \<Rightarrow> (string \<Rightarrow> bytes) \<Rightarrow> address \<Rightarrow> (string, 'e) result" where
  "checksum_hex encode keccak256 a =
     (let hex_lower = encode (addr_bytes a);
          hash_hex = encode (keccak256 hex_lower)
      in bind_res (checksum_chars hash_hex hex_lower) (\<lambda>r. Inr (''0x'' @ r)))"

lemma checksum_chars_total:
  "length cs \<le> length h \<Longrightarrow>
   \<exists>r. checksum_chars h cs = Inr r \<and> map ascii_lower r = map ascii_lower cs \<and> length r = length cs"
proof (induction cs arbitrary: h)
  case Nil
  then show ?case by simp
next
  case (Cons c cs)
  then obtain x h' where h: "h = x # h'" by (cases h) auto
  with Cons.prems have "length cs \<le> length h'" by simp
  from Cons.IH [OF this] h show ?case by auto
qed

context hex_codec
begin

lemma hash32_roundtrip:
  "wf_hash32 h \<Longrightarrow> hash32_from_hex decode_to_slice (hash32_to_string encode h) = Some h"
  using encode_length [of "hash_bytes h"] decode_encode [of "hash_bytes h"]
  by (cases h) (simp add: hash32_from_hex_def hash32_to_string_def strip_0x_def wf_hash32_def)

lemma hash32_to_string_inj:
  "wf_hash32 g \<Longrightarrow> wf_hash32 h \<Longrightarrow>
   hash32_to_string encode g = hash32_to_string encode h \<longleftrightarrow> g = h"
  by (metis hash32_roundtrip option.inject)

lemma hash32_from_hex_wf: "hash32_from_hex decode_to_slice s = Some h \<Longrightarrow> wf_hash32 h"
  by (auto simp: hash32_from_hex_def wf_hash32_def Let_def dest: decode_length split: if_splits)

lemma address_from_hex_wf: "address_from_hex decode_to_slice s = Some a \<Longrightarrow> wf_address a"
  by (auto simp: address_from_hex_def wf_address_def Let_def dest: decode_length split: if_splits)

lemma checksum_hex_total:
  assumes "wf_address a" and "\<And>s. length (keccak256 s) = 32"
  shows "\<exists>r. (checksum_hex encode keccak256 a :: (string, 'e) result) = Inr (''0x'' @ r) \<and> length r = 40 \<and>
             map ascii_lower r = encode (addr_bytes a)"
proof -
  have len: "length (encode (addr_bytes a)) = 40"
    using assms(1) by (simp add: encode_length wf_address_def)
  have "length (encode (keccak256 (encode (addr_bytes a)))) = 64"
    by (simp add: encode_length assms(2))
  with len obtain r where
    "(checksum_chars (encode (keccak256 (encode (addr_bytes a)))) (encode (addr_bytes a))
       :: (string, 'e) result) = Inr r"
    "map ascii_lower r = map ascii_lower (encode (addr_bytes a))" "length r = 40"
    using checksum_chars_total [of "encode (addr_bytes a)"
        "encode (keccak256 (encode (addr_bytes a)))"] by auto
  then show ?thesis by (auto simp: checksum_hex_def encode_lower Let_def)
qed

lemma address_roundtrip:
  assumes "wf_address a" and "\<And>s. length (keccak256 s) = 32"
  shows "\<exists>s. (checksum_hex encode keccak256 a :: (string, 'e) result) = Inr s \<and> address_from_hex decode_to_slice s = Some a"
proof -
  obtain r where r: "(checksum_hex encode keccak256 a :: (string, 'e) result) = Inr (''0x'' @ r)"
    and len: "length r = 40" and low: "map ascii_lower r = encode (addr_bytes a)"
    using checksum_hex_total [OF assms(1), of keccak256] assms(2) by blast
  have "decode_to_slice 20 r = decode_to_slice 20 (map ascii_lower r)"
    by (simp add: decode_case)
  also have "\<dots> = Some (addr_bytes a)"
    using decode_encode [of "addr_bytes a"] assms(1) by (simp add: low wf_address_def)
  finally have "address_from_hex decode_to_slice (''0x'' @ r) = Some a"
    by (simp add: address_from_hex_def strip_0x_def len)
  with r show ?thesis by blast
qed

end

section \<open>A hexadecimal codec\<close>

text \<open>
  The reference codec: the hexadecimal notation itself. It satisfies the interface, so the
  hypotheses of the theorems that rest on \<open>hex_codec\<close> can be met.
\<close>

definition hex_digit :: "nat \<Rightarrow> char" where
  "hex_digit n = (if n < 10 then char_of (48 + n) else char_of (87 + n))"

definition hex_digit_val :: "char \<Rightarrow> nat option" where
  "hex_digit_val c =
     (let n = of_char c :: nat
      in if 48 \<le> n \<and> n \<le> 57 then Some (n - 48)
         else if 97 \<le> n \<and> n \<le> 102 then Some (n - 87)
         else if 65 \<le> n \<and> n \<le> 70 then Some (n - 55)
         else None)"

fun hex_encode_ref :: "bytes \<Rightarrow> string" where
  "hex_encode_ref [] = []"
| "hex_encode_ref (b # bs) =
     hex_digit (unat b div 16) # hex_digit (unat b mod 16) # hex_encode_ref bs"

fun hex_bytes :: "string \<Rightarrow> bytes option" where
  "hex_bytes [] = Some []"
| "hex_bytes [c] = None"
| "hex_bytes (c # d # cs) =
     (case (hex_digit_val c, hex_digit_val d, hex_bytes cs) of
        (Some h, Some l, Some bs) \<Rightarrow> Some (of_nat (16 * h + l) # bs)
      | _ \<Rightarrow> None)"

definition hex_decode_ref :: "nat \<Rightarrow> string \<Rightarrow> bytes option" where
  "hex_decode_ref n s = (if length s = 2 * n then hex_bytes s else None)"

lemma hex_digit_val_digit: "n < 16 \<Longrightarrow> hex_digit_val (hex_digit n) = Some n"
  by (auto simp: hex_digit_val_def hex_digit_def Let_def of_char_of)

lemma ascii_lower_hex_digit: "n < 16 \<Longrightarrow> ascii_lower (hex_digit n) = hex_digit n"
  by (auto simp: hex_digit_def ascii_lower_def Let_def of_char_of)

lemma hex_digit_val_lower: "hex_digit_val (ascii_lower c) = hex_digit_val c"
  unfolding hex_digit_val_def of_char_ascii_lower by (auto simp: Let_def)

lemma unat_u8_div_mod: "unat (b :: u8) div 16 < 16" "unat b mod 16 < 16"
  using unsigned_less [of b, where ?'a = nat] by auto

lemma hex_bytes_length: "hex_bytes s = Some bs \<Longrightarrow> length s = 2 * length bs"
  by (induction s arbitrary: bs rule: hex_bytes.induct) (auto split: option.splits)

lemma hex_bytes_encode: "hex_bytes (hex_encode_ref bs) = Some bs"
  by (induction bs) (auto simp: hex_digit_val_digit unat_u8_div_mod)

lemma hex_bytes_lower: "hex_bytes (map ascii_lower s) = hex_bytes s"
  by (induction s rule: hex_bytes.induct) (auto simp: hex_digit_val_lower)

interpretation hex_ref: hex_codec hex_encode_ref hex_decode_ref
proof unfold_locales
  fix bs :: bytes and n :: nat and s :: string
  show len: "length (hex_encode_ref bs) = 2 * length bs" for bs
    by (induction bs) auto
  show "map ascii_lower (hex_encode_ref bs) = hex_encode_ref bs"
    by (induction bs) (auto simp: ascii_lower_hex_digit unat_u8_div_mod)
  show "hex_decode_ref (length bs) (hex_encode_ref bs) = Some bs"
    by (simp add: hex_decode_ref_def len hex_bytes_encode)
  show "hex_decode_ref n s = Some bs \<Longrightarrow> length bs = n"
    by (auto simp: hex_decode_ref_def dest: hex_bytes_length split: if_splits)
  show "hex_decode_ref n (map ascii_lower s) = hex_decode_ref n s"
    by (simp add: hex_decode_ref_def hex_bytes_lower)
qed

section \<open>Logs, blocks, transactions\<close>

record log =
  log_id :: string
  log_chain_id :: u64
  log_address :: address
  log_topics :: "hash32 list"
  log_data :: bytes
  log_block_number :: u64
  log_block_hash :: hash32
  log_transaction_hash :: hash32
  log_index :: u32
  log_transaction_index :: u32
  log_removed :: bool

record block =
  blk_chain_id :: u64
  blk_number :: u64
  blk_hash :: hash32
  blk_parent_hash :: hash32
  blk_timestamp :: u64
  blk_gas_limit :: u64
  blk_gas_used :: u64
  blk_base_fee_per_gas :: "u128 option"
  blk_miner :: address

record transaction =
  tx_chain_id :: u64
  tx_hash :: hash32
  tx_block_number :: u64
  tx_block_hash :: hash32
  tx_from :: address
  tx_to :: "address option"
  tx_value :: u128
  tx_gas :: u64
  tx_gas_price :: "u128 option"
  tx_input :: bytes
  tx_nonce :: u64
  tx_transaction_index :: u32

text \<open>Traces of calls inside a transaction, and an event with its surroundings.\<close>

datatype trace_type =
    TT_Call | TT_CallCode | TT_DelegateCall | TT_StaticCall | TT_Create | TT_Create2 | TT_Selfdestruct

record trace =
  trc_id :: string
  trc_trace_type :: trace_type
  trc_from :: address
  trc_to :: "address option"
  trc_gas :: u64
  trc_gas_used :: u64
  trc_input :: bytes
  trc_output :: "bytes option"
  trc_error :: "string option"
  trc_revert_reason :: "string option"
  trc_value :: "u128 option"

record 't event =
  evt_args :: 't
  evt_log :: log
  evt_block :: block
  evt_transaction :: transaction
  evt_trace :: "trace option"
  evt_name :: string
  evt_contract_name :: string

text \<open>
  What the constructors below read of the RPC library's types: the fields of a log, of a
  block header and of a transaction, as the library's accessors return them.
\<close>

record alloy_log =
  al_address :: bytes
  al_topics :: "bytes list"
  al_data :: bytes
  al_block_hash :: "bytes option"
  al_block_number :: "u64 option"
  al_transaction_hash :: "bytes option"
  al_transaction_index :: "u64 option"
  al_log_index :: "u64 option"

record alloy_header =
  ah_number :: u64
  ah_hash :: bytes
  ah_parent_hash :: bytes
  ah_timestamp :: u64
  ah_gas_limit :: u64
  ah_gas_used :: u64
  ah_base_fee_per_gas :: "u64 option"
  ah_beneficiary :: bytes

record alloy_tx =
  at_tx_hash :: bytes
  at_block_number :: "u64 option"
  at_block_hash :: "bytes option"
  at_from :: bytes
  at_to :: "bytes option"
  at_value :: "256 word"
  at_gas_limit :: u64
  at_gas_price :: "u128 option"
  at_input :: bytes
  at_nonce :: u64
  at_transaction_index :: "u64 option"

definition hash_or_zero :: "bytes option \<Rightarrow> hash32" where
  "hash_or_zero h = (case h of Some b \<Rightarrow> Hash32 b | None \<Rightarrow> zero_hash32)"

definition unwrap_or_0 :: "'w::len word option \<Rightarrow> 'w word" where
  "unwrap_or_0 x = (case x of Some v \<Rightarrow> v | None \<Rightarrow> 0)"

text \<open>\<open>format!("{}-{}", block_hash, log_index)\<close>.\<close>

definition make_log_id :: "(bytes \<Rightarrow> string) \<Rightarrow> hash32 \<Rightarrow> u32 \<Rightarrow> string" where
  "make_log_id encode h i = hash32_to_string encode h @ ''-'' @ nat_str (unat i)"

definition log_from_alloy :: "(bytes \<Rightarrow> string) \<Rightarrow> alloy_log \<Rightarrow> u64 \<Rightarrow> log" where
  "log_from_alloy encode l chain_id =
     (let block_hash = hash_or_zero (al_block_hash l);
          index = ucast (unwrap_or_0 (al_log_index l))
      in \<lparr> log_id = make_log_id encode block_hash index,
           log_chain_id = chain_id,
           log_address = Address (al_address l),
           log_topics = map Hash32 (al_topics l),
           log_data = al_data l,
           log_block_number = unwrap_or_0 (al_block_number l),
           log_block_hash = block_hash,
           log_transaction_hash = hash_or_zero (al_transaction_hash l),
           log_index = index,
           log_transaction_index = ucast (unwrap_or_0 (al_transaction_index l)),
           log_removed = False \<rparr>)"

definition block_from_alloy :: "alloy_header \<Rightarrow> u64 \<Rightarrow> block" where
  "block_from_alloy h chain_id =
     \<lparr> blk_chain_id = chain_id,
       blk_number = ah_number h,
       blk_hash = Hash32 (ah_hash h),
       blk_parent_hash = Hash32 (ah_parent_hash h),
       blk_timestamp = ah_timestamp h,
       blk_gas_limit = ah_gas_limit h,
       blk_gas_used = ah_gas_used h,
       blk_base_fee_per_gas = map_option ucast (ah_base_fee_per_gas h),
       blk_miner = Address (ah_beneficiary h) \<rparr>"

text \<open>\<open>value().to::<u128>()\<close> panics on a value that does not fit.\<close>

definition transaction_from_alloy :: "alloy_tx \<Rightarrow> u64 \<Rightarrow> (transaction, 'e) result" where
  "transaction_from_alloy t chain_id =
     bind_res
       (if unat (at_value t) < 2 ^ 128 then Inr (ucast (at_value t))
        else Inl (Panic ''Uint conversion error: value is too large''))
       (\<lambda>value. Inr
         \<lparr> tx_chain_id = chain_id,
           tx_hash = Hash32 (at_tx_hash t),
           tx_block_number = unwrap_or_0 (at_block_number t),
           tx_block_hash = hash_or_zero (at_block_hash t),
           tx_from = Address (at_from t),
           tx_to = map_option Address (at_to t),
           tx_value = value,
           tx_gas = at_gas_limit t,
           tx_gas_price = at_gas_price t,
           tx_input = at_input t,
           tx_nonce = at_nonce t,
           tx_transaction_index = ucast (unwrap_or_0 (at_transaction_index t)) \<rparr>)"

text \<open>The identifier of a log determines its block hash and its index.\<close>

lemma append_dash_digits_inj:
  assumes "length a = length b"
  shows "a @ ''-'' @ nat_str m = b @ ''-'' @ nat_str n \<longleftrightarrow> a = b \<and> m = n"
  using assms by (auto simp: nat_str_inj)

subsection \<open>The codec as one argument\<close>

text \<open>
  The components that store addresses and hashes as text take the external functions as
  one record. \<open>codec_ok\<close> is the hypothesis that they behave as documented.
\<close>

record text_codec =
  tc_encode :: "bytes \<Rightarrow> string"
  tc_decode :: "nat \<Rightarrow> string \<Rightarrow> bytes option"
  tc_keccak :: "string \<Rightarrow> bytes"

definition codec_ok :: "text_codec \<Rightarrow> bool" where
  "codec_ok X \<longleftrightarrow> hex_codec (tc_encode X) (tc_decode X) \<and> (\<forall>s. length (tc_keccak X s) = 32)"

text \<open>
  \<open>to_string()\<close> on an address. Its panic branch is never taken when the codec behaves
  as documented (\<open>address_to_string_ok\<close>).
\<close>

definition address_to_string :: "text_codec \<Rightarrow> address \<Rightarrow> string" where
  "address_to_string X a =
     (case checksum_hex (tc_encode X) (tc_keccak X) a of Inr s \<Rightarrow> s | Inl (e :: unit failure) \<Rightarrow> [])"

abbreviation hash_str :: "text_codec \<Rightarrow> hash32 \<Rightarrow> string" where
  "hash_str X \<equiv> hash32_to_string (tc_encode X)"

abbreviation parse_address :: "text_codec \<Rightarrow> string \<Rightarrow> address option" where
  "parse_address X \<equiv> address_from_hex (tc_decode X)"

abbreviation parse_hash :: "text_codec \<Rightarrow> string \<Rightarrow> hash32 option" where
  "parse_hash X \<equiv> hash32_from_hex (tc_decode X)"

lemma address_to_string_ok:
  assumes "codec_ok X" and "wf_address a"
  shows "checksum_hex (tc_encode X) (tc_keccak X) a = (Inr (address_to_string X a) :: (string, unit) result)"
    and "parse_address X (address_to_string X a) = Some a"
proof -
  from assms(1) have X: "hex_codec (tc_encode X) (tc_decode X)"
    and k: "\<And>s. length (tc_keccak X s) = 32" by (auto simp: codec_ok_def)
  obtain s where s: "(checksum_hex (tc_encode X) (tc_keccak X) a :: (string, unit) result) = Inr s"
    and p: "parse_address X s = Some a"
    using hex_codec.address_roundtrip [OF X assms(2), of "tc_keccak X"] k by blast
  from s show "checksum_hex (tc_encode X) (tc_keccak X) a
      = (Inr (address_to_string X a) :: (string, unit) result)"
    by (simp add: address_to_string_def)
  from s p show "parse_address X (address_to_string X a) = Some a"
    by (simp add: address_to_string_def)
qed

lemma parse_hash_str: "codec_ok X \<Longrightarrow> wf_hash32 h \<Longrightarrow> parse_hash X (hash_str X h) = Some h"
  by (simp add: codec_ok_def hex_codec.hash32_roundtrip)

lemma hash_str_inj:
  "codec_ok X \<Longrightarrow> wf_hash32 g \<Longrightarrow> wf_hash32 h \<Longrightarrow> hash_str X g = hash_str X h \<longleftrightarrow> g = h"
  by (metis codec_ok_def hex_codec.hash32_to_string_inj)

definition ref_codec :: text_codec where
  "ref_codec = \<lparr> tc_encode = hex_encode_ref, tc_decode = hex_decode_ref,
                 tc_keccak = (\<lambda>_. replicate 32 0) \<rparr>"

lemma ref_codec_ok: "codec_ok ref_codec"
  by (simp add: codec_ok_def ref_codec_def hex_ref.hex_codec_axioms)

context hex_codec
begin

lemma make_log_id_inj:
  assumes "wf_hash32 g" and "wf_hash32 h"
  shows "make_log_id encode g i = make_log_id encode h j \<longleftrightarrow> g = h \<and> i = j"
proof -
  have "length (hash32_to_string encode g) = length (hash32_to_string encode h)"
    using assms by (simp add: hash32_to_string_def encode_length wf_hash32_def)
  then show ?thesis
    unfolding make_log_id_def
    by (subst append_dash_digits_inj) (auto simp: hash32_to_string_inj assms word_unat_eq_iff)
qed

end

section \<open>In JSON\<close>

text \<open>Addresses and hashes are strings in JSON; reading refuses other texts.\<close>

definition address_deserialize :: "text_codec \<Rightarrow> string \<Rightarrow> string + address" where
  "address_deserialize X s = (case parse_address X s of Some a \<Rightarrow> Inr a | None \<Rightarrow> Inl ''invalid hex address'')"

definition hash_deserialize :: "text_codec \<Rightarrow> string \<Rightarrow> string + hash32" where
  "hash_deserialize X s = (case parse_hash X s of Some h \<Rightarrow> Inr h | None \<Rightarrow> Inl ''invalid hex hash'')"

lemma serde_roundtrip:
  assumes "codec_ok X"
  shows "wf_address a \<Longrightarrow> address_deserialize X (address_to_string X a) = Inr a"
    and "wf_hash32 h \<Longrightarrow> hash_deserialize X (hash_str X h) = Inr h"
  by (simp_all add: address_deserialize_def hash_deserialize_def address_to_string_ok(2) parse_hash_str assms)

end
