(* ===== verification/Rpc_Client.thy ===== *)
theory Rpc_Client
  imports Core_Types
begin

text \<open>
  The RPC client of \<open>forge-index-rpc\<close>: its errors (\<open>error.rs\<close>), the retry policy
  (\<open>retry.rs\<close>), the log filter (\<open>types.rs\<close>) and the calls of \<open>client.rs\<close> that the
  indexer makes. The provider of the RPC library is an argument: a call on its state.
\<close>

section \<open>Errors\<close>

datatype rpc_error =
    Transport string
  | RateLimit u64
  | Timeout string
  | Decode string string
  | NoWebSocket u64
  | MaxRetriesExceeded string u32

fun is_retryable :: "rpc_error \<Rightarrow> bool" where
  "is_retryable (Transport _) = True"
| "is_retryable (RateLimit _) = True"
| "is_retryable (Timeout _) = True"
| "is_retryable _ = False"

section \<open>Retries\<close>

definition max_retries :: nat where "max_retries = 4"

definition retries_exceeded :: "string \<Rightarrow> rpc_error" where
  "retries_exceeded method = MaxRetriesExceeded method (of_nat (max_retries + 1))"

text \<open>
  The loop over the delays: \<open>i\<close> is the index of a delay, attempt number \<open>i + 2\<close>. The
  delays are in \<open>Backoff\<close>.
\<close>

fun retry_loop :: "string \<Rightarrow> ('s, rpc_error failure, 'a) call \<Rightarrow> nat list \<Rightarrow> ('s, rpc_error failure, 'a) call" where
  "retry_loop method f [] s = (Inl (Err (retries_exceeded method)), s)"
| "retry_loop method f (i # is) s =
     (case f s of
        (Inr v, s') \<Rightarrow> (Inr v, s')
      | (Inl (Panic m), s') \<Rightarrow> (Inl (Panic m), s')
      | (Inl (Err e), s') \<Rightarrow>
          if \<not> is_retryable e then (Inl (Err e), s')
          else if i + 2 \<ge> max_retries + 1 then (Inl (Err (retries_exceeded method)), s')
          else retry_loop method f is s')"

definition with_retry :: "string \<Rightarrow> ('s, rpc_error failure, 'a) call \<Rightarrow> ('s, rpc_error failure, 'a) call" where
  "with_retry method f = (\<lambda>s.
     (case f s of
        (Inr v, s') \<Rightarrow> (Inr v, s')
      | (Inl (Panic m), s') \<Rightarrow> (Inl (Panic m), s')
      | (Inl (Err e), s') \<Rightarrow>
          if \<not> is_retryable e then (Inl (Err e), s')
          else retry_loop method f [0..<max_retries] s'))"

text \<open>An outcome that makes the policy try again.\<close>

definition again :: "rpc_error failure + 'a \<Rightarrow> bool" where
  "again r = (case r of Inl (Err e) \<Rightarrow> is_retryable e | _ \<Rightarrow> False)"

text \<open>
  The abstract policy: of at most \<open>n\<close> attempts, the first whose outcome is final decides;
  after \<open>n\<close> outcomes that ask for another attempt the policy gives up.
\<close>

fun first_final :: "string \<Rightarrow> (nat \<Rightarrow> rpc_error failure + 'a) \<Rightarrow> nat \<Rightarrow> nat \<Rightarrow> (rpc_error failure + 'a) \<times> nat" where
  "first_final method out k 0 = (Inl (Err (retries_exceeded method)), k)"
| "first_final method out k (Suc n) =
     (if again (out k) then first_final method out (Suc k) n else (out k, Suc k))"

lemma again_cases:
  "again r \<longleftrightarrow> (\<exists>e. r = Inl (Err e) \<and> is_retryable e)"
  by (auto simp: again_def split: sum.splits failure.splits)

lemma retry_loop_step:
  "retry_loop method f (i # is) s =
     (if again (fst (f s)) then
        (if i + 2 \<ge> max_retries + 1 then (Inl (Err (retries_exceeded method)), snd (f s))
         else retry_loop method f is (snd (f s)))
      else f s)"
  by (auto simp: again_def split: prod.splits sum.splits failure.splits)

lemma with_retry_step:
  "with_retry method f s =
     (if again (fst (f s)) then retry_loop method f [0..<max_retries] (snd (f s)) else f s)"
  by (auto simp: with_retry_def again_def split: prod.splits sum.splits failure.splits)

lemma first_final_bounds:
  "k \<le> snd (first_final method out k n) \<and> snd (first_final method out k n) \<le> k + n"
proof (induction n arbitrary: k)
  case 0
  then show ?case by simp
next
  case (Suc n)
  from Suc.IH [of "Suc k"] show ?case by (auto simp: Suc_le_eq)
qed

text \<open>
  Property C3. The retry policy of \<open>with_retry\<close> (\<open>retry.rs\<close>): when the calls of the
  closure have the outcomes \<open>out 0\<close>, \<open>out 1\<close>, \dots, the policy makes at most five
  attempts, returns the first outcome that is a success, a panic or an error that is not
  retryable, and after five retryable errors returns \<open>MaxRetriesExceeded\<close>. The second
  component counts the attempts made.
\<close>

theorem with_retry_refines_first_final:
  "with_retry method (\<lambda>n. (out n, Suc n)) 0 = first_final method out 0 5"
proof -
  have "[0..<max_retries] = [0, 1, 2, 3]"
    by (simp add: max_retries_def upt_rec)
  moreover have "first_final method out 0 5 = first_final method out 0 (Suc (Suc (Suc (Suc (Suc 0)))))"
    by (simp add: numeral_eq_Suc)
  ultimately show ?thesis
    by (simp add: with_retry_step retry_loop_step max_retries_def del: retry_loop.simps)
qed

section \<open>Log filters\<close>

record log_filter =
  lf_address :: "address list"
  lf_topics :: "hash32 list option list"
  lf_from_block :: u64
  lf_to_block :: u64

text \<open>
  The filter of the RPC library: an empty list of addresses, or of values at one of the
  four topic positions, matches everything.
\<close>

record alloy_filter =
  af_from_block :: u64
  af_to_block :: u64
  af_address :: "bytes list"
  af_topics :: "bytes list list"

fun set_topics :: "nat \<Rightarrow> hash32 list option list \<Rightarrow> bytes list list \<Rightarrow> bytes list list" where
  "set_topics i [] ts = ts"
| "set_topics i (None # os) ts = set_topics (Suc i) os ts"
| "set_topics i (Some vs # os) ts = set_topics (Suc i) os (ts[i := map hash_bytes vs])"

definition to_alloy_filter :: "log_filter \<Rightarrow> alloy_filter" where
  "to_alloy_filter f =
     \<lparr> af_from_block = lf_from_block f,
       af_to_block = lf_to_block f,
       af_address = (if lf_address f \<noteq> [] then map addr_bytes (lf_address f) else []),
       af_topics = set_topics 0 (take 4 (lf_topics f)) (replicate 4 []) \<rparr>"

lemma set_topics_length [simp]: "length (set_topics i os ts) = length ts"
  by (induction i os ts rule: set_topics.induct) auto

lemma set_topics_nth:
  "i + length os \<le> length ts \<Longrightarrow> j < length ts \<Longrightarrow>
   set_topics i os ts ! j =
     (if i \<le> j \<and> j < i + length os
      then (case os ! (j - i) of None \<Rightarrow> ts ! j | Some vs \<Rightarrow> map hash_bytes vs)
      else ts ! j)"
proof (induction i os ts rule: set_topics.induct)
  case (1 i ts)
  have "\<not> (i \<le> j \<and> j < i + length ([] :: hash32 list option list))" by simp
  then show ?case by (simp only: if_False set_topics.simps)
next
  case (2 i os ts)
  then show ?case by (auto simp: nth_Cons' split: option.splits)
next
  case (3 i vs os ts)
  then show ?case by (auto simp: nth_Cons' nth_list_update split: option.splits)
qed

section \<open>Calls\<close>

text \<open>
  The provider: one call per JSON-RPC method, each with an error text of the transport.
  \<open>to_json\<close> and \<open>of_json\<close> are the conversions to and from JSON through which a
  response passes; they too are library code.
\<close>

record 'p provider =
  p_get_logs :: "alloy_filter \<Rightarrow> ('p, string, alloy_log list) call"
  p_get_block_by_number :: "u64 \<Rightarrow> ('p, string, alloy_header option) call"
  p_get_block_by_hash :: "bytes \<Rightarrow> ('p, string, alloy_header option) call"
  p_get_transaction_by_hash :: "bytes \<Rightarrow> ('p, string, alloy_tx option) call"
  p_get_block_number :: "('p, string, u64) call"
  p_call :: "bytes \<Rightarrow> bytes \<Rightarrow> u64 \<Rightarrow> ('p, string, bytes) call"

record ('x, 'j) json_codec =
  to_json :: "'x \<Rightarrow> string + 'j"
  of_json :: "'j \<Rightarrow> string + 'x"

definition map_err :: "('e \<Rightarrow> 'f) \<Rightarrow> ('s, 'e, 'a) call \<Rightarrow> ('s, 'f, 'a) call" where
  "map_err g m = (\<lambda>s. case m s of (Inl e, s') \<Rightarrow> (Inl (g e), s') | (Inr x, s') \<Rightarrow> (Inr x, s'))"

lemma map_err_Inr_iff: "map_err f m d = (Inr x, d') \<longleftrightarrow> m d = (Inr x, d')"
  by (auto simp: map_err_def split: prod.splits sum.splits)

definition lift_res :: "'e + 'a \<Rightarrow> ('s, 'e, 'a) call" where
  "lift_res r = (\<lambda>s. (r, s))"

definition decode_err :: "string \<Rightarrow> string \<Rightarrow> rpc_error failure" where
  "decode_err method m = Err (Decode method m)"

definition of_json_or :: "string \<Rightarrow> ('x, 'j) json_codec \<Rightarrow> 'j \<Rightarrow> rpc_error failure + 'x" where
  "of_json_or method J j =
     (case of_json J j of Inl m \<Rightarrow> Inl (decode_err method m) | Inr x \<Rightarrow> Inr x)"

definition to_json_or :: "string \<Rightarrow> ('x, 'j) json_codec \<Rightarrow> 'x \<Rightarrow> rpc_error failure + 'j" where
  "to_json_or method J x =
     (case to_json J x of Inl m \<Rightarrow> Inl (decode_err method m) | Inr j \<Rightarrow> Inr j)"

definition transport :: "('p, string, 'a) call \<Rightarrow> ('p, rpc_error failure, 'a) call" where
  "transport m = map_err (\<lambda>e. Err (Transport e)) m"

definition ok_or :: "rpc_error failure \<Rightarrow> 'a option \<Rightarrow> rpc_error failure + 'a" where
  "ok_or e x = (case x of None \<Rightarrow> Inl e | Some v \<Rightarrow> Inr v)"

definition client_get_logs ::
  "(bytes \<Rightarrow> string) \<Rightarrow> (alloy_log list, 'j) json_codec \<Rightarrow> 'p provider \<Rightarrow> u64 \<Rightarrow> log_filter
   \<Rightarrow> ('p, rpc_error failure, log list) call" where
  "client_get_logs encode J P chain_id flt =
     seq (with_retry ''eth_getLogs''
           (seq (transport (p_get_logs P (to_alloy_filter flt)))
                (\<lambda>logs. lift_res (to_json_or ''eth_getLogs'' J logs))))
         (\<lambda>json. seq (lift_res (of_json_or ''eth_getLogs'' J json))
           (\<lambda>logs. ret (map (\<lambda>l. log_from_alloy encode l chain_id) logs)))"

definition client_get_block_by_number ::
  "(alloy_header, 'j) json_codec \<Rightarrow> 'p provider \<Rightarrow> u64 \<Rightarrow> u64 \<Rightarrow> ('p, rpc_error failure, block) call" where
  "client_get_block_by_number J P chain_id n =
     seq (with_retry ''eth_getBlockByNumber''
           (seq (transport (p_get_block_by_number P n))
             (\<lambda>b. seq (lift_res (ok_or (decode_err ''eth_getBlockByNumber'' ''block not found'') b))
               (\<lambda>b. lift_res (to_json_or ''eth_getBlockByNumber'' J b)))))
         (\<lambda>json. seq (lift_res (of_json_or ''eth_getBlockByNumber'' J json))
           (\<lambda>b. ret (block_from_alloy b chain_id)))"

definition client_get_block_by_hash ::
  "(alloy_header, 'j) json_codec \<Rightarrow> 'p provider \<Rightarrow> u64 \<Rightarrow> hash32 \<Rightarrow> ('p, rpc_error failure, block) call" where
  "client_get_block_by_hash J P chain_id h =
     seq (with_retry ''eth_getBlockByHash''
           (seq (transport (p_get_block_by_hash P (hash_bytes h)))
             (\<lambda>b. seq (lift_res (ok_or (decode_err ''eth_getBlockByHash'' ''block not found'') b))
               (\<lambda>b. lift_res (to_json_or ''eth_getBlockByHash'' J b)))))
         (\<lambda>json. seq (lift_res (of_json_or ''eth_getBlockByHash'' J json))
           (\<lambda>b. ret (block_from_alloy b chain_id)))"

definition client_get_transaction ::
  "(alloy_tx, 'j) json_codec \<Rightarrow> 'p provider \<Rightarrow> u64 \<Rightarrow> hash32 \<Rightarrow> ('p, rpc_error failure, transaction) call" where
  "client_get_transaction J P chain_id h =
     seq (with_retry ''eth_getTransactionByHash''
           (seq (transport (p_get_transaction_by_hash P (hash_bytes h)))
             (\<lambda>t. seq (lift_res (ok_or (decode_err ''eth_getTransactionByHash'' ''transaction not found'') t))
               (\<lambda>t. lift_res (to_json_or ''eth_getTransactionByHash'' J t)))))
         (\<lambda>json. seq (lift_res (of_json_or ''eth_getTransactionByHash'' J json))
           (\<lambda>t. lift_res (transaction_from_alloy t chain_id)))"

definition client_get_block_number :: "'p provider \<Rightarrow> ('p, rpc_error failure, u64) call" where
  "client_get_block_number P = with_retry ''eth_blockNumber'' (transport (p_get_block_number P))"

definition client_eth_call ::
  "'p provider \<Rightarrow> address \<Rightarrow> bytes \<Rightarrow> u64 \<Rightarrow> ('p, rpc_error failure, bytes) call" where
  "client_eth_call P to data block =
     with_retry ''eth_call'' (transport (p_call P (addr_bytes to) data block))"

lemma with_retry_Inr:
  assumes "with_retry method f s = (Inr v, t)"
  shows "\<exists>s'. f s' = (Inr v, t)"
proof -
  have loop: "retry_loop method f is s = (Inr v, t) \<Longrightarrow> \<exists>s'. f s' = (Inr v, t)" for "is" s
    by (induction "is" arbitrary: s)
      (auto simp: retry_loop_step simp del: retry_loop.simps(2) split: if_splits)
  show ?thesis
    using assms loop by (auto simp: with_retry_step split: if_splits)
qed

lemma lift_res_Inr [simp]: "lift_res r s = (Inr x, t) \<longleftrightarrow> r = Inr x \<and> t = s"
  by (auto simp: lift_res_def)

lemma ok_or_Inr [simp]: "ok_or e x = Inr v \<longleftrightarrow> x = Some v"
  by (auto simp: ok_or_def split: option.splits)

lemma to_json_or_Inr [simp]: "to_json_or method J x = Inr j \<longleftrightarrow> to_json J x = Inr j"
  by (auto simp: to_json_or_def split: sum.splits)

lemma of_json_or_Inr [simp]: "of_json_or method J j = Inr x \<longleftrightarrow> of_json J j = Inr x"
  by (auto simp: of_json_or_def split: sum.splits)

lemma transport_Inr [simp]: "transport m s = (Inr x, t) \<longleftrightarrow> m s = (Inr x, t)"
  by (auto simp: transport_def map_err_def split: prod.splits sum.splits)

text \<open>A successful block call returns a block the provider returned.\<close>

lemma client_get_block_by_number_Inr:
  assumes "client_get_block_by_number J P chain_id n s = (Inr b, t)"
    and "\<And>h j. to_json J h = Inr j \<Longrightarrow> of_json J j = Inr h"
  shows "\<exists>h s' t'. p_get_block_by_number P n s' = (Inr (Some h), t') \<and> b = block_from_alloy h chain_id"
proof -
  from assms(1) obtain j s1 where
    retry: "with_retry ''eth_getBlockByNumber''
           (seq (transport (p_get_block_by_number P n))
             (\<lambda>b. seq (lift_res (ok_or (decode_err ''eth_getBlockByNumber'' ''block not found'') b))
               (\<lambda>b. lift_res (to_json_or ''eth_getBlockByNumber'' J b)))) s = (Inr j, s1)"
    and rest: "seq (lift_res (of_json_or ''eth_getBlockByNumber'' J j))
           (\<lambda>b. ret (block_from_alloy b chain_id)) s1 = (Inr b, t)"
    by (auto simp: client_get_block_by_number_def seq_Inr_iff)
  from with_retry_Inr [OF retry] obtain s' where
    "seq (transport (p_get_block_by_number P n))
       (\<lambda>b. seq (lift_res (ok_or (decode_err ''eth_getBlockByNumber'' ''block not found'') b))
         (\<lambda>b. lift_res (to_json_or ''eth_getBlockByNumber'' J b))) s' = (Inr j, s1)"
    by blast
  then obtain h t' where "p_get_block_by_number P n s' = (Inr (Some h), t')" "to_json J h = Inr j"
    by (auto simp: seq_Inr_iff)
  with rest assms(2) show ?thesis
    by (auto simp: seq_Inr_iff ret_def)
qed

end
