(* ===== verification/Errors.thy ===== *)
theory Errors
  imports Rpc_Client
begin

text \<open>
  The error types of the crates: ABI errors (\<open>abi/types.rs\<close>), database errors
  (\<open>forge-index-db/src/error.rs\<close>) and the errors of the sync engine
  (\<open>forge-index-sync/src/error.rs\<close>). An error of the database library is one of two
  classes: the statement failed, or a value could not be decoded.
\<close>

datatype sqlx_error = Sqlx_Database | Sqlx_Decode

datatype abi_error =
    ParseError string
  | UnknownType string
  | InvalidSelector
  | DecodeMismatch string

datatype db_error =
    SchemaLocked string
  | PoolCreation string
  | Migration string
  | Flush string sqlx_error
  | Query string sqlx_error
  | Serialization string
  | BufferFull string
  | Sqlx sqlx_error

datatype sync_error =
    Sync_Rpc u64 rpc_error
  | Sync_Decode string abi_error
  | Sync_Database db_error
  | FactoryDecode string string
  | HandlerPanic string string
  | ChainNotFound u64
  | DeepReorg u64 u64
  | SubscriptionLost u64 string

text \<open>\<open>map_err(|e| ...)\<close> on a result; a panic passes through.\<close>

fun lift_err :: "('e \<Rightarrow> 'f) \<Rightarrow> 'e failure \<Rightarrow> 'f failure" where
  "lift_err g (Panic m) = Panic m"
| "lift_err g (Err e) = Err (g e)"

end
