(* ===== verification/Rpc_Cache.thy ===== *)
theory Rpc_Cache
  imports Errors "HOL-Library.Product_Lexorder"
begin

text \<open>
  The Postgres-backed response cache of \<open>forge-index-rpc\<close> (\<open>cache/store.rs\<close>,
  \<open>cache/keys.rs\<close>, \<open>cache/migrations.rs\<close>) and the cache-through client that wraps the
  RPC client (\<open>cached_client.rs\<close>).

  The SQL text of \<open>store.rs\<close> is program text: each statement is translated to what it says
  of the tables that \<open>migrations.rs\<close> declares, their primary keys included. A keyed table
  is a map from its primary key; \<open>ponder_sync.logs\<close>, which is searched by columns outside
  its key, is a list of rows in insertion order. Whether the database fails on a statement
  is an argument: \<open>fail k\<close> says that the statement number \<open>k\<close> fails.
\<close>

section \<open>The tables\<close>

record log_row =
  lr_chain_id :: u64
  lr_from_block :: u64
  lr_to_block :: u64
  lr_address :: "string list"
  lr_topics :: "string list"
  lr_log_index :: u32
  lr_block_number :: u64
  lr_block_hash :: string
  lr_tx_hash :: string
  lr_tx_index :: u32
  lr_log_address :: string
  lr_log_topics :: "string list"
  lr_data :: bytes
  lr_removed :: bool

record block_row =
  br_chain_id :: u64
  br_block_number :: u64
  br_block_hash :: string
  br_parent_hash :: string
  br_timestamp :: u64
  br_miner :: string
  br_gas_limit :: u64
  br_gas_used :: u64
  br_base_fee :: "string option"

record 'j cache_db =
  c_logs :: "log_row list"
  c_blocks :: "u64 \<times> u64 \<rightharpoonup> block_row"
  c_transactions :: "u64 \<times> string \<rightharpoonup> 'j"
  c_eth_calls :: "u64 \<times> string \<rightharpoonup> bytes"
  c_checkpoints :: "u64 \<times> string \<rightharpoonup> u64"
  c_clock :: nat

text \<open>The empty tables that the migrations create.\<close>

definition empty_cache :: "'j cache_db" where
  "empty_cache = \<lparr> c_logs = [], c_blocks = Map.empty, c_transactions = Map.empty,
                   c_eth_calls = Map.empty, c_checkpoints = Map.empty, c_clock = 0 \<rparr>"

text \<open>One statement: it fails, or runs on the tables and returns what it selects.\<close>

definition stmt :: "(nat \<Rightarrow> bool) \<Rightarrow> ('j cache_db \<Rightarrow> 'a \<times> 'j cache_db) \<Rightarrow> ('j cache_db, sqlx_error, 'a) call" where
  "stmt fail f = (\<lambda>db.
     let db1 = db\<lparr>c_clock := Suc (c_clock db)\<rparr>
     in if fail (c_clock db) then (Inl Sqlx_Database, db1)
        else (case f db1 of (x, db2) \<Rightarrow> (Inr x, db2)))"

text \<open>\<open>INSERT ... ON CONFLICT DO NOTHING\<close> on a keyed table.\<close>

definition insert_new :: "'k \<Rightarrow> 'v \<Rightarrow> ('k \<rightharpoonup> 'v) \<Rightarrow> ('k \<rightharpoonup> 'v)" where
  "insert_new k v m = (case m k of Some _ \<Rightarrow> m | None \<Rightarrow> m(k \<mapsto> v))"

lemma insert_new_apply:
  "insert_new k v m k' = (if k' = k \<and> m k = None then Some v else m k')"
  by (auto simp: insert_new_def split: option.splits)

section \<open>Logs\<close>

text \<open>The columns \<open>address\<close> and \<open>topics\<close> under which a filter is cached.\<close>

definition filter_addresses :: "text_codec \<Rightarrow> log_filter \<Rightarrow> string list" where
  "filter_addresses X f = map (address_to_string X) (lf_address f)"

definition filter_topics :: "text_codec \<Rightarrow> log_filter \<Rightarrow> string list" where
  "filter_topics X f =
     filter_map (\<lambda>t. map_option (\<lambda>hs. join '','' (map (hash_str X) hs)) t) (lf_topics f)"

definition row_matches :: "text_codec \<Rightarrow> u64 \<Rightarrow> log_filter \<Rightarrow> log_row \<Rightarrow> bool" where
  "row_matches X chain_id f r \<longleftrightarrow>
     lr_chain_id r = chain_id \<and> lr_from_block r = lf_from_block f \<and>
     lr_to_block r = lf_to_block f \<and> lr_address r = filter_addresses X f \<and>
     lr_topics r = filter_topics X f"

text \<open>\<open>ORDER BY block_number, log_index\<close> on the signed columns.\<close>

definition row_order :: "log_row \<Rightarrow> int \<times> int" where
  "row_order r = (sint (lr_block_number r), sint (lr_log_index r))"

text \<open>\<open>PRIMARY KEY (chain_id, block_number, log_index)\<close>.\<close>

definition log_pk :: "log_row \<Rightarrow> u64 \<times> u64 \<times> u32" where
  "log_pk r = (lr_chain_id r, lr_block_number r, lr_log_index r)"

definition insert_log_row :: "log_row \<Rightarrow> log_row list \<Rightarrow> log_row list" where
  "insert_log_row r rows = (if log_pk r \<in> set (map log_pk rows) then rows else rows @ [r])"

definition log_to_row :: "text_codec \<Rightarrow> u64 \<Rightarrow> log_filter \<Rightarrow> log \<Rightarrow> log_row" where
  "log_to_row X chain_id f l =
     \<lparr> lr_chain_id = chain_id, lr_from_block = lf_from_block f, lr_to_block = lf_to_block f,
       lr_address = filter_addresses X f, lr_topics = filter_topics X f,
       lr_log_index = log_index l, lr_block_number = log_block_number l,
       lr_block_hash = hash_str X (log_block_hash l),
       lr_tx_hash = hash_str X (log_transaction_hash l),
       lr_tx_index = log_transaction_index l,
       lr_log_address = address_to_string X (log_address l),
       lr_log_topics = map (hash_str X) (log_topics l),
       lr_data = log_data l, lr_removed = log_removed l \<rparr>"

text \<open>The row that marks a filter with no logs.\<close>

definition sentinel_row :: "text_codec \<Rightarrow> u64 \<Rightarrow> log_filter \<Rightarrow> log_row" where
  "sentinel_row X chain_id f =
     \<lparr> lr_chain_id = chain_id, lr_from_block = lf_from_block f, lr_to_block = lf_to_block f,
       lr_address = filter_addresses X f, lr_topics = filter_topics X f,
       lr_log_index = -1, lr_block_number = -1, lr_block_hash = [], lr_tx_hash = [],
       lr_tx_index = -1, lr_log_address = [], lr_log_topics = [], lr_data = [],
       lr_removed = False \<rparr>"

definition into_log :: "text_codec \<Rightarrow> u64 \<Rightarrow> log_row \<Rightarrow> log" where
  "into_log X chain_id r =
     \<lparr> log_id = lr_block_hash r @ ''-'' @ int_str (sint (lr_log_index r)),
       log_chain_id = chain_id,
       log_address = (case parse_address X (lr_log_address r) of Some a \<Rightarrow> a | None \<Rightarrow> zero_address),
       log_topics = filter_map (parse_hash X) (lr_log_topics r),
       log_data = lr_data r,
       log_block_number = lr_block_number r,
       log_block_hash = (case parse_hash X (lr_block_hash r) of Some h \<Rightarrow> h | None \<Rightarrow> zero_hash32),
       log_transaction_hash = (case parse_hash X (lr_tx_hash r) of Some h \<Rightarrow> h | None \<Rightarrow> zero_hash32),
       log_index = lr_log_index r,
       log_transaction_index = lr_tx_index r,
       log_removed = lr_removed r \<rparr>"

definition store_get_logs ::
  "text_codec \<Rightarrow> (nat \<Rightarrow> bool) \<Rightarrow> u64 \<Rightarrow> log_filter \<Rightarrow> ('j cache_db, sqlx_error, log list option) call" where
  "store_get_logs X fail chain_id f =
     seq (stmt fail (\<lambda>db. (length (filter (row_matches X chain_id f) (c_logs db)), db)))
       (\<lambda>count. if count = 0 then ret None
         else seq (stmt fail (\<lambda>db. (sort_key row_order (filter (row_matches X chain_id f) (c_logs db)), db)))
           (\<lambda>rows. ret (Some (map (into_log X chain_id) rows))))"

definition insert_log_stmt ::
  "text_codec \<Rightarrow> (nat \<Rightarrow> bool) \<Rightarrow> u64 \<Rightarrow> log_filter \<Rightarrow> log \<Rightarrow> ('j cache_db, sqlx_error, unit) call" where
  "insert_log_stmt X fail chain_id f l =
     stmt fail (\<lambda>db. ((), db\<lparr>c_logs := insert_log_row (log_to_row X chain_id f l) (c_logs db)\<rparr>))"

definition store_put_logs ::
  "text_codec \<Rightarrow> (nat \<Rightarrow> bool) \<Rightarrow> u64 \<Rightarrow> log_filter \<Rightarrow> log list \<Rightarrow> ('j cache_db, sqlx_error, unit) call" where
  "store_put_logs X fail chain_id f logs =
     seq (for_each (insert_log_stmt X fail chain_id f) logs)
       (\<lambda>_. if logs = [] then
              stmt fail (\<lambda>db. ((), db\<lparr>c_logs := insert_log_row (sentinel_row X chain_id f) (c_logs db)\<rparr>))
            else ret ())"

section \<open>Blocks, transactions, calls, checkpoints\<close>

definition block_to_row :: "text_codec \<Rightarrow> u64 \<Rightarrow> block \<Rightarrow> block_row" where
  "block_to_row X chain_id b =
     \<lparr> br_chain_id = chain_id, br_block_number = blk_number b,
       br_block_hash = hash_str X (blk_hash b), br_parent_hash = hash_str X (blk_parent_hash b),
       br_timestamp = blk_timestamp b, br_miner = address_to_string X (blk_miner b),
       br_gas_limit = blk_gas_limit b, br_gas_used = blk_gas_used b,
       br_base_fee = map_option (\<lambda>v. nat_str (unat v)) (blk_base_fee_per_gas b) \<rparr>"

definition into_block :: "text_codec \<Rightarrow> block_row \<Rightarrow> block" where
  "into_block X r =
     \<lparr> blk_chain_id = br_chain_id r, blk_number = br_block_number r,
       blk_hash = (case parse_hash X (br_block_hash r) of Some h \<Rightarrow> h | None \<Rightarrow> zero_hash32),
       blk_parent_hash = (case parse_hash X (br_parent_hash r) of Some h \<Rightarrow> h | None \<Rightarrow> zero_hash32),
       blk_timestamp = br_timestamp r, blk_gas_limit = br_gas_limit r, blk_gas_used = br_gas_used r,
       blk_base_fee_per_gas = Option.bind (br_base_fee r) parse_u128,
       blk_miner = (case parse_address X (br_miner r) of Some a \<Rightarrow> a | None \<Rightarrow> zero_address) \<rparr>"

definition store_get_block ::
  "text_codec \<Rightarrow> (nat \<Rightarrow> bool) \<Rightarrow> u64 \<Rightarrow> u64 \<Rightarrow> ('j cache_db, sqlx_error, block option) call" where
  "store_get_block X fail chain_id number =
     seq (stmt fail (\<lambda>db. (c_blocks db (chain_id, number), db)))
       (\<lambda>row. ret (map_option (into_block X) row))"

definition store_put_block ::
  "text_codec \<Rightarrow> (nat \<Rightarrow> bool) \<Rightarrow> u64 \<Rightarrow> block \<Rightarrow> ('j cache_db, sqlx_error, unit) call" where
  "store_put_block X fail chain_id b =
     stmt fail (\<lambda>db. ((), db\<lparr>c_blocks :=
       insert_new (chain_id, blk_number b) (block_to_row X chain_id b) (c_blocks db)\<rparr>))"

definition store_get_transaction ::
  "text_codec \<Rightarrow> (transaction, 'j) json_codec \<Rightarrow> (nat \<Rightarrow> bool) \<Rightarrow> u64 \<Rightarrow> hash32
   \<Rightarrow> ('j cache_db, sqlx_error, transaction option) call" where
  "store_get_transaction X J fail chain_id h =
     seq (stmt fail (\<lambda>db. (c_transactions db (chain_id, hash_str X h), db)))
       (\<lambda>row. case row of
          None \<Rightarrow> ret None
        | Some raw \<Rightarrow> (case of_json J raw of
            Inl _ \<Rightarrow> throw Sqlx_Decode
          | Inr tx \<Rightarrow> ret (Some tx)))"

definition store_put_transaction ::
  "text_codec \<Rightarrow> (transaction, 'j) json_codec \<Rightarrow> 'j \<Rightarrow> (nat \<Rightarrow> bool) \<Rightarrow> u64 \<Rightarrow> transaction
   \<Rightarrow> ('j cache_db, sqlx_error, unit) call" where
  "store_put_transaction X J null fail chain_id tx =
     (let raw = (case to_json J tx of Inl _ \<Rightarrow> null | Inr j \<Rightarrow> j)
      in stmt fail (\<lambda>db. ((), db\<lparr>c_transactions :=
           insert_new (chain_id, hash_str X (tx_hash tx)) raw (c_transactions db)\<rparr>)))"

text \<open>\<open>keys::eth_call_key\<close>; the hash function SHA-256 is an argument.\<close>

definition eth_call_key :: "text_codec \<Rightarrow> (bytes \<Rightarrow> bytes) \<Rightarrow> address \<Rightarrow> bytes \<Rightarrow> u64 \<Rightarrow> string" where
  "eth_call_key X sha256 to data block_number =
     tc_encode X (sha256 (str_bytes (address_to_string X to) @ data @ u64_be_bytes block_number))"

text \<open>\<open>keys::log_filter_key\<close>.\<close>

definition log_filter_key ::
  "text_codec \<Rightarrow> (bytes \<Rightarrow> bytes) \<Rightarrow> u64 \<Rightarrow> u64 \<Rightarrow> u64 \<Rightarrow> string list \<Rightarrow> string list \<Rightarrow> string" where
  "log_filter_key X sha256 chain_id from_block to_block addresses topics =
     tc_encode X (sha256 (u64_be_bytes chain_id @ u64_be_bytes from_block @ u64_be_bytes to_block @
       concat (map str_bytes addresses) @ concat (map str_bytes topics)))"

definition store_get_eth_call ::
  "text_codec \<Rightarrow> (bytes \<Rightarrow> bytes) \<Rightarrow> (nat \<Rightarrow> bool) \<Rightarrow> u64 \<Rightarrow> address \<Rightarrow> bytes \<Rightarrow> u64
   \<Rightarrow> ('j cache_db, sqlx_error, bytes option) call" where
  "store_get_eth_call X sha256 fail chain_id to data block =
     stmt fail (\<lambda>db. (c_eth_calls db (chain_id, eth_call_key X sha256 to data block), db))"

definition store_put_eth_call ::
  "text_codec \<Rightarrow> (bytes \<Rightarrow> bytes) \<Rightarrow> (nat \<Rightarrow> bool) \<Rightarrow> u64 \<Rightarrow> address \<Rightarrow> bytes \<Rightarrow> u64 \<Rightarrow> bytes
   \<Rightarrow> ('j cache_db, sqlx_error, unit) call" where
  "store_put_eth_call X sha256 fail chain_id to data block res =
     stmt fail (\<lambda>db. ((), db\<lparr>c_eth_calls :=
       insert_new (chain_id, eth_call_key X sha256 to data block) res (c_eth_calls db)\<rparr>))"

definition get_checkpoint :: "(nat \<Rightarrow> bool) \<Rightarrow> u64 \<Rightarrow> string \<Rightarrow> ('j cache_db, sqlx_error, u64 option) call" where
  "get_checkpoint fail chain_id contract = stmt fail (\<lambda>db. (c_checkpoints db (chain_id, contract), db))"

definition put_checkpoint :: "(nat \<Rightarrow> bool) \<Rightarrow> u64 \<Rightarrow> string \<Rightarrow> u64 \<Rightarrow> ('j cache_db, sqlx_error, unit) call" where
  "put_checkpoint fail chain_id contract last_block =
     stmt fail (\<lambda>db. ((), db\<lparr>c_checkpoints := (c_checkpoints db)((chain_id, contract) \<mapsto> last_block)\<rparr>))"

section \<open>The cache-through client\<close>

text \<open>What a client is built from, and its state.\<close>

record ('p, 'j) client_env =
  e_codec :: text_codec
  e_sha256 :: "bytes \<Rightarrow> bytes"
  e_fail :: "nat \<Rightarrow> bool"
  e_provider :: "'p provider"
  e_chain_id :: u64
  e_json_logs :: "(alloy_log list, 'j) json_codec"
  e_json_block :: "(alloy_header, 'j) json_codec"
  e_json_alloy_tx :: "(alloy_tx, 'j) json_codec"
  e_json_tx :: "(transaction, 'j) json_codec"
  e_json_null :: 'j

record ('p, 'j) client_state =
  cs_net :: 'p
  cs_db :: "'j cache_db"
  cs_hits :: u64
  cs_misses :: u64

definition record_hit :: "('p, 'j) client_state \<Rightarrow> ('p, 'j) client_state" where
  "record_hit s = s\<lparr>cs_hits := cs_hits s + 1\<rparr>"

definition record_miss :: "('p, 'j) client_state \<Rightarrow> ('p, 'j) client_state" where
  "record_miss s = s\<lparr>cs_misses := cs_misses s + 1\<rparr>"

definition cached_get_logs ::
  "('p, 'j) client_env \<Rightarrow> log_filter \<Rightarrow> (('p, 'j) client_state, rpc_error failure, log list) call" where
  "cached_get_logs E f = (\<lambda>s.
     case store_get_logs (e_codec E) (e_fail E) (e_chain_id E) f (cs_db s) of
       (Inr (Some logs), db) \<Rightarrow>
         (Inr (filter (\<lambda>l. log_index l \<noteq> -1) logs), record_hit (s\<lparr>cs_db := db\<rparr>))
     | (_, db) \<Rightarrow>
         (let s = record_miss (s\<lparr>cs_db := db\<rparr>)
          in case client_get_logs (tc_encode (e_codec E)) (e_json_logs E) (e_provider E) (e_chain_id E) f (cs_net s) of
               (Inl e, net) \<Rightarrow> (Inl e, s\<lparr>cs_net := net\<rparr>)
             | (Inr logs, net) \<Rightarrow>
                 (Inr logs, s\<lparr>cs_net := net,
                    cs_db := snd (store_put_logs (e_codec E) (e_fail E) (e_chain_id E) f logs (cs_db s))\<rparr>)))"

definition cached_get_block_by_number ::
  "('p, 'j) client_env \<Rightarrow> u64 \<Rightarrow> (('p, 'j) client_state, rpc_error failure, block) call" where
  "cached_get_block_by_number E n = (\<lambda>s.
     case store_get_block (e_codec E) (e_fail E) (e_chain_id E) n (cs_db s) of
       (Inr (Some b), db) \<Rightarrow> (Inr b, record_hit (s\<lparr>cs_db := db\<rparr>))
     | (_, db) \<Rightarrow>
         (let s = record_miss (s\<lparr>cs_db := db\<rparr>)
          in case client_get_block_by_number (e_json_block E) (e_provider E) (e_chain_id E) n (cs_net s) of
               (Inl e, net) \<Rightarrow> (Inl e, s\<lparr>cs_net := net\<rparr>)
             | (Inr b, net) \<Rightarrow>
                 (Inr b, s\<lparr>cs_net := net,
                    cs_db := snd (store_put_block (e_codec E) (e_fail E) (e_chain_id E) b (cs_db s))\<rparr>)))"

definition cached_get_transaction ::
  "('p, 'j) client_env \<Rightarrow> hash32 \<Rightarrow> (('p, 'j) client_state, rpc_error failure, transaction) call" where
  "cached_get_transaction E h = (\<lambda>s.
     case store_get_transaction (e_codec E) (e_json_tx E) (e_fail E) (e_chain_id E) h (cs_db s) of
       (Inr (Some tx), db) \<Rightarrow> (Inr tx, record_hit (s\<lparr>cs_db := db\<rparr>))
     | (_, db) \<Rightarrow>
         (let s = record_miss (s\<lparr>cs_db := db\<rparr>)
          in case client_get_transaction (e_json_alloy_tx E) (e_provider E) (e_chain_id E) h (cs_net s) of
               (Inl e, net) \<Rightarrow> (Inl e, s\<lparr>cs_net := net\<rparr>)
             | (Inr tx, net) \<Rightarrow>
                 (Inr tx, s\<lparr>cs_net := net,
                    cs_db := snd (store_put_transaction (e_codec E) (e_json_tx E) (e_json_null E)
                                    (e_fail E) (e_chain_id E) tx (cs_db s))\<rparr>)))"

definition cached_eth_call ::
  "('p, 'j) client_env \<Rightarrow> address \<Rightarrow> bytes \<Rightarrow> u64 \<Rightarrow> (('p, 'j) client_state, rpc_error failure, bytes) call" where
  "cached_eth_call E to data block = (\<lambda>s.
     case store_get_eth_call (e_codec E) (e_sha256 E) (e_fail E) (e_chain_id E) to data block (cs_db s) of
       (Inr (Some r), db) \<Rightarrow> (Inr r, record_hit (s\<lparr>cs_db := db\<rparr>))
     | (_, db) \<Rightarrow>
         (let s = record_miss (s\<lparr>cs_db := db\<rparr>)
          in case client_eth_call (e_provider E) to data block (cs_net s) of
               (Inl e, net) \<Rightarrow> (Inl e, s\<lparr>cs_net := net\<rparr>)
             | (Inr r, net) \<Rightarrow>
                 (Inr r, s\<lparr>cs_net := net,
                    cs_db := snd (store_put_eth_call (e_codec E) (e_sha256 E) (e_fail E) (e_chain_id E)
                                    to data block r (cs_db s))\<rparr>)))"

text \<open>\<open>get_block_by_hash\<close> and \<open>get_block_number\<close> never look at the cache.\<close>

definition cached_get_block_by_hash ::
  "('p, 'j) client_env \<Rightarrow> hash32 \<Rightarrow> (('p, 'j) client_state, rpc_error failure, block) call" where
  "cached_get_block_by_hash E h = (\<lambda>s.
     case client_get_block_by_hash (e_json_block E) (e_provider E) (e_chain_id E) h (cs_net s) of
       (r, net) \<Rightarrow> (r, s\<lparr>cs_net := net\<rparr>))"

definition cached_get_block_number ::
  "('p, 'j) client_env \<Rightarrow> (('p, 'j) client_state, rpc_error failure, u64) call" where
  "cached_get_block_number E = (\<lambda>s.
     case client_get_block_number (e_provider E) (cs_net s) of
       (r, net) \<Rightarrow> (r, s\<lparr>cs_net := net\<rparr>))"

section \<open>Facts about single statements\<close>

lemma stmt_Inr_iff:
  "stmt fail f db = (Inr x, db') \<longleftrightarrow>
     \<not> fail (c_clock db) \<and> f (db\<lparr>c_clock := Suc (c_clock db)\<rparr>) = (x, db')"
  by (auto simp: stmt_def Let_def split: prod.splits)

lemma stmt_cases:
  obtains "stmt fail f db = (Inl Sqlx_Database, db\<lparr>c_clock := Suc (c_clock db)\<rparr>)"
  | x db' where "stmt fail f db = (Inr x, db')" "f (db\<lparr>c_clock := Suc (c_clock db)\<rparr>) = (x, db')"
  by (cases "fail (c_clock db)"; cases "f (db\<lparr>c_clock := Suc (c_clock db)\<rparr>)")
    (auto simp: stmt_def Let_def)

definition no_fail :: "nat \<Rightarrow> bool" where "no_fail = (\<lambda>_. False)"

lemma stmt_no_fail [simp]:
  "stmt no_fail f db = (let r = f (db\<lparr>c_clock := Suc (c_clock db)\<rparr>) in (Inr (fst r), snd r))"
  by (simp add: stmt_def no_fail_def Let_def split: prod.splits)

subsection \<open>Rows keep the values they were built from\<close>

definition wf_block :: "block \<Rightarrow> bool" where
  "wf_block b \<longleftrightarrow> wf_hash32 (blk_hash b) \<and> wf_hash32 (blk_parent_hash b) \<and> wf_address (blk_miner b)"

lemma into_block_to_row:
  assumes "codec_ok X" and "wf_block b" and "blk_chain_id b = chain_id"
  shows "into_block X (block_to_row X chain_id b) = b"
  using assms
  by (cases b; cases "blk_base_fee_per_gas b")
    (auto simp: into_block_def block_to_row_def wf_block_def parse_hash_str
      address_to_string_ok(2))

definition wf_log :: "text_codec \<Rightarrow> log \<Rightarrow> bool" where
  "wf_log X l \<longleftrightarrow>
     wf_hash32 (log_block_hash l) \<and> wf_hash32 (log_transaction_hash l) \<and> wf_address (log_address l) \<and>
     list_all wf_hash32 (log_topics l) \<and> unat (log_index l) < 2 ^ 31 \<and>
     log_id l = make_log_id (tc_encode X) (log_block_hash l) (log_index l)"

lemma sint_small:
  assumes "unat (w :: u32) < 2 ^ 31"
  shows "sint w = int (unat w)"
proof -
  have "sint w = signed_take_bit 31 (uint w)" by (simp add: sint_uint)
  also have "\<dots> = uint w"
  proof (rule signed_take_bit_int_eq_self)
    show "- (2 ^ 31) \<le> uint w" by (rule order_trans [OF _ uint_ge_0]) simp
    have "int (unat w) < 2 ^ 31" using assms by (metis of_nat_less_iff of_nat_numeral of_nat_power)
    then show "uint w < 2 ^ 31" by simp
  qed
  finally show ?thesis by simp
qed

lemma int_str_sint: "unat (w :: u32) < 2 ^ 31 \<Longrightarrow> int_str (sint w) = nat_str (unat w)"
  by (simp add: int_str_def sint_small)

lemma into_log_to_row:
  assumes "codec_ok X" and "wf_log X l" and "log_chain_id l = chain_id"
  shows "into_log X chain_id (log_to_row X chain_id f l) = l"
proof -
  have "filter_map (parse_hash X) (map (hash_str X) hs) = hs" if "list_all wf_hash32 hs" for hs
    using that by (induction hs) (auto simp: parse_hash_str [OF assms(1)])
  with assms(2) have "filter_map (parse_hash X) (map (hash_str X) (log_topics l)) = log_topics l"
    by (simp add: wf_log_def)
  then show ?thesis
    using assms
    by (cases l)
      (simp add: into_log_def log_to_row_def wf_log_def parse_hash_str address_to_string_ok(2)
        make_log_id_def int_str_sint)
qed

section \<open>The contract of a cache-through read\<close>

text \<open>
  The shape that the cached methods share: look the key up; on a hit return the cached
  value; on a miss, or when the lookup fails, fetch the value and store it, ignoring a
  failure to store.
\<close>

definition read_cache ::
  "('d, 'x, 'v option) call \<Rightarrow> ('v \<Rightarrow> ('d, 'x, unit) call) \<Rightarrow> ('n, 'e, 'v) call
   \<Rightarrow> 'n \<Rightarrow> 'd \<Rightarrow> ('e + 'v) \<times> 'n \<times> 'd" where
  "read_cache get put fetch n d =
     (case get d of
        (Inr (Some v), d') \<Rightarrow> (Inr v, n, d')
      | (_, d') \<Rightarrow> (case fetch n of
          (Inl e, n') \<Rightarrow> (Inl e, n', d')
        | (Inr v, n') \<Rightarrow> (Inr v, n', snd (put v d'))))"

text \<open>
  The contract: \<open>truth k v\<close> says that \<open>v\<close> is a right answer for \<open>k\<close>, \<open>coherent\<close> that
  the store holds right answers only.
\<close>

locale coherent_cache =
  fixes get :: "'k \<Rightarrow> ('d, 'x, 'v option) call"
    and put :: "'v \<Rightarrow> ('d, 'x, unit) call"
    and truth :: "'k \<Rightarrow> 'v \<Rightarrow> bool"
    and coherent :: "'d \<Rightarrow> bool"
  assumes get_true: "coherent d \<Longrightarrow> fst (get k d) = Inr (Some v) \<Longrightarrow> truth k v"
    and get_coherent: "coherent d \<Longrightarrow> coherent (snd (get k d))"
    and put_coherent: "coherent d \<Longrightarrow> truth k v \<Longrightarrow> coherent (snd (put v d))"
begin

lemma read_cache_true:
  assumes "coherent d" and "\<And>n v n'. fetch n = (Inr v, n') \<Longrightarrow> truth k v"
    and "read_cache (get k) put fetch n d = (r, n', d')"
  shows "coherent d'" and "r = Inr v \<Longrightarrow> truth k v"
proof -
  obtain g d1 where g: "get k d = (g, d1)" by (cases "get k d")
  have d1: "coherent d1" using get_coherent [OF assms(1), of k] g by simp
  obtain x n1 where x: "fetch n = (x, n1)" by (cases "fetch n")
  have hit: "truth k v" if "g = Inr (Some v)" for v
    using get_true [OF assms(1), of k v] g that by simp
  have miss: "r = x \<and> d' = (case x of Inl _ \<Rightarrow> d1 | Inr v \<Rightarrow> snd (put v d1))"
    if "\<And>v. g \<noteq> Inr (Some v)"
    using assms(3) g x that by (auto simp: read_cache_def split: sum.splits option.splits)
  show "coherent d'"
    using hit miss assms(2) [of n] assms(3) g x d1 put_coherent
    by (cases "\<exists>v. g = Inr (Some v)") (auto simp: read_cache_def split: sum.splits)
  show "r = Inr v \<Longrightarrow> truth k v"
    using hit miss assms(2) [of n] assms(3) g x
    by (cases "\<exists>v. g = Inr (Some v)") (auto simp: read_cache_def)
qed

end

subsection \<open>Blocks\<close>

text \<open>A block is right for number \<open>n\<close> when it is the block of the chain \<open>view\<close> there.\<close>

definition block_true :: "text_codec \<Rightarrow> u64 \<Rightarrow> (u64 \<Rightarrow> hash32) \<Rightarrow> u64 \<Rightarrow> block \<Rightarrow> bool" where
  "block_true X chain_id view n b \<longleftrightarrow>
     codec_ok X \<and> wf_block b \<and> blk_chain_id b = chain_id \<and> blk_number b = n \<and> blk_hash b = view n"

definition blocks_coherent :: "text_codec \<Rightarrow> u64 \<Rightarrow> (u64 \<Rightarrow> hash32) \<Rightarrow> 'j cache_db \<Rightarrow> bool" where
  "blocks_coherent X chain_id view db \<longleftrightarrow>
     (\<forall>n r. c_blocks db (chain_id, n) = Some r \<longrightarrow> block_true X chain_id view n (into_block X r))"

lemma store_get_block_cases:
  "store_get_block X fail chain_id n db =
     (if fail (c_clock db) then (Inl Sqlx_Database, db\<lparr>c_clock := Suc (c_clock db)\<rparr>)
      else (Inr (map_option (into_block X) (c_blocks db (chain_id, n))), db\<lparr>c_clock := Suc (c_clock db)\<rparr>))"
  by (simp add: store_get_block_def seq_def stmt_def Let_def ret_def)

lemma store_put_block_cases:
  "store_put_block X fail chain_id b db =
     (if fail (c_clock db) then (Inl Sqlx_Database, db\<lparr>c_clock := Suc (c_clock db)\<rparr>)
      else (Inr (), db\<lparr>c_clock := Suc (c_clock db),
              c_blocks := insert_new (chain_id, blk_number b) (block_to_row X chain_id b) (c_blocks db)\<rparr>))"
  by (simp add: store_put_block_def stmt_def Let_def)

interpretation block_cache: coherent_cache
  "store_get_block X fail chain_id" "store_put_block X fail chain_id"
  "block_true X chain_id view" "blocks_coherent X chain_id view"
  for X fail chain_id view
proof
  fix d :: "'j cache_db" and k v
  assume c: "blocks_coherent X chain_id view d"
  show "fst (store_get_block X fail chain_id k d) = Inr (Some v) \<Longrightarrow> block_true X chain_id view k v"
    using c by (auto simp: store_get_block_cases blocks_coherent_def split: if_splits)
  show "blocks_coherent X chain_id view (snd (store_get_block X fail chain_id k d))"
    using c by (simp add: store_get_block_cases blocks_coherent_def)
  show "block_true X chain_id view k v \<Longrightarrow>
        blocks_coherent X chain_id view (snd (store_put_block X fail chain_id v d))"
    using c
    by (auto simp: store_put_block_cases blocks_coherent_def insert_new_apply block_true_def
        into_block_to_row)
qed

lemma cached_get_block_read_cache:
  assumes "cached_get_block_by_number E n s = (r, s')"
  shows "read_cache (store_get_block (e_codec E) (e_fail E) (e_chain_id E) n)
           (store_put_block (e_codec E) (e_fail E) (e_chain_id E))
           (client_get_block_by_number (e_json_block E) (e_provider E) (e_chain_id E) n)
           (cs_net s) (cs_db s) = (r, cs_net s', cs_db s')"
  using assms
  by (auto simp: cached_get_block_by_number_def read_cache_def Let_def record_hit_def record_miss_def
      split: prod.splits sum.splits option.splits)

lemma provider_block_true:
  assumes json: "\<And>h j. to_json (e_json_block E) h = Inr j \<Longrightarrow> of_json (e_json_block E) j = Inr h"
    and prov: "\<And>n h s t. p_get_block_by_number (e_provider E) n s = (Inr (Some h), t) \<Longrightarrow>
                 block_true (e_codec E) (e_chain_id E) view n (block_from_alloy h (e_chain_id E))"
    and call: "client_get_block_by_number (e_json_block E) (e_provider E) (e_chain_id E) n s = (Inr b, t)"
  shows "block_true (e_codec E) (e_chain_id E) view n b"
  using client_get_block_by_number_Inr [OF call] json prov by blast

text \<open>
  A client is good for the chain \<open>view\<close> when its JSON conversions are inverse to each
  other, its provider answers with blocks of \<open>view\<close> and its cache holds such blocks only.
\<close>

definition honest :: "('p, 'j) client_env \<Rightarrow> (u64 \<Rightarrow> hash32) \<Rightarrow> bool" where
  "honest E view \<longleftrightarrow>
     (\<forall>h j. to_json (e_json_block E) h = Inr j \<longrightarrow> of_json (e_json_block E) j = Inr h) \<and>
     (\<forall>n h s t. p_get_block_by_number (e_provider E) n s = (Inr (Some h), t) \<longrightarrow>
        block_true (e_codec E) (e_chain_id E) view n (block_from_alloy h (e_chain_id E)))"

definition client_good :: "('p, 'j) client_env \<Rightarrow> (u64 \<Rightarrow> hash32) \<Rightarrow> ('p, 'j) client_state \<Rightarrow> bool" where
  "client_good E view s \<longleftrightarrow>
     honest E view \<and> blocks_coherent (e_codec E) (e_chain_id E) view (cs_db s)"

lemma cached_block_step:
  assumes "client_good E view s" and "cached_get_block_by_number E n s = (r, s')"
  shows "client_good E view s'"
    and "r = Inr b \<Longrightarrow> blk_number b = n \<and> blk_hash b = view n"
proof -
  note read = cached_get_block_read_cache [OF assms(2)]
  from assms(1) have coh: "blocks_coherent (e_codec E) (e_chain_id E) view (cs_db s)"
    and h: "honest E view" by (auto simp: client_good_def)
  have fetch: "block_true (e_codec E) (e_chain_id E) view n b"
    if "client_get_block_by_number (e_json_block E) (e_provider E) (e_chain_id E) n m = (Inr b, m')"
    for m b m'
    by (rule provider_block_true [OF _ _ that]) (use h in \<open>unfold honest_def, blast+\<close>)
  show "client_good E view s'"
    using block_cache.read_cache_true(1) [OF coh fetch read] h by (simp add: client_good_def)
  show "r = Inr b \<Longrightarrow> blk_number b = n \<and> blk_hash b = view n"
    using block_cache.read_cache_true(2) [OF coh fetch read] by (auto simp: block_true_def)
qed

text \<open>
  Property C4. A client whose cache holds only blocks of the chain \<open>view\<close> and whose
  provider answers with blocks of \<open>view\<close> returns only blocks of \<open>view\<close> from
  \<open>get_block_by_number\<close>, and its cache stays coherent, whichever statements of the
  database fail.
\<close>

theorem cached_block_coherent:
  assumes "client_good E view s" and "cached_get_block_by_number E n s = (r, s')"
  shows "client_good E view s' \<and> (\<forall>b. r = Inr b \<longrightarrow> blk_number b = n \<and> blk_hash b = view n)"
  using cached_block_step [OF assms] by blast

text \<open>A client for the witnesses: one provider that answers with empty blocks.\<close>

definition demo_header :: "u64 \<Rightarrow> alloy_header" where
  "demo_header n = \<lparr> ah_number = n, ah_hash = replicate 32 0, ah_parent_hash = replicate 32 0,
     ah_timestamp = 0, ah_gas_limit = 0, ah_gas_used = 0, ah_base_fee_per_gas = None,
     ah_beneficiary = replicate 20 0 \<rparr>"

definition demo_provider :: "unit provider" where
  "demo_provider = \<lparr> p_get_logs = (\<lambda>_ s. (Inr [], s)),
     p_get_block_by_number = (\<lambda>n s. (Inr (Some (demo_header n)), s)),
     p_get_block_by_hash = (\<lambda>_ s. (Inr None, s)),
     p_get_transaction_by_hash = (\<lambda>_ s. (Inr None, s)),
     p_get_block_number = (\<lambda>s. (Inr 7, s)),
     p_call = (\<lambda>_ _ _ s. (Inr [], s)) \<rparr>"

definition no_json :: "('x, 'j) json_codec" where
  "no_json = \<lparr> to_json = (\<lambda>_. Inl []), of_json = (\<lambda>_. Inl []) \<rparr>"

definition demo_env :: "(unit, alloy_header) client_env" where
  "demo_env = \<lparr> e_codec = ref_codec, e_sha256 = (\<lambda>b. b), e_fail = no_fail, e_provider = demo_provider,
     e_chain_id = 1, e_json_logs = no_json, e_json_block = \<lparr> to_json = Inr, of_json = Inr \<rparr>,
     e_json_alloy_tx = no_json, e_json_tx = no_json, e_json_null = demo_header 0 \<rparr>"

definition demo_state :: "(unit, alloy_header) client_state" where
  "demo_state = \<lparr> cs_net = (), cs_db = empty_cache, cs_hits = 0, cs_misses = 0 \<rparr>"

lemma demo_block_true:
  "block_true ref_codec 1 (\<lambda>_. zero_hash32) n (block_from_alloy (demo_header n) 1)"
  by (simp add: block_true_def ref_codec_ok wf_block_def block_from_alloy_def demo_header_def
      wf_hash32_def wf_address_def zero_hash32_def)

lemma demo_block_call:
  "fst (cached_get_block_by_number demo_env 5 demo_state) = Inr (block_from_alloy (demo_header 5) 1)"
  by (simp add: cached_get_block_by_number_def demo_env_def demo_state_def empty_cache_def
      store_get_block_cases no_fail_def client_get_block_by_number_def with_retry_def seq_def
      transport_def map_err_def demo_provider_def lift_res_def ok_or_def to_json_or_def of_json_or_def
      ret_def Let_def record_miss_def)

lemma demo_client_good: "client_good demo_env (\<lambda>_. zero_hash32) demo_state"
  using demo_block_true
  by (auto simp: client_good_def honest_def blocks_coherent_def demo_env_def demo_state_def
      empty_cache_def demo_provider_def)

theorem cached_block_coherent_witness:
  "\<exists>b s'. cached_get_block_by_number demo_env 5 demo_state = (Inr b, s') \<and>
     blk_number b = 5 \<and> blk_hash b = zero_hash32 \<and> client_good demo_env (\<lambda>_. zero_hash32) s'"
proof -
  obtain b s' where call: "cached_get_block_by_number demo_env 5 demo_state = (Inr b, s')"
    using demo_block_call by (cases "cached_get_block_by_number demo_env 5 demo_state") auto
  show ?thesis using cached_block_coherent [OF demo_client_good call] call by auto
qed

text \<open>
  A block stored in the cache under a free key is read back unchanged: the
  hashes, the miner and the base fee survive their text columns.
\<close>

lemma block_cache_roundtrip:
  assumes "codec_ok X" and "wf_block b" and "blk_chain_id b = chain_id"
    and "c_blocks db (chain_id, blk_number b) = None"
  shows "fst (store_get_block X no_fail chain_id (blk_number b)
               (snd (store_put_block X no_fail chain_id b db))) = Inr (Some b)"
  using assms
  by (simp add: store_get_block_cases store_put_block_cases no_fail_def insert_new_apply into_block_to_row)

lemma block_cache_roundtrip_witness:
  "fst (store_get_block ref_codec no_fail 1 5
     (snd (store_put_block ref_codec no_fail 1 (block_from_alloy (demo_header 5) 1)
        (empty_cache :: unit cache_db)))) = Inr (Some (block_from_alloy (demo_header 5) 1))"
proof -
  let ?b = "block_from_alloy (demo_header 5) 1"
  have "wf_block ?b" and "blk_chain_id ?b = 1" and n: "blk_number ?b = 5"
    using demo_block_true [of 5] by (auto simp: block_true_def)
  moreover have "c_blocks (empty_cache :: unit cache_db) (1, blk_number ?b) = None"
    by (simp add: empty_cache_def)
  ultimately show ?thesis
    using block_cache_roundtrip [OF ref_codec_ok, of ?b 1 "empty_cache :: unit cache_db"] by simp
qed

text \<open>
  The cache never replaces a block: \<open>put_block\<close> on a key that is taken
  leaves the row that is there, so after a chain reorganisation \<open>get_block\<close> goes on
  returning the orphaned block.
\<close>

lemma put_block_keeps_first:
  assumes "c_blocks db (chain_id, blk_number b) = Some row"
  shows "c_blocks (snd (store_put_block X fail chain_id b db)) = c_blocks db \<and>
         fst (store_get_block X no_fail chain_id (blk_number b)
               (snd (store_put_block X fail chain_id b db))) = Inr (Some (into_block X row))"
  using assms by (simp add: store_put_block_cases store_get_block_cases no_fail_def insert_new_def)

lemma put_block_keeps_first_witness:
  "\<exists>old new db. c_blocks db (1, 5) = Some old \<and> br_block_hash old \<noteq> hash_str ref_codec (blk_hash new) \<and>
     c_blocks (snd (store_put_block ref_codec no_fail 1 new (db :: unit cache_db))) = c_blocks db"
proof -
  let ?old = "(block_to_row ref_codec 1 (block_from_alloy (demo_header 5) 1))\<lparr>br_block_hash := []\<rparr>"
  let ?new = "block_from_alloy (demo_header 5) 1"
  let ?db = "empty_cache\<lparr>c_blocks := Map.empty((1, 5) \<mapsto> ?old)\<rparr> :: unit cache_db"
  have n: "blk_number ?new = 5" by (simp add: block_from_alloy_def demo_header_def)
  have "c_blocks ?db (1, blk_number ?new) = Some ?old" by (simp add: n)
  from put_block_keeps_first [OF this, of ref_codec no_fail]
  have "c_blocks (snd (store_put_block ref_codec no_fail 1 ?new ?db)) = c_blocks ?db" by (rule conjunct1)
  moreover have "br_block_hash ?old \<noteq> hash_str ref_codec (blk_hash ?new)"
    by (simp add: hash32_to_string_def)
  ultimately show ?thesis by (intro exI [of _ ?old] exI [of _ ?new] exI [of _ ?db]) simp
qed

subsection \<open>Checkpoints\<close>

text \<open>
  A checkpoint that was written is the one that is read, and writing it
  leaves the checkpoints of every other chain and contract alone.
\<close>

lemma checkpoint_roundtrip:
  "fst (get_checkpoint no_fail c k (snd (put_checkpoint no_fail chain_id contract b db))) =
     Inr (if (c, k) = (chain_id, contract) then Some b else c_checkpoints db (c, k))"
  by (simp add: get_checkpoint_def put_checkpoint_def Let_def)

section \<open>The cached windows of logs\<close>

lemma insort_key_map:
  "insort_key k (f x) (map f xs) = map f (insort_key (\<lambda>x. k (f x)) x xs)"
  by (induction xs) auto

lemma sort_key_map: "sort_key k (map f xs) = map f (sort_key (\<lambda>x. k (f x)) xs)"
  by (induction xs) (auto simp: insort_key_map)

definition log_pos :: "log \<Rightarrow> u64 \<times> u32" where
  "log_pos l = (log_block_number l, log_index l)"

definition log_order :: "log \<Rightarrow> int \<times> int" where
  "log_order l = (sint (log_block_number l), sint (log_index l))"

lemma log_pk_to_row: "log_pk (log_to_row X c f l) = (c, log_pos l)"
  by (simp add: log_pk_def log_to_row_def log_pos_def)

lemma row_matches_to_row [simp]: "row_matches X c f (log_to_row X c f l)"
  by (simp add: row_matches_def log_to_row_def)

text \<open>The rows that a run of inserts leaves behind.\<close>

fun insert_logs :: "text_codec \<Rightarrow> u64 \<Rightarrow> log_filter \<Rightarrow> log list \<Rightarrow> log_row list \<Rightarrow> log_row list" where
  "insert_logs X c f [] rows = rows"
| "insert_logs X c f (l # ls) rows = insert_logs X c f ls (insert_log_row (log_to_row X c f l) rows)"

lemma insert_log_stmt_no_fail:
  "insert_log_stmt X no_fail c f l db =
     (Inr (), db\<lparr>c_clock := Suc (c_clock db), c_logs := insert_log_row (log_to_row X c f l) (c_logs db)\<rparr>)"
  by (simp add: insert_log_stmt_def Let_def)

lemma for_each_insert:
  "\<exists>k. for_each (insert_log_stmt X no_fail c f) logs db =
       (Inr (), db\<lparr>c_logs := insert_logs X c f logs (c_logs db), c_clock := k\<rparr>)"
proof (induction logs arbitrary: db)
  case Nil
  then show ?case by (auto simp: ret_def intro: exI [of _ "c_clock db"])
next
  case (Cons l logs)
  from Cons.IH [of "snd (insert_log_stmt X no_fail c f l db)"] show ?case
    by (auto simp: seq_def insert_log_stmt_no_fail)
qed

lemma put_logs_rows:
  assumes "logs \<noteq> []"
  shows "c_logs (snd (store_put_logs X no_fail c f logs db)) = insert_logs X c f logs (c_logs db)"
proof -
  obtain k where "for_each (insert_log_stmt X no_fail c f) logs db =
       (Inr (), db\<lparr>c_logs := insert_logs X c f logs (c_logs db), c_clock := k\<rparr>)"
    using for_each_insert by blast
  with assms show ?thesis by (simp add: store_put_logs_def seq_def ret_def)
qed

lemma get_logs_rows:
  "fst (store_get_logs X no_fail c f db) =
     (let rows = filter (row_matches X c f) (c_logs db)
      in Inr (if rows = [] then None else Some (map (into_log X c) (sort_key row_order rows))))"
  by (simp add: store_get_logs_def seq_def ret_def Let_def)

lemma insert_logs_fresh:
  assumes "distinct (map log_pos logs)" and "\<forall>l \<in> set logs. (c, log_pos l) \<notin> log_pk ` set rows"
  shows "insert_logs X c f logs rows = rows @ map (log_to_row X c f) logs"
  using assms
proof (induction logs arbitrary: rows)
  case Nil
  then show ?case by simp
next
  case (Cons l logs)
  then have "insert_log_row (log_to_row X c f l) rows = rows @ [log_to_row X c f l]"
    by (simp add: insert_log_row_def log_pk_to_row)
  moreover have "\<forall>l' \<in> set logs. (c, log_pos l') \<notin> log_pk ` set (rows @ [log_to_row X c f l])"
    using Cons.prems by (auto simp: log_pk_to_row) (metis imageI)
  ultimately show ?case using Cons by simp
qed

lemma log_row_order: "row_order (log_to_row X c f l) = log_order l"
  by (simp add: row_order_def log_to_row_def log_order_def)

lemma get_after_put_logs:
  assumes "codec_ok X" and "logs \<noteq> []"
    and "\<forall>l \<in> set logs. wf_log X l \<and> log_chain_id l = c"
    and "distinct (map log_pos logs)" and "\<forall>l \<in> set logs. (c, log_pos l) \<notin> log_pk ` set (c_logs db)"
    and "filter (row_matches X c f) (c_logs db) = []"
  shows "fst (store_get_logs X no_fail c f (snd (store_put_logs X no_fail c f logs db))) =
           Inr (Some (sort_key log_order logs))"
proof -
  let ?db = "snd (store_put_logs X no_fail c f logs db)"
  have "c_logs ?db = c_logs db @ map (log_to_row X c f) logs"
    using put_logs_rows [OF assms(2)] insert_logs_fresh [OF assms(4,5)] by metis
  then have rows: "filter (row_matches X c f) (c_logs ?db) = map (log_to_row X c f) logs"
    using assms(6) by (simp add: filter_map o_def)
  have "map (into_log X c) (sort_key row_order (map (log_to_row X c f) logs)) =
        map (\<lambda>l. into_log X c (log_to_row X c f l)) (sort_key log_order logs)"
    by (simp add: sort_key_map log_row_order)
  also have "\<dots> = sort_key log_order logs"
    using assms(1,3) by (intro map_idI) (auto simp: into_log_to_row)
  finally show ?thesis using rows assms(2) by (simp add: get_logs_rows Let_def)
qed

text \<open>
  Property C5. A window of logs whose primary keys are free is read back in full: the
  logs of the window in the order of block number and log index, with every field intact.
\<close>

theorem log_window_roundtrip:
  assumes "codec_ok X" and "logs \<noteq> []"
    and "\<forall>l \<in> set logs. wf_log X l \<and> log_chain_id l = chain_id"
    and "distinct (map log_pos logs)"
    and "\<forall>l \<in> set logs. (chain_id, log_pos l) \<notin> log_pk ` set (c_logs db)"
    and "filter (row_matches X chain_id f) (c_logs db) = []"
  shows "fst (store_get_logs X no_fail chain_id f (snd (store_put_logs X no_fail chain_id f logs db))) =
           Inr (Some (sort_key log_order logs))"
  using assms by (rule get_after_put_logs)

text \<open>Logs for the witnesses: log \<open>i\<close> of block \<open>n\<close> of chain 1.\<close>

definition demo_log :: "u64 \<Rightarrow> u32 \<Rightarrow> log" where
  "demo_log n i = \<lparr> log_id = make_log_id hex_encode_ref zero_hash32 i, log_chain_id = 1,
     log_address = zero_address, log_topics = [zero_hash32], log_data = [], log_block_number = n,
     log_block_hash = zero_hash32, log_transaction_hash = zero_hash32, log_index = i,
     log_transaction_index = 0, log_removed = False \<rparr>"

definition demo_filter :: "u64 \<Rightarrow> u64 \<Rightarrow> log_filter" where
  "demo_filter a b = \<lparr> lf_address = [], lf_topics = [], lf_from_block = a, lf_to_block = b \<rparr>"

lemma demo_log_wf: "unat i < 2 ^ 31 \<Longrightarrow> wf_log ref_codec (demo_log n i)"
  by (simp add: wf_log_def demo_log_def wf_hash32_def wf_address_def zero_hash32_def zero_address_def
      ref_codec_def)

theorem log_window_roundtrip_witness:
  "fst (store_get_logs ref_codec no_fail 1 (demo_filter 1 10)
     (snd (store_put_logs ref_codec no_fail 1 (demo_filter 1 10) [demo_log 5 1, demo_log 4 0]
        (empty_cache :: unit cache_db)))) = Inr (Some [demo_log 4 0, demo_log 5 1])"
proof -
  let ?ls = "[demo_log 5 1, demo_log 4 0]"
  have "\<forall>l \<in> set ?ls. wf_log ref_codec l \<and> log_chain_id l = 1"
    by (simp add: demo_log_wf) (simp add: demo_log_def)
  moreover have "distinct (map log_pos ?ls)" by (simp add: log_pos_def demo_log_def)
  moreover have "sort_key log_order ?ls = [demo_log 4 0, demo_log 5 1]"
    by (simp add: log_order_def demo_log_def)
  ultimately show ?thesis
    using log_window_roundtrip [OF ref_codec_ok, of ?ls 1 "empty_cache :: unit cache_db" "demo_filter 1 10"]
    by (simp add: empty_cache_def)
qed

subsection \<open>Overlapping windows\<close>

lemma insert_logs_taken:
  "\<forall>l \<in> set logs. (c, log_pos l) \<in> log_pk ` set rows \<Longrightarrow> insert_logs X c f logs rows = rows"
  by (induction logs) (auto simp: insert_log_row_def log_pk_to_row)

lemma get_after_overlapping_put:
  assumes "codec_ok X" and "new \<noteq> []"
    and "\<forall>l \<in> set new. wf_log X l \<and> log_chain_id l = c"
    and "distinct (map log_pos new)"
    and "\<forall>l \<in> set old. (c, log_pos l) \<in> log_pk ` set (c_logs db)"
    and "\<forall>l \<in> set new. (c, log_pos l) \<notin> log_pk ` set (c_logs db)"
    and "filter (row_matches X c f) (c_logs db) = []"
  shows "fst (store_get_logs X no_fail c f (snd (store_put_logs X no_fail c f (old @ new) db))) =
           Inr (Some (sort_key log_order new))"
proof -
  have app: "insert_logs X c f (old @ new) rows = insert_logs X c f new (insert_logs X c f old rows)" for rows
    by (induction old arbitrary: rows) auto
  have "c_logs (snd (store_put_logs X no_fail c f (old @ new) db)) =
        insert_logs X c f new (c_logs db)"
    using assms(2) by (simp add: put_logs_rows app insert_logs_taken [OF assms(5)])
  also have "\<dots> = c_logs (snd (store_put_logs X no_fail c f new db))"
    using put_logs_rows [OF assms(2)] by metis
  finally show ?thesis
    using get_after_put_logs [OF assms(1-4,6,7)] by (simp add: get_logs_rows)
qed

text \<open>
  The primary key of \<open>ponder_sync.logs\<close> does not contain the window, so a
  log that an earlier window has stored is not stored again: when a window is cached whose
  logs are partly known from another window, the cached read of that window answers a hit
  that lacks exactly those logs.
\<close>

lemma overlapping_window_loses_logs:
  assumes "codec_ok X" and "new \<noteq> []"
    and "\<forall>l \<in> set new. wf_log X l \<and> log_chain_id l = chain_id"
    and "distinct (map log_pos new)"
    and "\<forall>l \<in> set old. (chain_id, log_pos l) \<in> log_pk ` set (c_logs db)"
    and "\<forall>l \<in> set new. (chain_id, log_pos l) \<notin> log_pk ` set (c_logs db)"
    and "filter (row_matches X chain_id f) (c_logs db) = []"
  shows "fst (store_get_logs X no_fail chain_id f
               (snd (store_put_logs X no_fail chain_id f (old @ new) db))) =
           Inr (Some (sort_key log_order new))"
  using assms by (rule get_after_overlapping_put)

lemma overlapping_window_loses_logs_witness:
  "fst (store_get_logs ref_codec no_fail 1 (demo_filter 1 20)
     (snd (store_put_logs ref_codec no_fail 1 (demo_filter 1 20) ([demo_log 5 1] @ [demo_log 15 0])
       (snd (store_put_logs ref_codec no_fail 1 (demo_filter 1 10) [demo_log 5 1]
          (empty_cache :: unit cache_db)))))) = Inr (Some [demo_log 15 0])"
proof -
  let ?db = "snd (store_put_logs ref_codec no_fail 1 (demo_filter 1 10) [demo_log 5 1]
          (empty_cache :: unit cache_db))"
  have rows: "c_logs ?db = [log_to_row ref_codec 1 (demo_filter 1 10) (demo_log 5 1)]"
    using put_logs_rows [of "[demo_log 5 1]" ref_codec 1 "demo_filter 1 10" "empty_cache :: unit cache_db"]
    by (simp add: empty_cache_def insert_log_row_def)
  have "\<forall>l \<in> set [demo_log 15 0]. wf_log ref_codec l \<and> log_chain_id l = 1"
    by (simp add: demo_log_wf) (simp add: demo_log_def)
  moreover have "\<forall>l \<in> set [demo_log 5 1]. (1, log_pos l) \<in> log_pk ` set (c_logs ?db)"
    by (simp add: rows log_pk_to_row)
  moreover have "\<forall>l \<in> set [demo_log 15 0]. (1, log_pos l) \<notin> log_pk ` set (c_logs ?db)"
    by (simp add: rows log_pk_to_row) (simp add: log_pos_def demo_log_def)
  moreover have "filter (row_matches ref_codec 1 (demo_filter 1 20)) (c_logs ?db) = []"
    by (simp add: rows) (simp add: row_matches_def log_to_row_def demo_filter_def)
  ultimately show ?thesis
    using overlapping_window_loses_logs [OF ref_codec_ok, of "[demo_log 15 0]" 1 "[demo_log 5 1]" ?db
        "demo_filter 1 20"] by simp
qed

end
