(* ===== verification/Abi_Types.thy ===== *)
theory Abi_Types
  imports Errors
begin

text \<open>
  Solidity ABI types and the parser of ABI descriptions
  (\<open>forge-index-core/src/abi/types.rs\<close> and \<open>abi/parser.rs\<close>). A JSON document is a value
  of the public enumeration of the JSON library; parsing the text into values is the
  library's work and an argument of \<open>parse_abi\<close>. A \<open>usize\<close> that the code only stores or
  prints is a natural number; where it is read from text its bound is checked.
\<close>

section \<open>Types\<close>

datatype abi_type =
    T_Uint nat
  | T_Int nat
  | T_Address
  | T_Bool
  | T_FixedBytes nat
  | T_Bytes
  | T_String
  | T_Array abi_type
  | T_FixedArray abi_type nat
  | T_Tuple "abi_param list"
and abi_param = AbiParam (param_name: string) (param_type: abi_type) (param_indexed: bool)

lemma size_param_type [termination_simp]: "p \<in> set ps \<Longrightarrow> size (param_type p) < Suc (size_list size ps)"
  by (induction ps) (auto, metis abi_param.exhaust_sel abi_param.size(2) add.commute add_Suc_right
      le_add1 le_imp_less_Suc less_SucI trans_less_add1)

fun is_dynamic :: "abi_type \<Rightarrow> bool" where
  "is_dynamic T_Bytes = True"
| "is_dynamic T_String = True"
| "is_dynamic (T_Array _) = True"
| "is_dynamic (T_FixedArray inner _) = is_dynamic inner"
| "is_dynamic (T_Tuple params) = list_ex (\<lambda>p. is_dynamic (param_type p)) params"
| "is_dynamic _ = False"

fun to_sol_string :: "abi_type \<Rightarrow> string" where
  "to_sol_string (T_Uint bits) = ''uint'' @ nat_str bits"
| "to_sol_string (T_Int bits) = ''int'' @ nat_str bits"
| "to_sol_string T_Address = ''address''"
| "to_sol_string T_Bool = ''bool''"
| "to_sol_string (T_FixedBytes n) = ''bytes'' @ nat_str n"
| "to_sol_string T_Bytes = ''bytes''"
| "to_sol_string T_String = ''string''"
| "to_sol_string (T_Array inner) = to_sol_string inner @ ''[]''"
| "to_sol_string (T_FixedArray inner n) = to_sol_string inner @ ''['' @ nat_str n @ '']''"
| "to_sol_string (T_Tuple params) =
     ''('' @ join '','' (map (\<lambda>p. to_sol_string (param_type p)) params) @ '')''"

record abi_event =
  ev_name :: string
  ev_signature :: string
  ev_selector :: hash32
  ev_inputs :: "abi_param list"

definition compute_selector :: "(string \<Rightarrow> bytes) \<Rightarrow> string \<Rightarrow> hash32" where
  "compute_selector keccak256 signature = Hash32 (keccak256 signature)"

definition signature_string :: "string \<Rightarrow> abi_param list \<Rightarrow> string" where
  "signature_string name inputs =
     name @ ''('' @ join '','' (map (\<lambda>p. to_sol_string (param_type p)) inputs) @ '')''"

record abi_function =
  fn_name :: string
  fn_inputs :: "abi_param list"
  fn_outputs :: "abi_param list"
  fn_state_mutability :: string

section \<open>Parsing type strings\<close>

definition strip_suffix :: "string \<Rightarrow> string \<Rightarrow> string option" where
  "strip_suffix suf s =
     (if length suf \<le> length s \<and> drop (length s - length suf) s = suf
      then Some (take (length s - length suf) s) else None)"

definition starts_with :: "string \<Rightarrow> string \<Rightarrow> bool" where
  "starts_with pre s \<longleftrightarrow> take (length pre) s = pre"

text \<open>\<open>rfind('[')\<close>: the position of the last opening bracket.\<close>

fun rfind :: "char \<Rightarrow> string \<Rightarrow> nat option" where
  "rfind c [] = None"
| "rfind c (x # xs) =
     (case rfind c xs of Some i \<Rightarrow> Some (Suc i) | None \<Rightarrow> if x = c then Some 0 else None)"

lemma rfind_less: "rfind c s = Some i \<Longrightarrow> i < length s \<and> s ! i = c"
  by (induction s arbitrary: i) (auto split: option.splits if_splits)

definition parse_usize :: "string \<Rightarrow> nat option" where
  "parse_usize s = parse_nat 64 s"

text \<open>\<open>s\<close> as \<open>inner[size]\<close>.\<close>

definition fixed_array_parts :: "string \<Rightarrow> (string \<times> nat) option" where
  "fixed_array_parts s =
     (case rfind (CHR ''['') s of
        None \<Rightarrow> None
      | Some pos \<Rightarrow>
          if s \<noteq> [] \<and> last s = CHR '']'' then
            (case parse_usize (take (length s - 1 - (pos + 1)) (drop (pos + 1) s)) of
               None \<Rightarrow> None
             | Some n \<Rightarrow> Some (take pos s, n))
          else None)"

lemma strip_suffix_length: "strip_suffix suf s = Some t \<Longrightarrow> suf \<noteq> [] \<Longrightarrow> length t < length s"
proof -
  assume "strip_suffix suf s = Some t" "suf \<noteq> []"
  then have t: "t = take (length s - length suf) s" and "length suf \<le> length s" "length suf \<noteq> 0"
    by (auto simp: strip_suffix_def split: if_splits)
  then have "length s - length suf < length s" by linarith
  with t show ?thesis by simp
qed

lemma fixed_array_parts_length: "fixed_array_parts s = Some (t, n) \<Longrightarrow> length t < length s"
  by (auto simp: fixed_array_parts_def dest: rfind_less split: option.splits if_splits)

definition parse_elementary :: "string \<Rightarrow> (abi_type, abi_error) result" where
  "parse_elementary s =
     (if s = ''address'' then Inr T_Address
      else if s = ''bool'' then Inr T_Bool
      else if s = ''string'' then Inr T_String
      else if s = ''bytes'' then Inr T_Bytes
      else if starts_with ''uint'' s then
        Inr (T_Uint (case parse_usize (drop 4 s) of Some bits \<Rightarrow> bits | None \<Rightarrow> 256))
      else if starts_with ''int'' s then
        Inr (T_Int (case parse_usize (drop 3 s) of Some bits \<Rightarrow> bits | None \<Rightarrow> 256))
      else if starts_with ''bytes'' s then
        (case parse_usize (drop 5 s) of Some n \<Rightarrow> Inr (T_FixedBytes n) | None \<Rightarrow> Inl (Err (UnknownType s)))
      else Inl (Err (UnknownType s)))"

function parse_type_string :: "string \<Rightarrow> (abi_type, abi_error) result" where
  "parse_type_string s =
     (case strip_suffix ''[]'' s of
        Some inner \<Rightarrow> bind_res (parse_type_string inner) (\<lambda>elem. Inr (T_Array elem))
      | None \<Rightarrow>
          (case fixed_array_parts s of
             Some (inner, n) \<Rightarrow> bind_res (parse_type_string inner) (\<lambda>elem. Inr (T_FixedArray elem n))
           | None \<Rightarrow> parse_elementary s))"
  by pat_completeness auto
termination
  by (relation "measure length") (auto dest: strip_suffix_length fixed_array_parts_length)

declare parse_type_string.simps [simp del]

section \<open>Parsing ABI descriptions\<close>

text \<open>
  A number is a non-negative or a negative 64-bit integer or a double, kept as its 64 bits.
\<close>

datatype json_number = PosInt u64 | NegInt "64 word" | JFloat "64 word"

datatype json =
    JNull
  | JBool bool
  | JNumber json_number
  | JString string
  | JArray "json list"
  | JObject "(string \<times> json) list"

fun json_get :: "string \<Rightarrow> json \<Rightarrow> json option" where
  "json_get k (JObject fs) = map_of fs k"
| "json_get k _ = None"

fun as_str :: "json \<Rightarrow> string option" where
  "as_str (JString s) = Some s"
| "as_str _ = None"

fun as_bool :: "json \<Rightarrow> bool option" where
  "as_bool (JBool b) = Some b"
| "as_bool _ = None"

fun as_array :: "json \<Rightarrow> json list option" where
  "as_array (JArray xs) = Some xs"
| "as_array _ = None"

definition get_str :: "string \<Rightarrow> json \<Rightarrow> string option" where
  "get_str k j = Option.bind (json_get k j) as_str"

definition get_array :: "string \<Rightarrow> json \<Rightarrow> json list" where
  "get_array k j = (case Option.bind (json_get k j) as_array of Some xs \<Rightarrow> xs | None \<Rightarrow> [])"

definition get_bool :: "string \<Rightarrow> json \<Rightarrow> bool" where
  "get_bool k j = (case Option.bind (json_get k j) as_bool of Some b \<Rightarrow> b | None \<Rightarrow> False)"

lemma size_get_array [termination_simp]: "x \<in> set (get_array k j) \<Longrightarrow> size x < size j"
proof -
  assume x: "x \<in> set (get_array k j)"
  then obtain fs xs where j: "j = JObject fs" and m: "map_of fs k = Some (JArray xs)" and "x \<in> set xs"
    by (cases j; cases "json_get k j"; cases "the (json_get k j)") (auto simp: get_array_def)
  then have "size x < size (JArray xs)" by (auto simp: less_Suc_eq_le intro: size_list_estimation')
  also have "\<dots> < size j"
    using map_of_SomeD [OF m] j by (force simp: less_Suc_eq_le intro: size_list_estimation')
  finally show ?thesis .
qed

lemma map_res_cong [fundef_cong]:
  "xs = ys \<Longrightarrow> (\<And>x. x \<in> set ys \<Longrightarrow> f x = g x) \<Longrightarrow> map_res f xs = map_res g ys"
proof -
  assume "xs = ys" and "\<And>x. x \<in> set ys \<Longrightarrow> f x = g x"
  moreover have "(\<And>x. x \<in> set ys \<Longrightarrow> f x = g x) \<Longrightarrow> map_res f ys = map_res g ys"
    by (induction ys) auto
  ultimately show ?thesis by simp
qed

fun parse_param :: "json \<Rightarrow> (abi_param, abi_error) result" where
  "parse_param item =
     (let name = (case get_str ''name'' item of Some s \<Rightarrow> s | None \<Rightarrow> []);
          indexed = get_bool ''indexed'' item
      in case get_str ''type'' item of
           None \<Rightarrow> Inl (Err (ParseError ''param missing type''))
         | Some type_str \<Rightarrow>
             bind_res
               (if type_str = ''tuple'' \<or> type_str = ''tuple[]'' then
                  bind_res (map_res parse_param (get_array ''components'' item))
                    (\<lambda>params. Inr (if type_str = ''tuple[]'' then T_Array (T_Tuple params) else T_Tuple params))
                else parse_type_string type_str)
               (\<lambda>abi_type. Inr (AbiParam name abi_type indexed)))"

declare parse_param.simps [simp del]

definition parse_params :: "json list \<Rightarrow> (abi_param list, abi_error) result" where
  "parse_params arr = map_res parse_param arr"

definition parse_event :: "(string \<Rightarrow> bytes) \<Rightarrow> json \<Rightarrow> (abi_event, abi_error) result" where
  "parse_event keccak256 item =
     (case get_str ''name'' item of
        None \<Rightarrow> Inl (Err (ParseError ''event missing name''))
      | Some name \<Rightarrow>
          bind_res (parse_params (get_array ''inputs'' item)) (\<lambda>inputs.
            let signature = signature_string name inputs
            in Inr \<lparr> ev_name = name, ev_signature = signature,
                     ev_selector = compute_selector keccak256 signature, ev_inputs = inputs \<rparr>))"

definition parse_function :: "json \<Rightarrow> (abi_function, abi_error) result" where
  "parse_function item =
     (case get_str ''name'' item of
        None \<Rightarrow> Inl (Err (ParseError ''function missing name''))
      | Some name \<Rightarrow>
          bind_res (parse_params (get_array ''inputs'' item)) (\<lambda>inputs.
          bind_res (parse_params (get_array ''outputs'' item)) (\<lambda>outputs.
            Inr \<lparr> fn_name = name, fn_inputs = inputs, fn_outputs = outputs,
                  fn_state_mutability =
                    (case get_str ''stateMutability'' item of Some s \<Rightarrow> s | None \<Rightarrow> ''nonpayable'') \<rparr>)))"

record parsed_abi =
  abi_events :: "abi_event list"
  abi_functions :: "abi_function list"

definition parse_item ::
  "(string \<Rightarrow> bytes) \<Rightarrow> parsed_abi \<Rightarrow> json \<Rightarrow> (parsed_abi, abi_error) result" where
  "parse_item keccak256 acc item =
     (let item_type = (case get_str ''type'' item of Some s \<Rightarrow> s | None \<Rightarrow> [])
      in if item_type = ''event'' then
           bind_res (parse_event keccak256 item) (\<lambda>e. Inr (acc\<lparr>abi_events := abi_events acc @ [e]\<rparr>))
         else if item_type = ''function'' then
           bind_res (parse_function item) (\<lambda>f. Inr (acc\<lparr>abi_functions := abi_functions acc @ [f]\<rparr>))
         else Inr acc)"

definition parse_abi ::
  "(string \<Rightarrow> string + json list) \<Rightarrow> (string \<Rightarrow> bytes) \<Rightarrow> string \<Rightarrow> (parsed_abi, abi_error) result" where
  "parse_abi from_str keccak256 text =
     (case from_str text of
        Inl e \<Rightarrow> Inl (Err (ParseError e))
      | Inr items \<Rightarrow> fold_res (parse_item keccak256) \<lparr> abi_events = [], abi_functions = [] \<rparr> items)"

section \<open>Printing a type and parsing it again\<close>

text \<open>Types that Solidity writes as one string: no tuples, and sizes that fit a \<open>usize\<close>.\<close>

fun plain_type :: "abi_type \<Rightarrow> bool" where
  "plain_type (T_Uint bits) \<longleftrightarrow> bits < 2 ^ 64"
| "plain_type (T_Int bits) \<longleftrightarrow> bits < 2 ^ 64"
| "plain_type (T_FixedBytes n) \<longleftrightarrow> n < 2 ^ 64"
| "plain_type (T_Array inner) \<longleftrightarrow> plain_type inner"
| "plain_type (T_FixedArray inner n) \<longleftrightarrow> plain_type inner \<and> n < 2 ^ 64"
| "plain_type (T_Tuple _) \<longleftrightarrow> False"
| "plain_type _ \<longleftrightarrow> True"

lemma digit_not_bracket: "is_digit c \<Longrightarrow> c \<noteq> CHR ''['' \<and> c \<noteq> CHR '']''"
  by (auto simp: is_digit_def)

lemma nat_str_no_bracket [simp]: "CHR ''['' \<notin> set (nat_str n)" "CHR '']'' \<notin> set (nat_str n)"
  using nat_str_digits [of n] digit_not_bracket by (auto simp: list_all_iff)

lemma rfind_None: "c \<notin> set s \<Longrightarrow> rfind c s = None"
  by (induction s) auto

lemma rfind_last: "c \<notin> set t \<Longrightarrow> rfind c (s @ c # t) = Some (length s)"
  by (induction s) (auto simp: rfind_None)

lemma strip_suffix_append [simp]: "strip_suffix suf (s @ suf) = Some s"
  by (simp add: strip_suffix_def)

lemma strip_suffix_brackets_None:
  assumes "CHR ''['' \<notin> set t" and "length t \<ge> 2"
  shows "strip_suffix ''[]'' (s @ t) = None"
proof -
  have "drop (length (s @ t) - 2) (s @ t) = drop (length t - 2) t" using assms(2) by simp
  moreover have "CHR ''['' \<notin> set (drop (length t - 2) t)" using assms(1) by (meson in_set_dropD)
  ultimately show ?thesis by (auto simp: strip_suffix_def)
qed

lemma fixed_array_parts_printed:
  "n < 2 ^ 64 \<Longrightarrow> fixed_array_parts (s @ ''['' @ nat_str n @ '']'') = Some (s, n)"
  using rfind_last [of "CHR ''[''" "nat_str n @ '']''" s]
  by (simp add: fixed_array_parts_def parse_usize_def parse_nat_nat_str)

lemma parse_plain:
  assumes "CHR ''['' \<notin> set s" and "length s \<ge> 2"
  shows "parse_type_string s = parse_elementary s"
  using strip_suffix_brackets_None [OF assms, of "[]"] rfind_None [OF assms(1)]
  by (simp add: parse_type_string.simps fixed_array_parts_def)

lemma parse_usize_nat_str [simp]: "n < 2 ^ 64 \<Longrightarrow> parse_usize (nat_str n) = Some n"
  by (simp add: parse_usize_def parse_nat_nat_str)

text \<open>
  Property C10. The canonical string of a type without tuples parses back to the type.
\<close>

theorem parse_sol_string_roundtrip:
  "plain_type t \<Longrightarrow> parse_type_string (to_sol_string t) = Inr t"
proof (induction t rule: plain_type.induct)
  case (4 inner)
  then show ?case by (simp add: parse_type_string.simps [of "_ @ ''[]''"])
next
  case (5 inner n)
  have "2 \<le> length (nat_str n @ '']'')" by (simp add: Suc_le_eq)
  then have "strip_suffix ''[]'' ((to_sol_string inner @ ''['') @ (nat_str n @ '']'')) = None"
    by (intro strip_suffix_brackets_None) simp_all
  with 5 show ?case
    using fixed_array_parts_printed [of n "to_sol_string inner"]
    by (simp add: parse_type_string.simps [of "to_sol_string inner @ CHR ''['' # nat_str n @ '']''"])
qed (simp_all add: parse_plain parse_elementary_def starts_with_def)

theorem parse_sol_string_roundtrip_witness:
  "parse_type_string (to_sol_string (T_Array (T_FixedArray (T_FixedBytes 32) 3))) =
     Inr (T_Array (T_FixedArray (T_FixedBytes 32) 3))"
  by (rule parse_sol_string_roundtrip) simp

text \<open>
  A string that merely begins with \<open>uint\<close> or \<open>int\<close> is accepted as a
  256-bit integer when the rest is not a number, so such misspelled types are never
  reported as unknown.
\<close>

lemma junk_after_int_accepted:
  assumes "CHR ''['' \<notin> set r" and "parse_usize r = None"
  shows "parse_type_string (''uint'' @ r) = Inr (T_Uint 256) \<and>
         parse_type_string (''int'' @ r) = Inr (T_Int 256)"
  using assms by (simp add: parse_plain parse_elementary_def starts_with_def)

lemma junk_after_int_accepted_witness:
  "parse_type_string (''uint'' @ ''eger'') = Inr (T_Uint 256) \<and>
   parse_type_string (''int'' @ ''eger'') = Inr (T_Int 256)"
  by (rule junk_after_int_accepted)
    (simp_all add: parse_usize_def parse_nat_def Let_def is_digit_def)

end
