(* ===== verification/Utf8.thy ===== *)
theory Utf8
  imports Prelude
begin

text \<open>
  UTF-8 as the Rust standard library reads it: \<open>String::from_utf8\<close> accepts exactly the
  well-formed byte sequences, \<open>String::from_utf8_lossy\<close> replaces the ill-formed parts.
  The log decoder and the pagination cursors use them.
\<close>

section \<open>Well-formed sequences\<close>

text \<open>
  \<open>String::from_utf8_lossy\<close>: well-formed sequences are kept, each maximal ill-formed part
  becomes the replacement character. \<open>utf8_span\<close> gives the number of bytes of the next
  part and whether it is well formed.
\<close>

definition is_cont :: "u8 \<Rightarrow> bool" where "is_cont b \<longleftrightarrow> 0x80 \<le> b \<and> b \<le> 0xBF"

definition second_ok :: "u8 \<Rightarrow> u8 \<Rightarrow> bool" where
  "second_ok a b \<longleftrightarrow>
     (if a = 0xE0 then 0xA0 \<le> b \<and> b \<le> 0xBF
      else if a = 0xED then 0x80 \<le> b \<and> b \<le> 0x9F
      else if a = 0xF0 then 0x90 \<le> b \<and> b \<le> 0xBF
      else if a = 0xF4 then 0x80 \<le> b \<and> b \<le> 0x8F
      else is_cont b)"

definition utf8_width :: "u8 \<Rightarrow> nat" where
  "utf8_width a =
     (if a < 0x80 then 1
      else if 0xC2 \<le> a \<and> a \<le> 0xDF then 2
      else if 0xE0 \<le> a \<and> a \<le> 0xEF then 3
      else if 0xF0 \<le> a \<and> a \<le> 0xF4 then 4
      else 0)"

fun count_cont :: "nat \<Rightarrow> bytes \<Rightarrow> nat" where
  "count_cont 0 bs = 0"
| "count_cont (Suc n) [] = 0"
| "count_cont (Suc n) (b # bs) = (if is_cont b then Suc (count_cont n bs) else 0)"

definition utf8_span :: "u8 \<Rightarrow> bytes \<Rightarrow> nat \<times> bool" where
  "utf8_span a rest =
     (let w = utf8_width a
      in if w \<le> 1 then (1, w = 1)
         else (case rest of
             [] \<Rightarrow> (1, False)
           | b # bs \<Rightarrow>
               if \<not> second_ok a b then (1, False)
               else let n = 2 + count_cont (w - 2) bs in (n, n = w)))"

definition replacement_char :: bytes where "replacement_char = [0xEF, 0xBF, 0xBD]"

function from_utf8_lossy :: "bytes \<Rightarrow> bytes" where
  "from_utf8_lossy [] = []"
| "from_utf8_lossy (a # rest) =
     (case utf8_span a rest of
        (n, ok) \<Rightarrow> (if ok then take n (a # rest) else replacement_char) @
                    from_utf8_lossy (drop (n - 1) rest))"
  by pat_completeness auto
termination by (relation "measure length") auto

definition bytes_str :: "bytes \<Rightarrow> string" where
  "bytes_str bs = map (\<lambda>b. char_of (unat b)) bs"

fun utf8_valid :: "bytes \<Rightarrow> bool" where
  "utf8_valid [] = True"
| "utf8_valid (a # rest) =
     (case utf8_span a rest of (n, ok) \<Rightarrow> ok \<and> utf8_valid (drop (n - 1) rest))"

section \<open>Facts\<close>

lemma count_cont_bounds: "count_cont n bs \<le> n" "count_cont n bs \<le> length bs"
  by (induction n bs rule: count_cont.induct) auto

lemma count_cont_prefix: "count_cont n bs = n \<Longrightarrow> count_cont n (take n bs @ xs) = n"
proof (induction n bs rule: count_cont.induct)
  case (3 n b bs)
  have b: "is_cont b" using 3(2) by (cases "is_cont b") simp_all
  then have "count_cont n bs = n" using 3(2) by simp
  then have "count_cont n (take n bs @ xs) = n" by (rule 3(1) [OF b])
  then show ?case using b by simp
qed simp_all

lemma utf8_span_wide:
  assumes "utf8_span a rest = (n, True)" and "\<not> utf8_width a \<le> 1"
  obtains b bs where "rest = b # bs" and "second_ok a b" and "2 \<le> n" and "count_cont (n - 2) bs = n - 2"
  using assms by (auto simp: utf8_span_def Let_def split: if_splits list.splits)

text \<open>A well-formed part lies within the input, and whatever follows it, it is read again.\<close>

lemma utf8_span_ok:
  assumes "utf8_span a rest = (n, True)"
  shows "n - 1 \<le> length rest" and "utf8_span a (take (n - 1) rest @ xs) = (n, True)"
proof -
  show "n - 1 \<le> length rest"
    using assms count_cont_bounds(2) [of "utf8_width a - 2" "tl rest"]
    by (auto simp: utf8_span_def Let_def split: if_splits list.splits)
  show "utf8_span a (take (n - 1) rest @ xs) = (n, True)"
  proof (cases "utf8_width a \<le> 1")
    case True
    then show ?thesis using assms by (auto simp: utf8_span_def Let_def)
  next
    case False
    then obtain b bs where rest: "rest = b # bs" and b: "second_ok a b"
      and n: "n = utf8_width a" and cont: "count_cont (utf8_width a - 2) bs = utf8_width a - 2"
      using assms by (auto simp: utf8_span_def Let_def split: if_splits list.splits)
    have "n - 1 = Suc (utf8_width a - 2)" using n False by simp
    then have "take (n - 1) rest @ xs = b # take (utf8_width a - 2) bs @ xs" by (simp add: rest)
    then show ?thesis
      using False b n cont count_cont_prefix [OF cont, of xs] by (simp add: utf8_span_def Let_def)
  qed
qed

lemma utf8_valid_append: "utf8_valid xs \<Longrightarrow> utf8_valid ys \<Longrightarrow> utf8_valid (xs @ ys)"
proof (induction xs rule: utf8_valid.induct)
  case 1
  then show ?case by simp
next
  case (2 a rest)
  obtain n where n: "utf8_span a rest = (n, True)" and valid: "utf8_valid (drop (n - 1) rest)"
    using 2(2) by (auto split: prod.splits)
  have "utf8_span a (take (n - 1) rest @ drop (n - 1) rest @ ys) = (n, True)" by (rule utf8_span_ok(2) [OF n])
  moreover have "utf8_valid (drop (n - 1) rest @ ys)" using 2 n valid by auto
  ultimately show ?case
    using utf8_span_ok(1) [OF n] by (simp add: append_assoc [symmetric] del: append_assoc)
qed

lemma utf8_valid_lossy: "utf8_valid (from_utf8_lossy bs)"
proof (induction bs rule: from_utf8_lossy.induct)
  case 1
  then show ?case by simp
next
  case (2 a rest)
  obtain n ok where n: "utf8_span a rest = (n, ok)" by (cases "utf8_span a rest")
  have pos: "n \<noteq> 0" using n by (auto simp: utf8_span_def Let_def split: if_splits list.splits)
  have "utf8_valid (if ok then take n (a # rest) else replacement_char)"
  proof (cases ok)
    case True
    then have "utf8_span a (take (n - 1) rest) = (n, True)" using utf8_span_ok(2) [of a rest n "[]"] n by simp
    then show ?thesis using True pos by (cases n) auto
  next
    case False
    have "count_cont 1 [0xBD] = 1" by (simp add: is_cont_def)
    then have "utf8_span 0xEF [0xBF, 0xBD] = (3, True)"
      by (simp add: utf8_span_def utf8_width_def second_ok_def is_cont_def)
    then show ?thesis using False by (simp add: replacement_char_def)
  qed
  then show ?case using 2 [OF n [symmetric]] n by (auto intro: utf8_valid_append)
qed

lemma from_utf8_lossy_valid: "utf8_valid bs \<Longrightarrow> from_utf8_lossy bs = bs"
proof (induction bs rule: utf8_valid.induct)
  case 1
  then show ?case by simp
next
  case (2 a rest)
  obtain n where n: "utf8_span a rest = (n, True)" and "utf8_valid (drop (n - 1) rest)"
    using 2(2) by (auto split: prod.splits)
  moreover have "n \<noteq> 0" using n by (auto simp: utf8_span_def Let_def split: if_splits list.splits)
  ultimately show ?case using 2(1) [OF n [symmetric]] by (cases n) auto
qed

lemma bytes_str_bytes [simp]: "bytes_str (str_bytes s) = s"
proof -
  have "unat (of_char c :: u8) = of_char c" for c :: char
    by (simp only: of_nat_of_char [symmetric, where ?'a = u8] unat_of_nat) simp
  then show ?thesis by (simp add: bytes_str_def str_bytes_def o_def)
qed

lemma str_bytes_str [simp]: "str_bytes (bytes_str bs) = bs"
proof -
  have "(of_char (char_of (unat b) :: char) :: u8) = b" for b
    using of_nat_of_char [of "char_of (unat b)", where ?'a = u8] unsigned_less [of b, where ?'a = nat]
    by (simp del: of_nat_of_char)
  then show ?thesis by (simp add: str_bytes_def bytes_str_def o_def)
qed

lemma utf8_valid_ascii: "\<forall>b \<in> set bs. b < 0x80 \<Longrightarrow> utf8_valid bs"
  by (induction bs rule: utf8_valid.induct) (auto simp: utf8_span_def utf8_width_def Let_def dest: in_set_dropD)

end
