(* ===== verification/Abi_Decoder.thy ===== *)
theory Abi_Decoder
  imports Abi_Types Utf8
begin

text \<open>
  The decoder of event logs (\<open>forge-index-core/src/abi/decoder.rs\<close>). Offsets and lengths
  are \<open>usize\<close> values: natural numbers with the overflow checks of 64 bits written out.
  \<open>U256\<close> of the RPC library is read through its documented meaning, the 256-bit number
  that the bytes spell.
\<close>

section \<open>Arithmetic on offsets\<close>

definition add_usize :: "nat \<Rightarrow> nat \<Rightarrow> (nat, 'e) result" where
  "add_usize a b = (if a + b < 2 ^ 64 then Inr (a + b) else Inl (overflow ''add''))"

definition mul_usize :: "nat \<Rightarrow> nat \<Rightarrow> (nat, 'e) result" where
  "mul_usize a b = (if a * b < 2 ^ 64 then Inr (a * b) else Inl (overflow ''multiply''))"

text \<open>
  \<open>Vec::with_capacity(len)\<close> of decoded parameters: a request of more than
  \<open>isize::MAX\<close> bytes panics. A decoded parameter takes 32 bytes (it holds a \<open>u128\<close>).
\<close>

definition param_bytes :: nat where "param_bytes = 32"

definition with_capacity :: "nat \<Rightarrow> (unit, 'e) result" where
  "with_capacity len =
     (if len * param_bytes < 2 ^ 63 then Inr () else Inl (Panic ''capacity overflow''))"

section \<open>Values\<close>

datatype decoded_param =
    D_Uint u128
  | D_Uint256 string
  | D_Int int
  | D_Int256 string
  | D_Address address
  | D_Bool bool
  | D_Bytes bytes
  | D_FixedBytes bytes
  | D_String string
  | D_Array "decoded_param list"
  | D_Tuple "decoded_param list"

text \<open>\<open>params\<close> is an \<open>IndexMap\<close>: pairs in order of first insertion.\<close>

record decoded_event =
  de_name :: string
  de_contract_name :: string
  de_params :: "(string \<times> decoded_param) list"
  de_raw_log :: log

definition decoded_get :: "decoded_event \<Rightarrow> string \<Rightarrow> (decoded_param, abi_error) result" where
  "decoded_get e name =
     (case map_of (de_params e) name of
        Some v \<Rightarrow> Inr v
      | None \<Rightarrow> Inl (Err (DecodeMismatch
          (''parameter '' @ [quote_char] @ name @ [quote_char] @ '' not found''))))"

section \<open>Slots\<close>

text \<open>
  \<open>data[a..b]\<close> of a vector panics when the range is not inside it. Slots and topics are
  arrays of 32 bytes, and the ranges taken of them are constants inside these bounds.
\<close>

definition vec_slice :: "'a list \<Rightarrow> nat \<Rightarrow> nat \<Rightarrow> ('a list, 'e) result" where
  "vec_slice data a b =
     (if a > b then Inl (Panic (''slice index starts at '' @ nat_str a @ '' but ends at '' @ nat_str b))
      else if b > length data then
        Inl (Panic (''range end index '' @ nat_str b @ '' out of range for slice of length '' @ nat_str (length data)))
      else Inr (take (b - a) (drop a data)))"

lemma vec_slice_inside [simp]: "a \<le> b \<Longrightarrow> b \<le> length data \<Longrightarrow> vec_slice data a b = Inr (take (b - a) (drop a data))"
  by (simp add: vec_slice_def)

definition read_slot :: "bytes \<Rightarrow> nat \<Rightarrow> (bytes, abi_error) result" where
  "read_slot data offset =
     bind_res (add_usize offset 32) (\<lambda>e.
       if e > length data then
         Inl (Err (DecodeMismatch (''data too short: need 32 bytes at offset '' @ nat_str offset @
                                   '', have '' @ nat_str (length data))))
       else vec_slice data offset e)"

text \<open>The guard of \<open>read_slot\<close> keeps its slice inside the data.\<close>

lemma read_slot_guarded:
  "read_slot data offset =
     bind_res (add_usize offset 32) (\<lambda>e.
       if e > length data then
         Inl (Err (DecodeMismatch (''data too short: need 32 bytes at offset '' @ nat_str offset @
                                   '', have '' @ nat_str (length data))))
       else Inr (take 32 (drop offset data)))"
  by (simp add: read_slot_def add_usize_def)

definition u256_to_usize :: "bytes \<Rightarrow> (nat, abi_error) result" where
  "u256_to_usize slot =
     (if list_ex (\<lambda>b. b \<noteq> 0) (take 24 slot) then Inl (Err (DecodeMismatch ''offset too large''))
      else Inr (be_val (take 8 (drop 24 slot))))"

definition padded_len :: "nat \<Rightarrow> (nat, 'e) result" where
  "padded_len len = mul_usize ((len + 31) div 32) 32"

definition u256_from_be_bytes :: "bytes \<Rightarrow> string" where
  "u256_from_be_bytes bs = nat_str (be_val bs)"

definition twos_complement_256_str :: "bytes \<Rightarrow> string" where
  "twos_complement_256_str bs = nat_str (unat (NOT (of_nat (be_val bs)) + 1 :: 256 word))"

definition decode_uint :: "bytes \<Rightarrow> nat \<Rightarrow> decoded_param" where
  "decode_uint slot bits =
     (if bits \<le> 128 then D_Uint (of_nat (be_val (take 16 (drop 16 slot))))
      else D_Uint256 (u256_from_be_bytes slot))"

text \<open>\<open>!0u128 << bits\<close> overflows when \<open>bits\<close> is 128, \<open>bits - 1\<close> when it is 0.\<close>

definition decode_int :: "bytes \<Rightarrow> nat \<Rightarrow> (decoded_param, 'e) result" where
  "decode_int slot bits =
     (if bits \<le> 128 then
        (let raw = of_nat (be_val (take 16 (drop 16 slot))) :: u128
         in if bits = 0 then Inl (overflow ''subtract'')
            else let sign_bit = push_bit (bits - 1) 1
                 in if raw AND sign_bit \<noteq> 0 then
                      (if bits \<ge> 128 then Inl (overflow ''shift left'')
                       else Inr (D_Int (sint (raw OR push_bit bits (NOT 0)))))
                    else Inr (D_Int (sint raw)))
      else if hd slot AND 0x80 \<noteq> 0 then Inr (D_Int256 (''-'' @ twos_complement_256_str slot))
      else Inr (D_Int256 (u256_from_be_bytes slot)))"

definition decode_indexed_param :: "abi_type \<Rightarrow> bytes \<Rightarrow> (decoded_param, abi_error) result" where
  "decode_indexed_param t topic =
     (case t of
        T_Address \<Rightarrow> Inr (D_Address (Address (take 20 (drop 12 topic))))
      | T_Bool \<Rightarrow> Inr (D_Bool (topic ! 31 \<noteq> 0))
      | T_Uint bits \<Rightarrow> Inr (decode_uint topic bits)
      | T_Int bits \<Rightarrow> decode_int topic bits
      | T_FixedBytes n \<Rightarrow> Inr (D_FixedBytes (take (min n 32) topic))
      | _ \<Rightarrow> Inr (D_FixedBytes topic))"

section \<open>Data\<close>

text \<open>\<open>for _ in 0..len { let (item, consumed) = f(pos)?; items.push(item); pos += consumed; }\<close>\<close>

fun decode_items ::
  "(nat \<Rightarrow> (decoded_param \<times> nat, abi_error) result) \<Rightarrow> nat \<Rightarrow> nat
   \<Rightarrow> (decoded_param list \<times> nat, abi_error) result" where
  "decode_items f 0 pos = Inr ([], pos)"
| "decode_items f (Suc n) pos =
     bind_res (f pos) (\<lambda>(item, consumed).
     bind_res (add_usize pos consumed) (\<lambda>pos'.
     bind_res (decode_items f n pos') (\<lambda>(items, end). Inr (item # items, end))))"

text \<open>The bytes of a dynamic value whose length is stored at \<open>abs_offset\<close>.\<close>

definition bytes_at :: "bytes \<Rightarrow> nat \<Rightarrow> (bytes \<times> nat, abi_error) result" where
  "bytes_at data abs_offset =
     bind_res (read_slot data abs_offset) (\<lambda>len_slot.
     bind_res (u256_to_usize len_slot) (\<lambda>len.
     bind_res (add_usize abs_offset 32) (\<lambda>start.
     bind_res (add_usize start len) (\<lambda>e.
     bind_res (vec_slice data start (min e (length data))) (\<lambda>value.
     bind_res (padded_len len) (\<lambda>p.
     bind_res (add_usize 32 p) (\<lambda>total. Inr (value, total))))))))"

text \<open>The length is read first, so that the value starts inside the data and the slice cannot panic.\<close>

lemma bytes_at_guarded:
  "bytes_at data abs_offset =
     bind_res (read_slot data abs_offset) (\<lambda>len_slot.
     bind_res (u256_to_usize len_slot) (\<lambda>len.
     bind_res (add_usize abs_offset 32) (\<lambda>start.
     bind_res (add_usize start len) (\<lambda>e.
     bind_res (padded_len len) (\<lambda>p.
     bind_res (add_usize 32 p) (\<lambda>total.
       Inr (take (min e (length data) - start) (drop start data), total)))))))"
proof (cases "read_slot data abs_offset")
  case (Inr slot)
  then have "abs_offset + 32 \<le> length data" by (auto simp: read_slot_guarded add_usize_def split: if_splits)
  then show ?thesis by (auto simp: bytes_at_def Inr add_usize_def intro!: bind_res_cong split: if_splits)
qed (simp add: bytes_at_def)

definition decode_dynamic_bytes :: "bytes \<Rightarrow> nat \<Rightarrow> (bytes \<times> nat, abi_error) result" where
  "decode_dynamic_bytes data head_offset =
     bind_res (read_slot data head_offset) (\<lambda>head_slot.
     bind_res (u256_to_usize head_slot) (\<lambda>abs_offset. bytes_at data abs_offset))"

text \<open>The elements of an array whose length is stored at \<open>abs_offset\<close>.\<close>

definition array_at ::
  "(nat \<Rightarrow> (decoded_param \<times> nat, abi_error) result) \<Rightarrow> bytes \<Rightarrow> nat
   \<Rightarrow> (decoded_param list \<times> nat, abi_error) result" where
  "array_at f data abs_offset =
     bind_res (read_slot data abs_offset) (\<lambda>len_slot.
     bind_res (u256_to_usize len_slot) (\<lambda>len.
     bind_res (with_capacity len) (\<lambda>_.
     bind_res (add_usize abs_offset 32) (\<lambda>pos.
     bind_res (decode_items f len pos) (\<lambda>(items, e). Inr (items, e - abs_offset))))))"

definition decode_dynamic_array ::
  "(nat \<Rightarrow> (decoded_param \<times> nat, abi_error) result) \<Rightarrow> bytes \<Rightarrow> nat
   \<Rightarrow> (decoded_param list \<times> nat, abi_error) result" where
  "decode_dynamic_array f data head_offset =
     bind_res (read_slot data head_offset) (\<lambda>head_slot.
     bind_res (u256_to_usize head_slot) (\<lambda>abs_offset. array_at f data abs_offset))"

definition decode_fixed_array_dynamic ::
  "(nat \<Rightarrow> (decoded_param \<times> nat, abi_error) result) \<Rightarrow> nat \<Rightarrow> bytes \<Rightarrow> nat
   \<Rightarrow> (decoded_param list \<times> nat, abi_error) result" where
  "decode_fixed_array_dynamic f len data head_offset =
     bind_res (read_slot data head_offset) (\<lambda>head_slot.
     bind_res (u256_to_usize head_slot) (\<lambda>abs_offset.
     bind_res (with_capacity len) (\<lambda>_.
     bind_res (decode_items f len abs_offset) (\<lambda>(items, e). Inr (items, e - abs_offset)))))"

lemma size_param_less:
  "2 * size (param_type p) < Suc (Suc (2 * size p + k))"
  "2 * size (param_type p) < Suc (Suc (Suc (2 * size p + k)))"
  by (cases p; simp)+

text \<open>The elementary types, which take one slot.\<close>

definition decode_elementary :: "abi_type \<Rightarrow> bytes \<Rightarrow> (decoded_param, abi_error) result" where
  "decode_elementary t slot =
     (case t of
        T_Uint bits \<Rightarrow> Inr (decode_uint slot bits)
      | T_Int bits \<Rightarrow> decode_int slot bits
      | T_Address \<Rightarrow> Inr (D_Address (Address (take 20 (drop 12 slot))))
      | T_Bool \<Rightarrow> Inr (D_Bool (slot ! 31 \<noteq> 0))
      | T_FixedBytes n \<Rightarrow> Inr (D_FixedBytes (take (min n 32) slot))
      | _ \<Rightarrow> Inr (D_FixedBytes slot))"

function (sequential)
  decode_param_from_data :: "abi_type \<Rightarrow> bytes \<Rightarrow> nat \<Rightarrow> (decoded_param \<times> nat, abi_error) result"
and decode_tuple_items ::
  "abi_param list \<Rightarrow> bytes \<Rightarrow> nat \<Rightarrow> nat \<Rightarrow> (decoded_param list \<times> nat, abi_error) result"
and decode_param_from_data_at_abs ::
  "abi_type \<Rightarrow> bytes \<Rightarrow> nat \<Rightarrow> (decoded_param \<times> nat, abi_error) result"
where
  "decode_param_from_data T_Bytes data offset =
     bind_res (decode_dynamic_bytes data offset) (\<lambda>(value, _). Inr (D_Bytes value, 32))"
| "decode_param_from_data T_String data offset =
     bind_res (decode_dynamic_bytes data offset)
       (\<lambda>(value, _). Inr (D_String (bytes_str (from_utf8_lossy value)), 32))"
| "decode_param_from_data (T_Array inner) data offset =
     bind_res (decode_dynamic_array (\<lambda>pos. decode_param_from_data inner data pos) data offset)
       (\<lambda>(value, _). Inr (D_Array value, 32))"
| "decode_param_from_data (T_FixedArray inner len) data offset =
     (if is_dynamic inner then
        bind_res (decode_fixed_array_dynamic (\<lambda>pos. decode_param_from_data inner data pos) len data offset)
          (\<lambda>(value, _). Inr (D_Array value, 32))
      else
        bind_res (with_capacity len) (\<lambda>_.
        bind_res (decode_items (\<lambda>pos. decode_param_from_data inner data pos) len offset) (\<lambda>(items, _).
        bind_res (mul_usize 32 len) (\<lambda>consumed. Inr (D_Array items, consumed)))))"
| "decode_param_from_data (T_Tuple params) data offset =
     (if is_dynamic (T_Tuple params) then
        bind_res (read_slot data offset) (\<lambda>head_slot.
        bind_res (u256_to_usize head_slot) (\<lambda>abs_offset.
        bind_res (decode_tuple_items params data abs_offset abs_offset)
          (\<lambda>(items, _). Inr (D_Tuple items, 32))))
      else
        bind_res (decode_tuple_items params data offset offset)
          (\<lambda>(items, pos). Inr (D_Tuple items, pos - offset)))"
| "decode_param_from_data t data offset =
     bind_res (read_slot data offset) (\<lambda>slot.
     bind_res (decode_elementary t slot) (\<lambda>v. Inr (v, 32)))"
| "decode_tuple_items [] data base pos = Inr ([], pos)"
| "decode_tuple_items (p # ps) data base pos =
     (if is_dynamic (param_type p) then
        bind_res (read_slot data pos) (\<lambda>head_slot.
        bind_res (u256_to_usize head_slot) (\<lambda>rel_offset.
        bind_res (add_usize base rel_offset) (\<lambda>abs_offset.
        bind_res (decode_param_from_data_at_abs (param_type p) data abs_offset) (\<lambda>(value, _).
        bind_res (add_usize pos 32) (\<lambda>pos'.
        bind_res (decode_tuple_items ps data base pos') (\<lambda>(items, e). Inr (value # items, e)))))))
      else
        bind_res (decode_param_from_data (param_type p) data pos) (\<lambda>(value, consumed).
        bind_res (add_usize pos consumed) (\<lambda>pos'.
        bind_res (decode_tuple_items ps data base pos') (\<lambda>(items, e). Inr (value # items, e)))))"
| "decode_param_from_data_at_abs T_Bytes data abs_offset =
     bind_res (bytes_at data abs_offset) (\<lambda>(value, n). Inr (D_Bytes value, n))"
| "decode_param_from_data_at_abs T_String data abs_offset =
     bind_res (bytes_at data abs_offset)
       (\<lambda>(value, n). Inr (D_String (bytes_str (from_utf8_lossy value)), n))"
| "decode_param_from_data_at_abs (T_Array inner) data abs_offset =
     bind_res (array_at (\<lambda>pos. decode_param_from_data inner data pos) data abs_offset)
       (\<lambda>(items, n). Inr (D_Array items, n))"
| "decode_param_from_data_at_abs t data abs_offset = decode_param_from_data t data abs_offset"
  by pat_completeness auto
termination
  by (relation "measure (\<lambda>x. case x of
        Inl (t, _, _) \<Rightarrow> 2 * size t
      | Inr (Inl (ps, _, _, _)) \<Rightarrow> 2 * size_list size ps + 1
      | Inr (Inr (t, _, _)) \<Rightarrow> 2 * size t + 1)") (auto simp: size_param_less)

section \<open>Events\<close>

type_synonym log_decoder = "hash32 \<rightharpoonup> abi_event"

definition new_decoder :: "parsed_abi \<Rightarrow> log_decoder" where
  "new_decoder abi = foldl (\<lambda>m e. m(ev_selector e \<mapsto> e)) Map.empty (abi_events abi)"

text \<open>One turn of the loop over the inputs: the parameters, the next topic, the data offset.\<close>

definition decode_input ::
  "log \<Rightarrow> (string \<times> decoded_param) list \<times> nat \<times> nat \<Rightarrow> abi_param
   \<Rightarrow> ((string \<times> decoded_param) list \<times> nat \<times> nat, abi_error) result" where
  "decode_input l st inp =
     (case st of (params, topic_idx, data_offset) \<Rightarrow>
        if param_indexed inp then
          (if topic_idx \<ge> length (log_topics l) then
             Inl (Err (DecodeMismatch (''missing topic for indexed param '' @ [quote_char] @
                                       param_name inp @ [quote_char])))
           else bind_res (decode_indexed_param (param_type inp) (hash_bytes (log_topics l ! topic_idx)))
                  (\<lambda>value. Inr (index_insert (param_name inp) value params, topic_idx + 1, data_offset)))
        else
          bind_res (decode_param_from_data (param_type inp) (log_data l) data_offset) (\<lambda>(value, consumed).
          bind_res (add_usize data_offset consumed) (\<lambda>data_offset'.
            Inr (index_insert (param_name inp) value params, topic_idx, data_offset'))))"

definition decode :: "log_decoder \<Rightarrow> log \<Rightarrow> string \<Rightarrow> (decoded_event, abi_error) result" where
  "decode dec l contract_name =
     (case log_topics l of
        [] \<Rightarrow> Inl (Err InvalidSelector)
      | selector # _ \<Rightarrow>
          (case dec selector of
             None \<Rightarrow> Inl (Err InvalidSelector)
           | Some ev \<Rightarrow>
               bind_res (fold_res (decode_input l) ([], 1, 0) (ev_inputs ev)) (\<lambda>(params, _, _).
                 Inr \<lparr> de_name = ev_name ev, de_contract_name = contract_name,
                       de_params = params, de_raw_log = l \<rparr>)))"

end
