(* ===== verification/Config.thy ===== *)
theory Config
  imports Abi_Types
begin

text \<open>
  The configuration crate (\<open>forge-index-config\<close>): chains, contracts, accounts and block
  intervals, the schema of the indexed tables with its builder and its SQL definition
  statements, the validation of a configuration and the configuration builder. Closures
  given to the builders are arguments.
\<close>

section \<open>Schema\<close>

datatype column_type =
    CT_Text | CT_Boolean | CT_Int | CT_BigInt | CT_Float | CT_Hex | CT_Address | CT_Hash
  | CT_Json | CT_Bytes | CT_Timestamp

fun to_sql_type :: "column_type \<Rightarrow> string" where
  "to_sql_type CT_Text = ''TEXT''"
| "to_sql_type CT_Boolean = ''BOOLEAN''"
| "to_sql_type CT_Int = ''INTEGER''"
| "to_sql_type CT_BigInt = ''NUMERIC''"
| "to_sql_type CT_Float = ''DOUBLE PRECISION''"
| "to_sql_type CT_Hex = ''TEXT''"
| "to_sql_type CT_Address = ''TEXT''"
| "to_sql_type CT_Hash = ''TEXT''"
| "to_sql_type CT_Json = ''JSONB''"
| "to_sql_type CT_Bytes = ''TEXT''"
| "to_sql_type CT_Timestamp = ''BIGINT''"

record column_def =
  col_name :: string
  col_type :: column_type
  col_nullable :: bool
  col_primary_key :: bool
  col_references :: "(string \<times> string) option"

record index_def =
  idx_columns :: "string list"
  idx_unique :: bool

record table_def =
  tbl_name :: string
  tbl_columns :: "column_def list"
  tbl_indexes :: "index_def list"

record schema =
  sch_tables :: "table_def list"

text \<open>\<open>"schema"."table"\<close>\<close>

definition table_path :: "string \<Rightarrow> string \<Rightarrow> string" where
  "table_path pg_schema table = quote_ident pg_schema @ ''.'' @ quote_ident table"

definition reorg_name :: "string \<Rightarrow> string" where
  "reorg_name table = ''_reorg_'' @ table"

definition column_sql :: "bool \<Rightarrow> column_def \<Rightarrow> string" where
  "column_sql is_reorg c =
     join '' '' ([quote_ident (col_name c), to_sql_type (col_type c)]
       @ (if \<not> col_nullable c then [''NOT NULL''] else [])
       @ (if col_primary_key c \<and> \<not> is_reorg then [''PRIMARY KEY''] else []))"

definition foreign_key_sql :: "string \<Rightarrow> column_def \<Rightarrow> string option" where
  "foreign_key_sql pg_schema c =
     map_option (\<lambda>(ref_table, ref_col).
       ''FOREIGN KEY ('' @ quote_ident (col_name c) @ '') REFERENCES '' @ table_path pg_schema ref_table @
       ''('' @ quote_ident ref_col @ '')'') (col_references c)"

definition table_create_sql :: "string \<Rightarrow> table_def \<Rightarrow> bool \<Rightarrow> string" where
  "table_create_sql pg_schema t is_reorg =
     (let table_name = (if is_reorg then reorg_name (tbl_name t) else tbl_name t);
          col_defs = map (column_sql is_reorg) (tbl_columns t)
            @ (if is_reorg then [quote_ident ''_operation'' @ '' TEXT NOT NULL'',
                                 quote_ident ''_block_number'' @ '' BIGINT NOT NULL''] else [])
            @ (if \<not> is_reorg then filter_map (foreign_key_sql pg_schema) (tbl_columns t) else [])
      in ''CREATE TABLE IF NOT EXISTS '' @ table_path pg_schema table_name @ '' ('' @ join '', '' col_defs @ '');'')"

definition index_create_sql :: "string \<Rightarrow> string \<Rightarrow> index_def \<Rightarrow> string" where
  "index_create_sql pg_schema table_name idx =
     ''CREATE '' @ (if idx_unique idx then ''UNIQUE '' else []) @ ''INDEX IF NOT EXISTS '' @
     quote_ident (''idx_'' @ table_name @ ''_'' @ join ''_'' (idx_columns idx)) @ '' ON '' @
     table_path pg_schema table_name @ '' ('' @ join '', '' (map quote_ident (idx_columns idx)) @ '');''"

definition to_create_sql :: "string \<Rightarrow> schema \<Rightarrow> string list" where
  "to_create_sql pg_schema s =
     concat (map (\<lambda>t. [table_create_sql pg_schema t False]
       @ map (index_create_sql pg_schema (tbl_name t)) (tbl_indexes t)
       @ [table_create_sql pg_schema t True]) (sch_tables s))"

text \<open>The serialisation to JSON and the hash function are library code.\<close>

definition schema_build_id ::
  "(bytes \<Rightarrow> string) \<Rightarrow> (bytes \<Rightarrow> bytes) \<Rightarrow> (schema \<Rightarrow> string option) \<Rightarrow> schema \<Rightarrow> string" where
  "schema_build_id encode sha256 to_json_text s =
     (let text = (case to_json_text s of Some t \<Rightarrow> t | None \<Rightarrow> [])
      in encode (sha256 (str_bytes text)))"

subsection \<open>The table builder\<close>

record table_builder =
  tb_name :: string
  tb_columns :: "column_def list"
  tb_indexes :: "index_def list"

definition new_table_builder :: "string \<Rightarrow> table_builder" where
  "new_table_builder name = \<lparr> tb_name = name, tb_columns = [], tb_indexes = [] \<rparr>"

definition tb_column :: "string \<Rightarrow> column_type \<Rightarrow> table_builder \<Rightarrow> table_builder" where
  "tb_column name ty b = b\<lparr>tb_columns := tb_columns b @
     [\<lparr> col_name = name, col_type = ty, col_nullable = False, col_primary_key = False,
        col_references = None \<rparr>]\<rparr>"

text \<open>\<open>if let Some(col) = self.columns.last_mut() { ... }\<close>\<close>

definition on_last :: "(column_def \<Rightarrow> column_def) \<Rightarrow> table_builder \<Rightarrow> table_builder" where
  "on_last f b = (if tb_columns b = [] then b
     else b\<lparr>tb_columns := butlast (tb_columns b) @ [f (last (tb_columns b))]\<rparr>)"

definition tb_primary_key :: "table_builder \<Rightarrow> table_builder" where
  "tb_primary_key = on_last (\<lambda>c. c\<lparr>col_primary_key := True\<rparr>)"

definition tb_not_null :: "table_builder \<Rightarrow> table_builder" where
  "tb_not_null = on_last (\<lambda>c. c\<lparr>col_nullable := False\<rparr>)"

definition tb_nullable :: "table_builder \<Rightarrow> table_builder" where
  "tb_nullable = on_last (\<lambda>c. c\<lparr>col_nullable := True\<rparr>)"

definition tb_references :: "string \<Rightarrow> string \<Rightarrow> table_builder \<Rightarrow> table_builder" where
  "tb_references table column = on_last (\<lambda>c. c\<lparr>col_references := Some (table, column)\<rparr>)"

definition tb_index :: "string list \<Rightarrow> table_builder \<Rightarrow> table_builder" where
  "tb_index columns b = b\<lparr>tb_indexes := tb_indexes b @ [\<lparr> idx_columns = columns, idx_unique = False \<rparr>]\<rparr>"

definition tb_unique_index :: "string list \<Rightarrow> table_builder \<Rightarrow> table_builder" where
  "tb_unique_index columns b =
     b\<lparr>tb_indexes := tb_indexes b @ [\<lparr> idx_columns = columns, idx_unique = True \<rparr>]\<rparr>"

definition tb_build :: "table_builder \<Rightarrow> table_def" where
  "tb_build b = \<lparr> tbl_name = tb_name b, tbl_columns = tb_columns b, tbl_indexes = tb_indexes b \<rparr>"

definition sb_table ::
  "string \<Rightarrow> (table_builder \<Rightarrow> table_builder) \<Rightarrow> table_def list \<Rightarrow> table_def list" where
  "sb_table name f tables = tables @ [tb_build (f (new_table_builder name))]"

definition sb_build :: "table_def list \<Rightarrow> schema" where
  "sb_build tables = \<lparr> sch_tables = tables \<rparr>"

section \<open>Configuration\<close>

record chain_config =
  ch_name :: string
  ch_chain_id :: u64
  ch_rpc_http :: string
  ch_rpc_ws :: "string option"
  ch_max_rps :: "u32 option"
  ch_poll_interval_ms :: "u64 option"
  ch_max_block_range :: "u64 option"

record factory_config =
  fac_address :: "address list"
  fac_event_signature :: string
  fac_address_parameter :: string
  fac_start_block :: u64

record filter_config =
  fil_event_name :: string
  fil_args :: "string \<rightharpoonup> json"

datatype address_config =
    Single address
  | Multiple "address list"
  | Factory factory_config

datatype end_block = EB_Number u64 | EB_Latest

record contract_config =
  cc_name :: string
  cc_abi_json :: string
  cc_chain_names :: "string list"
  cc_address :: address_config
  cc_start_block :: u64
  cc_end_block :: "end_block option"
  cc_filter :: "filter_config list option"
  cc_include_transaction :: bool
  cc_include_trace :: bool

record account_config =
  acc_name :: string
  acc_chain_names :: "string list"
  acc_address :: address
  acc_start_block :: u64
  acc_include_transaction :: bool

record block_interval_config =
  bi_name :: string
  bi_chain_name :: string
  bi_interval :: u64
  bi_start_block :: u64
  bi_end_block :: "u64 option"

datatype database_config =
    Postgres (pg_connection_string: string) (pg_schema_name: string) (pg_pool_max: u32)
  | PGlite string

definition db_postgres :: "string \<Rightarrow> database_config" where
  "db_postgres s = Postgres s ''public'' 10"

definition db_pglite :: "string \<Rightarrow> database_config" where
  "db_pglite dir = PGlite dir"

datatype ordering = Omnichain | Multichain

record config =
  cfg_chains :: "chain_config list"
  cfg_contracts :: "contract_config list"
  cfg_accounts :: "account_config list"
  cfg_block_intervals :: "block_interval_config list"
  cfg_schema :: schema
  cfg_database :: database_config
  cfg_ordering :: ordering

section \<open>Validation\<close>

definition quoted :: "string \<Rightarrow> string" where
  "quoted s = [quote_char] @ s @ [quote_char]"

text \<open>
  \<open>for x in xs { if !seen.insert(key(x)) { errors.push(msg(x)) } }\<close>: an error for each
  element whose key has been seen before.
\<close>

fun duplicates :: "'k list \<Rightarrow> ('a \<Rightarrow> 'k) \<Rightarrow> ('a \<Rightarrow> string) \<Rightarrow> 'a list \<Rightarrow> string list" where
  "duplicates seen key msg [] = []"
| "duplicates seen key msg (x # xs) =
     (if key x \<in> set seen then [msg x] else []) @ duplicates (key x # seen) key msg xs"

definition check_rpc_http :: "chain_config \<Rightarrow> string list" where
  "check_rpc_http c = (if ch_rpc_http c = [] then [''Chain '' @ quoted (ch_name c) @ '' has an empty rpc_http URL''] else [])"

definition check_chain_names :: "string \<Rightarrow> string list \<Rightarrow> string \<Rightarrow> string list \<Rightarrow> string list" where
  "check_chain_names kind chain_names name refs =
     concat (map (\<lambda>r. if r \<notin> set chain_names
       then [kind @ '' '' @ quoted name @ '' references unknown chain '' @ quoted r] else []) refs)"

definition check_abi_json :: "(string \<Rightarrow> bool) \<Rightarrow> contract_config \<Rightarrow> string list" where
  "check_abi_json json_ok c =
     (if \<not> json_ok (cc_abi_json c) then [''Contract '' @ quoted (cc_name c) @ '' has invalid ABI JSON''] else [])"

definition check_table :: "table_def \<Rightarrow> string list" where
  "check_table t =
     (let pk_count = length (filter col_primary_key (tbl_columns t))
      in (if pk_count = 0 then [''Table '' @ quoted (tbl_name t) @ '' has no primary key column'']
          else if pk_count > 1 then [''Table '' @ quoted (tbl_name t) @ '' has '' @ nat_str pk_count @
                                      '' primary key columns, expected exactly 1'']
          else [])
         @ duplicates [] col_name
             (\<lambda>c. ''Table '' @ quoted (tbl_name t) @ '' has duplicate column name: '' @ quoted (col_name c))
             (tbl_columns t))"

definition check_database :: "database_config \<Rightarrow> string list" where
  "check_database d =
     (case d of
        Postgres s _ _ \<Rightarrow> if s = [] then [''Postgres connection_string is empty''] else []
      | PGlite _ \<Rightarrow> [])"

definition validate :: "(string \<Rightarrow> bool) \<Rightarrow> config \<Rightarrow> string list" where
  "validate json_ok c =
     (let chain_names = map ch_name (cfg_chains c)
      in concat (map check_rpc_http (cfg_chains c))
       @ duplicates [] ch_chain_id (\<lambda>ch. ''Duplicate chain_id: '' @ nat_str (unat (ch_chain_id ch))) (cfg_chains c)
       @ concat (map (\<lambda>k. check_chain_names ''Contract'' chain_names (cc_name k) (cc_chain_names k)) (cfg_contracts c))
       @ concat (map (check_abi_json json_ok) (cfg_contracts c))
       @ concat (map (\<lambda>a. check_chain_names ''Account'' chain_names (acc_name a) (acc_chain_names a)) (cfg_accounts c))
       @ concat (map (\<lambda>b. check_chain_names ''BlockInterval'' chain_names (bi_name b) [bi_chain_name b])
           (cfg_block_intervals c))
       @ duplicates [] tbl_name (\<lambda>t. ''Duplicate table name: '' @ quoted (tbl_name t)) (sch_tables (cfg_schema c))
       @ concat (map check_table (sch_tables (cfg_schema c)))
       @ check_database (cfg_database c))"

section \<open>The configuration builder\<close>

record config_builder =
  cb_chains :: "chain_config list"
  cb_contracts :: "contract_config list"
  cb_accounts :: "account_config list"
  cb_block_intervals :: "block_interval_config list"
  cb_schema :: "schema option"
  cb_database :: "database_config option"
  cb_ordering :: ordering

definition new_config_builder :: config_builder where
  "new_config_builder = \<lparr> cb_chains = [], cb_contracts = [], cb_accounts = [], cb_block_intervals = [],
     cb_schema = None, cb_database = None, cb_ordering = Multichain \<rparr>"

definition cb_chain :: "string \<Rightarrow> (chain_config \<Rightarrow> chain_config) \<Rightarrow> config_builder \<Rightarrow> config_builder" where
  "cb_chain name f b = b\<lparr>cb_chains := cb_chains b @ [f
     \<lparr> ch_name = name, ch_chain_id = 0, ch_rpc_http = [], ch_rpc_ws = None, ch_max_rps = None,
       ch_poll_interval_ms = None, ch_max_block_range = None \<rparr>]\<rparr>"

definition cb_contract :: "string \<Rightarrow> (contract_config \<Rightarrow> contract_config) \<Rightarrow> config_builder \<Rightarrow> config_builder" where
  "cb_contract name f b = b\<lparr>cb_contracts := cb_contracts b @ [f
     \<lparr> cc_name = name, cc_abi_json = ''[]'', cc_chain_names = [], cc_address = Multiple [],
       cc_start_block = 0, cc_end_block = None, cc_filter = None, cc_include_transaction = False,
       cc_include_trace = False \<rparr>]\<rparr>"

definition cb_account :: "string \<Rightarrow> (account_config \<Rightarrow> account_config) \<Rightarrow> config_builder \<Rightarrow> config_builder" where
  "cb_account name f b = b\<lparr>cb_accounts := cb_accounts b @ [f
     \<lparr> acc_name = name, acc_chain_names = [], acc_address = zero_address, acc_start_block = 0,
       acc_include_transaction = False \<rparr>]\<rparr>"

definition cb_block_interval ::
  "string \<Rightarrow> (block_interval_config \<Rightarrow> block_interval_config) \<Rightarrow> config_builder \<Rightarrow> config_builder" where
  "cb_block_interval name f b = b\<lparr>cb_block_intervals := cb_block_intervals b @ [f
     \<lparr> bi_name = name, bi_chain_name = [], bi_interval = 1, bi_start_block = 0, bi_end_block = None \<rparr>]\<rparr>"

definition cb_set_schema :: "schema \<Rightarrow> config_builder \<Rightarrow> config_builder" where
  "cb_set_schema s b = b\<lparr>cb_schema := Some s\<rparr>"

definition cb_set_database :: "database_config \<Rightarrow> config_builder \<Rightarrow> config_builder" where
  "cb_set_database d b = b\<lparr>cb_database := Some d\<rparr>"

definition cb_set_ordering :: "ordering \<Rightarrow> config_builder \<Rightarrow> config_builder" where
  "cb_set_ordering v b = b\<lparr>cb_ordering := v\<rparr>"

text \<open>The error is the text of \<open>ForgeError::Config\<close>.\<close>

definition cb_config :: "config_builder \<Rightarrow> config" where
  "cb_config b =
     \<lparr> cfg_chains = cb_chains b, cfg_contracts = cb_contracts b, cfg_accounts = cb_accounts b,
       cfg_block_intervals = cb_block_intervals b,
       cfg_schema = (case cb_schema b of Some s \<Rightarrow> s | None \<Rightarrow> \<lparr> sch_tables = [] \<rparr>),
       cfg_database = (case cb_database b of Some d \<Rightarrow> d | None \<Rightarrow> db_postgres []),
       cfg_ordering = cb_ordering b \<rparr>"

definition cb_build :: "(string \<Rightarrow> bool) \<Rightarrow> config_builder \<Rightarrow> string + config" where
  "cb_build json_ok b =
     (let c = cb_config b; errors = validate json_ok c
      in if errors = [] then Inr c else Inl (join ''; '' errors))"

section \<open>What validation guarantees\<close>

text \<open>The specification of a valid configuration.\<close>

definition valid_table :: "table_def \<Rightarrow> bool" where
  "valid_table t \<longleftrightarrow>
     (\<exists>!i. i < length (tbl_columns t) \<and> col_primary_key (tbl_columns t ! i)) \<and>
     distinct (map col_name (tbl_columns t))"

definition valid_config :: "(string \<Rightarrow> bool) \<Rightarrow> config \<Rightarrow> bool" where
  "valid_config json_ok c \<longleftrightarrow>
     (\<forall>ch \<in> set (cfg_chains c). ch_rpc_http ch \<noteq> []) \<and>
     distinct (map ch_chain_id (cfg_chains c)) \<and>
     (\<forall>k \<in> set (cfg_contracts c). set (cc_chain_names k) \<subseteq> ch_name ` set (cfg_chains c) \<and> json_ok (cc_abi_json k)) \<and>
     (\<forall>a \<in> set (cfg_accounts c). set (acc_chain_names a) \<subseteq> ch_name ` set (cfg_chains c)) \<and>
     (\<forall>b \<in> set (cfg_block_intervals c). bi_chain_name b \<in> ch_name ` set (cfg_chains c)) \<and>
     distinct (map tbl_name (sch_tables (cfg_schema c))) \<and>
     (\<forall>t \<in> set (sch_tables (cfg_schema c)). valid_table t) \<and>
     (\<forall>s n m. cfg_database c = Postgres s n m \<longrightarrow> s \<noteq> [])"

lemma duplicates_Nil:
  "duplicates seen key msg xs = [] \<longleftrightarrow> distinct (map key xs) \<and> set (map key xs) \<inter> set seen = {}"
  by (induction xs arbitrary: seen) auto

lemma check_chain_names_Nil:
  "check_chain_names kind names name refs = [] \<longleftrightarrow> set refs \<subseteq> set names"
  by (induction refs) (auto simp: check_chain_names_def)

lemma length_filter_1:
  "length (filter P xs) = 1 \<longleftrightarrow> (\<exists>!i. i < length xs \<and> P (xs ! i))"
proof -
  have "length (filter P xs) = card {i. i < length xs \<and> P (xs ! i)}" by (rule length_filter_conv_card)
  moreover have "card A = 1 \<longleftrightarrow> (\<exists>!i. i \<in> A)" for A :: "nat set"
    unfolding One_nat_def card_1_singleton_iff by blast
  ultimately show ?thesis by simp
qed

lemma check_table_Nil: "check_table t = [] \<longleftrightarrow> valid_table t"
proof -
  have "length (filter col_primary_key (tbl_columns t)) = 1 \<longleftrightarrow>
      \<not> length (filter col_primary_key (tbl_columns t)) = 0 \<and>
      \<not> length (filter col_primary_key (tbl_columns t)) > 1"
    by linarith
  then show ?thesis
    unfolding check_table_def valid_table_def length_filter_1 [symmetric]
    by (simp add: Let_def duplicates_Nil)
qed

lemma concat_map_Nil: "concat (map f xs) = [] \<longleftrightarrow> (\<forall>x \<in> set xs. f x = [])"
  by (induction xs) auto

lemma simple_checks_Nil:
  "check_rpc_http ch = [] \<longleftrightarrow> ch_rpc_http ch \<noteq> []"
  "check_abi_json json_ok k = [] \<longleftrightarrow> json_ok (cc_abi_json k)"
  "check_database d = [] \<longleftrightarrow> (\<forall>s n m. d = Postgres s n m \<longrightarrow> s \<noteq> [])"
  by (auto simp: check_rpc_http_def check_abi_json_def check_database_def split: database_config.splits)

lemma validate_Nil: "validate json_ok c = [] \<longleftrightarrow> valid_config json_ok c"
  unfolding validate_def valid_config_def Let_def append_is_Nil_conv concat_map_Nil duplicates_Nil
    check_chain_names_Nil check_table_Nil simple_checks_Nil ball_conj_distrib
  by simp

text \<open>
  Property C14. The builder hands out exactly the valid configurations: \<open>build\<close> succeeds
  if and only if every chain has an endpoint and an identifier of its own, every chain that
  is referred to exists, every ABI is JSON, tables and columns have distinct names, every
  table has exactly one primary key, and the connection string is not empty.
\<close>

theorem build_ok_iff_valid:
  "cb_build json_ok b = Inr c \<longleftrightarrow> c = cb_config b \<and> valid_config json_ok c"
  by (auto simp: cb_build_def Let_def validate_Nil)

end
