(* ===== verification/Rows.thy ===== *)
theory Rows
  imports Config
begin

text \<open>
  Rows and column values, their SQL literals and the query builder
  (\<open>forge-index-db/src/row.rs\<close>, \<open>query.rs\<close> and the conversion of \<open>context.rs\<close>). The text of
  a double, of a JSON value and of bytes in hexadecimal is produced by library code: a
  record of arguments. The main result is that a text literal cannot be left by its
  content.
\<close>

section \<open>Values and rows\<close>

datatype column_value =
    CV_Text string
  | CV_Boolean bool
  | CV_Int "32 word"
  | CV_BigInt "64 word"
  | CV_Float "64 word"
  | CV_Bytes bytes
  | CV_Json json
  | CV_Null
  | CV_BigNumeric string

text \<open>The Rust types that convert to a value, each by its own \<open>From\<close>.\<close>

datatype into_value =
    Into_String string
  | Into_Str string
  | Into_Bool bool
  | Into_I32 "32 word"
  | Into_I64 "64 word"
  | Into_F64 "64 word"
  | Into_Bytes bytes
  | Into_Json json

fun column_value_from :: "into_value \<Rightarrow> column_value" where
  "column_value_from (Into_String v) = CV_Text v"
| "column_value_from (Into_Str v) = CV_Text v"
| "column_value_from (Into_Bool v) = CV_Boolean v"
| "column_value_from (Into_I32 v) = CV_Int v"
| "column_value_from (Into_I64 v) = CV_BigInt v"
| "column_value_from (Into_F64 v) = CV_Float v"
| "column_value_from (Into_Bytes v) = CV_Bytes v"
| "column_value_from (Into_Json v) = CV_Json v"

record renderer =
  r_hex :: "bytes \<Rightarrow> string"
  r_f64 :: "64 word \<Rightarrow> string"
  r_json :: "json \<Rightarrow> string"

record row =
  row_columns :: "(string \<times> column_value) list"
  row_operation :: "string option"

definition new_row :: row where
  "new_row = \<lparr> row_columns = [], row_operation = None \<rparr>"

definition row_insert :: "string \<Rightarrow> column_value \<Rightarrow> row \<Rightarrow> row" where
  "row_insert col v r = r\<lparr>row_columns := index_insert col v (row_columns r)\<rparr>"

definition row_get :: "row \<Rightarrow> string \<Rightarrow> column_value option" where
  "row_get r col = map_of (row_columns r) col"

definition bool_str :: "bool \<Rightarrow> string" where
  "bool_str b = (if b then ''true'' else ''false'')"

fun to_sql_literal :: "renderer \<Rightarrow> column_value \<Rightarrow> string" where
  "to_sql_literal R (CV_Text s) = quote_text s"
| "to_sql_literal R (CV_Boolean b) = bool_str b"
| "to_sql_literal R (CV_Int i) = int_str (sint i)"
| "to_sql_literal R (CV_BigInt i) = int_str (sint i)"
| "to_sql_literal R (CV_Float f) = r_f64 R f"
| "to_sql_literal R (CV_Bytes b) = [quote_char] @ [CHR 0x5C, CHR ''x''] @ r_hex R b @ [quote_char]"
| "to_sql_literal R (CV_Json v) = quote_text (r_json R v)"
| "to_sql_literal R CV_Null = ''NULL''"
| "to_sql_literal R (CV_BigNumeric s) = s"

text \<open>The literal of a column, \<open>NULL\<close> where the row lacks it.\<close>

definition literal_or_null :: "renderer \<Rightarrow> row \<Rightarrow> string \<Rightarrow> string" where
  "literal_or_null R r col =
     (case row_get r col of Some v \<Rightarrow> to_sql_literal R v | None \<Rightarrow> ''NULL'')"

text \<open>
  \<open>json_to_column_value\<close>; \<open>u64_as_f64\<close> is the conversion of \<open>as_f64\<close> for an integer that
  is too large for \<open>i64\<close>.
\<close>

fun json_to_column_value :: "(u64 \<Rightarrow> 64 word) \<Rightarrow> json \<Rightarrow> column_value" where
  "json_to_column_value u64_as_f64 JNull = CV_Null"
| "json_to_column_value u64_as_f64 (JBool b) = CV_Boolean b"
| "json_to_column_value u64_as_f64 (JNumber (PosInt n)) =
     (if unat n < 2 ^ 63 then CV_BigInt n else CV_Float (u64_as_f64 n))"
| "json_to_column_value u64_as_f64 (JNumber (NegInt i)) = CV_BigInt i"
| "json_to_column_value u64_as_f64 (JNumber (JFloat f)) = CV_Float f"
| "json_to_column_value u64_as_f64 (JString s) = CV_Text s"
| "json_to_column_value u64_as_f64 (JArray xs) = CV_Json (JArray xs)"
| "json_to_column_value u64_as_f64 (JObject fs) = CV_Json (JObject fs)"

section \<open>Queries\<close>

datatype dir = Asc | Desc

record query_builder =
  qb_pg_schema :: string
  qb_table :: string
  qb_conditions :: "string list"
  qb_order_by :: "(string \<times> dir) list"
  qb_limit :: "int option"
  qb_offset :: "int option"

definition new_query :: "string \<Rightarrow> string \<Rightarrow> query_builder" where
  "new_query pg_schema table = \<lparr> qb_pg_schema = pg_schema, qb_table = table, qb_conditions = [],
     qb_order_by = [], qb_limit = None, qb_offset = None \<rparr>"

definition qb_where :: "renderer \<Rightarrow> string \<Rightarrow> string \<Rightarrow> column_value \<Rightarrow> query_builder \<Rightarrow> query_builder" where
  "qb_where R col op v q = q\<lparr>qb_conditions := qb_conditions q @
     [quote_ident col @ '' '' @ op @ '' '' @ to_sql_literal R v]\<rparr>"

definition qb_order :: "string \<Rightarrow> dir \<Rightarrow> query_builder \<Rightarrow> query_builder" where
  "qb_order col d q = q\<lparr>qb_order_by := qb_order_by q @ [(col, d)]\<rparr>"

definition qb_set_limit :: "int \<Rightarrow> query_builder \<Rightarrow> query_builder" where
  "qb_set_limit n q = q\<lparr>qb_limit := Some n\<rparr>"

definition qb_set_offset :: "int \<Rightarrow> query_builder \<Rightarrow> query_builder" where
  "qb_set_offset n q = q\<lparr>qb_offset := Some n\<rparr>"

definition dir_str :: "dir \<Rightarrow> string" where
  "dir_str d = (case d of Asc \<Rightarrow> ''ASC'' | Desc \<Rightarrow> ''DESC'')"

definition build_sql :: "query_builder \<Rightarrow> string" where
  "build_sql q =
     ''SELECT row_to_json(t.*) as doc FROM '' @ table_path (qb_pg_schema q) (qb_table q) @ '' t'' @
     (if qb_conditions q \<noteq> [] then '' WHERE '' @ join '' AND '' (qb_conditions q) else []) @
     (if qb_order_by q \<noteq> [] then
        '' ORDER BY '' @ join '', '' (map (\<lambda>(col, d). quote_ident col @ '' '' @ dir_str d) (qb_order_by q))
      else []) @
     (case qb_limit q of Some n \<Rightarrow> '' LIMIT '' @ int_str n | None \<Rightarrow> []) @
     (case qb_offset q of Some n \<Rightarrow> '' OFFSET '' @ int_str n | None \<Rightarrow> [])"

text \<open>
  Running a query: the database answers a statement with JSON documents or fails, and
  \<open>from_value\<close> turns a document into the caller's type.
\<close>

definition query_all ::
  "(string \<Rightarrow> ('d, sqlx_error, json list) call) \<Rightarrow> (json \<Rightarrow> string + 'x) \<Rightarrow> query_builder
   \<Rightarrow> ('d, db_error, 'x list) call" where
  "query_all fetch from_value q =
     seq (map_err (Query (qb_table q)) (fetch (build_sql q)))
       (\<lambda>docs. lift_res (map_res (\<lambda>j. case from_value j of Inl e \<Rightarrow> Inl (Serialization e) | Inr v \<Rightarrow> Inr v) docs))"

definition query_first ::
  "(string \<Rightarrow> ('d, sqlx_error, json list) call) \<Rightarrow> (json \<Rightarrow> string + 'x) \<Rightarrow> query_builder
   \<Rightarrow> ('d, db_error, 'x option) call" where
  "query_first fetch from_value q =
     seq (map_err (Query (qb_table q)) (fetch (build_sql (q\<lparr>qb_limit := Some 1\<rparr>))))
       (\<lambda>docs. case docs of
          [] \<Rightarrow> ret None
        | j # _ \<Rightarrow> (case from_value j of Inl e \<Rightarrow> throw (Serialization e) | Inr v \<Rightarrow> ret (Some v)))"

section \<open>Literals in SQL text\<close>

text \<open>
  How the server reads a string constant: a quote opens it, a doubled quote inside stands
  for one quote, a single quote ends it. The result is the content and the text behind.
\<close>

fun scan_body :: "string \<Rightarrow> (string \<times> string) option" where
  "scan_body [] = None"
| "scan_body (c # cs) =
     (if c = quote_char then
        (case cs of
           d # ds \<Rightarrow> if d = quote_char then map_option (\<lambda>(s, r). (quote_char # s, r)) (scan_body ds)
                     else Some ([], cs)
         | [] \<Rightarrow> Some ([], []))
      else map_option (\<lambda>(s, r). (c # s, r)) (scan_body cs))"

definition scan_string :: "string \<Rightarrow> (string \<times> string) option" where
  "scan_string t = (case t of c # cs \<Rightarrow> if c = quote_char then scan_body cs else None | [] \<Rightarrow> None)"

lemma scan_body_escape:
  "(rest \<noteq> [] \<longrightarrow> hd rest \<noteq> quote_char) \<Longrightarrow> scan_body (escape_quotes s @ quote_char # rest) = Some (s, rest)"
  by (induction s) (auto split: list.splits)

lemma scan_quote_text:
  "(rest \<noteq> [] \<longrightarrow> hd rest \<noteq> quote_char) \<Longrightarrow> scan_string (quote_text s @ rest) = Some (s, rest)"
  by (simp add: scan_string_def quote_text_def scan_body_escape)

text \<open>
  A text or JSON value cannot leave its literal: whatever characters it
  contains, the server reads the literal that \<open>to_sql_literal\<close> writes as one string
  constant with exactly that content, and goes on with the text that follows.
\<close>

lemma text_literal_contained:
  assumes "rest \<noteq> [] \<longrightarrow> hd rest \<noteq> quote_char"
  shows "scan_string (to_sql_literal R (CV_Text s) @ rest) = Some (s, rest) \<and>
         scan_string (to_sql_literal R (CV_Json j) @ rest) = Some (r_json R j, rest)"
  using scan_quote_text [OF assms] by simp

definition plain_renderer :: renderer where
  "plain_renderer = \<lparr> r_hex = hex_encode_ref, r_f64 = (\<lambda>_. ''0''), r_json = (\<lambda>_. ''null'') \<rparr>"

end
