(* ===== verification/Sql_Text.thy ===== *)
theory Sql_Text
  imports Rows
begin

text \<open>
  Reading the SQL that the database layer writes. The server itself is not part of the
  repository; the components state what they rely on as laws of an interface. This theory
  holds the meaning those laws give to a statement, an operation on a table keyed by its
  primary key, and a small server for one table of text columns that reads the statement
  texts back. The server is the instance on which the interfaces are interpreted.
\<close>

section \<open>Tables\<close>

text \<open>A row's columns, \<open>CV_Null\<close> where it has no value, and a table.\<close>

type_synonym content = "string \<Rightarrow> column_value"

type_synonym table_state = "column_value \<rightharpoonup> content"

definition value_or_null :: "row \<Rightarrow> string \<Rightarrow> column_value" where
  "value_or_null r c = (case row_get r c of Some v \<Rightarrow> v | None \<Rightarrow> CV_Null)"

definition row_content :: "string list \<Rightarrow> row \<Rightarrow> content" where
  "row_content cols r = (\<lambda>c. if c \<in> set cols then value_or_null r c else CV_Null)"

text \<open>\<open>INSERT ... ON CONFLICT DO NOTHING\<close>, \<open>UPDATE ... WHERE pk =\<close> and \<open>DELETE ... IN\<close>.\<close>

definition insert_effect :: "column_value \<Rightarrow> content \<Rightarrow> table_state \<Rightarrow> table_state" where
  "insert_effect k m st = (case st k of Some _ \<Rightarrow> st | None \<Rightarrow> st(k \<mapsto> m))"

definition update_effect :: "column_value \<Rightarrow> (string \<times> column_value) list \<Rightarrow> table_state \<Rightarrow> table_state" where
  "update_effect k sets st =
     (case st k of
        None \<Rightarrow> st
      | Some m \<Rightarrow> st(k \<mapsto> (\<lambda>c. case map_of sets c of Some v \<Rightarrow> v | None \<Rightarrow> m c)))"

definition delete_effect :: "column_value \<Rightarrow> table_state \<Rightarrow> table_state" where
  "delete_effect k st = st(k := None)"

text \<open>The columns that an update of a row sets.\<close>

definition row_sets :: "string list \<Rightarrow> string \<Rightarrow> row \<Rightarrow> (string \<times> column_value) list" where
  "row_sets cols pk r =
     filter_map (\<lambda>c. map_option (Pair c) (row_get r c)) (filter (\<lambda>c. c \<noteq> pk) cols)"

section \<open>Reading statement texts\<close>

text \<open>A reader takes a text and gives what it read and the text behind it.\<close>

type_synonym 'a reader = "string \<Rightarrow> ('a \<times> string) option"

fun expect :: "string \<Rightarrow> string \<Rightarrow> string option" where
  "expect [] s = Some s"
| "expect (c # cs) [] = None"
| "expect (c # cs) (d # ds) = (if c = d then expect cs ds else None)"

fun read_ident_body :: "string reader" where
  "read_ident_body [] = None"
| "read_ident_body (c # cs) =
     (if c = CHR 0x22 then Some ([], cs) else map_option (\<lambda>(s, r). (c # s, r)) (read_ident_body cs))"

definition read_ident :: "string reader" where
  "read_ident s = Option.bind (expect dquote s) read_ident_body"

text \<open>\<open>NULL\<close>, a number or a string constant.\<close>

definition read_value :: "column_value reader" where
  "read_value s =
     (case expect ''NULL'' s of
        Some r \<Rightarrow> Some (CV_Null, r)
      | None \<Rightarrow>
          if takeWhile is_digit s \<noteq> [] then Some (CV_BigNumeric (takeWhile is_digit s), dropWhile is_digit s)
          else map_option (\<lambda>(t, r). (CV_Text t, r)) (scan_string s))"

text \<open>A list with commas between its elements, of at most \<open>n\<close> elements.\<close>

fun read_list :: "nat \<Rightarrow> 'a reader \<Rightarrow> 'a list reader" where
  "read_list 0 p s = None"
| "read_list (Suc n) p s =
     (case p s of
        None \<Rightarrow> None
      | Some (x, r) \<Rightarrow>
          (case expect '', '' r of
             None \<Rightarrow> Some ([x], r)
           | Some r' \<Rightarrow> map_option (\<lambda>(xs, r''). (x # xs, r'')) (read_list n p r')))"

definition read_tuple :: "nat \<Rightarrow> 'a reader \<Rightarrow> 'a list reader" where
  "read_tuple n p s =
     Option.bind (expect ''('' s) (\<lambda>s. Option.bind (read_list n p s) (\<lambda>(xs, s).
       Option.bind (expect '')'' s) (\<lambda>s. Some (xs, s))))"

definition read_path :: "(string \<times> string) reader" where
  "read_path s =
     Option.bind (read_ident s) (\<lambda>(a, s). Option.bind (expect ''.'' s) (\<lambda>s.
       Option.bind (read_ident s) (\<lambda>(b, s). Some ((a, b), s))))"

definition read_assignment :: "(string \<times> column_value) reader" where
  "read_assignment s =
     Option.bind (read_ident s) (\<lambda>(c, s). Option.bind (expect '' = '' s) (\<lambda>s.
       Option.bind (read_value s) (\<lambda>(v, s). Some ((c, v), s))))"

subsection \<open>What was written is read back\<close>

named_theorems read_simps "reading back what was written"

text \<open>What may stand behind a value: no quote and no digit.\<close>

fun ends :: "string \<Rightarrow> bool" where
  "ends [] = True"
| "ends (c # cs) = (c \<noteq> quote_char \<and> \<not> is_digit c)"

lemma no_digit [simp]:
  "\<not> is_digit CHR '',''" "\<not> is_digit CHR '' ''" "\<not> is_digit CHR '')''"
  by (simp_all add: is_digit_def)

definition plain_name :: "string \<Rightarrow> bool" where
  "plain_name s \<longleftrightarrow> CHR 0x22 \<notin> set s"

lemma expect_append [read_simps]: "expect w (w @ s) = Some s"
  by (induction w) auto

lemma read_ident_body_append: "plain_name n \<Longrightarrow> read_ident_body (n @ CHR 0x22 # s) = Some (n, s)"
  by (induction n) (auto simp: plain_name_def)

lemma read_ident_quote [read_simps]: "plain_name n \<Longrightarrow> read_ident (quote_ident n @ s) = Some (n, s)"
  by (simp add: read_ident_def quote_ident_def read_ident_body_append)

lemma read_path_append [read_simps]:
  "plain_name a \<Longrightarrow> plain_name b \<Longrightarrow> read_path (table_path a b @ s) = Some ((a, b), s)"
  using expect_append [of "''.''"]
  by (simp add: read_path_def table_path_def read_simps del: expect.simps)

fun plain_value :: "column_value \<Rightarrow> bool" where
  "plain_value (CV_Text s) = True"
| "plain_value CV_Null = True"
| "plain_value (CV_BigNumeric s) = (s \<noteq> [] \<and> list_all is_digit s)"
| "plain_value _ = False"

lemma ends_hd: "ends rest \<Longrightarrow> rest \<noteq> [] \<longrightarrow> hd rest \<noteq> quote_char"
  by (cases rest) auto

lemma read_value_text [read_simps]: "ends rest \<Longrightarrow> read_value (quote_text s @ rest) = Some (CV_Text s, rest)"
  using scan_quote_text [OF ends_hd, of rest s] by (simp add: read_value_def quote_text_def is_digit_def)

lemma read_value_null [read_simps]: "read_value (''NULL'' @ rest) = Some (CV_Null, rest)"
  by (simp add: read_value_def)

lemma takeWhile_digits:
  assumes "list_all is_digit s" and "ends rest"
  shows "takeWhile is_digit (s @ rest) = s" and "dropWhile is_digit (s @ rest) = rest"
  using assms by (cases rest; induction s; simp)+

lemma read_value_digits [read_simps]:
  assumes "s \<noteq> []" and "list_all is_digit s" and "ends rest"
  shows "read_value (s @ rest) = Some (CV_BigNumeric s, rest)"
proof -
  obtain c cs where s: "s = c # cs" using assms(1) by (cases s) auto
  then have "c \<noteq> CHR ''N''" using assms(2) by (auto simp: is_digit_def)
  then have "expect ''NULL'' (s @ rest) = None" by (simp add: s)
  then show ?thesis using takeWhile_digits [OF assms(2,3)] assms(1) by (simp add: read_value_def)
qed

lemma read_value_literal [read_simps]:
  "plain_value v \<Longrightarrow> ends rest \<Longrightarrow> read_value (to_sql_literal R v @ rest) = Some (v, rest)"
  using read_value_null [of rest] by (cases v) (auto simp: read_simps)

text \<open>A list is read back when each element is read up to what may stand behind it.\<close>

lemma read_list_until:
  assumes "xs \<noteq> []" and "length xs \<le> n" and "expect '', '' rest = None" and "E rest" and "\<And>r. E ('', '' @ r)"
    and read: "\<And>x rest. x \<in> set xs \<Longrightarrow> E rest \<Longrightarrow> p (pr x @ rest) = Some (f x, rest)"
  shows "read_list n p (join '', '' (map pr xs) @ rest) = Some (map f xs, rest)"
  using assms(1,2) read
proof (induction xs arbitrary: n rule: list_nonempty_induct)
  case (single x)
  then obtain m where n: "n = Suc m" by (cases n) auto
  show ?case using single assms(3,4) by (simp add: n)
next
  case (cons x xs)
  obtain m where n: "n = Suc m" using cons.prems(1) by (cases n) auto
  obtain y ys where xs: "xs = y # ys" using cons.hyps(1) by (cases xs) auto
  have head: "p (pr x @ '', '' @ r) = Some (f x, '', '' @ r)" for r
    using cons.prems(2) [of x "'', '' @ r"] assms(5) by simp
  have tail: "read_list m p (join '', '' (map pr xs) @ rest) = Some (map f xs, rest)"
    using cons.prems by (intro cons.IH) (auto simp: n)
  have "join '', '' (map pr (x # xs)) @ rest = pr x @ '', '' @ join '', '' (map pr xs) @ rest"
    by (simp add: xs)
  then show ?case using head tail expect_append [of "'', ''"] by (simp add: n)
qed

lemma read_list_join:
  assumes "xs \<noteq> []" and "length xs \<le> n" and "expect '', '' rest = None" and "ends rest"
    and "\<And>x rest. x \<in> set xs \<Longrightarrow> ends rest \<Longrightarrow> p (pr x @ rest) = Some (f x, rest)"
  shows "read_list n p (join '', '' (map pr xs) @ rest) = Some (map f xs, rest)"
  using assms by (intro read_list_until [where E = ends]) auto

lemma read_tuple_join [read_simps]:
  assumes "xs \<noteq> []" and "length xs \<le> n"
    and "\<And>x rest. x \<in> set xs \<Longrightarrow> ends rest \<Longrightarrow> p (pr x @ rest) = Some (f x, rest)"
  shows "read_tuple n p (''('' @ join '', '' (map pr xs) @ '')'' @ rest) = Some (map f xs, rest)"
proof -
  have "read_list n p (join '', '' (map pr xs) @ '')'' @ rest) = Some (map f xs, '')'' @ rest)"
    by (rule read_list_join) (use assms in simp_all)
  then show ?thesis by (simp add: read_tuple_def)
qed

lemma read_assignment_text [read_simps]:
  assumes "plain_name c" and "ends rest" and "read_value (lit @ rest) = Some (v, rest)"
  shows "read_assignment ((quote_ident c @ '' = '' @ lit) @ rest) = Some ((c, v), rest)"
  using assms expect_append [of "'' = ''"]
  by (simp add: read_assignment_def read_simps del: expect.simps)

section \<open>A server for one table\<close>

datatype statement =
    S_Insert "string \<times> string" "string list" "column_value list list"
  | S_Update "string \<times> string" "(string \<times> column_value) list" string column_value
  | S_Delete "string \<times> string" string "column_value list"

text \<open>The readers of the three forms; \<open>stop p\<close> is the end of the text.\<close>

definition stop :: "'a \<Rightarrow> string \<Rightarrow> 'a option" where
  "stop x s = (if s = [] then Some x else None)"

definition read_insert :: "string \<Rightarrow> statement option" where
  "read_insert s =
     Option.bind (read_path s) (\<lambda>(p, s). Option.bind (expect '' '' s) (\<lambda>s'.
     Option.bind (read_tuple (length s) read_ident s') (\<lambda>(cols, s). Option.bind (expect '' VALUES '' s) (\<lambda>s.
     Option.bind (read_list (length s) (read_tuple (length s) read_value) s) (\<lambda>(rows, s).
     Option.bind (expect '' ON CONFLICT DO NOTHING'' s) (stop (S_Insert p cols rows)))))))"

definition read_update :: "string \<Rightarrow> statement option" where
  "read_update s =
     Option.bind (read_path s) (\<lambda>(p, s). Option.bind (expect '' SET '' s) (\<lambda>s.
     Option.bind (read_list (length s) read_assignment s) (\<lambda>(sets, s). Option.bind (expect '' WHERE '' s) (\<lambda>s.
     Option.bind (read_assignment s) (\<lambda>((c, v), s). stop (S_Update p sets c v) s)))))"

definition read_delete :: "string \<Rightarrow> statement option" where
  "read_delete s =
     Option.bind (read_path s) (\<lambda>(p, s). Option.bind (expect '' WHERE '' s) (\<lambda>s.
     case read_assignment s of
       Some ((c, v), s) \<Rightarrow> stop (S_Delete p c [v]) s
     | None \<Rightarrow>
         Option.bind (read_ident s) (\<lambda>(c, s). Option.bind (expect '' IN '' s) (\<lambda>s.
         Option.bind (read_tuple (length s) read_value s) (\<lambda>(vs, s). stop (S_Delete p c vs) s)))))"

definition read_statement :: "string \<Rightarrow> statement option" where
  "read_statement s =
     (case expect ''INSERT INTO '' s of Some r \<Rightarrow> read_insert r
      | None \<Rightarrow> (case expect ''UPDATE '' s of Some r \<Rightarrow> read_update r
      | None \<Rightarrow> (case expect ''DELETE FROM '' s of Some r \<Rightarrow> read_delete r | None \<Rightarrow> None)))"

definition content_of :: "string list \<Rightarrow> column_value list \<Rightarrow> content" where
  "content_of cols vs = (\<lambda>c. case map_of (zip cols vs) c of Some v \<Rightarrow> v | None \<Rightarrow> CV_Null)"

text \<open>A row without a key cannot be inserted; a comparison with \<open>NULL\<close> selects nothing.\<close>

definition run_statement ::
  "string \<times> string \<Rightarrow> string list \<Rightarrow> string \<Rightarrow> statement \<Rightarrow> table_state \<Rightarrow> table_state option" where
  "run_statement path cols pk stmt st =
     (case stmt of
        S_Insert p ics rows \<Rightarrow>
          if p = path \<and> ics = cols \<and> (\<forall>vs \<in> set rows. content_of cols vs pk \<noteq> CV_Null)
          then Some (fold (\<lambda>vs. insert_effect (content_of cols vs pk) (content_of cols vs)) rows st) else None
      | S_Update p sets c v \<Rightarrow>
          if p = path \<and> c = pk then Some (if v = CV_Null then st else update_effect v sets st) else None
      | S_Delete p c vs \<Rightarrow>
          if p = path \<and> c = pk then Some (fold delete_effect (filter (\<lambda>v. v \<noteq> CV_Null) vs) st) else None)"

definition text_exec ::
  "string \<Rightarrow> string \<Rightarrow> string list \<Rightarrow> string \<Rightarrow> string \<Rightarrow> (table_state, sqlx_error, unit) call" where
  "text_exec pg_schema table cols pk sql = (\<lambda>st.
     case Option.bind (read_statement sql) (\<lambda>stmt. run_statement (pg_schema, table) cols pk stmt st) of
       Some st' \<Rightarrow> (Inr (), st')
     | None \<Rightarrow> (Inl Sqlx_Database, st))"

lemma stop_Nil [simp]: "stop x [] = Some x"
  by (simp add: stop_def)

lemma length_join: "length xs \<le> Suc (length (join '', '' xs))"
  by (induction "'', ''" xs rule: join.induct) auto

lemma read_insert_text:
  assumes "plain_name a" and "plain_name b" and "cols \<noteq> []" and "list_all plain_name cols" and "rows \<noteq> []"
    and lit: "\<And>r c rest. r \<in> set rows \<Longrightarrow> c \<in> set cols \<Longrightarrow> ends rest \<Longrightarrow>
      read_value (lit r c @ rest) = Some (val r c, rest)"
  shows "read_statement (''INSERT INTO '' @ table_path a b @ '' ('' @ join '', '' (map quote_ident cols) @
      '') VALUES '' @ join '', '' (map (\<lambda>r. ''('' @ join '', '' (map (lit r) cols) @ '')'') rows) @
      '' ON CONFLICT DO NOTHING'') = Some (S_Insert (a, b) cols (map (\<lambda>r. map (val r) cols) rows))"
proof -
  let ?rows = "join '', '' (map (\<lambda>r. ''('' @ join '', '' (map (lit r) cols) @ '')'') rows) @ '' ON CONFLICT DO NOTHING''"
  let ?cols = "join '', '' (map quote_ident cols)"
  have cols_read: "read_tuple n read_ident (''('' @ ?cols @ '')'' @ '' VALUES '' @ ?rows) =
      Some (cols, '' VALUES '' @ ?rows)" if "length cols \<le> n" for n
    using read_tuple_join [of cols n read_ident quote_ident "\<lambda>x. x" "'' VALUES '' @ ?rows"] assms(3,4) that
    by (simp add: read_simps list_all_iff)
  have row_read: "read_tuple n read_value ((''('' @ join '', '' (map (lit r) cols) @ '')'') @ rest) =
      Some (map (val r) cols, rest)" if "length cols \<le> n" "r \<in> set rows" for n r rest
    using read_tuple_join [of cols n read_value "lit r" "val r" rest] assms(3) lit that by simp
  have cols_len: "length cols \<le> length ?rows"
  proof -
    obtain r rs where "rows = r # rs" using assms(5) by (cases rows) auto
    then show ?thesis using length_join [of "map (lit r) cols"] by (cases rs) auto
  qed
  have rows_read: "read_list (length ?rows) (read_tuple (length ?rows) read_value) ?rows =
      Some (map (\<lambda>r. map (val r) cols) rows, '' ON CONFLICT DO NOTHING'')"
    using length_join [of "map (\<lambda>r. ''('' @ join '', '' (map (lit r) cols) @ '')'') rows"] assms(5)
    by (intro read_list_join row_read cols_len) (auto simp: is_digit_def)
  have len: "length cols \<le> length ('' ('' @ ?cols @ '') VALUES '' @ ?rows)"
    using cols_len by simp
  have "read_insert (table_path a b @ '' ('' @ ?cols @ '') VALUES '' @ ?rows) =
      Some (S_Insert (a, b) cols (map (\<lambda>r. map (val r) cols) rows))"
    using read_path_append [OF assms(1,2)] cols_read [OF len] rows_read
    by (simp add: read_insert_def)
  then show ?thesis by (simp add: read_statement_def)
qed

lemma read_update_text:
  assumes "plain_name a" and "plain_name b" and "sets \<noteq> []" and "plain_name pk" and "list_all (plain_name \<circ> fst) sets"
    and lit: "\<And>x rest. x \<in> set sets \<Longrightarrow> ends rest \<Longrightarrow> read_value (lit x @ rest) = Some (snd x, rest)"
    and key: "read_value key = Some (k, [])"
  shows "read_statement (''UPDATE '' @ table_path a b @ '' SET '' @
      join '', '' (map (\<lambda>x. quote_ident (fst x) @ '' = '' @ lit x) sets) @
      '' WHERE '' @ quote_ident pk @ '' = '' @ key) = Some (S_Update (a, b) sets pk k)"
proof -
  let ?key = "quote_ident pk @ '' = '' @ key"
  let ?sets = "join '', '' (map (\<lambda>x. quote_ident (fst x) @ '' = '' @ lit x) sets) @ '' WHERE '' @ ?key"
  have "read_assignment ((quote_ident (fst x) @ '' = '' @ lit x) @ rest) = Some (x, rest)"
    if "x \<in> set sets" "ends rest" for x rest
    using read_assignment_text [OF _ that(2) lit [OF that]] assms(5) that(1) by (simp add: list_all_iff)
  then have sets: "read_list (length ?sets) read_assignment ?sets = Some (map (\<lambda>x. x) sets, '' WHERE '' @ ?key)"
    using length_join [of "map (\<lambda>x. quote_ident (fst x) @ '' = '' @ lit x) sets"] assms(3)
    by (intro read_list_join) auto
  have "read_assignment ?key = Some ((pk, k), [])"
    using read_assignment_text [of pk "[]" key k] assms(4) key by simp
  then have "read_update (table_path a b @ '' SET '' @ ?sets) = Some (S_Update (a, b) sets pk k)"
    using read_path_append [OF assms(1,2)] sets by (simp add: read_update_def)
  then show ?thesis by (simp add: read_statement_def)
qed

lemma read_delete_text:
  assumes "plain_name a" and "plain_name b" and "xs \<noteq> []" and "plain_name pk"
    and lit: "\<And>x rest. x \<in> set xs \<Longrightarrow> ends rest \<Longrightarrow> read_value (lit x @ rest) = Some (val x, rest)"
  shows "read_statement (''DELETE FROM '' @ table_path a b @ '' WHERE '' @ quote_ident pk @ '' IN ('' @
      join '', '' (map lit xs) @ '')'') = Some (S_Delete (a, b) pk (map val xs))"
proof -
  let ?in = "'' IN ('' @ join '', '' (map lit xs) @ '')''"
  have "read_assignment (quote_ident pk @ ?in) = None"
    using assms(4) by (simp add: read_assignment_def read_ident_quote)
  moreover have "length xs \<le> length (''('' @ join '', '' (map lit xs) @ '')'')"
    using length_join [of "map lit xs"] by simp
  then have "read_tuple (length (''('' @ join '', '' (map lit xs) @ '')'')) read_value
      (''('' @ join '', '' (map lit xs) @ '')'') = Some (map val xs, [])"
    using read_tuple_join [of xs _ read_value lit val "[]"] assms(3) lit by simp
  ultimately have "read_delete (table_path a b @ '' WHERE '' @ quote_ident pk @ ?in) =
      Some (S_Delete (a, b) pk (map val xs))"
    using read_path_append [OF assms(1,2)] read_ident_quote [OF assms(4)] by (simp add: read_delete_def)
  then show ?thesis by (simp add: read_statement_def)
qed

lemma read_delete_eq_text:
  assumes "plain_name a" and "plain_name b" and "plain_name pk" and "read_value key = Some (k, [])"
  shows "read_statement (''DELETE FROM '' @ table_path a b @ '' WHERE '' @ quote_ident pk @ '' = '' @ key) =
      Some (S_Delete (a, b) pk [k])"
proof -
  have "read_assignment (quote_ident pk @ '' = '' @ key) = Some ((pk, k), [])"
    using read_assignment_text [of pk "[]" key k] assms(3,4) by simp
  then have "read_delete (table_path a b @ '' WHERE '' @ quote_ident pk @ '' = '' @ key) =
      Some (S_Delete (a, b) pk [k])"
    using read_path_append [OF assms(1,2)] by (simp add: read_delete_def)
  then show ?thesis by (simp add: read_statement_def)
qed

end
