(* ===== verification/Write_Buffer.thy ===== *)
theory Write_Buffer
  imports Sql_Text "HOL-Library.Multiset"
begin

text \<open>
  The write buffer and the context that handlers write through
  (\<open>forge-index-db/src/buffer.rs\<close> and \<open>context.rs\<close>). The database executes statement texts;
  what it does with them is an argument, \<open>exec\<close>. The order in which a concurrent map lists
  its keys is an argument too. Metrics other than the count of flushed rows are left out.

  What a server does with the three statement forms is stated as the laws of an interface;
  under them the second half relates the table after a flush to the operations in the order
  in which the handlers issued them.
\<close>

section \<open>The buffer\<close>

record write_buffer =
  wb_buffers :: "string \<rightharpoonup> row list"
  wb_max_size :: nat
  wb_pg_schema :: string
  wb_table_columns :: "string \<rightharpoonup> string list"
  wb_pk_columns :: "string \<rightharpoonup> string"
  wb_total_flushed :: u64

definition pk_of_table :: "table_def \<Rightarrow> string option" where
  "pk_of_table t = map_option col_name (find col_primary_key (tbl_columns t))"

definition add_table :: "write_buffer \<Rightarrow> table_def \<Rightarrow> write_buffer" where
  "add_table b t =
     (let b = (case pk_of_table t of
                 Some pk \<Rightarrow> b\<lparr>wb_pk_columns := (wb_pk_columns b)(tbl_name t \<mapsto> pk)\<rparr>
               | None \<Rightarrow> b)
      in b\<lparr>wb_table_columns := (wb_table_columns b)(tbl_name t \<mapsto> map col_name (tbl_columns t))\<rparr>)"

definition new_buffer :: "string \<Rightarrow> schema \<Rightarrow> write_buffer" where
  "new_buffer pg_schema s =
     foldl add_table
       \<lparr> wb_buffers = Map.empty, wb_max_size = 10000, wb_pg_schema = pg_schema,
         wb_table_columns = Map.empty, wb_pk_columns = Map.empty, wb_total_flushed = 0 \<rparr>
       (sch_tables s)"

text \<open>\<open>self.buffers.entry(table).or_default()\<close>.\<close>

definition buffered :: "write_buffer \<Rightarrow> string \<Rightarrow> row list" where
  "buffered b table = (case wb_buffers b table of Some rows \<Rightarrow> rows | None \<Rightarrow> [])"

definition set_rows :: "string \<Rightarrow> row list \<Rightarrow> write_buffer \<Rightarrow> write_buffer" where
  "set_rows table rows b = b\<lparr>wb_buffers := (wb_buffers b)(table \<mapsto> rows)\<rparr>"

definition buffer_insert :: "string \<Rightarrow> row \<Rightarrow> (write_buffer, db_error failure, unit) call" where
  "buffer_insert table r = (\<lambda>b.
     let entry = buffered b table
     in if length entry \<ge> wb_max_size b then (Inl (Err (BufferFull table)), set_rows table entry b)
        else (Inr (), set_rows table (entry @ [r]) b))"

definition buffer_update :: "string \<Rightarrow> row \<Rightarrow> column_value \<Rightarrow> (write_buffer, db_error failure, unit) call" where
  "buffer_update table r pk_value = (\<lambda>b.
     (Inr (), set_rows table (buffered b table @ [r\<lparr>row_operation := Some ''UPDATE''\<rparr>]) b))"

definition buffer_delete ::
  "string \<Rightarrow> string \<Rightarrow> column_value \<Rightarrow> (write_buffer, db_error failure, unit) call" where
  "buffer_delete table pk_col pk_value = (\<lambda>b.
     (Inr (), set_rows table
        (buffered b table @ [(row_insert pk_col pk_value new_row)\<lparr>row_operation := Some ''DELETE''\<rparr>]) b))"

text \<open>\<open>read_one\<close>; \<open>eq\<close> is the equality of column values, which on doubles is not identity.\<close>

definition read_one ::
  "(column_value \<Rightarrow> column_value \<Rightarrow> bool) \<Rightarrow> write_buffer \<Rightarrow> string \<Rightarrow> string \<Rightarrow> column_value \<Rightarrow> row option" where
  "read_one eq b table pk_col pk_value =
     (case wb_buffers b table of
        None \<Rightarrow> None
      | Some rows \<Rightarrow>
          find (\<lambda>r. row_operation r = None \<and>
                    (case row_get r pk_col of Some v \<Rightarrow> eq v pk_value | None \<Rightarrow> False)) (rev rows))"

section \<open>Statements\<close>

definition insert_sql :: "renderer \<Rightarrow> string \<Rightarrow> string \<Rightarrow> string list \<Rightarrow> row list \<Rightarrow> string" where
  "insert_sql R pg_schema table columns rows =
     ''INSERT INTO '' @ table_path pg_schema table @ '' ('' @ join '', '' (map quote_ident columns) @
     '') VALUES '' @
     join '', '' (map (\<lambda>r. ''('' @ join '', '' (map (literal_or_null R r) columns) @ '')'') rows) @
     '' ON CONFLICT DO NOTHING''"

definition update_sets :: "renderer \<Rightarrow> string list \<Rightarrow> string \<Rightarrow> row \<Rightarrow> string list" where
  "update_sets R columns pk_col r =
     filter_map (\<lambda>c. map_option (\<lambda>v. quote_ident c @ '' = '' @ to_sql_literal R v) (row_get r c))
       (filter (\<lambda>c. c \<noteq> pk_col) columns)"

definition update_sql :: "renderer \<Rightarrow> string \<Rightarrow> string \<Rightarrow> string list \<Rightarrow> string \<Rightarrow> row \<Rightarrow> string" where
  "update_sql R pg_schema table columns pk_col r =
     ''UPDATE '' @ table_path pg_schema table @ '' SET '' @ join '', '' (update_sets R columns pk_col r) @
     '' WHERE '' @ quote_ident pk_col @ '' = '' @ literal_or_null R r pk_col"

definition delete_keys :: "renderer \<Rightarrow> string \<Rightarrow> row list \<Rightarrow> string list" where
  "delete_keys R pk_col rows = filter_map (\<lambda>r. map_option (to_sql_literal R) (row_get r pk_col)) rows"

definition delete_sql :: "renderer \<Rightarrow> string \<Rightarrow> string \<Rightarrow> string \<Rightarrow> row list \<Rightarrow> string" where
  "delete_sql R pg_schema table pk_col rows =
     ''DELETE FROM '' @ table_path pg_schema table @ '' WHERE '' @ quote_ident pk_col @ '' IN ('' @
     join '', '' (delete_keys R pk_col rows) @ '')''"

section \<open>Flushing\<close>

type_synonym 'd execute = "string \<Rightarrow> ('d, sqlx_error, unit) call"

definition execute_flush :: "'d execute \<Rightarrow> string \<Rightarrow> string \<Rightarrow> ('d, db_error failure, unit) call" where
  "execute_flush exec table sql = map_err (\<lambda>e. Err (Flush table e)) (exec sql)"

definition flush_inserts ::
  "renderer \<Rightarrow> 'd execute \<Rightarrow> string \<Rightarrow> string \<Rightarrow> string list \<Rightarrow> row list \<Rightarrow> ('d, db_error failure, unit) call" where
  "flush_inserts R exec pg_schema table columns rows =
     (if rows = [] then ret () else execute_flush exec table (insert_sql R pg_schema table columns rows))"

definition flush_updates ::
  "renderer \<Rightarrow> 'd execute \<Rightarrow> string \<Rightarrow> string \<Rightarrow> string list \<Rightarrow> string \<Rightarrow> row list
   \<Rightarrow> ('d, db_error failure, unit) call" where
  "flush_updates R exec pg_schema table columns pk_col rows =
     for_each (\<lambda>r. if update_sets R columns pk_col r = [] then ret ()
                   else execute_flush exec table (update_sql R pg_schema table columns pk_col r)) rows"

definition flush_deletes ::
  "renderer \<Rightarrow> 'd execute \<Rightarrow> string \<Rightarrow> string \<Rightarrow> string \<Rightarrow> row list \<Rightarrow> ('d, db_error failure, unit) call" where
  "flush_deletes R exec pg_schema table pk_col rows =
     (if delete_keys R pk_col rows = [] then ret ()
      else execute_flush exec table (delete_sql R pg_schema table pk_col rows))"

definition is_update :: "row \<Rightarrow> bool" where "is_update r \<longleftrightarrow> row_operation r = Some ''UPDATE''"

definition is_delete :: "row \<Rightarrow> bool" where "is_delete r \<longleftrightarrow> row_operation r = Some ''DELETE''"

definition is_insert :: "row \<Rightarrow> bool" where "is_insert r \<longleftrightarrow> \<not> is_update r \<and> \<not> is_delete r"

text \<open>The three phases of a flush, on the rows taken from the buffer.\<close>

definition flush_rows ::
  "renderer \<Rightarrow> 'd execute \<Rightarrow> write_buffer \<Rightarrow> string \<Rightarrow> row list \<Rightarrow> ('d, db_error failure, unit) call" where
  "flush_rows R exec b table rows =
     (let columns = wb_table_columns b table; pk_col = wb_pk_columns b table;
          inserts = filter is_insert rows; updates = filter is_update rows; deletes = filter is_delete rows
      in seq (case columns of
                Some cols \<Rightarrow> flush_inserts R exec (wb_pg_schema b) table cols inserts
              | None \<Rightarrow> ret ()) (\<lambda>_.
         seq (case (columns, pk_col) of
                (Some cols, Some pk) \<Rightarrow> flush_updates R exec (wb_pg_schema b) table cols pk updates
              | _ \<Rightarrow> ret ()) (\<lambda>_.
         (case pk_col of
            Some pk \<Rightarrow> flush_deletes R exec (wb_pg_schema b) table pk deletes
          | None \<Rightarrow> ret ()))))"

definition flush_table ::
  "renderer \<Rightarrow> 'd execute \<Rightarrow> string \<Rightarrow> (write_buffer \<times> 'd, db_error failure, nat) call" where
  "flush_table R exec table = (\<lambda>(b, d).
     case wb_buffers b table of
       None \<Rightarrow> (Inr 0, (b, d))
     | Some rows \<Rightarrow>
         (let b = set_rows table [] b
          in if rows = [] then (Inr 0, (b, d))
             else (case flush_rows R exec b table rows d of
                 (Inl e, d') \<Rightarrow> (Inl e, (b, d'))
               | (Inr _, d') \<Rightarrow>
                   (Inr (length rows),
                    (b\<lparr>wb_total_flushed := wb_total_flushed b + of_nat (length rows)\<rparr>, d')))))"

text \<open>
  \<open>flush_all\<close>: \<open>keys\<close> lists the keys of the map in some order. The statistics are pairs of
  a table and the number of its rows.
\<close>

fun flush_tables ::
  "renderer \<Rightarrow> 'd execute \<Rightarrow> string list \<Rightarrow> (string \<times> nat) list
   \<Rightarrow> (write_buffer \<times> 'd, db_error failure, (string \<times> nat) list) call" where
  "flush_tables R exec [] stats = ret stats"
| "flush_tables R exec (t # ts) stats =
     seq (flush_table R exec t) (\<lambda>count.
       flush_tables R exec ts (if count > 0 then stats @ [(t, count)] else stats))"

definition flush_all ::
  "renderer \<Rightarrow> 'd execute \<Rightarrow> ((string \<rightharpoonup> row list) \<Rightarrow> string list)
   \<Rightarrow> (write_buffer \<times> 'd, db_error failure, (string \<times> nat) list) call" where
  "flush_all R exec keys = (\<lambda>(b, d). flush_tables R exec (keys (wb_buffers b)) [] (b, d))"

text \<open>The background task: a flush at every tick, whose error is only logged.\<close>

definition background_tick ::
  "renderer \<Rightarrow> 'd execute \<Rightarrow> ((string \<rightharpoonup> row list) \<Rightarrow> string list) \<Rightarrow> write_buffer \<times> 'd \<Rightarrow> write_buffer \<times> 'd" where
  "background_tick R exec keys s = snd (flush_all R exec keys s)"

fun background_flush ::
  "renderer \<Rightarrow> 'd execute \<Rightarrow> ((string \<rightharpoonup> row list) \<Rightarrow> string list) \<Rightarrow> nat \<Rightarrow> write_buffer \<times> 'd \<Rightarrow> write_buffer \<times> 'd" where
  "background_flush R exec keys 0 s = s"
| "background_flush R exec keys (Suc ticks) s = background_flush R exec keys ticks (background_tick R exec keys s)"

section \<open>The context of a handler\<close>

text \<open>The builders of \<open>context.rs\<close>, each applied to the buffer when it is executed.\<close>

definition insert_values :: "(u64 \<Rightarrow> 64 word) \<Rightarrow> json \<Rightarrow> row \<Rightarrow> row" where
  "insert_values u64_as_f64 j r =
     (case j of
        JObject fs \<Rightarrow> foldl (\<lambda>r (k, v). row_insert k (json_to_column_value u64_as_f64 v) r) r fs
      | _ \<Rightarrow> r)"

definition insert_execute :: "string \<Rightarrow> row \<Rightarrow> (write_buffer, db_error failure, unit) call" where
  "insert_execute table r = buffer_insert table r"

record update_builder =
  ub_table :: string
  ub_row :: row
  ub_pk_value :: "column_value option"

definition ctx_update :: "string \<Rightarrow> update_builder" where
  "ctx_update table = \<lparr> ub_table = table, ub_row = new_row, ub_pk_value = None \<rparr>"

definition ub_set :: "string \<Rightarrow> column_value \<Rightarrow> update_builder \<Rightarrow> update_builder" where
  "ub_set col v u = u\<lparr>ub_row := row_insert col v (ub_row u)\<rparr>"

definition ub_where_pk :: "string \<Rightarrow> column_value \<Rightarrow> update_builder \<Rightarrow> update_builder" where
  "ub_where_pk col v u = u\<lparr>ub_row := row_insert col v (ub_row u), ub_pk_value := Some v\<rparr>"

definition ub_execute :: "update_builder \<Rightarrow> (write_buffer, db_error failure, unit) call" where
  "ub_execute u = buffer_update (ub_table u) (ub_row u)
     (case ub_pk_value u of Some v \<Rightarrow> v | None \<Rightarrow> CV_Null)"

record delete_builder =
  db_table :: string
  db_pk_col :: "string option"
  db_pk_value :: "column_value option"

definition ctx_delete :: "string \<Rightarrow> delete_builder" where
  "ctx_delete table = \<lparr> db_table = table, db_pk_col = None, db_pk_value = None \<rparr>"

definition db_where :: "string \<Rightarrow> column_value \<Rightarrow> delete_builder \<Rightarrow> delete_builder" where
  "db_where col v x = x\<lparr>db_pk_col := Some col, db_pk_value := Some v\<rparr>"

definition db_execute :: "delete_builder \<Rightarrow> (write_buffer, db_error failure, unit) call" where
  "db_execute x = buffer_delete (db_table x) (case db_pk_col x of Some c \<Rightarrow> c | None \<Rightarrow> [])
     (case db_pk_value x of Some v \<Rightarrow> v | None \<Rightarrow> CV_Null)"

section \<open>Bounds\<close>

lemma buffered_set [simp]:
  "buffered (set_rows t rows b) t' = (if t' = t then rows else buffered b t')"
  by (simp add: buffered_def set_rows_def)

lemma set_rows_fields [simp]:
  "wb_max_size (set_rows t rows b) = wb_max_size b"
  "wb_table_columns (set_rows t rows b) = wb_table_columns b"
  "wb_pk_columns (set_rows t rows b) = wb_pk_columns b"
  "wb_pg_schema (set_rows t rows b) = wb_pg_schema b"
  by (simp_all add: set_rows_def)

text \<open>
  An insert respects the bound of the buffer: it fails exactly when the
  table's buffer is full and then leaves all rows as they are; otherwise it appends the row
  to its table and touches no other; and no table exceeds the bound that did not before.
\<close>

lemma insert_respects_bound:
  assumes "\<forall>t. length (buffered b t) \<le> wb_max_size b" and "buffer_insert table r b = (res, b')"
  shows "(res = Inl (Err (BufferFull table)) \<longleftrightarrow> length (buffered b table) = wb_max_size b) \<and>
         (res \<noteq> Inr () \<longrightarrow> buffered b' = buffered b) \<and>
         (res = Inr () \<longrightarrow> buffered b' = (buffered b)(table := buffered b table @ [r])) \<and>
         (\<forall>t. length (buffered b' t) \<le> wb_max_size b')"
proof (cases "length (buffered b table) \<ge> wb_max_size b")
  case True
  then have "res = Inl (Err (BufferFull table))" and "b' = set_rows table (buffered b table) b"
    using assms(2) by (auto simp: buffer_insert_def Let_def)
  moreover have "length (buffered b table) = wb_max_size b" using True assms(1) by (simp add: le_antisym)
  ultimately show ?thesis using assms(1) by (auto simp: fun_eq_iff)
next
  case False
  then have "res = Inr ()" and "b' = set_rows table (buffered b table @ [r]) b"
    using assms(2) by (auto simp: buffer_insert_def Let_def)
  then show ?thesis using False assms(1) by (auto simp: fun_eq_iff)
qed

lemma new_buffer_empty [simp]: "buffered (new_buffer pg_schema s) t = []" "wb_max_size (new_buffer pg_schema s) = 10000"
proof -
  have "wb_buffers (foldl add_table b ts) = wb_buffers b \<and> wb_max_size (foldl add_table b ts) = wb_max_size b" for b ts
    by (induction ts arbitrary: b) (auto simp: add_table_def Let_def split: option.splits)
  then show "buffered (new_buffer pg_schema s) t = []" "wb_max_size (new_buffer pg_schema s) = 10000"
    by (simp_all add: new_buffer_def buffered_def)
qed

text \<open>
  Updates and deletes are not bounded: any number of them is accepted, so a
  buffer can grow beyond its maximum size.
\<close>

lemma updates_unbounded:
  "\<exists>b'. for_each (\<lambda>r. buffer_update table r pk) rs b = (Inr (), b') \<and>
        length (buffered b' table) = length (buffered b table) + length rs"
proof (induction rs arbitrary: b)
  case Nil
  then show ?case by (simp add: ret_def)
next
  case (Cons r rs)
  from Cons.IH [of "snd (buffer_update table r pk b)"] show ?case
    by (auto simp: seq_def buffer_update_def)
qed

section \<open>What a flush writes\<close>

text \<open>A database that records the statements it is given.\<close>

definition record_exec :: "string list execute" where
  "record_exec sql = (\<lambda>trace. (Inr (), trace @ [sql]))"

lemma execute_record [simp]: "execute_flush record_exec t sql tr = (Inr (), tr @ [sql])"
  by (simp add: execute_flush_def map_err_def record_exec_def)

lemma for_each_record:
  "for_each (\<lambda>r. if P r then ret () else execute_flush record_exec t (f r)) rows tr =
     (Inr (), tr @ map f (filter (\<lambda>r. \<not> P r) rows))"
  by (induction rows arbitrary: tr) (auto simp: seq_def ret_def)

text \<open>
  A successful flush of a table writes one statement for the inserts, then
  one for each update that sets something, then one for the deletes, each if there are
  any; it reports the number of rows and leaves the table's buffer empty.
\<close>

lemma flush_table_statements:
  assumes "wb_buffers b t = Some rows" and "rows \<noteq> []"
    and "wb_table_columns b t = Some cols" and "wb_pk_columns b t = Some pk"
  shows "\<exists>b'. flush_table R record_exec t (b, trace) =
      (Inr (length rows), b',
       trace
       @ (if filter is_insert rows = [] then []
          else [insert_sql R (wb_pg_schema b) t cols (filter is_insert rows)])
       @ map (update_sql R (wb_pg_schema b) t cols pk)
           (filter (\<lambda>r. update_sets R cols pk r \<noteq> []) (filter is_update rows))
       @ (if delete_keys R pk (filter is_delete rows) = [] then []
          else [delete_sql R (wb_pg_schema b) t pk (filter is_delete rows)])) \<and>
      buffered b' t = []"
proof -
  have upd: "flush_updates R record_exec s t cols pk us tr =
      (Inr (), tr @ map (update_sql R s t cols pk) (filter (\<lambda>r. update_sets R cols pk r \<noteq> []) us))" for s us tr
    unfolding flush_updates_def by (rule for_each_record)
  show ?thesis
    using assms
    by (auto simp: flush_table_def Let_def flush_rows_def seq_def flush_inserts_def flush_deletes_def
        upd ret_def buffered_def set_rows_def)
qed

definition demo_buffer :: "row list \<Rightarrow> write_buffer" where
  "demo_buffer rows = \<lparr> wb_buffers = [''t'' \<mapsto> rows], wb_max_size = 10000, wb_pg_schema = ''public'',
     wb_table_columns = [''t'' \<mapsto> [''id'']], wb_pk_columns = [''t'' \<mapsto> ''id''], wb_total_flushed = 0 \<rparr>"

text \<open>
  A flush that fails loses the rows: they are taken out of the buffer before
  the first statement runs and are not put back on an error.
\<close>

lemma failed_flush_loses_rows:
  assumes "flush_table R exec t (b, d) = (Inl e, b', d')"
  shows "buffered b t \<noteq> [] \<and> buffered b' t = []"
  using assms
  by (auto simp: flush_table_def Let_def buffered_def set_rows_def
      split: option.splits if_splits prod.splits sum.splits)

section \<open>The table behind the buffer\<close>

definition row_key :: "string \<Rightarrow> row \<Rightarrow> column_value" where
  "row_key pk r = value_or_null r pk"

text \<open>What a buffered row asks for.\<close>

definition apply_row :: "string list \<Rightarrow> string \<Rightarrow> row \<Rightarrow> table_state \<Rightarrow> table_state" where
  "apply_row cols pk r =
     (if is_delete r then delete_effect (row_key pk r)
      else if is_update r then update_effect (row_key pk r) (row_sets cols pk r)
      else insert_effect (row_key pk r) (row_content cols r))"

text \<open>The order of a flush: inserts, updates, deletes.\<close>

definition flush_order :: "row list \<Rightarrow> row list" where
  "flush_order rows = filter is_insert rows @ filter is_update rows @ filter is_delete rows"

text \<open>
  A table whose names survive in double quotes, whose key is one of its columns and whose
  columns do not clash with the two that its shadow table adds.
\<close>

definition table_ok :: "string \<Rightarrow> string \<Rightarrow> string list \<Rightarrow> string \<Rightarrow> bool" where
  "table_ok pg_schema table cols pk \<longleftrightarrow>
     plain_name pg_schema \<and> plain_name table \<and> list_all plain_name cols \<and> pk \<in> set cols \<and> distinct cols \<and>
     ''_operation'' \<notin> set cols \<and> ''_block_number'' \<notin> set cols"

text \<open>
  A server that holds a table: \<open>view\<close> is the table in a state of the server and
  \<open>storable\<close> says that a row has a key and values that fit the columns. A statement that
  succeeds has the effect SQL gives it.
\<close>

locale sql_table =
  fixes exec :: "'d execute"
    and view :: "'d \<Rightarrow> table_state"
    and storable :: "row \<Rightarrow> bool"
    and R :: renderer
    and pg_schema table :: string
    and cols :: "string list"
    and pk :: string
  assumes storable_key: "storable r \<Longrightarrow> row_key pk r \<noteq> CV_Null"
    and insert_law: "table_ok pg_schema table cols pk \<Longrightarrow> rows \<noteq> [] \<Longrightarrow> list_all storable rows \<Longrightarrow>
      exec (insert_sql R pg_schema table cols rows) d = (Inr (), d') \<Longrightarrow>
      view d' = fold (\<lambda>r. insert_effect (row_key pk r) (row_content cols r)) rows (view d)"
    and update_law: "table_ok pg_schema table cols pk \<Longrightarrow> storable r \<Longrightarrow> update_sets R cols pk r \<noteq> [] \<Longrightarrow>
      exec (update_sql R pg_schema table cols pk r) d = (Inr (), d') \<Longrightarrow>
      view d' = update_effect (row_key pk r) (row_sets cols pk r) (view d)"
    and delete_law: "table_ok pg_schema table cols pk \<Longrightarrow> rows \<noteq> [] \<Longrightarrow> list_all storable rows \<Longrightarrow>
      exec (delete_sql R pg_schema table pk rows) d = (Inr (), d') \<Longrightarrow>
      view d' = fold (\<lambda>r. delete_effect (row_key pk r)) rows (view d)"

lemma execute_flush_Inr [simp]:
  "execute_flush exec t sql d = (Inr u, d') \<longleftrightarrow> exec sql d = (Inr (), d')"
  by (auto simp: execute_flush_def map_err_def split: prod.splits sum.splits)

lemma update_sets_Nil: "update_sets R cols pk r = [] \<longleftrightarrow> row_sets cols pk r = []"
  by (simp add: row_sets_def update_sets_def filter_map_conv filter_empty_conv)

lemma update_effect_Nil [simp]: "update_effect k [] st = st"
  by (auto simp: update_effect_def split: option.splits)

lemma apply_row_cases:
  "is_insert r \<Longrightarrow> apply_row cols pk r = insert_effect (row_key pk r) (row_content cols r)"
  "is_update r \<Longrightarrow> apply_row cols pk r = update_effect (row_key pk r) (row_sets cols pk r)"
  "is_delete r \<Longrightarrow> apply_row cols pk r = delete_effect (row_key pk r)"
  by (auto simp: apply_row_def is_insert_def is_update_def is_delete_def)

lemma fold_apply_row:
  "list_all is_insert rows \<Longrightarrow>
     fold (apply_row cols pk) rows = fold (\<lambda>r. insert_effect (row_key pk r) (row_content cols r)) rows"
  "list_all is_delete rows \<Longrightarrow>
     fold (apply_row cols pk) rows = fold (\<lambda>r. delete_effect (row_key pk r)) rows"
  by (induction rows) (simp_all add: apply_row_cases)

context sql_table
begin

lemma inserts_view:
  assumes "table_ok pg_schema table cols pk" and "list_all storable rows" and "list_all is_insert rows"
    and "flush_inserts R exec pg_schema table cols rows d = (Inr u, d')"
  shows "view d' = fold (apply_row cols pk) rows (view d)"
  using assms insert_law [OF assms(1) _ assms(2)]
  by (auto simp: flush_inserts_def call_simps fold_apply_row split: if_splits)

lemma updates_view:
  assumes "table_ok pg_schema table cols pk" and "list_all storable rows" and "list_all is_update rows"
    and "flush_updates R exec pg_schema table cols pk rows d = (Inr u, d')"
  shows "view d' = fold (apply_row cols pk) rows (view d)"
  using assms(2-4) unfolding flush_updates_def
proof (induction rows arbitrary: d)
  case Nil
  then show ?case by (simp add: call_simps)
next
  case (Cons r rows)
  from Cons.prems(3) obtain v d1 where
    step: "(if update_sets R cols pk r = [] then ret ()
            else execute_flush exec table (update_sql R pg_schema table cols pk r)) d = (Inr v, d1)"
    and rest: "for_each (\<lambda>r. if update_sets R cols pk r = [] then ret ()
            else execute_flush exec table (update_sql R pg_schema table cols pk r)) rows d1 = (Inr u, d')"
    by (auto simp: seq_Inr_iff)
  have "view d1 = update_effect (row_key pk r) (row_sets cols pk r) (view d)"
  proof (cases "update_sets R cols pk r = []")
    case True
    then have "row_sets cols pk r = []" by (simp add: update_sets_Nil)
    with step True show ?thesis by (simp add: call_simps)
  next
    case False
    then show ?thesis using update_law [OF assms(1) _ False] step Cons.prems(1) by simp
  qed
  moreover have "view d' = fold (apply_row cols pk) rows (view d1)"
    using Cons.prems(1,2) rest by (intro Cons.IH) simp_all
  ultimately show ?case using Cons.prems(2) by (simp add: apply_row_cases)
qed

lemma deletes_view:
  assumes "table_ok pg_schema table cols pk" and "list_all storable rows" and "list_all is_delete rows"
    and "flush_deletes R exec pg_schema table pk rows d = (Inr u, d')"
  shows "view d' = fold (apply_row cols pk) rows (view d)"
proof (cases "rows = []")
  case False
  then obtain r rs where "rows = r # rs" by (cases rows) auto
  then have "row_get r pk \<noteq> None"
    using storable_key [of r] assms(2) by (auto simp: row_key_def value_or_null_def split: option.splits)
  then have "delete_keys R pk rows \<noteq> []" using \<open>rows = r # rs\<close> by (auto simp: delete_keys_def)
  then show ?thesis
    using assms delete_law [OF assms(1) False assms(2)]
    by (simp add: flush_deletes_def fold_apply_row)
qed (use assms in \<open>simp add: flush_deletes_def delete_keys_def call_simps\<close>)

lemma flush_rows_view:
  assumes "table_ok pg_schema table cols pk" and "list_all storable rows"
    and "wb_table_columns b table = Some cols" and "wb_pk_columns b table = Some pk" and "wb_pg_schema b = pg_schema"
    and "flush_rows R exec b table rows d = (Inr u, d')"
  shows "view d' = fold (apply_row cols pk) (flush_order rows) (view d)"
proof -
  from assms(3-6) obtain u1 d1 u2 d2 where
    i: "flush_inserts R exec pg_schema table cols (filter is_insert rows) d = (Inr u1, d1)" and
    u: "flush_updates R exec pg_schema table cols pk (filter is_update rows) d1 = (Inr u2, d2)" and
    x: "flush_deletes R exec pg_schema table pk (filter is_delete rows) d2 = (Inr u, d')"
    by (auto simp: flush_rows_def seq_Inr_iff)
  have "list_all storable (filter P rows)" "list_all P (filter P rows)" for P
    using assms(2) by (auto simp: list_all_iff)
  then show ?thesis
    using inserts_view [OF assms(1) _ _ i] updates_view [OF assms(1) _ _ u] deletes_view [OF assms(1) _ _ x]
    by (simp add: flush_order_def)
qed

lemma flush_table_view:
  assumes "table_ok pg_schema table cols pk" and "list_all storable (buffered b table)"
    and "wb_table_columns b table = Some cols" and "wb_pk_columns b table = Some pk" and "wb_pg_schema b = pg_schema"
    and "flush_table R exec table (b, d) = (Inr n, b', d')"
  shows "view d' = fold (apply_row cols pk) (flush_order (buffered b table)) (view d)"
proof (cases "buffered b table = []")
  case True
  then show ?thesis using assms(6)
    by (auto simp: flush_table_def buffered_def flush_order_def Let_def split: option.splits)
next
  case False
  then obtain u where "flush_rows R exec (set_rows table [] b) table (buffered b table) d = (Inr u, d')"
    using assms(6)
    by (auto simp: flush_table_def buffered_def Let_def split: option.splits prod.splits sum.splits)
  then show ?thesis using assms(1-5) by (intro flush_rows_view) simp_all
qed

end

subsection \<open>The text server keeps the laws\<close>

definition text_storable :: "string \<Rightarrow> row \<Rightarrow> bool" where
  "text_storable pk r \<longleftrightarrow> row_key pk r \<noteq> CV_Null \<and> list_all (plain_value \<circ> snd) (row_columns r)"

lemma text_storable_get: "text_storable pk r \<Longrightarrow> row_get r c = Some v \<Longrightarrow> plain_value v"
  using map_of_SomeD [of "row_columns r" c v] by (auto simp: text_storable_def row_get_def list_all_iff)

lemma read_literal_or_null:
  "text_storable pk r \<Longrightarrow> ends rest \<Longrightarrow>
     read_value (literal_or_null R r c @ rest) = Some (value_or_null r c, rest)"
  using read_value_null [of rest] text_storable_get [of pk r c]
  by (auto simp: literal_or_null_def value_or_null_def read_value_literal split: option.splits)

lemma content_of_row: "content_of cols (map (value_or_null r) cols) = row_content cols r"
  by (auto simp: content_of_def row_content_def map_of_zip_map fun_eq_iff)

lemma text_insert:
  assumes "table_ok S t cols pk" and "rows \<noteq> []" and "list_all (text_storable pk) rows"
    and "text_exec S t cols pk (insert_sql R S t cols rows) d = (Inr (), d')"
  shows "d' = fold (\<lambda>r. insert_effect (row_key pk r) (row_content cols r)) rows d"
proof -
  have key: "row_content cols r pk = row_key pk r" for r
    using assms(1) by (simp add: row_content_def row_key_def table_ok_def)
  have "read_statement (insert_sql R S t cols rows) =
      Some (S_Insert (S, t) cols (map (\<lambda>r. map (value_or_null r) cols) rows))"
    unfolding insert_sql_def
    using assms(1-3) by (intro read_insert_text) (auto simp: table_ok_def list_all_iff intro: read_literal_or_null)
  then show ?thesis
    using assms(4)
    by (auto simp: text_exec_def run_statement_def content_of_row key fold_map o_def split: if_splits)
qed

lemma text_update:
  assumes "table_ok S t cols pk" and "text_storable pk r" and "update_sets R cols pk r \<noteq> []"
    and "text_exec S t cols pk (update_sql R S t cols pk r) d = (Inr (), d')"
  shows "d' = update_effect (row_key pk r) (row_sets cols pk r) d"
proof -
  have sets: "update_sets R cols pk r =
      map (\<lambda>x. quote_ident (fst x) @ '' = '' @ to_sql_literal R (snd x)) (row_sets cols pk r)"
    by (auto simp: update_sets_def row_sets_def filter_map_conv)
  have "read_statement (update_sql R S t cols pk r) = Some (S_Update (S, t) (row_sets cols pk r) pk (row_key pk r))"
    unfolding update_sql_def sets
  proof (rule read_update_text)
    show "read_value (literal_or_null R r pk) = Some (row_key pk r, [])"
      using read_literal_or_null [OF assms(2), of "[]" R pk] by (simp add: row_key_def)
    show "read_value (to_sql_literal R (snd x) @ rest) = Some (snd x, rest)"
      if "x \<in> set (row_sets cols pk r)" "ends rest" for x rest
      using that text_storable_get [OF assms(2)] by (auto simp: row_sets_def set_filter_map read_value_literal)
    show "list_all (plain_name \<circ> fst) (row_sets cols pk r)"
      using assms(1) by (auto simp: table_ok_def list_all_iff row_sets_def set_filter_map)
  qed (use assms(1,3) in \<open>auto simp: table_ok_def list_all_iff update_sets_Nil\<close>)
  then show ?thesis
    using assms(2,4) by (simp add: text_exec_def run_statement_def text_storable_def)
qed

lemma text_delete:
  assumes "table_ok S t cols pk" and "rows \<noteq> []" and "list_all (text_storable pk) rows"
    and "text_exec S t cols pk (delete_sql R S t pk rows) d = (Inr (), d')"
  shows "d' = fold (\<lambda>r. delete_effect (row_key pk r)) rows d"
proof -
  have get: "row_get r pk = Some (row_key pk r)" "row_key pk r \<noteq> CV_Null" if "r \<in> set rows" for r
    using assms(3) that
    by (auto simp: list_all_iff text_storable_def row_key_def value_or_null_def split: option.splits)
  then have keys: "delete_keys R pk rows = map (\<lambda>r. to_sql_literal R (row_key pk r)) rows"
    by (auto simp: delete_keys_def intro: filter_map_all)
  have "read_statement (delete_sql R S t pk rows) = Some (S_Delete (S, t) pk (map (row_key pk) rows))"
    unfolding delete_sql_def keys
  proof (rule read_delete_text)
    show "read_value (to_sql_literal R (row_key pk r) @ rest) = Some (row_key pk r, rest)"
      if "r \<in> set rows" "ends rest" for r rest
      using text_storable_get [of pk r pk] get [OF that(1)] assms(3) that by (simp add: list_all_iff read_value_literal)
  qed (use assms(1,2) in \<open>auto simp: table_ok_def list_all_iff\<close>)
  moreover have "filter (\<lambda>v. v \<noteq> CV_Null) (map (row_key pk) rows) = map (row_key pk) rows"
    using get(2) by (simp add: filter_id_conv)
  ultimately show ?thesis
    using assms(4) by (auto simp: text_exec_def run_statement_def fold_map o_def)
qed

interpretation text_server: sql_table "text_exec S t cols pk" "\<lambda>st. st" "text_storable pk" R S t cols pk
  for S t cols pk R
proof
  show "text_storable pk r \<Longrightarrow> row_key pk r \<noteq> CV_Null" for r
    by (simp add: text_storable_def)
qed (fact text_insert text_update text_delete)+

subsection \<open>Order\<close>

lemma mset_flush_order: "mset (flush_order rows) = mset rows"
proof -
  have "mset (filter is_insert rows) + mset (filter is_update rows) + mset (filter is_delete rows) = mset rows"
    by (induction rows) (auto simp: is_insert_def is_update_def is_delete_def)
  then show ?thesis by (simp add: flush_order_def add.assoc)
qed

lemma apply_row_local:
  "\<exists>g. \<forall>st. apply_row cols pk r st = st(row_key pk r := g (st (row_key pk r)))"
proof -
  have "insert_effect k m st = st(k := (case st k of Some m' \<Rightarrow> Some m' | None \<Rightarrow> Some m))" for k m st
    by (auto simp: insert_effect_def split: option.splits)
  moreover have "update_effect k s st =
      st(k := map_option (\<lambda>m c. case map_of s c of Some v \<Rightarrow> v | None \<Rightarrow> m c) (st k))" for k s st
    by (auto simp: update_effect_def split: option.splits)
  moreover have "delete_effect k st = st(k := None)" for k st
    by (simp add: delete_effect_def)
  ultimately show ?thesis unfolding apply_row_def
    by (cases "is_delete r"; cases "is_update r") (fastforce)+
qed

lemma apply_row_commute:
  assumes "row_key pk x \<noteq> row_key pk y"
  shows "apply_row cols pk x \<circ> apply_row cols pk y = apply_row cols pk y \<circ> apply_row cols pk x"
proof -
  obtain f where f: "\<And>st. apply_row cols pk x st = st(row_key pk x := f (st (row_key pk x)))"
    using apply_row_local by blast
  obtain g where g: "\<And>st. apply_row cols pk y st = st(row_key pk y := g (st (row_key pk y)))"
    using apply_row_local by blast
  show ?thesis using assms by (auto simp: f g fun_eq_iff)
qed

lemma fold_apply_permuted:
  assumes "distinct (map (row_key pk) rows)" and "mset rows' = mset rows"
  shows "fold (apply_row cols pk) rows' st = fold (apply_row cols pk) rows st"
proof -
  have "apply_row cols pk x \<circ> apply_row cols pk y = apply_row cols pk y \<circ> apply_row cols pk x"
    if "x \<in> set rows" "y \<in> set rows" for x y
    using apply_row_commute [of pk x y] assms(1) that by (cases "x = y") (auto simp: distinct_map inj_on_def)
  then have "fold (apply_row cols pk) rows = fold (apply_row cols pk) rows'"
    by (rule fold_multiset_equiv) (simp_all add: assms(2))
  then show ?thesis by simp
qed

lemmas flush_order_fold = fold_apply_permuted [OF _ mset_flush_order]

text \<open>
  Property C15. When no two buffered rows of a table have the same primary key, the order
  of a flush does not matter: on every server that keeps the laws of SQL, the table after a
  successful flush is as if the operations had been performed one by one in the order in
  which the handlers issued them.
\<close>

theorem flush_order_sound:
  assumes "sql_table exec view storable R (wb_pg_schema b) t cols pk"
    and "table_ok (wb_pg_schema b) t cols pk"
    and "wb_table_columns b t = Some cols" and "wb_pk_columns b t = Some pk"
    and "list_all storable (buffered b t)" and "distinct (map (row_key pk) (buffered b t))"
    and "flush_table R exec t (b, d) = (Inr n, b', d')"
  shows "view d' = fold (apply_row cols pk) (buffered b t) (view d)"
  using sql_table.flush_table_view [OF assms(1,2,5,3,4) refl assms(7)] flush_order_fold [OF assms(6)]
  by simp

text \<open>A table of names and a buffer for it.\<close>

definition owner_row :: "string \<Rightarrow> string \<Rightarrow> row" where
  "owner_row i x = row_insert ''owner'' (CV_Text x) (row_insert ''id'' (CV_Text i) new_row)"

definition owner_update :: "string \<Rightarrow> string \<Rightarrow> row" where
  "owner_update i x = (owner_row i x)\<lparr>row_operation := Some ''UPDATE''\<rparr>"

definition id_delete :: "string \<Rightarrow> row" where
  "id_delete i = (row_insert ''id'' (CV_Text i) new_row)\<lparr>row_operation := Some ''DELETE''\<rparr>"

definition owner_buffer :: "row list \<Rightarrow> write_buffer" where
  "owner_buffer rows = \<lparr> wb_buffers = [''token'' \<mapsto> rows], wb_max_size = 10000, wb_pg_schema = ''public'',
     wb_table_columns = [''token'' \<mapsto> [''id'', ''owner'']], wb_pk_columns = [''token'' \<mapsto> ''id''],
     wb_total_flushed = 0 \<rparr>"

abbreviation token_exec :: "table_state execute" where
  "token_exec \<equiv> text_exec ''public'' ''token'' [''id'', ''owner''] ''id''"

lemmas owner_defs = owner_row_def owner_update_def id_delete_def row_insert_def new_row_def row_get_def
  value_or_null_def row_key_def is_insert_def is_update_def is_delete_def

lemma token_table_ok: "table_ok ''public'' ''token'' [''id'', ''owner''] ''id''"
  by (simp add: table_ok_def plain_name_def)

lemma owner_storable:
  "text_storable ''id'' (owner_row i x)" "text_storable ''id'' (owner_update i x)" "text_storable ''id'' (id_delete i)"
  by (simp_all add: text_storable_def owner_defs)

theorem flush_order_sound_witness:
  "\<exists>n b' st. flush_table plain_renderer token_exec ''token''
       (owner_buffer [id_delete ''1'', owner_row ''2'' ''bob''], [CV_Text ''1'' \<mapsto> (\<lambda>_. CV_Null)]) = (Inr n, b', st) \<and>
     st (CV_Text ''1'') = None \<and> map_option (\<lambda>m. m ''owner'') (st (CV_Text ''2'')) = Some (CV_Text ''bob'')"
proof -
  let ?b = "owner_buffer [id_delete ''1'', owner_row ''2'' ''bob'']" and ?d = "[CV_Text ''1'' \<mapsto> (\<lambda>_. CV_Null)]"
  have b: "wb_pg_schema ?b = ''public''" "buffered ?b ''token'' = [id_delete ''1'', owner_row ''2'' ''bob'']"
    "wb_table_columns ?b ''token'' = Some [''id'', ''owner'']" "wb_pk_columns ?b ''token'' = Some ''id''"
    by (simp_all add: owner_buffer_def buffered_def)
  obtain n b' st where f: "flush_table plain_renderer token_exec ''token'' (?b, ?d) = (Inr n, b', st)"
  proof -
    have "fst (flush_table plain_renderer token_exec ''token'' (?b, ?d)) = Inr 2" by code_simp
    then show thesis using that by (cases "flush_table plain_renderer token_exec ''token'' (?b, ?d)") auto
  qed
  have "st = fold (apply_row [''id'', ''owner''] ''id'') [id_delete ''1'', owner_row ''2'' ''bob''] ?d"
    using flush_order_sound [OF _ _ b(3,4) _ _ f, of "\<lambda>st. st" "text_storable ''id''"]
      text_server.sql_table_axioms token_table_ok
    by (simp add: b owner_storable) (simp add: owner_defs)
  then show ?thesis
    using f by (simp add: apply_row_def owner_defs delete_effect_def insert_effect_def row_content_def)
qed

text \<open>
  With two operations on one key the order does matter: when a handler deletes
  a row and then inserts it anew, the table has no such row after a successful flush, on any
  server that keeps the laws of SQL, because the delete runs last; performed in the order
  in which they were issued, the operations would have left the new row.
\<close>

lemma delete_then_insert_lost:
  assumes "sql_table exec view storable R (wb_pg_schema b) t cols pk"
    and "table_ok (wb_pg_schema b) t cols pk"
    and "wb_table_columns b t = Some cols" and "wb_pk_columns b t = Some pk"
    and "buffered b t = [x, y]" and "is_delete x" and "is_insert y" and "row_key pk x = row_key pk y"
    and "storable x" and "storable y"
    and "flush_table R exec t (b, d) = (Inr n, b', d')"
  shows "view d' (row_key pk y) = None \<and>
         fold (apply_row cols pk) [x, y] (view d) (row_key pk y) = Some (row_content cols y)"
proof -
  have "view d' = fold (apply_row cols pk) (flush_order [x, y]) (view d)"
    using sql_table.flush_table_view [OF assms(1,2) _ assms(3,4) refl assms(11)] assms(5,9,10) by simp
  moreover have "flush_order [x, y] = [y, x]"
    using assms(6,7) by (auto simp: flush_order_def is_insert_def is_update_def is_delete_def)
  ultimately show ?thesis
    using assms(6-8) by (simp add: apply_row_cases delete_effect_def insert_effect_def)
qed

lemma delete_then_insert_lost_witness:
  "\<exists>n b' st. flush_table plain_renderer token_exec ''token''
       (owner_buffer [id_delete ''1'', owner_row ''1'' ''bob''], [CV_Text ''1'' \<mapsto> (\<lambda>_. CV_Null)]) = (Inr n, b', st) \<and>
     st (CV_Text ''1'') = None"
proof -
  let ?b = "owner_buffer [id_delete ''1'', owner_row ''1'' ''bob'']" and ?d = "[CV_Text ''1'' \<mapsto> (\<lambda>_. CV_Null)]"
  have b: "wb_pg_schema ?b = ''public''" "buffered ?b ''token'' = [id_delete ''1'', owner_row ''1'' ''bob'']"
    "wb_table_columns ?b ''token'' = Some [''id'', ''owner'']" "wb_pk_columns ?b ''token'' = Some ''id''"
    by (simp_all add: owner_buffer_def buffered_def)
  have key: "row_key ''id'' (owner_row ''1'' ''bob'') = CV_Text ''1''" by (simp add: owner_defs)
  have rows: "is_delete (id_delete ''1'')" "is_insert (owner_row ''1'' ''bob'')"
    "row_key ''id'' (id_delete ''1'') = row_key ''id'' (owner_row ''1'' ''bob'')"
    by (simp_all add: owner_defs)
  have "fst (flush_table plain_renderer token_exec ''token'' (?b, ?d)) = Inr 2" by code_simp
  then obtain n b' st where f: "flush_table plain_renderer token_exec ''token'' (?b, ?d) = (Inr n, b', st)"
    by (cases "flush_table plain_renderer token_exec ''token'' (?b, ?d)") auto
  have "st (row_key ''id'' (owner_row ''1'' ''bob'')) = None"
    using delete_then_insert_lost [OF _ _ b(3,4,2) rows _ _ f, of "\<lambda>st. st" "text_storable ''id''"]
      text_server.sql_table_axioms token_table_ok
    by (simp add: b owner_storable)
  then show ?thesis using f by (simp add: key)
qed

section \<open>The buffer after a flush\<close>

lemma flush_table_buffer:
  assumes "flush_table R exec t (b, d) = (Inr n, b', d')"
  shows "buffered b' t = []" and "t' \<noteq> t \<Longrightarrow> buffered b' t' = buffered b t'"
    and "wb_table_columns b' = wb_table_columns b" and "wb_pk_columns b' = wb_pk_columns b"
    and "wb_pg_schema b' = wb_pg_schema b" and "wb_max_size b' = wb_max_size b"
    and "dom (wb_buffers b') = dom (wb_buffers b)"
  using assms
  by (auto simp: flush_table_def buffered_def Let_def set_rows_def split: option.splits prod.splits sum.splits if_splits)

text \<open>Two buffers for the same tables.\<close>

definition same_tables :: "write_buffer \<Rightarrow> write_buffer \<Rightarrow> bool" where
  "same_tables b b' \<longleftrightarrow> wb_table_columns b' = wb_table_columns b \<and> wb_pk_columns b' = wb_pk_columns b \<and>
     wb_pg_schema b' = wb_pg_schema b \<and> wb_max_size b' = wb_max_size b"

lemma flush_tables_buffer:
  assumes "flush_tables R exec ts stats (b, d) = (Inr n, b', d')"
  shows "same_tables b b' \<and> dom (wb_buffers b') = dom (wb_buffers b) \<and> (\<forall>t. buffered b' t = (if t \<in> set ts then [] else buffered b t))"
  using assms
proof (induction ts arbitrary: b d stats)
  case Nil
  then show ?case by (simp add: ret_def same_tables_def)
next
  case (Cons t ts)
  obtain c b1 d1 where one: "flush_table R exec t (b, d) = (Inr c, b1, d1)"
    and rest: "flush_tables R exec ts (if c > 0 then stats @ [(t, c)] else stats) (b1, d1) = (Inr n, b', d')"
    using Cons.prems by (auto simp: seq_Inr_iff)
  show ?case using Cons.IH [OF rest] flush_table_buffer [OF one] by (auto simp: same_tables_def)
qed

section \<open>The background task\<close>

text \<open>
  While nothing is buffered, the background task sends no statement, whatever the number of
  ticks and the order of the tables.
\<close>

lemma flush_tables_empty:
  assumes "\<forall>t. buffered b t = []"
  shows "\<exists>b' r. flush_tables R exec ts acc (b, d) = (Inr r, (b', d)) \<and> (\<forall>t. buffered b' t = [])"
  using assms
proof (induction ts arbitrary: b acc)
  case Nil
  then show ?case by (simp add: ret_def)
next
  case (Cons t ts)
  obtain b1 where b1: "flush_table R exec t (b, d) = (Inr 0, (b1, d))" "\<forall>t. buffered b1 t = []"
  proof (cases "wb_buffers b t")
    case None
    with Cons.prems that show thesis by (simp add: flush_table_def)
  next
    case (Some rows)
    then have "rows = []" using spec [OF Cons.prems, of t] by (simp add: buffered_def)
    moreover have "\<forall>u. buffered (set_rows t [] b) u = []" using Cons.prems by (simp add: buffered_def set_rows_def)
    ultimately show thesis using Some that by (simp add: flush_table_def Let_def)
  qed
  then show ?case using Cons.IH [of b1 acc] by (simp add: seq_def)
qed

lemma background_flush_idle:
  assumes "\<forall>t. buffered b t = []"
  shows "snd (background_flush R exec keys n (b, d)) = d"
  using assms
proof (induction n arbitrary: b)
  case (Suc n)
  obtain b' r where "flush_all R exec keys (b, d) = (Inr r, (b', d))" "\<forall>t. buffered b' t = []"
    using flush_tables_empty [OF Suc.prems, of R exec "keys (wb_buffers b)" "[]" d] by (auto simp: flush_all_def)
  then show ?case using Suc.IH by (simp add: background_tick_def)
qed simp

end
