(* ===== verification/Backfill.thy ===== *)
theory Backfill
  imports Rpc_Cache Abi_Decoder Write_Buffer
begin

text \<open>
  The historical backfill (\<open>forge-index-sync/src/backfill\<close>): the planner that cuts the block
  range of a contract into chunks, the worker that fetches and decodes the events of a
  chunk, the progress counters and the coordinator that runs the chunks of a chain in
  order; and the tracker of factory addresses (\<open>factory.rs\<close>). Event handlers are user code
  and arguments. The floating-point reports of the progress are in \<open>Progress\<close>, the metrics in
  \<open>Telemetry\<close>.
\<close>

section \<open>The planner\<close>

definition default_chunk_size :: u64 where "default_chunk_size = 2000"

record block_range =
  br_from :: u64
  br_to :: u64

definition range_len :: "block_range \<Rightarrow> (u64, 'e) result" where
  "range_len r = (if br_to r \<ge> br_from r then bind_res (sub_u (br_to r) (br_from r)) (\<lambda>d. add_u d 1) else Inr 0)"

definition range_is_empty :: "block_range \<Rightarrow> (bool, 'e) result" where
  "range_is_empty r = bind_res (range_len r) (\<lambda>n. Inr (n = 0))"

record backfill_plan =
  bp_contract_name :: string
  bp_chain_id :: u64
  bp_ranges :: "block_range list"
  bp_total_blocks :: u64

text \<open>\<open>(from + chunk_size - 1).min(current_block)\<close>.\<close>

definition chunk_end :: "u64 \<Rightarrow> u64 \<Rightarrow> u64 \<Rightarrow> (u64, 'e) result" where
  "chunk_end chunk_size current_block from =
     bind_res (add_u from chunk_size) (\<lambda>a. bind_res (sub_u a 1) (\<lambda>b. Inr (min b current_block)))"

text \<open>The loop \<open>while from <= current_block\<close>; a loop that never ends is \<open>None\<close>.\<close>

partial_function (option) plan_loop ::
  "u64 \<Rightarrow> u64 \<Rightarrow> u64 \<Rightarrow> block_range list \<Rightarrow> (block_range list, sync_error) result option" where
  "plan_loop chunk_size current_block from ranges =
     (if from \<le> current_block then
        (case chunk_end chunk_size current_block from of
           Inl e \<Rightarrow> Some (Inl e)
         | Inr to \<Rightarrow>
             (case add_u to 1 of
                Inl e \<Rightarrow> Some (Inl e)
              | Inr from' \<Rightarrow>
                  plan_loop chunk_size current_block from' (ranges @ [\<lparr> br_from = from, br_to = to \<rparr>])))
      else Some (Inr ranges))"

definition plan ::
  "contract_config \<Rightarrow> u64 \<Rightarrow> u64 \<Rightarrow> u64 option \<Rightarrow> u64 \<Rightarrow> (backfill_plan, sync_error) result option" where
  "plan cfg chain_id current_block checkpoint chunk_size =
     (let start = (case checkpoint of Some c \<Rightarrow> c | None \<Rightarrow> cc_start_block cfg);
          mk = (\<lambda>ranges total_blocks. \<lparr> bp_contract_name = cc_name cfg, bp_chain_id = chain_id,
                                 bp_ranges = ranges, bp_total_blocks = total_blocks \<rparr>)
      in if start > current_block then Some (Inr (mk [] 0))
         else Option.bind (plan_loop chunk_size current_block start []) (\<lambda>r.
           Some (bind_res r (\<lambda>ranges.
             bind_res (sub_u current_block start) (\<lambda>d. bind_res (add_u d 1) (\<lambda>total_blocks. Inr (mk ranges total_blocks)))))))"

section \<open>The worker\<close>

record ('p, 'j) backfill_worker =
  bw_env :: "('p, 'j) client_env"
  bw_decoder :: log_decoder
  bw_contract :: contract_config
  bw_chain_id :: u64
  bw_selectors :: "hash32 list"
  bw_addresses :: "address list"

definition new_worker ::
  "('p, 'j) client_env \<Rightarrow> log_decoder \<Rightarrow> contract_config \<Rightarrow> u64 \<Rightarrow> hash32 list \<Rightarrow> ('p, 'j) backfill_worker" where
  "new_worker E dec contract chain_id selectors =
     \<lparr> bw_env = E, bw_decoder = dec, bw_contract = contract, bw_chain_id = chain_id,
       bw_selectors = selectors,
       bw_addresses = (case cc_address contract of Single a \<Rightarrow> [a] | Multiple as \<Rightarrow> as | Factory _ \<Rightarrow> []) \<rparr>"

definition set_addresses :: "address list \<Rightarrow> ('p, 'j) backfill_worker \<Rightarrow> ('p, 'j) backfill_worker" where
  "set_addresses as W = W\<lparr>bw_addresses := as\<rparr>"

definition worker_filter :: "('p, 'j) backfill_worker \<Rightarrow> block_range \<Rightarrow> log_filter" where
  "worker_filter W r =
     \<lparr> lf_address = bw_addresses W,
       lf_topics = (if bw_selectors W = [] then [] else [Some (bw_selectors W)]),
       lf_from_block = br_from r, lf_to_block = br_to r \<rparr>"

text \<open>The loop over the logs: unknown selectors are skipped, another error ends it.\<close>

fun decode_logs :: "log_decoder \<Rightarrow> string \<Rightarrow> log list \<Rightarrow> (decoded_event list, sync_error) result" where
  "decode_logs dec name [] = Inr []"
| "decode_logs dec name (l # ls) =
     (case decode dec l name of
        Inr e \<Rightarrow> bind_res (decode_logs dec name ls) (\<lambda>es. Inr (e # es))
      | Inl (Err InvalidSelector) \<Rightarrow> decode_logs dec name ls
      | Inl (Err e) \<Rightarrow> Inl (Err (Sync_Decode name e))
      | Inl (Panic m) \<Rightarrow> Inl (Panic m))"

definition event_key :: "decoded_event \<Rightarrow> u64 \<times> u32" where
  "event_key e = (log_block_number (de_raw_log e), log_index (de_raw_log e))"

definition fetch_range ::
  "('p, 'j) backfill_worker \<Rightarrow> block_range
   \<Rightarrow> (('p, 'j) client_state, sync_error failure, decoded_event list) call" where
  "fetch_range W r =
     seq (map_err (lift_err (Sync_Rpc (bw_chain_id W))) (cached_get_logs (bw_env W) (worker_filter W r)))
       (\<lambda>logs. lift_res (bind_res (decode_logs (bw_decoder W) (cc_name (bw_contract W)) logs)
         (\<lambda>events. Inr (sort_key event_key events))))"

section \<open>Progress\<close>

record chain_progress =
  cp_total_blocks :: u64
  cp_processed_blocks :: u64
  cp_events_processed :: u64

definition new_progress :: "u64 \<Rightarrow> chain_progress" where
  "new_progress total_blocks = \<lparr> cp_total_blocks = total_blocks, cp_processed_blocks = 0, cp_events_processed = 0 \<rparr>"

text \<open>\<open>fetch_add\<close> wraps around.\<close>

definition progress_record :: "u64 \<Rightarrow> u64 \<Rightarrow> chain_progress \<Rightarrow> chain_progress" where
  "progress_record blocks events p =
     p\<lparr>cp_processed_blocks := cp_processed_blocks p + blocks,
       cp_events_processed := cp_events_processed p + events\<rparr>"

definition init_chain :: "u64 \<Rightarrow> u64 \<Rightarrow> (u64 \<rightharpoonup> chain_progress) \<Rightarrow> (u64 \<rightharpoonup> chain_progress)" where
  "init_chain chain_id total_blocks m = m(chain_id \<mapsto> new_progress total_blocks)"

definition record_chain :: "u64 \<Rightarrow> u64 \<Rightarrow> u64 \<Rightarrow> (u64 \<rightharpoonup> chain_progress) \<Rightarrow> (u64 \<rightharpoonup> chain_progress)" where
  "record_chain chain_id blocks events m =
     (case m chain_id of Some p \<Rightarrow> m(chain_id \<mapsto> progress_record blocks events p) | None \<Rightarrow> m)"

section \<open>Factory addresses\<close>

type_synonym factory_tracker = "u64 \<times> string \<rightharpoonup> address list"

definition get_addresses :: "factory_tracker \<Rightarrow> u64 \<Rightarrow> string \<Rightarrow> address list" where
  "get_addresses ft chain_id contract = (case ft (chain_id, contract) of Some as \<Rightarrow> as | None \<Rightarrow> [])"

definition address_count :: "factory_tracker \<Rightarrow> u64 \<Rightarrow> string \<Rightarrow> nat" where
  "address_count ft chain_id contract = (case ft (chain_id, contract) of Some as \<Rightarrow> length as | None \<Rightarrow> 0)"

definition add_addresses :: "u64 \<Rightarrow> string \<Rightarrow> address list \<Rightarrow> factory_tracker \<Rightarrow> factory_tracker" where
  "add_addresses chain_id contract as ft = ft((chain_id, contract) \<mapsto> get_addresses ft chain_id contract @ as)"

definition process_factory_event ::
  "decoded_event \<Rightarrow> factory_config \<Rightarrow> u64 \<Rightarrow> string \<Rightarrow> (factory_tracker, sync_error failure, unit) call" where
  "process_factory_event e fac chain_id contract = (\<lambda>ft.
     let err = Inl (Err (FactoryDecode contract (fac_address_parameter fac)))
     in case decoded_get e (fac_address_parameter fac) of
          Inr (D_Address a) \<Rightarrow> (Inr (), ft((chain_id, contract) \<mapsto> get_addresses ft chain_id contract @ [a]))
        | Inr _ \<Rightarrow> (err, ft)
        | Inl (Panic m) \<Rightarrow> (Inl (Panic m), ft)
        | Inl (Err _) \<Rightarrow> (err, ft))"

section \<open>The coordinator\<close>

text \<open>
  What a call of a handler comes to: it panics before it returns its future, the future
  panics when it is awaited, or it returns. A handler works on the buffer and the database.
\<close>

datatype panic_payload = Payload_Str string | Payload_String string | Payload_Other

fun panic_message :: "panic_payload \<Rightarrow> string" where
  "panic_message (Payload_Str s) = s"
| "panic_message (Payload_String s) = s"
| "panic_message Payload_Other = ''unknown panic''"

datatype outcome =
    Call_Panics panic_payload
  | Future_Panics string
  | Returns "string option"

type_synonym 'd handler = "decoded_event \<Rightarrow> write_buffer \<times> 'd \<Rightarrow> outcome \<times> write_buffer \<times> 'd"

record ('p, 'j, 'd) coordinator =
  co_workers :: "u64 \<times> string \<rightharpoonup> ('p, 'j) backfill_worker"
  co_registry :: "string \<rightharpoonup> (decoded_event \<Rightarrow> outcome)"
  co_db_handlers :: "string \<rightharpoonup> 'd handler"
  co_renderer :: renderer
  co_exec :: "'d execute"
  co_keys :: "(string \<rightharpoonup> row list) \<Rightarrow> string list"
  co_fail :: "nat \<Rightarrow> bool"
  co_chain_contracts :: "u64 \<rightharpoonup> contract_config list"
  co_chunk_sizes :: "u64 \<rightharpoonup> u64"

record ('p, 'j, 'd) sync_state =
  ss_client :: "('p, 'j) client_state"
  ss_buffer :: write_buffer
  ss_db :: 'd
  ss_progress :: "u64 \<rightharpoonup> chain_progress"

text \<open>Calls on the parts of the state.\<close>

definition on_client :: "(('p, 'j) client_state, 'e, 'a) call \<Rightarrow> (('p, 'j, 'd) sync_state, 'e, 'a) call" where
  "on_client m = (\<lambda>s. case m (ss_client s) of (r, c) \<Rightarrow> (r, s\<lparr>ss_client := c\<rparr>))"

definition on_cache :: "('j cache_db, 'e, 'a) call \<Rightarrow> (('p, 'j, 'd) sync_state, 'e, 'a) call" where
  "on_cache m = on_client (\<lambda>c. case m (cs_db c) of (r, db) \<Rightarrow> (r, c\<lparr>cs_db := db\<rparr>))"

definition on_buffer :: "(write_buffer \<times> 'd, 'e, 'a) call \<Rightarrow> (('p, 'j, 'd) sync_state, 'e, 'a) call" where
  "on_buffer m = (\<lambda>s. case m (ss_buffer s, ss_db s) of (r, b, d) \<Rightarrow> (r, s\<lparr>ss_buffer := b, ss_db := d\<rparr>))"

definition handler_key :: "decoded_event \<Rightarrow> string" where
  "handler_key e = de_contract_name e @ '':'' @ de_name e"

definition outcome_result :: "string \<Rightarrow> outcome \<Rightarrow> (unit, sync_error) result" where
  "outcome_result key out =
     (case out of
        Call_Panics p \<Rightarrow> Inl (Err (HandlerPanic key (panic_message p)))
      | Future_Panics m \<Rightarrow> Inl (Panic m)
      | Returns _ \<Rightarrow> Inr ())"

definition handle_event ::
  "('p, 'j, 'd) coordinator \<Rightarrow> decoded_event \<Rightarrow> (('p, 'j, 'd) sync_state, sync_error failure, unit) call" where
  "handle_event C e =
     (let key = handler_key e
      in case co_db_handlers C key of
           Some h \<Rightarrow> on_buffer (\<lambda>bd. case h e bd of (out, bd') \<Rightarrow> (outcome_result key out, bd'))
         | None \<Rightarrow> (case co_registry C key of
             Some h \<Rightarrow> lift_res (outcome_result key (h e))
           | None \<Rightarrow> ret ()))"

text \<open>The plans of all contracts, in order; \<open>None\<close> if a plan is never finished.\<close>

fun make_plans ::
  "('p, 'j, 'd) coordinator \<Rightarrow> u64 \<Rightarrow> u64 \<Rightarrow> contract_config list \<Rightarrow> 'j cache_db
   \<Rightarrow> ((backfill_plan list, sync_error) result \<times> 'j cache_db) option" where
  "make_plans C chain_id current_block [] db = Some (Inr [], db)"
| "make_plans C chain_id current_block (k # ks) db =
     (case get_checkpoint (co_fail C) chain_id (cc_name k) db of (cp, db1) \<Rightarrow>
        (let checkpoint = (case cp of Inr c \<Rightarrow> c | Inl _ \<Rightarrow> None);
             chunk_size = (case co_chunk_sizes C chain_id of Some n \<Rightarrow> n | None \<Rightarrow> default_chunk_size)
         in case plan k chain_id current_block checkpoint chunk_size of
              None \<Rightarrow> None
            | Some (Inl e) \<Rightarrow> Some (Inl e, db1)
            | Some (Inr p) \<Rightarrow>
                (case make_plans C chain_id current_block ks db1 of
                   None \<Rightarrow> None
                 | Some (Inl e, db2) \<Rightarrow> Some (Inl e, db2)
                 | Some (Inr ps, db2) \<Rightarrow> Some (Inr (p # ps), db2))))"

text \<open>\<open>plan.ranges.get(range_idx)\<close>.\<close>

definition plan_range :: "nat \<Rightarrow> backfill_plan \<Rightarrow> block_range option" where
  "plan_range idx p = (if idx < length (bp_ranges p) then Some (bp_ranges p ! idx) else None)"

fun fetch_all ::
  "('p, 'j, 'd) coordinator \<Rightarrow> u64 \<Rightarrow> nat \<Rightarrow> backfill_plan list
   \<Rightarrow> (('p, 'j, 'd) sync_state, sync_error failure, decoded_event list) call" where
  "fetch_all C chain_id idx [] = ret []"
| "fetch_all C chain_id idx (p # ps) =
     seq (case plan_range idx p of
            None \<Rightarrow> ret []
          | Some r \<Rightarrow> (case co_workers C (chain_id, bp_contract_name p) of
              None \<Rightarrow> ret []
            | Some w \<Rightarrow> on_client (fetch_range w r)))
       (\<lambda>events. seq (fetch_all C chain_id idx ps) (\<lambda>rest. ret (events @ rest)))"

definition write_checkpoint ::
  "('p, 'j, 'd) coordinator \<Rightarrow> u64 \<Rightarrow> nat \<Rightarrow> backfill_plan
   \<Rightarrow> (('p, 'j, 'd) sync_state, sync_error failure, unit) call" where
  "write_checkpoint C chain_id idx p =
     (case plan_range idx p of
        None \<Rightarrow> ret ()
      | Some r \<Rightarrow>
          seq (lift_res (add_u (br_to r) 1)) (\<lambda>n.
            (\<lambda>s. (Inr (), snd (on_cache (put_checkpoint (co_fail C) chain_id (bp_contract_name p) n) s)))))"

text \<open>The largest length of the ranges number \<open>idx\<close>.\<close>

definition blocks_in_range :: "nat \<Rightarrow> backfill_plan list \<Rightarrow> (u64, sync_error) result" where
  "blocks_in_range idx ps =
     bind_res (map_res range_len (filter_map (plan_range idx) ps)) (\<lambda>ls. Inr (fold max ls 0))"

definition run_range ::
  "('p, 'j, 'd) coordinator \<Rightarrow> u64 \<Rightarrow> backfill_plan list \<Rightarrow> nat
   \<Rightarrow> (('p, 'j, 'd) sync_state, sync_error failure, unit) call" where
  "run_range C chain_id plans idx =
     seq (fetch_all C chain_id idx plans) (\<lambda>fetched.
       let all_events = sort_key event_key fetched
       in seq (for_each (handle_event C) all_events) (\<lambda>_.
          seq (map_err (lift_err Sync_Database) (on_buffer (flush_all (co_renderer C) (co_exec C) (co_keys C)))) (\<lambda>_.
          seq (lift_res (blocks_in_range idx plans)) (\<lambda>blocks.
          seq (for_each (write_checkpoint C chain_id idx) plans) (\<lambda>_ s.
            (Inr (), s\<lparr>ss_progress := record_chain chain_id blocks (of_nat (length all_events)) (ss_progress s)\<rparr>))))))"

definition sum_blocks :: "backfill_plan list \<Rightarrow> (u64, sync_error) result" where
  "sum_blocks ps = fold_res add_u 0 (map bp_total_blocks ps)"

definition max_ranges :: "backfill_plan list \<Rightarrow> nat" where
  "max_ranges ps = fold max (map (length \<circ> bp_ranges) ps) 0"

definition run_chain ::
  "('p, 'j, 'd) coordinator \<Rightarrow> u64 \<Rightarrow> u64 \<Rightarrow> ('p, 'j, 'd) sync_state
   \<Rightarrow> ((unit, sync_error) result \<times> ('p, 'j, 'd) sync_state) option" where
  "run_chain C chain_id current_block s =
     (let contracts = (case co_chain_contracts C chain_id of Some ks \<Rightarrow> ks | None \<Rightarrow> [])
      in if contracts = [] then Some (Inr (), s)
         else (case make_plans C chain_id current_block contracts (cs_db (ss_client s)) of
             None \<Rightarrow> None
           | Some (r, db) \<Rightarrow>
               (let s = s\<lparr>ss_client := (ss_client s)\<lparr>cs_db := db\<rparr>\<rparr>
                in case bind_res r (\<lambda>ps. bind_res (sum_blocks ps) (\<lambda>total_blocks. Inr (ps, total_blocks))) of
                     Inl e \<Rightarrow> Some (Inl e, s)
                   | Inr (plans, total_blocks) \<Rightarrow>
                       Some (for_each (run_range C chain_id plans) [0..<max_ranges plans]
                         (s\<lparr>ss_progress := init_chain chain_id total_blocks (ss_progress s)\<rparr>)))))"

section \<open>The chunks of a plan\<close>

text \<open>The blocks of a range, as numbers.\<close>

definition range_blocks :: "block_range \<Rightarrow> nat list" where
  "range_blocks r = [unat (br_from r)..<unat (br_to r) + 1]"

lemma chunk_end_ok:
  assumes "0 < chunk" and "unat current + unat chunk < 2 ^ 64" and "from \<le> (current :: u64)"
  obtains to where "chunk_end chunk current from = (Inr to :: (u64, 'e) result)"
    "unat to = min (unat from + unat chunk - 1) (unat current)"
proof -
  have le: "unat from \<le> unat current" using assms(3) by (simp add: word_le_nat_alt)
  have "0 < unat chunk" using assms(1) by (simp add: unat_gt_0 word_neq_0_conv)
  have sum: "unat (from + chunk) = unat from + unat chunk"
    using le assms(2) by (simp add: unat_word_ariths)
  then have "(1 :: u64) \<le> from + chunk" using \<open>0 < unat chunk\<close> by (simp add: word_le_nat_alt)
  moreover have "(add_u from chunk :: (u64, 'e) result) = Inr (from + chunk)"
    using le assms(2) by (intro add_u_ok) simp
  ultimately have e: "chunk_end chunk current from = (Inr (min (from + chunk - 1) current) :: (u64, 'e) result)"
    by (simp add: chunk_end_def sub_u_ok)
  have "unat (from + chunk - 1) = unat from + unat chunk - 1"
    using \<open>1 \<le> from + chunk\<close> sum by (simp add: unat_sub)
  then have "unat (min (from + chunk - 1) current) = min (unat from + unat chunk - 1) (unat current)"
    by (auto simp: min_def word_le_nat_alt)
  with e show thesis by (rule that)
qed

lemma plan_loop_correct:
  assumes "0 < chunk" and "unat current + unat chunk < 2 ^ 64" and "unat from \<le> unat current + 1"
  shows "\<exists>rs. plan_loop chunk current from acc = Some (Inr (acc @ rs)) \<and>
           concat (map range_blocks rs) = [unat from..<unat current + 1] \<and>
           (\<forall>r \<in> set rs. br_from r \<le> br_to r \<and> length (range_blocks r) \<le> unat chunk)"
  using assms(3)
proof (induction "unat current + 1 - unat from" arbitrary: "from" acc rule: less_induct)
  case less
  show ?case
  proof (cases "from \<le> current")
    case False
    then show ?thesis
      using less.prems by (simp add: plan_loop.simps [of _ _ "from"] word_le_nat_alt)
  next
    case True
    obtain to where to: "chunk_end chunk current from = (Inr to :: (u64, sync_error) result)"
      and n: "unat to = min (unat from + unat chunk - 1) (unat current)"
      by (rule chunk_end_ok [OF assms(1,2) True])
    have pos: "0 < unat chunk" using assms(1) by (simp add: unat_gt_0 word_neq_0_conv)
    have le: "unat from \<le> unat to" "unat to \<le> unat current"
      using n pos True by (auto simp: word_le_nat_alt)
    have "unat to + 1 < 2 ^ 64" using le(2) assms(2) pos by linarith
    then have nxt: "(add_u to 1 :: (u64, sync_error) result) = Inr (to + 1)"
      and succ: "unat (to + 1) = unat to + 1"
      by (auto intro!: add_u_ok simp: unat_word_ariths)
    let ?r = "\<lparr> br_from = from, br_to = to \<rparr>"
    have "\<exists>rs. plan_loop chunk current (to + 1) (acc @ [?r]) = Some (Inr ((acc @ [?r]) @ rs)) \<and>
        concat (map range_blocks rs) = [unat (to + 1)..<unat current + 1] \<and>
        (\<forall>r \<in> set rs. br_from r \<le> br_to r \<and> length (range_blocks r) \<le> unat chunk)"
      by (rule less.hyps) (use succ le in auto)
    then obtain rs where rs: "plan_loop chunk current (to + 1) (acc @ [?r]) = Some (Inr ((acc @ [?r]) @ rs))"
        "concat (map range_blocks rs) = [unat to + 1..<unat current + 1]"
        "\<forall>r \<in> set rs. br_from r \<le> br_to r \<and> length (range_blocks r) \<le> unat chunk"
      unfolding succ by blast
    have "range_blocks ?r @ [unat to + 1..<unat current + 1] = [unat from..<unat current + 1]"
      using upt_add_eq_append [of "unat from" "unat to + 1" "unat current - unat to"] le
      by (simp add: range_blocks_def)
    moreover have "br_from ?r \<le> br_to ?r \<and> length (range_blocks ?r) \<le> unat chunk"
      using le n pos by (auto simp: range_blocks_def word_le_nat_alt)
    moreover have "plan_loop chunk current from acc = plan_loop chunk current (to + 1) (acc @ [?r])"
      using True to nxt by (simp add: plan_loop.simps [of _ _ "from"])
    ultimately show ?thesis
      using rs by (intro exI [of _ "?r # rs"]) simp
  qed
qed

lemma plan_ok:
  assumes "0 < chunk" and "unat current + unat chunk < 2 ^ 64"
  shows "\<exists>p. plan cfg chain_id current checkpoint chunk = Some (Inr p) \<and>
           concat (map range_blocks (bp_ranges p)) =
             [unat (case checkpoint of Some c \<Rightarrow> c | None \<Rightarrow> cc_start_block cfg)..<unat current + 1] \<and>
           (\<forall>r \<in> set (bp_ranges p). br_from r \<le> br_to r \<and> length (range_blocks r) \<le> unat chunk) \<and>
           unat (bp_total_blocks p) = length (concat (map range_blocks (bp_ranges p)))"
proof -
  let ?start = "case checkpoint of Some c \<Rightarrow> c | None \<Rightarrow> cc_start_block cfg"
  show ?thesis
  proof (cases "?start > current")
    case True
    then show ?thesis by (simp add: plan_def Let_def word_less_nat_alt)
  next
    case False
    then have le: "?start \<le> current" by simp
    then have "unat ?start \<le> unat current + 1" by (simp add: word_le_nat_alt)
    from plan_loop_correct [OF assms this, of "[]"] obtain rs where
      rs: "plan_loop chunk current ?start [] = Some (Inr rs)"
        "concat (map range_blocks rs) = [unat ?start..<unat current + 1]"
        "\<forall>r \<in> set rs. br_from r \<le> br_to r \<and> length (range_blocks r) \<le> unat chunk" by auto
    have pos: "0 < unat chunk" using assms(1) by (simp add: unat_gt_0 word_neq_0_conv)
    have d: "unat (current - ?start) = unat current - unat ?start" using le by (simp add: unat_sub)
    then have "unat (current - ?start) + 1 < 2 ^ 64" using assms(2) pos by linarith
    then have "(add_u (current - ?start) 1 :: (u64, sync_error) result) = Inr (current - ?start + 1)"
      and t: "unat (current - ?start + 1) = unat (current - ?start) + 1"
      by (auto intro!: add_u_ok simp: unat_word_ariths)
    then have "plan cfg chain_id current checkpoint chunk = Some (Inr
        \<lparr> bp_contract_name = cc_name cfg, bp_chain_id = chain_id, bp_ranges = rs,
          bp_total_blocks = current - ?start + 1 \<rparr>)"
      using False rs(1) le by (simp add: plan_def Let_def sub_u_ok)
    moreover have "unat (current - ?start + 1) = length (concat (map range_blocks rs))"
      using t d rs(2) le by (simp add: word_le_nat_alt)
    ultimately show ?thesis using rs(2,3) by auto
  qed
qed

text \<open>
  Property C17. A plan covers the range exactly: for a positive chunk size, the planner
  terminates without a panic, the blocks of its ranges, one range after the other, are
  exactly the blocks from the start (the checkpoint if there is one) to the current block,
  each once and in order, no range is empty or longer than the chunk size, and the total is
  the number of blocks.
\<close>

theorem plan_partitions:
  assumes "0 < chunk" and "unat current + unat chunk < 2 ^ 64"
  shows "\<exists>p. plan cfg chain_id current checkpoint chunk = Some (Inr p) \<and>
           concat (map range_blocks (bp_ranges p)) =
             [unat (case checkpoint of Some c \<Rightarrow> c | None \<Rightarrow> cc_start_block cfg)..<unat current + 1] \<and>
           (\<forall>r \<in> set (bp_ranges p). br_from r \<le> br_to r \<and> length (range_blocks r) \<le> unat chunk) \<and>
           unat (bp_total_blocks p) = length (concat (map range_blocks (bp_ranges p)))"
  using plan_ok [OF assms] .

definition demo_contract :: contract_config where
  "demo_contract = \<lparr> cc_name = ''Token'', cc_abi_json = ''[]'', cc_chain_names = [], cc_address = Multiple [],
     cc_start_block = 3, cc_end_block = None, cc_filter = None, cc_include_transaction = False,
     cc_include_trace = False \<rparr>"

theorem plan_partitions_witness:
  "\<exists>p. plan demo_contract 1 9 None 4 = Some (Inr p) \<and>
       concat (map range_blocks (bp_ranges p)) = [3, 4, 5, 6, 7, 8, 9]"
proof -
  have "(0 :: u64) < 4" "unat (9 :: u64) + unat (4 :: u64) < 2 ^ 64" by simp_all
  from plan_partitions [OF this, of demo_contract 1 None] show ?thesis
    by (auto simp: demo_contract_def upt_rec)
qed

lemma zero_chunk_step:
  assumes "0 < (from :: u64)" and "from \<le> current"
  shows "chunk_end 0 current from = (Inr (from - 1) :: (u64, 'e) result)"
    and "add_u (from - 1) 1 = (Inr from :: (u64, 'e) result)"
proof -
  have pos: "0 < unat from" using assms(1) by (simp add: word_less_nat_alt)
  then have "1 \<le> from" by (simp add: word_le_nat_alt)
  have pred: "unat (from - 1) = unat from - 1" using assms(1) by (simp add: unat_pred)
  then have "from - 1 \<le> current" using assms(2) by (simp add: word_le_nat_alt)
  moreover have "(add_u from 0 :: (u64, 'e) result) = Inr from" by (simp add: add_u_Inr_iff)
  ultimately show "chunk_end 0 current from = (Inr (from - 1) :: (u64, 'e) result)"
    using \<open>1 \<le> from\<close> by (simp add: chunk_end_def sub_u_ok)
  show "add_u (from - 1) 1 = (Inr from :: (u64, 'e) result)"
    using pred pos by (simp add: add_u_Inr_iff)
qed

lemma plan_loop_returns:
  assumes "plan_loop chunk cur frm acc = Some y"
  shows "\<not> (chunk = 0 \<and> 0 < frm \<and> frm \<le> cur)"
proof (rule plan_loop.raw_induct [where P = "\<lambda>chunk cur frm acc y. \<not> (chunk = 0 \<and> 0 < frm \<and> frm \<le> cur)", OF _ assms])
  fix f :: "u64 \<Rightarrow> u64 \<Rightarrow> u64 \<Rightarrow> block_range list \<Rightarrow> (block_range list, sync_error) result option"
  fix chunk cur frm acc y
  assume ih: "\<And>chunk cur frm acc y. f chunk cur frm acc = Some y \<Longrightarrow> \<not> (chunk = 0 \<and> 0 < frm \<and> frm \<le> cur)"
    and step: "(if frm \<le> cur then
        (case chunk_end chunk cur frm of
           Inl e \<Rightarrow> Some (Inl e)
         | Inr to \<Rightarrow>
             (case add_u to 1 of
                Inl e \<Rightarrow> Some (Inl e)
              | Inr from' \<Rightarrow> f chunk cur from' (acc @ [\<lparr> br_from = frm, br_to = to \<rparr>])))
      else Some (Inr acc)) = Some y"
  show "\<not> (chunk = 0 \<and> 0 < frm \<and> frm \<le> cur)"
  proof
    assume z: "chunk = 0 \<and> 0 < frm \<and> frm \<le> cur"
    then have "f 0 cur frm (acc @ [\<lparr> br_from = frm, br_to = frm - 1 \<rparr>]) = Some y"
      using step zero_chunk_step [of frm cur, where ?'e = sync_error] by simp
    from ih [OF this] z show False by simp
  qed
qed



section \<open>What a worker returns\<close>

definition known_selector :: "log_decoder \<Rightarrow> log \<Rightarrow> bool" where
  "known_selector dec l \<longleftrightarrow> (case log_topics l of [] \<Rightarrow> False | t # _ \<Rightarrow> dec t \<noteq> None)"

text \<open>No error of the parameter decoding is an invalid selector.\<close>

definition no_sel :: "(abi_error failure + 'a) \<Rightarrow> bool" where
  "no_sel r \<longleftrightarrow> r \<noteq> Inl (Err InvalidSelector)"

named_theorems no_sel_intros "results that are no selector error"

lemma no_sel_bind [no_sel_intros]: "no_sel m \<Longrightarrow> (\<And>x. m = Inr x \<Longrightarrow> no_sel (f x)) \<Longrightarrow> no_sel (bind_res m f)"
  by (cases m) (auto simp: no_sel_def)

lemma no_sel_basic [no_sel_intros]:
  "no_sel (Inr x)" "no_sel (add_usize a b)" "no_sel (mul_usize a b)" "no_sel (with_capacity n)"
  "no_sel (u256_to_usize slot)" "no_sel (padded_len n)" "no_sel (decode_int slot bits)"
  by (auto simp: no_sel_def add_usize_def mul_usize_def with_capacity_def u256_to_usize_def padded_len_def
      decode_int_def overflow_def Let_def)

lemma no_sel_read_slot [no_sel_intros]: "no_sel (read_slot data off)"
  unfolding read_slot_guarded by (rule no_sel_bind) (auto simp: no_sel_def add_usize_def overflow_def)

lemma no_sel_elementary [no_sel_intros]:
  "no_sel (decode_elementary t slot)" "no_sel (decode_indexed_param t slot)"
  by (cases t; simp add: decode_elementary_def decode_indexed_param_def no_sel_basic)+

lemma no_sel_bytes_at [no_sel_intros]: "no_sel (bytes_at data off)"
  unfolding bytes_at_guarded by (intro no_sel_intros)

lemma no_sel_dynamic_bytes [no_sel_intros]: "no_sel (decode_dynamic_bytes data off)"
  unfolding decode_dynamic_bytes_def by (intro no_sel_intros)

lemma no_sel_items:
  "(\<And>pos. no_sel (f pos)) \<Longrightarrow> no_sel (decode_items f n pos)"
proof (induction n arbitrary: pos)
  case 0
  then show ?case by (simp add: no_sel_basic)
next
  case (Suc n)
  then show ?case
    by (simp add: split_def) (intro no_sel_intros, auto)
qed

lemma no_sel_arrays:
  assumes "\<And>pos. no_sel (f pos)"
  shows "no_sel (array_at f data off)" "no_sel (decode_dynamic_array f data off)"
    "no_sel (decode_fixed_array_dynamic f n data off)"
  unfolding array_at_def decode_dynamic_array_def decode_fixed_array_dynamic_def split_def
  by (intro no_sel_intros no_sel_items assms)+

lemma no_sel_decode:
  "no_sel (decode_param_from_data t data off)"
  "no_sel (decode_tuple_items ps data base pos)"
  "no_sel (decode_param_from_data_at_abs t data off)"
proof (induction t data off and ps data base pos and t data off
    rule: decode_param_from_data_decode_tuple_items_decode_param_from_data_at_abs.induct)
qed (auto simp: split_def intro!: no_sel_intros no_sel_items no_sel_arrays)

lemma decode_InvalidSelector: "decode dec l name = Inl (Err InvalidSelector) \<longleftrightarrow> \<not> known_selector dec l"
proof -
  have "no_sel (fold_res (decode_input l) st ps)" for st ps
  proof (induction ps arbitrary: st)
    case Nil
    then show ?case by (simp add: no_sel_basic)
  next
    case (Cons p ps)
    have "no_sel (decode_input l st p)"
      by (cases st)
        (auto simp: decode_input_def split_def intro!: no_sel_intros no_sel_decode(1), simp add: no_sel_def)
    with Cons.IH show ?case by (auto intro: no_sel_bind)
  qed
  then have "no_sel (bind_res (fold_res (decode_input l) st ps) (\<lambda>x. Inr (g x)))" for st ps and g :: "_ \<Rightarrow> decoded_event"
    by (intro no_sel_intros)
  then show ?thesis
    by (auto simp: decode_def known_selector_def no_sel_def split_def split: list.splits option.splits)
qed

lemma decode_Inr: "decode dec l name = Inr e \<Longrightarrow> de_raw_log e = l \<and> de_contract_name e = name"
  by (auto simp: decode_def bind_res_Inr_iff split: list.splits option.splits)

lemma decode_logs_Inr:
  "decode_logs dec name ls = Inr es \<Longrightarrow>
     list_all2 (\<lambda>l e. decode dec l name = Inr e) (filter (known_selector dec) ls) es"
proof (induction ls arbitrary: es)
  case Nil
  then show ?case by simp
next
  case (Cons l ls)
  show ?case
  proof (cases "decode dec l name")
    case (Inr e)
    then have "known_selector dec l" using decode_InvalidSelector [of dec l name] by auto
    with Inr Cons show ?thesis by (auto simp: bind_res_Inr_iff)
  next
    case (Inl f)
    then have "f = Err InvalidSelector" using Cons.prems by (auto split: failure.splits abi_error.splits)
    moreover from this Inl have "\<not> known_selector dec l" using decode_InvalidSelector by blast
    ultimately show ?thesis using Inl Cons by simp
  qed
qed

text \<open>
  Property C19. A worker neither loses nor invents nor alters nor reorders events: when
  \<open>fetch_range\<close> succeeds, its events are, up to order, what the decoder of the contract makes of
  exactly those logs of the client's answer whose first topic is a known selector, one event
  for each log, under the name of the contract and with the log itself attached, and the events
  ascend by block number and log index.
\<close>

theorem fetch_range_complete:
  assumes "fetch_range W r s = (Inr events, s')"
  shows "\<exists>logs es. cached_get_logs (bw_env W) (worker_filter W r) s = (Inr logs, s') \<and>
           list_all2 (\<lambda>l e. decode (bw_decoder W) l (cc_name (bw_contract W)) = Inr e \<and>
                        de_raw_log e = l \<and> de_contract_name e = cc_name (bw_contract W))
             (filter (known_selector (bw_decoder W)) logs) es \<and>
           mset events = mset es \<and> sorted (map event_key events)"
proof -
  from assms obtain logs es where "cached_get_logs (bw_env W) (worker_filter W r) s = (Inr logs, s')"
    and d: "decode_logs (bw_decoder W) (cc_name (bw_contract W)) logs = Inr es"
    and e: "events = sort_key event_key es"
    by (auto simp: fetch_range_def seq_Inr_iff map_err_def bind_res_Inr_iff split: prod.splits sum.splits)
  moreover have "list_all2 (\<lambda>l e. decode (bw_decoder W) l (cc_name (bw_contract W)) = Inr e \<and>
      de_raw_log e = l \<and> de_contract_name e = cc_name (bw_contract W)) (filter (known_selector (bw_decoder W)) logs) es"
    by (rule list_all2_mono [OF decode_logs_Inr [OF d]]) (simp add: decode_Inr)
  ultimately show ?thesis by (intro exI [of _ logs] exI [of _ es]) (simp add: e)
qed

definition demo_worker :: "(unit, alloy_header) backfill_worker" where
  "demo_worker = \<lparr> bw_env = demo_env,
     bw_decoder = [zero_hash32 \<mapsto> \<lparr> ev_name = ''Ping'', ev_signature = ''Ping()'', ev_selector = zero_hash32, ev_inputs = [] \<rparr>],
     bw_contract = demo_contract, bw_chain_id = 1, bw_selectors = [], bw_addresses = [] \<rparr>"

definition demo_event :: decoded_event where
  "demo_event = \<lparr> de_name = ''Ping'', de_contract_name = ''Token'', de_params = [], de_raw_log = demo_log 5 0 \<rparr>"

text \<open>A client whose cache holds the window of blocks 1 to 10, with one log.\<close>

definition demo_cached_state :: "(unit, alloy_header) client_state" where
  "demo_cached_state = demo_state\<lparr>cs_db := empty_cache
     \<lparr>c_logs := [log_to_row ref_codec 1 (demo_filter 1 10) (demo_log 5 0)]\<rparr>\<rparr>"

lemma demo_decode: "decode (bw_decoder demo_worker) (demo_log 5 0) (cc_name (bw_contract demo_worker)) = Inr demo_event"
  by (simp add: decode_def demo_log_def demo_worker_def demo_event_def demo_contract_def)

lemma demo_fetch:
  "\<exists>s'. fetch_range demo_worker \<lparr> br_from = 1, br_to = 10 \<rparr> demo_cached_state = (Inr [demo_event], s') \<and>
     cached_get_logs demo_env (worker_filter demo_worker \<lparr> br_from = 1, br_to = 10 \<rparr>) demo_cached_state = (Inr [demo_log 5 0], s')"
proof -
  have flt: "worker_filter demo_worker \<lparr> br_from = 1, br_to = 10 \<rparr> = demo_filter 1 10"
    by (simp add: worker_filter_def demo_worker_def demo_filter_def)
  have "fst (store_get_logs ref_codec no_fail 1 (demo_filter 1 10) (cs_db demo_cached_state)) =
      Inr (Some [demo_log 5 0])"
    using demo_log_wf [of 0 5] into_log_to_row [OF ref_codec_ok, of "demo_log 5 0" 1 "demo_filter 1 10"]
    by (simp add: get_logs_rows demo_cached_state_def) (simp add: demo_log_def)
  then obtain db where "store_get_logs ref_codec no_fail 1 (demo_filter 1 10) (cs_db demo_cached_state) =
      (Inr (Some [demo_log 5 0]), db)" by (metis prod.collapse)
  then have get: "cached_get_logs demo_env (demo_filter 1 10) demo_cached_state =
      (Inr [demo_log 5 0], record_hit (demo_cached_state\<lparr>cs_db := db\<rparr>))"
    by (simp add: cached_get_logs_def demo_env_def) (simp add: demo_log_def)
  have "bw_env demo_worker = demo_env" by (simp add: demo_worker_def)
  then show ?thesis
    using get demo_decode by (simp add: fetch_range_def flt seq_def map_err_def lift_res_def)
qed

theorem fetch_range_complete_witness:
  "\<exists>s' logs. fetch_range demo_worker \<lparr> br_from = 1, br_to = 10 \<rparr> demo_cached_state = (Inr [demo_event], s') \<and>
     cached_get_logs (bw_env demo_worker) (worker_filter demo_worker \<lparr> br_from = 1, br_to = 10 \<rparr>)
       demo_cached_state = (Inr logs, s') \<and>
     (\<exists>l. filter (known_selector (bw_decoder demo_worker)) logs = [l] \<and>
        decode (bw_decoder demo_worker) l ''Token'' = Inr demo_event)"
proof -
  obtain s' where f: "fetch_range demo_worker \<lparr> br_from = 1, br_to = 10 \<rparr> demo_cached_state = (Inr [demo_event], s')"
    using demo_fetch by blast
  have "cc_name (bw_contract demo_worker) = ''Token''" by (simp add: demo_worker_def demo_contract_def)
  with fetch_range_complete [OF f] f show ?thesis by (auto simp: list_all2_Cons2)
qed

section \<open>Checkpoints\<close>

text \<open>The checkpoints that a state holds.\<close>

abbreviation checkpoints :: "('p, 'j, 'd) sync_state \<Rightarrow> u64 \<times> string \<rightharpoonup> u64" where
  "checkpoints s \<equiv> c_checkpoints (cs_db (ss_client s))"

lemma get_logs_checkpoints: "c_checkpoints (snd (store_get_logs X fail c f db)) = c_checkpoints db"
  unfolding store_get_logs_def
  by (rule seq_inv [where P = "\<lambda>d. c_checkpoints d = c_checkpoints db"])
    (auto simp: stmt_def Let_def ret_def seq_def split: prod.splits)

lemma put_logs_checkpoints: "c_checkpoints (snd (store_put_logs X fail c f logs db)) = c_checkpoints db"
  unfolding store_put_logs_def
proof (rule seq_inv [where P = "\<lambda>d. c_checkpoints d = c_checkpoints db"])
  show "c_checkpoints (snd (for_each (insert_log_stmt X fail c f) logs d)) = c_checkpoints db"
    if "c_checkpoints d = c_checkpoints db" for d
    by (rule for_each_inv [where P = "\<lambda>d. c_checkpoints d = c_checkpoints db"])
      (use that in \<open>auto simp: insert_log_stmt_def stmt_def Let_def\<close>)
qed (auto simp: stmt_def Let_def ret_def)

lemma cached_get_logs_checkpoints:
  "c_checkpoints (cs_db (snd (cached_get_logs E f s))) = c_checkpoints (cs_db s)"
  using get_logs_checkpoints [of "e_codec E" "e_fail E" "e_chain_id E" f "cs_db s"]
  by (auto simp: cached_get_logs_def Let_def record_hit_def record_miss_def put_logs_checkpoints
      split: prod.splits sum.splits option.splits)

lemma map_err_snd [simp]: "snd (map_err g m s) = snd (m s)"
  by (auto simp: map_err_def split: prod.splits sum.splits)

lemma lift_res_snd [simp]: "snd (lift_res r s) = s"
  by (simp add: lift_res_def)

lemma fetch_range_checkpoints: "c_checkpoints (cs_db (snd (fetch_range W r s))) = c_checkpoints (cs_db s)"
  unfolding fetch_range_def
  by (rule seq_inv [where P = "\<lambda>t. c_checkpoints (cs_db t) = c_checkpoints (cs_db s)"])
    (simp_all add: cached_get_logs_checkpoints)

lemma on_client_checkpoints:
  "(\<And>c. c_checkpoints (cs_db (snd (m c))) = c_checkpoints (cs_db c)) \<Longrightarrow>
   checkpoints (snd (on_client m s)) = checkpoints s"
  by (auto simp: on_client_def split: prod.splits) (metis snd_conv)

lemma on_buffer_checkpoints: "checkpoints (snd (on_buffer m s)) = checkpoints s"
  by (auto simp: on_buffer_def split: prod.splits)

lemma fetch_all_checkpoints:
  fixes C :: "('p, 'j, 'd) coordinator" and s :: "('p, 'j, 'd) sync_state"
  shows "checkpoints (snd (fetch_all C c idx ps s)) = checkpoints s"
proof (induction ps arbitrary: s)
  case Nil
  then show ?case by (simp add: ret_def)
next
  case (Cons p ps)
  show ?case
    unfolding fetch_all.simps
  proof (rule seq_inv [where P = "\<lambda>t. checkpoints t = checkpoints s"])
    fix t :: "('p, 'j, 'd) sync_state" assume t: "checkpoints t = checkpoints s"
    show "checkpoints (snd ((case plan_range idx p of None \<Rightarrow> ret [] | Some r \<Rightarrow>
        (case co_workers C (c, bp_contract_name p) of None \<Rightarrow> ret [] | Some w \<Rightarrow> on_client (fetch_range w r))) t))
        = checkpoints s"
      using t by (auto simp: ret_def on_client_checkpoints fetch_range_checkpoints split: option.splits)
  next
    fix events and t :: "('p, 'j, 'd) sync_state" assume t: "checkpoints t = checkpoints s"
    show "checkpoints (snd (seq (fetch_all C c idx ps) (\<lambda>rest. ret (events @ rest)) t)) = checkpoints s"
      by (rule seq_inv [where P = "\<lambda>t. checkpoints t = checkpoints s"]) (simp_all add: t Cons.IH ret_def)
  qed simp
qed

lemma handle_event_checkpoints: "checkpoints (snd (handle_event C e s)) = checkpoints s"
  by (auto simp: handle_event_def Let_def on_buffer_checkpoints ret_def split: option.splits)

text \<open>What the loop over the checkpoints writes.\<close>

fun advance :: "u64 \<Rightarrow> nat \<Rightarrow> backfill_plan list \<Rightarrow> (u64 \<times> string \<rightharpoonup> u64) \<Rightarrow> (u64 \<times> string \<rightharpoonup> u64)" where
  "advance c idx [] m = m"
| "advance c idx (p # ps) m =
     advance c idx ps (case plan_range idx p of None \<Rightarrow> m
                       | Some r \<Rightarrow> m((c, bp_contract_name p) \<mapsto> br_to r + 1))"

definition bounded_plan :: "backfill_plan \<Rightarrow> bool" where
  "bounded_plan p \<longleftrightarrow> (\<forall>r \<in> set (bp_ranges p). unat (br_to r) + 1 < 2 ^ 64)"

lemma write_checkpoint_ok:
  assumes "co_fail C = no_fail" and "bounded_plan p"
  shows "\<exists>s'. write_checkpoint C c idx p s = (Inr (), s') \<and>
    checkpoints s' = (case plan_range idx p of None \<Rightarrow> checkpoints s
                      | Some r \<Rightarrow> (checkpoints s)((c, bp_contract_name p) \<mapsto> br_to r + 1))"
proof (cases "plan_range idx p")
  case None
  then show ?thesis by (simp add: write_checkpoint_def ret_def)
next
  case (Some r)
  then have "unat (br_to r) + 1 < 2 ^ 64"
    using assms(2) by (auto simp: plan_range_def bounded_plan_def split: if_splits)
  then have "(add_u (br_to r) 1 :: (u64, sync_error) result) = Inr (br_to r + 1)" by (intro add_u_ok) simp
  with Some assms(1) show ?thesis
    by (simp add: write_checkpoint_def seq_def lift_res_def on_cache_def on_client_def put_checkpoint_def Let_def)
qed

lemma write_checkpoints_ok:
  assumes "co_fail C = no_fail" and "\<forall>p \<in> set ps. bounded_plan p"
  shows "\<exists>s'. for_each (write_checkpoint C c idx) ps s = (Inr (), s') \<and> checkpoints s' = advance c idx ps (checkpoints s)"
  using assms(2)
proof (induction ps arbitrary: s)
  case Nil
  then show ?case by (simp add: ret_def)
next
  case (Cons p ps)
  obtain s1 where s1: "write_checkpoint C c idx p s = (Inr (), s1)"
    "checkpoints s1 = (case plan_range idx p of None \<Rightarrow> checkpoints s
                      | Some r \<Rightarrow> (checkpoints s)((c, bp_contract_name p) \<mapsto> br_to r + 1))"
    using write_checkpoint_ok [OF assms(1), of p c idx s] Cons.prems by auto
  from Cons.IH [of s1] Cons.prems s1 show ?case by (auto simp: seq_def split: option.splits)
qed

lemma run_range_checkpoints:
  assumes "co_fail C = no_fail" and "\<forall>p \<in> set plans. bounded_plan p"
    and "run_range C c plans idx s = (r, s')"
  shows "checkpoints s' = (if r = Inr () then advance c idx plans (checkpoints s) else checkpoints s)"
proof -
  let ?P = "\<lambda>t. checkpoints t = checkpoints s"
  let ?flush = "map_err (lift_err Sync_Database) (on_buffer (flush_all (co_renderer C) (co_exec C) (co_keys C)))"
  obtain f s1 where f: "fetch_all C c idx plans s = (f, s1)" by (cases "fetch_all C c idx plans s")
  have s1: "?P s1" using fetch_all_checkpoints [of C c idx plans s] f by simp
  show ?thesis
  proof (cases f)
    case (Inl e)
    with f s1 assms(3) show ?thesis by (auto simp: run_range_def seq_def)
  next
    case (Inr fetched)
    let ?es = "sort_key event_key fetched"
    obtain h s2 where h: "for_each (handle_event C) ?es s1 = (h, s2)" by (cases "for_each (handle_event C) ?es s1")
    have s2: "?P s2"
      using for_each_inv [where P = ?P, OF s1, of ?es "handle_event C"] h by (simp add: handle_event_checkpoints)
    obtain fl s3 where fl: "?flush s2 = (fl, s3)" by (cases "?flush s2")
    have s3: "?P s3"
      using on_buffer_checkpoints [of "flush_all (co_renderer C) (co_exec C) (co_keys C)" s2] fl s2
      by (metis map_err_snd snd_conv)
    obtain s4 where w: "for_each (write_checkpoint C c idx) plans s3 = (Inr (), s4)"
      and s4: "checkpoints s4 = advance c idx plans (checkpoints s)"
      using write_checkpoints_ok [OF assms(1,2), of c idx s3] s3 by auto
    show ?thesis
      using assms(3) f h fl w s2 s3 s4
      by (auto simp: run_range_def seq_def Inr Let_def lift_res_def split: sum.splits)
  qed
qed

lemma advance_other: "k \<notin> bp_contract_name ` set ps \<Longrightarrow> advance c idx ps m (c, k) = m (c, k)"
  by (induction ps arbitrary: m) (auto split: option.splits)

lemma advance_lookup:
  assumes "distinct (map bp_contract_name ps)" and "p \<in> set ps"
  shows "advance c idx ps m (c, bp_contract_name p) =
           (case plan_range idx p of None \<Rightarrow> m (c, bp_contract_name p) | Some r \<Rightarrow> Some (br_to r + 1))"
  using assms
proof (induction ps arbitrary: m)
  case Nil
  then show ?case by simp
next
  case (Cons q ps)
  show ?case
  proof (cases "p = q")
    case True
    then have "bp_contract_name p \<notin> bp_contract_name ` set ps" using Cons.prems(1) by simp
    with True show ?thesis by (auto simp: advance_other split: option.splits)
  next
    case False
    then have p: "p \<in> set ps" using Cons.prems(2) by simp
    then have "bp_contract_name q \<noteq> bp_contract_name p" using Cons.prems(1) by auto
    with Cons.IH [OF _ p] Cons.prems(1) show ?thesis by (auto split: option.splits)
  qed
qed

lemma write_checkpoint_keeps:
  "ss_buffer (snd (write_checkpoint C c idx p s)) = ss_buffer s" "ss_db (snd (write_checkpoint C c idx p s)) = ss_db s"
  "c_logs (cs_db (ss_client (snd (write_checkpoint C c idx p s)))) = c_logs (cs_db (ss_client s))"
  by (auto simp: write_checkpoint_def seq_def lift_res_def ret_def on_cache_def on_client_def put_checkpoint_def stmt_def Let_def
      split: option.splits sum.splits prod.splits)

text \<open>A range that succeeded went through its phases in this order.\<close>

lemma run_range_phases:
  assumes "run_range C c plans idx s = (Inr (), s')"
  obtains events s1 s2 stats where "fetch_all C c idx plans s = (Inr events, s1)"
    and "for_each (handle_event C) (sort_key event_key events) s1 = (Inr (), s2)"
    and "flush_all (co_renderer C) (co_exec C) (co_keys C) (ss_buffer s2, ss_db s2) = (Inr stats, ss_buffer s', ss_db s')"
    and "c_logs (cs_db (ss_client s')) = c_logs (cs_db (ss_client s2))"
proof -
  obtain events s1 s2 fl s3 blocks s4 where fetch: "fetch_all C c idx plans s = (Inr events, s1)" and
    handled: "for_each (handle_event C) (sort_key event_key events) s1 = (Inr (), s2)" and
    flush: "map_err (lift_err Sync_Database) (on_buffer (flush_all (co_renderer C) (co_exec C) (co_keys C))) s2 = (Inr fl, s3)" and
    cp: "for_each (write_checkpoint C c idx) plans s3 = (Inr (), s4)" and
    s': "s' = s4\<lparr>ss_progress := record_chain c blocks (of_nat (length (sort_key event_key events))) (ss_progress s4)\<rparr>"
    using assms by (auto simp: run_range_def Let_def seq_Inr_iff)
  obtain n b d where fl: "flush_all (co_renderer C) (co_exec C) (co_keys C) (ss_buffer s2, ss_db s2) = (Inr n, b, d)"
    and s3: "s3 = s2\<lparr>ss_buffer := b, ss_db := d\<rparr>"
    using flush by (auto simp: map_err_def on_buffer_def split: prod.splits sum.splits)
  let ?P = "\<lambda>t. ss_buffer t = b \<and> ss_db t = d \<and> c_logs (cs_db (ss_client t)) = c_logs (cs_db (ss_client s2))"
  have "?P (snd (for_each (write_checkpoint C c idx) plans s3))"
    by (rule for_each_inv [where P = ?P]) (simp_all add: s3 write_checkpoint_keeps)
  then have "?P s'" using cp s' by simp
  with fetch handled fl show thesis by (intro that [of events s1 s2 n]) simp_all
qed

text \<open>
  Property C20. The checkpoints of a chunk follow its work, all or none of them. When \<open>run_range\<close>
  reports an error, no checkpoint has changed. When it reports success, every contract's range
  was fetched, every event was handled in the order of block and log index, and the rows
  that the handlers had put into the buffer were flushed: the flush succeeded, the database is
  the one that it left, and no table that it went through has rows in the buffer. Then the
  checkpoint of every contract that has this chunk is the block after it, and no other
  contract's checkpoint has moved. Contracts have distinct names, and the table of checkpoints
  does not fail.
\<close>

theorem chunk_checkpoints_atomic:
  assumes "co_fail C = no_fail" and "distinct (map bp_contract_name plans)"
    and "\<forall>p \<in> set plans. \<forall>r \<in> set (bp_ranges p). unat (br_to r) + 1 < 2 ^ 64"
    and "run_range C c plans idx s = (r, s')"
  shows "(r \<noteq> Inr () \<longrightarrow> checkpoints s' = checkpoints s) \<and>
         (r = Inr () \<longrightarrow>
            (\<exists>events s1 s2 stats. fetch_all C c idx plans s = (Inr events, s1) \<and>
               for_each (handle_event C) (sort_key event_key events) s1 = (Inr (), s2) \<and>
               flush_all (co_renderer C) (co_exec C) (co_keys C) (ss_buffer s2, ss_db s2) = (Inr stats, ss_buffer s', ss_db s') \<and>
               (\<forall>t \<in> set (co_keys C (wb_buffers (ss_buffer s2))). buffered (ss_buffer s') t = []) \<and>
               checkpoints s2 = checkpoints s) \<and>
            (\<forall>p \<in> set plans. checkpoints s' (c, bp_contract_name p) =
               (if idx < length (bp_ranges p) then Some (br_to (bp_ranges p ! idx) + 1)
                else checkpoints s (c, bp_contract_name p))) \<and>
            (\<forall>k. k \<notin> bp_contract_name ` set plans \<longrightarrow> checkpoints s' (c, k) = checkpoints s (c, k)))"
proof -
  have b: "\<forall>p \<in> set plans. bounded_plan p" using assms(3) by (simp add: bounded_plan_def)
  note cp = run_range_checkpoints [OF assms(1) b assms(4)]
  have moved: "checkpoints s' (c, bp_contract_name p) =
            (if idx < length (bp_ranges p) then Some (br_to (bp_ranges p ! idx) + 1)
             else checkpoints s (c, bp_contract_name p))" if "r = Inr ()" "p \<in> set plans" for p
    using cp that(1) advance_lookup [OF assms(2) that(2), of c idx "checkpoints s"]
    by (simp add: plan_range_def)
  have phases: "\<exists>events s1 s2 stats. fetch_all C c idx plans s = (Inr events, s1) \<and>
      for_each (handle_event C) (sort_key event_key events) s1 = (Inr (), s2) \<and>
      flush_all (co_renderer C) (co_exec C) (co_keys C) (ss_buffer s2, ss_db s2) = (Inr stats, ss_buffer s', ss_db s') \<and>
      (\<forall>t \<in> set (co_keys C (wb_buffers (ss_buffer s2))). buffered (ss_buffer s') t = []) \<and>
      checkpoints s2 = checkpoints s" if ok: "r = Inr ()"
  proof -
    have run: "run_range C c plans idx s = (Inr (), s')" using assms(4) ok by simp
    obtain events s1 s2 stats where fetch: "fetch_all C c idx plans s = (Inr events, s1)"
      and handled: "for_each (handle_event C) (sort_key event_key events) s1 = (Inr (), s2)"
      and flush: "flush_all (co_renderer C) (co_exec C) (co_keys C) (ss_buffer s2, ss_db s2) = (Inr stats, ss_buffer s', ss_db s')"
      by (rule run_range_phases [OF run])
    have s1: "checkpoints s1 = checkpoints s" using fetch_all_checkpoints [of C c idx plans s] fetch by simp
    have "checkpoints s2 = checkpoints s"
      using for_each_inv [where P = "\<lambda>t. checkpoints t = checkpoints s", OF s1, of "sort_key event_key events" "handle_event C"]
        handled by (simp add: handle_event_checkpoints)
    moreover have "buffered (ss_buffer s') t = []" if "t \<in> set (co_keys C (wb_buffers (ss_buffer s2)))" for t
      using flush_tables_buffer [of "co_renderer C" "co_exec C"] flush that by (fastforce simp: flush_all_def)
    ultimately show ?thesis using fetch handled flush by blast
  qed
  have other: "checkpoints s' (c, k) = checkpoints s (c, k)" if "k \<notin> bp_contract_name ` set plans" for k
    using cp advance_other [OF that] by simp
  show ?thesis
  proof (intro conjI impI allI ballI)
    show "checkpoints s' = checkpoints s" if "r \<noteq> Inr ()" using cp that by simp
  qed (fact phases | erule (1) moved | erule other)+
qed

text \<open>A coordinator without workers and handlers, for the witnesses.\<close>

definition demo_coordinator :: "(unit, alloy_header, string list) coordinator" where
  "demo_coordinator = \<lparr> co_workers = Map.empty, co_registry = Map.empty, co_db_handlers = Map.empty,
     co_renderer = plain_renderer, co_exec = record_exec, co_keys = (\<lambda>_. []), co_fail = no_fail,
     co_chain_contracts = [1 \<mapsto> [demo_contract]], co_chunk_sizes = [1 \<mapsto> 4] \<rparr>"

definition demo_sync_state :: "(unit, alloy_header, string list) sync_state" where
  "demo_sync_state = \<lparr> ss_client = demo_state, ss_buffer = demo_buffer [], ss_db = [], ss_progress = Map.empty \<rparr>"

definition demo_plan :: backfill_plan where
  "demo_plan = \<lparr> bp_contract_name = ''Token'', bp_chain_id = 1,
     bp_ranges = [\<lparr> br_from = 3, br_to = 6 \<rparr>, \<lparr> br_from = 7, br_to = 9 \<rparr>], bp_total_blocks = 7 \<rparr>"

text \<open>One row in the buffer, and a flush that sends it.\<close>

definition flush_coordinator :: "(unit, alloy_header, string list) coordinator" where
  "flush_coordinator = demo_coordinator\<lparr>co_keys := (\<lambda>_. [''t''])\<rparr>"

definition one_row_state :: "(unit, alloy_header, string list) sync_state" where
  "one_row_state = demo_sync_state\<lparr>ss_buffer := demo_buffer [row_insert ''id'' (CV_Int 7) new_row]\<rparr>"

lemma demo_flush_range: "fst (run_range flush_coordinator 1 [demo_plan] 0 one_row_state) = Inr ()"
proof -
  have "(range_len \<lparr> br_from = 3, br_to = 6 \<rparr> :: (u64, sync_error) result) = Inr 4"
    by (simp add: range_len_def sub_u_def add_u_def)
  moreover have "(add_u 6 1 :: (u64, sync_error) result) = Inr 7" by (simp add: add_u_def)
  moreover have "fst (flush_table plain_renderer record_exec ''t'' (demo_buffer [row_insert ''id'' (CV_Int 7) new_row], [])) = Inr 1"
    by (simp add: flush_table_def demo_buffer_def Let_def flush_rows_def seq_def flush_inserts_def flush_updates_def
        flush_deletes_def ret_def set_rows_def is_insert_def is_update_def is_delete_def row_insert_def new_row_def
        split: prod.splits sum.splits)
  ultimately show ?thesis
    by (auto simp: run_range_def demo_plan_def plan_range_def flush_coordinator_def demo_coordinator_def one_row_state_def
        demo_sync_state_def seq_def ret_def on_buffer_def flush_all_def map_err_def lift_res_def blocks_in_range_def
        write_checkpoint_def Let_def on_cache_def on_client_def split: prod.splits sum.splits)
qed

theorem chunk_checkpoints_atomic_witness:
  "\<exists>s'. run_range flush_coordinator 1 [demo_plan] 0 one_row_state = (Inr (), s') \<and>
        checkpoints s' (1, ''Token'') = Some 7 \<and> buffered (ss_buffer s') ''t'' = []"
proof -
  obtain s' where r: "run_range flush_coordinator 1 [demo_plan] 0 one_row_state = (Inr (), s')"
    using demo_flush_range by (metis prod.collapse)
  have "co_fail flush_coordinator = no_fail" "\<And>m. co_keys flush_coordinator m = [''t'']"
    by (simp_all add: demo_coordinator_def flush_coordinator_def)
  with chunk_checkpoints_atomic [OF _ _ _ r] r show ?thesis by (auto simp: demo_plan_def)
qed

section \<open>Resuming\<close>

lemma upt_split: "xs @ ys = [a..<b] \<Longrightarrow> xs \<noteq> [] \<Longrightarrow> ys = [last xs + 1..<b]"
proof -
  assume eq: "xs @ ys = [a..<b]" and ne: "xs \<noteq> []"
  have xs: "xs = take (length xs) [a..<b]" and ys: "ys = drop (length xs) [a..<b]" using eq by (metis append_eq_conv_conj)+
  have le: "length xs \<le> b - a" using eq by (metis length_append length_upt le_add1)
  then have "xs = [a..<a + length xs]" using xs by (metis le_add_diff_inverse take_upt add.commute add_le_cancel_left
        Nat.le_diff_conv2 nat_le_linear diff_is_0_eq' le_zero_eq length_0_conv ne)
  then have "last xs + 1 = a + length xs" using ne by (metis Suc_eq_plus1 Suc_pred' add_gr_0 last_upt
        length_greater_0_conv less_add_same_cancel1)
  with ys show ?thesis by (simp add: drop_upt)
qed

lemma concat_take_drop: "concat (map f (take n xs)) @ concat (map f (drop n xs)) = concat (map f xs)"
  by (metis append_take_drop_id concat_append map_append)

text \<open>The checkpoints after the first \<open>n\<close> chunks.\<close>

definition advances :: "u64 \<Rightarrow> backfill_plan list \<Rightarrow> nat \<Rightarrow> (u64 \<times> string \<rightharpoonup> u64) \<Rightarrow> (u64 \<times> string \<rightharpoonup> u64)" where
  "advances c ps n m = fold (\<lambda>idx. advance c idx ps) [0..<n] m"

lemma advances_Suc: "advances c ps (Suc n) m = advance c n ps (advances c ps n m)"
  by (simp add: advances_def)

lemma advances_lookup:
  assumes "distinct (map bp_contract_name ps)" and "p \<in> set ps"
  shows "advances c ps n m (c, bp_contract_name p) =
    (if min n (length (bp_ranges p)) = 0 then m (c, bp_contract_name p)
     else Some (br_to (bp_ranges p ! (min n (length (bp_ranges p)) - 1)) + 1))"
proof (induction n)
  case 0
  then show ?case by (simp add: advances_def)
next
  case (Suc n)
  show ?case
  proof (cases "n < length (bp_ranges p)")
    case True
    then show ?thesis unfolding advances_Suc advance_lookup [OF assms] by (simp add: plan_range_def)
  next
    case False
    then have "min n (length (bp_ranges p)) = length (bp_ranges p)"
      "min (Suc n) (length (bp_ranges p)) = length (bp_ranges p)" by simp_all
    with False Suc show ?thesis
      unfolding advances_Suc advance_lookup [OF assms] by (simp add: plan_range_def)
  qed
qed

lemma run_ranges_checkpoints:
  assumes "co_fail C = no_fail" and "\<forall>p \<in> set plans. bounded_plan p"
    and "for_each (run_range C c plans) [i..<m] s = (r, s')" and "i \<le> m"
    and "checkpoints s = advances c plans i m0"
  shows "\<exists>n. n \<le> m \<and> checkpoints s' = advances c plans n m0 \<and> (r = Inr () \<longrightarrow> n = m)"
  using assms(3-5)
proof (induction "m - i" arbitrary: i s)
  case 0
  then show ?case by (auto simp: ret_def)
next
  case (Suc d)
  then have i: "i < m" and up: "[i..<m] = i # [Suc i..<m]" by (auto simp: upt_conv_Cons)
  obtain r1 s1 where r1: "run_range C c plans i s = (r1, s1)" by (cases "run_range C c plans i s")
  note cp = run_range_checkpoints [OF assms(1,2) r1]
  show ?case
  proof (cases "r1 = Inr ()")
    case True
    then have "for_each (run_range C c plans) [Suc i..<m] s1 = (r, s')"
      using Suc.prems(1) r1 by (simp add: up seq_def)
    moreover have "checkpoints s1 = advances c plans (Suc i) m0"
      using cp True Suc.prems(3) by (simp add: advances_Suc)
    ultimately show ?thesis using Suc.hyps(1) [of "Suc i" s1] Suc.hyps(2) i by auto
  next
    case False
    then obtain e where "r1 = Inl e" by (cases r1) auto
    then have "r = Inl e" "s' = s1" using Suc.prems(1) r1 by (auto simp: up seq_def)
    with cp False Suc.prems(3) i show ?thesis by (intro exI [of _ i]) auto
  qed
qed

definition chunk_of :: "('p, 'j, 'd) coordinator \<Rightarrow> u64 \<Rightarrow> u64" where
  "chunk_of C c = (case co_chunk_sizes C c of Some n \<Rightarrow> n | None \<Rightarrow> default_chunk_size)"

lemma make_plans_ok:
  assumes "co_fail C = no_fail" and "0 < chunk_of C c" and "unat current + unat (chunk_of C c) < 2 ^ 64"
  shows "\<exists>ps db'. make_plans C c current ks db = Some (Inr ps, db') \<and> c_checkpoints db' = c_checkpoints db \<and>
           list_all2 (\<lambda>k p. plan k c current (c_checkpoints db (c, cc_name k)) (chunk_of C c) = Some (Inr p)) ks ps"
proof (induction ks arbitrary: db)
  case Nil
  then show ?case by simp
next
  case (Cons k ks)
  let ?db1 = "db\<lparr>c_clock := Suc (c_clock db)\<rparr>"
  have cp: "get_checkpoint (co_fail C) c (cc_name k) db = (Inr (c_checkpoints db (c, cc_name k)), ?db1)"
    by (simp add: get_checkpoint_def assms(1) Let_def)
  obtain p where p: "plan k c current (c_checkpoints db (c, cc_name k)) (chunk_of C c) = Some (Inr p)"
    using plan_ok [OF assms(2,3)] by blast
  from Cons.IH [of ?db1] obtain ps db' where "make_plans C c current ks ?db1 = Some (Inr ps, db')"
    "c_checkpoints db' = c_checkpoints db"
    "list_all2 (\<lambda>k p. plan k c current (c_checkpoints db (c, cc_name k)) (chunk_of C c) = Some (Inr p)) ks ps"
    by auto
  with cp p show ?case by (simp add: Let_def chunk_of_def)
qed

text \<open>Where the next run would start.\<close>

definition next_start :: "u64 \<Rightarrow> contract_config \<Rightarrow> ('p, 'j, 'd) sync_state \<Rightarrow> u64" where
  "next_start c k s = (case checkpoints s (c, cc_name k) of Some b \<Rightarrow> b | None \<Rightarrow> cc_start_block k)"

lemma resume_split:
  assumes "concat (map range_blocks rs) = [a..<b]" and "\<forall>r \<in> set rs. br_from r \<le> br_to r"
    and "0 < k" and "k \<le> length rs"
  shows "concat (map range_blocks (take k rs)) @ [unat (br_to (rs ! (k - 1))) + 1..<b] = [a..<b]"
proof -
  let ?xs = "concat (map range_blocks (take k rs))"
  have take: "take k rs = take (k - 1) rs @ [rs ! (k - 1)]"
    using assms(3,4) by (metis Suc_pred' diff_less less_le_trans take_Suc_conv_app_nth zero_less_one)
  have "br_from (rs ! (k - 1)) \<le> br_to (rs ! (k - 1))" using assms(2-4) by (intro bspec [OF assms(2)]) simp
  then have "range_blocks (rs ! (k - 1)) \<noteq> []" "last (range_blocks (rs ! (k - 1))) = unat (br_to (rs ! (k - 1)))"
    by (auto simp: range_blocks_def word_le_nat_alt)
  then have "?xs \<noteq> []" "last ?xs = unat (br_to (rs ! (k - 1)))" unfolding take by auto
  then show ?thesis
    using upt_split [of ?xs "concat (map range_blocks (drop k rs))" a b] concat_take_drop [of range_blocks k rs] assms(1)
    by metis
qed

lemma plan_name: "plan k c current cp chunk = Some (Inr p) \<Longrightarrow> bp_contract_name p = cc_name k"
  by (auto simp: plan_def Let_def bind_res_Inr_iff Option.bind_eq_Some_conv split: if_splits)

lemma plan_bounds:
  assumes "plan k c current cp chunk = Some (Inr p)"
    and "0 < chunk" and "unat current + unat chunk < 2 ^ 64"
  shows "concat (map range_blocks (bp_ranges p)) =
           [unat (case cp of Some b \<Rightarrow> b | None \<Rightarrow> cc_start_block k)..<unat current + 1]"
    and "r \<in> set (bp_ranges p) \<Longrightarrow> br_from r \<le> br_to r"
    and "r \<in> set (bp_ranges p) \<Longrightarrow> unat (br_to r) + 1 < 2 ^ 64"
proof -
  from plan_ok [OF assms(2,3), of k c cp] assms(1)
  show blocks: "concat (map range_blocks (bp_ranges p)) =
           [unat (case cp of Some b \<Rightarrow> b | None \<Rightarrow> cc_start_block k)..<unat current + 1]"
    and ord: "r \<in> set (bp_ranges p) \<Longrightarrow> br_from r \<le> br_to r" by auto
  assume r: "r \<in> set (bp_ranges p)"
  with ord have "unat (br_to r) \<in> set (range_blocks r)" by (simp add: range_blocks_def word_le_nat_alt)
  then have "unat (br_to r) \<in> set (concat (map range_blocks (bp_ranges p)))" using r by auto
  then have "unat (br_to r) \<le> unat current" unfolding blocks by auto
  moreover have "0 < unat chunk" using assms(2) by (simp add: unat_gt_0 word_neq_0_conv)
  ultimately show "unat (br_to r) + 1 < 2 ^ 64" using assms(3) by linarith
qed

lemma resume_blocks:
  assumes "plan k c current cp chunk = Some (Inr p)" and "0 < chunk" and "unat current + unat chunk < 2 ^ 64"
    and "start = (case cp of Some b \<Rightarrow> b | None \<Rightarrow> cc_start_block k)"
  shows "concat (map range_blocks (take n (bp_ranges p))) @
      [unat (if min n (length (bp_ranges p)) = 0 then start
             else br_to (bp_ranges p ! (min n (length (bp_ranges p)) - 1)) + 1)..<unat current + 1] =
      [unat start..<unat current + 1]"
proof (cases "min n (length (bp_ranges p)) = 0")
  case True
  then have "n = 0 \<or> bp_ranges p = []" by (simp add: min_def split: if_splits)
  with True show ?thesis by (elim disjE) simp_all
next
  case False
  let ?k = "min n (length (bp_ranges p))"
  let ?to = "br_to (bp_ranges p ! (?k - 1))"
  note b = plan_bounds [OF assms(1-3)]
  have "unat ?to + 1 < 2 ^ 64" using False by (intro b(3)) (simp add: min_def split: if_splits)
  then have succ: "unat (?to + 1) = unat ?to + 1" by (simp add: unat_word_ariths)
  have eq: "concat (map range_blocks (take ?k (bp_ranges p))) @ [unat ?to + 1..<unat current + 1] =
      [unat start..<unat current + 1]"
    by (rule resume_split) (use False b(1,2) assms(4) in simp_all)
  have take: "take ?k (bp_ranges p) = take n (bp_ranges p)" by (simp add: min_def)
  show ?thesis using eq unfolding take by (simp only: False if_False succ)
qed

lemma max_ranges_ge: "p \<in> set ps \<Longrightarrow> length (bp_ranges p) \<le> max_ranges ps"
proof -
  have ge: "a \<le> fold max xs a" for a :: nat and xs
    by (induction xs arbitrary: a) (simp, metis fold_simps(2) max.cobounded2 order_trans)
  have "x \<in> set xs \<Longrightarrow> x \<le> fold max xs a" for x a :: nat and xs
  proof (induction xs arbitrary: a)
    case (Cons y ys)
    then show ?case using ge [of "max y a" ys] by (cases "x = y") auto
  qed simp
  then show "p \<in> set ps \<Longrightarrow> length (bp_ranges p) \<le> max_ranges ps" by (auto simp: max_ranges_def)
qed

lemma run_chain_advances:
  assumes "co_fail C = no_fail" and "co_chain_contracts C c = Some ks" and "ks \<noteq> []"
    and "make_plans C c current ks (cs_db (ss_client s)) = Some (Inr ps, db')"
    and "c_checkpoints db' = checkpoints s" and "\<forall>p \<in> set ps. bounded_plan p"
    and "run_chain C c current s = Some (r, s')"
  shows "\<exists>n. checkpoints s' = advances c ps n (checkpoints s) \<and>
           (r = Inr () \<longrightarrow> (\<forall>p \<in> set ps. length (bp_ranges p) \<le> n))"
proof (cases "sum_blocks ps")
  case (Inl e)
  then have "r = Inl e" "checkpoints s' = checkpoints s" using assms by (auto simp: run_chain_def Let_def)
  then show ?thesis by (intro exI [of _ 0]) (simp add: advances_def)
next
  case (Inr total)
  let ?s = "s\<lparr>ss_client := (ss_client s)\<lparr>cs_db := db'\<rparr>, ss_progress := init_chain c total (ss_progress s)\<rparr>"
  have run: "for_each (run_range C c ps) [0..<max_ranges ps] ?s = (r, s')"
    using assms(2-4,7) Inr by (simp add: run_chain_def Let_def)
  have "checkpoints ?s = advances c ps 0 (checkpoints s)" using assms(5) by (simp add: advances_def)
  from run_ranges_checkpoints [OF assms(1,6) run _ this] max_ranges_ge show ?thesis by auto
qed

lemma plans_bounded:
  assumes "list_all2 (\<lambda>k p. plan k c current (cp k) chunk = Some (Inr p)) ks ps"
    and "0 < chunk" and "unat current + unat chunk < 2 ^ 64"
  shows "\<forall>p \<in> set ps. bounded_plan p"
  using assms(1)
proof (induction rule: list_all2_induct)
  case (Cons k ks p ps)
  have "bounded_plan p"
    unfolding bounded_plan_def using plan_bounds(3) [OF Cons.hyps(1) assms(2,3)] by blast
  with Cons.IH show ?case by simp
qed simp

lemma list_all2_names:
  assumes "list_all2 (\<lambda>k p. plan k c current (cp k) chunk = Some (Inr p)) ks ps"
  shows "map bp_contract_name ps = map cc_name ks"
  using assms by (induction rule: list_all2_induct) (auto dest: plan_name)

text \<open>The last range of a plan with blocks ends at the current block.\<close>

lemma plan_last:
  assumes "plan k c current cp chunk = Some (Inr p)" and "0 < chunk" and "unat current + unat chunk < 2 ^ 64"
  shows "bp_ranges p \<noteq> [] \<longleftrightarrow> (case cp of Some b \<Rightarrow> b | None \<Rightarrow> cc_start_block k) \<le> current"
    and "bp_ranges p \<noteq> [] \<Longrightarrow> br_to (last (bp_ranges p)) = current"
proof -
  let ?rs = "bp_ranges p" and ?start = "case cp of Some b \<Rightarrow> b | None \<Rightarrow> cc_start_block k"
  note b = plan_bounds [OF assms]
  have ne: "range_blocks r \<noteq> [] \<and> last (range_blocks r) = unat (br_to r)" if "r \<in> set ?rs" for r
    using b(2) [OF that] by (simp add: range_blocks_def word_le_nat_alt)
  have "?rs = [] \<longleftrightarrow> concat (map range_blocks ?rs) = []" using ne by (cases ?rs) auto
  also have "\<dots> \<longleftrightarrow> unat current < unat ?start" unfolding b(1) by auto
  finally show "?rs \<noteq> [] \<longleftrightarrow> ?start \<le> current" by (auto simp: word_le_nat_alt)
  assume rs: "?rs \<noteq> []"
  then have split: "?rs = butlast ?rs @ [last ?rs]" by simp
  have "unat (br_to (last ?rs)) = last (concat (map range_blocks ?rs))"
    by (subst (2) split) (use ne [OF last_in_set [OF rs]] in simp)
  also have "\<dots> = unat current"
    unfolding b(1) using rs \<open>?rs \<noteq> [] \<longleftrightarrow> ?start \<le> current\<close> by (simp add: word_le_nat_alt)
  finally show "br_to (last ?rs) = current" by (rule unsigned_word_eqI)
qed



end
