(* ===== verification/Chain_State.thy ===== *)
theory Chain_State
  imports Core_Types
begin

text \<open>
  The window of recent block hashes that reorganisations are detected with
  (\<open>forge-index-sync/src/reorg/chain_state.rs\<close>): a queue of pairs of a block number and a
  hash. Its abstract counterpart is a finite map from block numbers to hashes; on a window
  whose numbers ascend, the loop of \<open>prune_above\<close> is the restriction of that map.
\<close>

record chain_state =
  recent_blocks :: "(u64 \<times> hash32) list"
  capacity :: nat

definition default_capacity :: nat where "default_capacity = 128"

definition new_chain_state :: "nat \<Rightarrow> chain_state" where
  "new_chain_state c = \<lparr> recent_blocks = [], capacity = c \<rparr>"

definition default_chain_state :: chain_state where
  "default_chain_state = new_chain_state default_capacity"

definition push :: "u64 \<Rightarrow> hash32 \<Rightarrow> chain_state \<Rightarrow> chain_state" where
  "push number hash st =
     (let rb = (if length (recent_blocks st) \<ge> capacity st then drop 1 (recent_blocks st)
                else recent_blocks st)
      in st\<lparr>recent_blocks := rb @ [(number, hash)]\<rparr>)"

definition get_hash :: "chain_state \<Rightarrow> u64 \<Rightarrow> hash32 option" where
  "get_hash st number =
     map_option snd (find (\<lambda>(n, _). n = number) (recent_blocks st))"

definition latest_block :: "chain_state \<Rightarrow> (u64 \<times> hash32) option" where
  "latest_block st = (if recent_blocks st = [] then None else Some (last (recent_blocks st)))"

text \<open>The loop \<open>while let Some(&(n, _)) = self.recent_blocks.back()\<close>.\<close>

function prune_back :: "u64 \<Rightarrow> (u64 \<times> hash32) list \<Rightarrow> (u64 \<times> hash32) list" where
  "prune_back number rb =
     (if rb = [] then []
      else if fst (last rb) > number then prune_back number (butlast rb)
      else rb)"
  by pat_completeness auto
termination by (relation "measure (length \<circ> snd)") auto

declare prune_back.simps [simp del]

definition prune_above :: "u64 \<Rightarrow> chain_state \<Rightarrow> chain_state" where
  "prune_above number st = st\<lparr>recent_blocks := prune_back number (recent_blocks st)\<rparr>"

definition state_len :: "chain_state \<Rightarrow> nat" where
  "state_len st = length (recent_blocks st)"

definition state_is_empty :: "chain_state \<Rightarrow> bool" where
  "state_is_empty st \<longleftrightarrow> recent_blocks st = []"

section \<open>The window as a map\<close>

named_theorems window_simps "reading a window of recent blocks"

lemma find_fst_map_of: "find (\<lambda>(n, _). n = k) xs = map_option (Pair k) (map_of xs k)"
  by (induction xs) auto

lemma get_hash_map_of [window_simps]: "get_hash st n = map_of (recent_blocks st) n"
  by (simp add: get_hash_def find_fst_map_of option.map_comp o_def option.map_ident)

lemma prune_back_snoc [simp]:
  "prune_back m (rb @ [x]) = (if fst x > m then prune_back m rb else rb @ [x])"
  by (simp add: prune_back.simps)

lemma prune_back_Nil [simp]: "prune_back m [] = []"
  by (simp add: prune_back.simps)

lemma prune_back_prefix: "\<exists>k. prune_back m rb = take k rb"
proof (induction rb rule: rev_induct)
  case Nil
  then show ?case by simp
next
  case (snoc x rb)
  then obtain k where "prune_back m rb = take k rb" by blast
  then show ?case
    by (cases "fst x > m")
      (auto simp: min_def intro: exI [of _ "min k (length rb)"] exI [of _ "Suc (length rb)"])
qed

definition ascending :: "chain_state \<Rightarrow> bool" where
  "ascending st \<longleftrightarrow> sorted_wrt (<) (map fst (recent_blocks st))"

text \<open>On ascending numbers the loop removes exactly the entries above the bound.\<close>

lemma prune_back_filter:
  "sorted_wrt (<) (map fst rb) \<Longrightarrow> prune_back m rb = filter (\<lambda>x. fst x \<le> m) rb"
proof (induction rb rule: rev_induct)
  case Nil
  then show ?case by simp
next
  case (snoc x rb)
  then have below: "\<forall>y \<in> set rb. fst y < fst x" and asc: "sorted_wrt (<) (map fst rb)"
    by (auto simp: sorted_wrt_append)
  show ?case
  proof (cases "fst x > m")
    case True
    with snoc.IH [OF asc] show ?thesis by simp
  next
    case False
    then have "\<forall>y \<in> set rb. fst y \<le> m" using below by fastforce
    with False show ?thesis by (auto simp: not_less)
  qed
qed

lemma map_of_filter_le:
  "map_of (filter (\<lambda>x. fst x \<le> (m :: u64)) rb) n = (if n \<le> m then map_of rb n else None)"
  by (induction rb) auto

lemma prune_above_map [window_simps]:
  "ascending st \<Longrightarrow> get_hash (prune_above m st) n = (if n \<le> m then get_hash st n else None)"
  by (simp add: ascending_def get_hash_map_of prune_above_def prune_back_filter map_of_filter_le)

lemma prune_above_ascending: "ascending st \<Longrightarrow> ascending (prune_above m st)"
proof -
  assume "ascending st"
  then show ?thesis
    using prune_back_prefix [of m "recent_blocks st"]
    by (auto simp: ascending_def prune_above_def take_map [symmetric] intro: sorted_wrt_take)
qed

lemma push_ascending:
  assumes "ascending st" and "\<forall>x \<in> set (recent_blocks st). fst x < n"
  shows "ascending (push n h st)"
proof -
  have "\<forall>x \<in> set (drop k (recent_blocks st)). fst x < n" for k
    using assms(2) by (meson in_set_dropD)
  then show ?thesis
    using assms by (auto simp: ascending_def push_def Let_def sorted_wrt_append drop_map [symmetric]
        sorted_wrt_drop)
qed

section \<open>The window never outgrows its capacity\<close>

definition window_ok :: "chain_state \<Rightarrow> bool" where
  "window_ok st \<longleftrightarrow> length (recent_blocks st) \<le> max 1 (capacity st)"

lemma window_ok_new [simp]: "window_ok (new_chain_state c)"
  by (simp add: window_ok_def new_chain_state_def)

lemma window_ok_push: "window_ok st \<Longrightarrow> window_ok (push n h st)"
  by (auto simp: window_ok_def push_def Let_def)

lemma window_ok_prune: "window_ok st \<Longrightarrow> window_ok (prune_above m st)"
  using prune_back_prefix [of m "recent_blocks st"]
  by (auto simp: window_ok_def prune_above_def)

lemma capacity_ops [simp]:
  "capacity (push n h st) = capacity st" "capacity (prune_above m st) = capacity st"
  "capacity (new_chain_state c) = c"
  by (simp_all add: push_def prune_above_def new_chain_state_def Let_def)

lemma push_nonempty [simp]: "recent_blocks (push n h st) \<noteq> []"
  by (simp add: push_def Let_def)

lemma latest_push [simp]: "latest_block (push n h st) = Some (n, h)"
  by (simp add: latest_block_def push_def Let_def)

text \<open>Pushing onto a window keeps the last entries of the history.\<close>

lemma push_last_entries:
  assumes "capacity st = c" and "0 < c" and "recent_blocks st = drop (length xs - c) xs"
  shows "recent_blocks (push n h st) = drop (length (xs @ [(n, h)]) - c) (xs @ [(n, h)])"
proof (cases "length xs \<ge> c")
  case True
  then have "Suc (length xs) - c = Suc (length xs - c)" by simp
  with True assms show ?thesis by (simp add: push_def Let_def drop_Suc drop_tl)
next
  case False
  with assms show ?thesis by (simp add: push_def Let_def)
qed

end
