(* ===== verification/Reorg_Detector.thy ===== *)
theory Reorg_Detector
  imports Chain_State Rpc_Cache
begin

text \<open>
  The detection of chain reorganisations (\<open>forge-index-sync/src/reorg/detector.rs\<close>). The
  detector keeps one window of recent hashes per chain and asks the cache-through client
  of the chain for blocks when it walks back to the fork point. What it needs of the client
  is the interface \<open>block_source\<close>, interpreted on the client of \<open>Rpc_Cache\<close>.
\<close>

datatype reorg_decision =
    Normal
  | Reorg (rd_chain_id: u64) (rd_fork_block: u64) (rd_new_tip: u64)

text \<open>A client: what it is built from and its state.\<close>

record ('p, 'j) client =
  cl_env :: "('p, 'j) client_env"
  cl_state :: "('p, 'j) client_state"

record ('p, 'j) reorg_detector =
  chain_states :: "u64 \<rightharpoonup> chain_state"
  clients :: "u64 \<rightharpoonup> ('p, 'j) client"

definition new_detector :: "('p, 'j) reorg_detector" where
  "new_detector = \<lparr> chain_states = Map.empty, clients = Map.empty \<rparr>"

definition register_client ::
  "u64 \<Rightarrow> ('p, 'j) client \<Rightarrow> ('p, 'j) reorg_detector \<Rightarrow> ('p, 'j) reorg_detector" where
  "register_client chain_id c D = D\<lparr>clients := (clients D)(chain_id \<mapsto> c)\<rparr>"

text \<open>\<open>self.chain_states.entry(chain_id).or_default()\<close>.\<close>

definition state_entry :: "u64 \<Rightarrow> ('p, 'j) reorg_detector \<Rightarrow> chain_state" where
  "state_entry chain_id D =
     (case chain_states D chain_id of Some st \<Rightarrow> st | None \<Rightarrow> default_chain_state)"

definition set_state ::
  "u64 \<Rightarrow> chain_state \<Rightarrow> ('p, 'j) reorg_detector \<Rightarrow> ('p, 'j) reorg_detector" where
  "set_state chain_id st D = D\<lparr>chain_states := (chain_states D)(chain_id \<mapsto> st)\<rparr>"

definition set_client_state ::
  "u64 \<Rightarrow> ('p, 'j) client \<Rightarrow> ('p, 'j) client_state \<Rightarrow> ('p, 'j) reorg_detector \<Rightarrow> ('p, 'j) reorg_detector" where
  "set_client_state chain_id c s D = D\<lparr>clients := (clients D)(chain_id \<mapsto> c\<lparr>cl_state := s\<rparr>)\<rparr>"

section \<open>Walking back to the fork point\<close>

text \<open>
  The loop \<open>while current_number >= min_block\<close>; \<open>get_block\<close> is the client's method.
\<close>

function walk_back ::
  "(u64 \<Rightarrow> ('s, rpc_error failure, block) call) \<Rightarrow> u64 \<Rightarrow> chain_state \<Rightarrow> u64 \<Rightarrow> u64 \<Rightarrow> u64
   \<Rightarrow> ('s, sync_error failure, u64) call" where
  "walk_back get_block chain_id st lookback min_block current s =
     (if current < min_block then (Inl (Err (DeepReorg chain_id lookback)), s)
      else (case get_block current s of
        (Inl e, s') \<Rightarrow> (Inl (lift_err (Sync_Rpc chain_id) e), s')
      | (Inr rpc_block, s') \<Rightarrow>
          (case get_hash st current of
             None \<Rightarrow> (add_u current 1, s')
           | Some stored \<Rightarrow>
               if stored = blk_hash rpc_block then (add_u current 1, s')
               else if current = 0 then (Inl (Err (DeepReorg chain_id lookback)), s')
               else walk_back get_block chain_id st lookback min_block (current - 1) s')))"
  by pat_completeness auto
termination
proof (relation "measure (\<lambda>(_, _, _, _, _, current, _). unat current)", goal_cases)
  case 1
  then show ?case by simp
next
  case (2 get_block chain_id st lookback min_block current s x s' rpc_block stored)
  then show ?case by (simp add: unat_pred_less)
qed

declare walk_back.simps [simp del]

definition find_fork_point ::
  "u64 \<Rightarrow> block \<Rightarrow> ('p, 'j) reorg_detector \<Rightarrow> (sync_error failure + u64) \<times> ('p, 'j) reorg_detector" where
  "find_fork_point chain_id new_block D =
     (case clients D chain_id of
        None \<Rightarrow> (Inl (Err (ChainNotFound chain_id)), D)
      | Some client \<Rightarrow>
          (case chain_states D chain_id of
             None \<Rightarrow> (Inl (Err (ChainNotFound chain_id)), D)
           | Some st \<Rightarrow>
               (let tip = blk_number new_block;
                    lookback = of_nat default_capacity;
                    min_block = saturating_sub tip lookback
                in case walk_back (cached_get_block_by_number (cl_env client)) chain_id st lookback min_block
                          (saturating_sub tip 1) (cl_state client) of
                     (r, s) \<Rightarrow> (r, set_client_state chain_id client s D))))"

definition process_block ::
  "u64 \<Rightarrow> block \<Rightarrow> ('p, 'j) reorg_detector
   \<Rightarrow> (sync_error failure + reorg_decision) \<times> ('p, 'j) reorg_detector" where
  "process_block chain_id b D =
     (let st = state_entry chain_id D;
          D = set_state chain_id st D;
          accept = (Inr Normal, set_state chain_id (push (blk_number b) (blk_hash b) st) D)
      in if state_is_empty st then accept
         else if blk_number b = 0 then accept
         else (case get_hash st (blk_number b - 1) of
             None \<Rightarrow> accept
           | Some stored_hash \<Rightarrow>
               if stored_hash = blk_parent_hash b then accept
               else (case find_fork_point chain_id b D of
                   (Inl e, D') \<Rightarrow> (Inl e, D')
                 | (Inr fork_block, D') \<Rightarrow>
                     (case chain_states D' chain_id of
                        None \<Rightarrow> (Inl (Panic ''called `Option::unwrap()` on a `None` value''), D')
                      | Some st' \<Rightarrow>
                          (Inr (Reorg chain_id fork_block (blk_number b)),
                           set_state chain_id (prune_above (saturating_sub fork_block 1) st') D')))))"

definition seed_block ::
  "u64 \<Rightarrow> u64 \<Rightarrow> hash32 \<Rightarrow> ('p, 'j) reorg_detector \<Rightarrow> ('p, 'j) reorg_detector" where
  "seed_block chain_id number hash D =
     set_state chain_id (push number hash (state_entry chain_id D)) D"

section \<open>What the walk finds\<close>

text \<open>The stored hash at \<open>m\<close> contradicts the chain \<open>view\<close>.\<close>

definition forked :: "(u64 \<Rightarrow> hash32) \<Rightarrow> chain_state \<Rightarrow> u64 \<Rightarrow> bool" where
  "forked view st m \<longleftrightarrow> (\<exists>h. get_hash st m = Some h \<and> h \<noteq> view m)"

text \<open>
  What a walk from \<open>cur\<close> down to \<open>mn\<close> may answer: a fork block \<open>f\<close>, such that the block
  before \<open>f\<close> is not contradicted and every block from \<open>f\<close> to \<open>cur\<close> is; or \<open>deep\<close>, if
  all blocks of the range are contradicted; or an error of the client.
\<close>

definition walked ::
  "(u64 \<Rightarrow> hash32) \<Rightarrow> chain_state \<Rightarrow> u64 \<Rightarrow> u64 \<Rightarrow> sync_error failure + u64 \<Rightarrow> sync_error \<Rightarrow> bool" where
  "walked view st mn cur r deep \<longleftrightarrow>
     (\<forall>f. r = Inr f \<longrightarrow>
        (\<exists>n. unat f = unat n + 1 \<and> mn \<le> n \<and> n \<le> cur \<and> \<not> forked view st n \<and>
             (\<forall>m. n < m \<and> m \<le> cur \<longrightarrow> forked view st m))) \<and>
     (r = Inl (Err deep) \<longrightarrow> (\<forall>m. mn \<le> m \<and> m \<le> cur \<longrightarrow> forked view st m))"

lemma walked_stop: "cur < mn \<Longrightarrow> walked view st mn cur (Inl (Err deep)) deep"
  by (auto simp: walked_def)

lemma walked_error: "walked view st mn cur (Inl (lift_err (Sync_Rpc c) e)) (DeepReorg c' lb)"
  by (cases e) (auto simp: walked_def)

lemma walked_here:
  "\<not> cur < mn \<Longrightarrow> \<not> forked view st cur \<Longrightarrow> walked view st mn cur (add_u cur 1) deep"
  by (auto simp: walked_def add_u_Inr_iff intro!: exI [of _ cur])

lemma walked_bottom: "forked view st 0 \<Longrightarrow> walked view st mn 0 (Inl (Err deep)) deep"
  by (auto simp: walked_def)

lemma walked_down:
  assumes "cur \<noteq> 0" and "mn \<le> cur" and "forked view st cur" and "walked view st mn (cur - 1) r deep"
  shows "walked view st mn cur r deep"
proof -
  have split: "m \<le> cur \<longleftrightarrow> m = cur \<or> m \<le> cur - 1" for m
    using assms(1) by (auto simp: word_le_nat_alt unat_pred word_unat_eq_iff)
  show ?thesis using assms(3,4) unfolding walked_def split by blast
qed

text \<open>
  The interface: a method that returns blocks of the chain \<open>view\<close> as long as the client
  is in a good state, and keeps it there.
\<close>

locale block_source =
  fixes get_block :: "u64 \<Rightarrow> ('s, rpc_error failure, block) call"
    and good :: "'s \<Rightarrow> bool"
    and view :: "u64 \<Rightarrow> hash32"
  assumes get_block_good: "good s \<Longrightarrow> good (snd (get_block n s))"
    and get_block_view: "good s \<Longrightarrow> fst (get_block n s) = Inr b \<Longrightarrow> blk_hash b = view n"
begin

text \<open>
  The walk keeps the client good. If it finds a fork block, the block before it is not
  contradicted and all blocks from there up to the start are; if it gives up, every block
  of the range is contradicted.
\<close>

lemma walk_back_sound:
  assumes "good s" and "walk_back get_block c st lb mn cur s = (r, s')"
  shows "good s'" and "walked view st mn cur r (DeepReorg c lb)"
proof -
  have "good s' \<and> walked view st mn cur r (DeepReorg c lb)"
    using assms
  proof (induction "unat cur" arbitrary: cur s rule: less_induct)
    case less
    obtain g s1 where g: "get_block cur s = (g, s1)" by (cases "get_block cur s")
    have good1: "good s1" using get_block_good [OF less.prems(1), of cur] g by simp
    have hash: "blk_hash b = view cur" if "g = Inr b" for b
      using get_block_view [OF less.prems(1), of cur b] g that by simp
    note step = less.prems(2) [unfolded walk_back.simps [of get_block c st lb mn cur s] g]
    show ?case
    proof (cases "cur < mn \<or> (\<exists>e. g = Inl e) \<or> \<not> forked view st cur \<or> cur = 0")
      case True
      then show ?thesis
        using step good1 less.prems(1) hash
        by (auto simp: walked_stop walked_here walked_error walked_bottom forked_def
            split: if_splits sum.splits option.splits)
    next
      case False
      then have pos: "cur \<noteq> 0" and f: "forked view st cur" and ge: "mn \<le> cur" by auto
      have rest: "walk_back get_block c st lb mn (cur - 1) s1 = (r, s')"
        using step False hash by (auto simp: forked_def split: sum.splits)
      have "good s' \<and> walked view st mn (cur - 1) r (DeepReorg c lb)"
        by (rule less.hyps [OF _ good1 rest]) (rule unat_pred_less [OF pos])
      with pos f ge show ?thesis by (auto intro: walked_down)
    qed
  qed
  then show "good s'" and "walked view st mn cur r (DeepReorg c lb)" by auto
qed

end


interpretation cached_client: block_source
  "cached_get_block_by_number E" "client_good E view" view for E :: "('p, 'j) client_env" and view
proof
  fix s :: "('p, 'j) client_state" and n b
  assume good: "client_good E view s"
  show "client_good E view (snd (cached_get_block_by_number E n s))"
    by (rule cached_block_step(1) [OF good prod.collapse [symmetric]])
  show "fst (cached_get_block_by_number E n s) = Inr b \<Longrightarrow> blk_hash b = view n"
    using cached_block_step(2) [OF good prod.collapse [symmetric]] by blast
qed

section \<open>Decisions\<close>

lemmas detector_defs = state_entry_def set_state_def set_client_state_def state_is_empty_def

lemma process_block_accept:
  assumes "state_is_empty (state_entry c D) \<or> blk_number b = 0 \<or>
           get_hash (state_entry c D) (blk_number b - 1) \<in> {None, Some (blk_parent_hash b)}"
  shows "process_block c b D =
           (Inr Normal, set_state c (push (blk_number b) (blk_hash b) (state_entry c D)) D)"
  using assms
  by (auto simp: process_block_def Let_def set_state_def split: option.splits)

lemma state_entry_set [simp]: "state_entry c (set_state c st D) = st"
  by (simp add: state_entry_def set_state_def)

lemma state_entry_set_other [simp]: "c' \<noteq> c \<Longrightarrow> state_entry c' (set_state c st D) = state_entry c' D"
  by (simp add: state_entry_def set_state_def)

lemma process_block_reorg:
  assumes "process_block c b D = (Inr (Reorg c' f t), D')"
  obtains cl s where "clients D c = Some cl" "c' = c" "t = blk_number b" "blk_number b \<noteq> 0"
    "walk_back (cached_get_block_by_number (cl_env cl)) c (state_entry c D) (of_nat default_capacity)
       (saturating_sub t (of_nat default_capacity)) (saturating_sub t 1) (cl_state cl) = (Inr f, s)"
    "state_entry c D' = prune_above (saturating_sub f 1) (state_entry c D)"
    "\<exists>h. get_hash (state_entry c D) (t - 1) = Some h \<and> h \<noteq> blk_parent_hash b"
  using assms
  by (auto simp: process_block_def find_fork_point_def Let_def detector_defs
      split: if_splits option.splits sum.splits prod.splits)

lemma saturating_sub_1: "t \<noteq> 0 \<Longrightarrow> saturating_sub t 1 = t - (1 :: u64)"
proof -
  assume "t \<noteq> 0"
  then have "1 \<le> t" by (simp add: word_le_nat_alt unat_gt_0 Suc_le_eq)
  then show ?thesis by (simp add: saturating_sub_def)
qed

lemma reorg_sound:
  assumes "process_block c b D = (Inr (Reorg c' f t), D')"
    and "clients D c = Some cl" and "client_good (cl_env cl) view (cl_state cl)"
  shows "\<exists>n. unat f = unat n + 1 \<and> n < t \<and> c' = c \<and> t = blk_number b \<and>
             \<not> forked view (state_entry c D) n \<and>
             (\<forall>m. f \<le> m \<and> m < t \<longrightarrow> forked view (state_entry c D) m) \<and>
             state_entry c D' = prune_above n (state_entry c D) \<and>
             get_hash (state_entry c D) (t - 1) \<noteq> None"
proof -
  from process_block_reorg [OF assms(1)] assms(2) obtain s where
    eqs: "c' = c" "t = blk_number b" "blk_number b \<noteq> 0"
    and walk: "walk_back (cached_get_block_by_number (cl_env cl)) c (state_entry c D)
       (of_nat default_capacity) (saturating_sub t (of_nat default_capacity))
       (saturating_sub t 1) (cl_state cl) = (Inr f, s)"
    and st: "state_entry c D' = prune_above (saturating_sub f 1) (state_entry c D)"
    and par: "get_hash (state_entry c D) (t - 1) \<noteq> None"
    by (metis option.distinct(1) option.inject)
  from cached_client.walk_back_sound(2) [OF assms(3) walk] obtain n where
    n: "unat f = unat n + 1" "n \<le> saturating_sub t 1" "\<not> forked view (state_entry c D) n"
    and up: "\<forall>m. n < m \<and> m \<le> saturating_sub t 1 \<longrightarrow> forked view (state_entry c D) m"
    by (auto simp: walked_def)
  have t: "t \<noteq> 0" using eqs by simp
  have pred: "m \<le> saturating_sub t 1 \<longleftrightarrow> m < t" for m
    using t by (auto simp: saturating_sub_1 word_le_nat_alt word_less_nat_alt unat_pred
        dest: unat_pred_less)
  have "f \<noteq> 0" and f1: "saturating_sub f 1 = n"
    using n(1) by (auto simp: word_unat_eq_iff unat_saturating_sub)
  have succ: "f \<le> m \<longleftrightarrow> n < m" for m
    using n(1) by (auto simp: word_le_nat_alt word_less_nat_alt)
  show ?thesis
    using n up eqs st par unfolding pred succ f1 by (intro exI [of _ n]) simp
qed

text \<open>
  Property C6. When the detector reports a reorganisation and its client answers from the
  chain \<open>view\<close>, the fork block \<open>f\<close> satisfies \<open>1 \<le> f \<le> t\<close> for the new tip \<open>t\<close>: the
  stored hash before \<open>f\<close> is not contradicted by \<open>view\<close>, every stored hash from \<open>f\<close> up to
  the parent of the tip is, and the window is cut below \<open>f\<close>.
\<close>

theorem reorg_fork_point:
  assumes "process_block c b D = (Inr (Reorg c' f t), D')"
    and "clients D c = Some cl" and "client_good (cl_env cl) view (cl_state cl)"
  shows "c' = c \<and> t = blk_number b \<and> 1 \<le> f \<and> f \<le> t \<and>
         get_hash (state_entry c D) (f - 1) \<in> {None, Some (view (f - 1))} \<and>
         (\<forall>m. f \<le> m \<and> m < t \<longrightarrow> (\<exists>h. get_hash (state_entry c D) m = Some h \<and> h \<noteq> view m)) \<and>
         state_entry c D' = prune_above (f - 1) (state_entry c D)"
proof -
  from reorg_sound [OF assms] obtain n where
    n: "unat f = unat n + 1" "n < t" "c' = c" "t = blk_number b" "\<not> forked view (state_entry c D) n"
      "\<forall>m. f \<le> m \<and> m < t \<longrightarrow> forked view (state_entry c D) m"
      "state_entry c D' = prune_above n (state_entry c D)" by blast
  have "f \<noteq> 0" using n(1) by auto
  then have "unat (f - 1) = unat n" using n(1) by (simp add: unat_pred)
  then have f1: "f - 1 = n" by (simp add: word_unat_eq_iff)
  have "1 \<le> f" "f \<le> t" using n(1,2) by (auto simp: word_le_nat_alt word_less_nat_alt)
  with n f1 show ?thesis by (auto simp: forked_def)
qed

text \<open>
  A detector for the witnesses. Its client has lost its database, so that every block
  comes from the provider; the window holds block 5 of the chain and a block 6 of another.
\<close>

definition other_hash :: hash32 where "other_hash = Hash32 (replicate 32 1)"

definition demo_client :: "(unit, alloy_header) client" where
  "demo_client = \<lparr> cl_env = demo_env\<lparr>e_fail := (\<lambda>_. True)\<rparr>, cl_state = demo_state \<rparr>"

definition demo_window :: chain_state where
  "demo_window = \<lparr> recent_blocks = [(5, zero_hash32), (6, other_hash)], capacity = default_capacity \<rparr>"

definition demo_detector :: "(unit, alloy_header) reorg_detector" where
  "demo_detector = \<lparr> chain_states = [1 \<mapsto> demo_window], clients = [1 \<mapsto> demo_client] \<rparr>"

definition demo_block :: "u64 \<Rightarrow> block" where
  "demo_block n = block_from_alloy (demo_header n) 1"

lemma demo_block_fields [simp]:
  "blk_number (demo_block n) = n" "blk_hash (demo_block n) = zero_hash32"
  "blk_parent_hash (demo_block n) = zero_hash32"
  by (simp_all add: demo_block_def block_from_alloy_def demo_header_def zero_hash32_def)

lemma other_hash_neq [simp]: "other_hash \<noteq> zero_hash32" "zero_hash32 \<noteq> other_hash"
  by (simp_all add: other_hash_def zero_hash32_def numeral_eq_Suc)

lemma demo_client_call:
  "fst (cached_get_block_by_number (cl_env demo_client) n s) = Inr (demo_block n)"
  by (simp add: cached_get_block_by_number_def demo_client_def demo_env_def store_get_block_cases
      client_get_block_by_number_def with_retry_def seq_def transport_def map_err_def
      demo_provider_def lift_res_def ok_or_def to_json_or_def of_json_or_def ret_def Let_def
      demo_block_def)

lemma demo_client_is_good: "client_good (cl_env demo_client) (\<lambda>_. zero_hash32) (cl_state demo_client)"
  using demo_client_good
  by (simp add: demo_client_def client_good_def honest_def)

lemma demo_walk:
  "fst (walk_back (cached_get_block_by_number (cl_env demo_client)) 1 demo_window 128 0 6 s) = Inr 6"
proof -
  have hashes: "get_hash demo_window 6 = Some other_hash" "get_hash demo_window 5 = Some zero_hash32"
    by (simp_all add: demo_window_def get_hash_def)
  obtain s1 where 6: "cached_get_block_by_number (cl_env demo_client) 6 s = (Inr (demo_block 6), s1)"
    using demo_client_call [of 6 s] by (metis prod.collapse)
  obtain s2 where 5: "cached_get_block_by_number (cl_env demo_client) 5 s1 = (Inr (demo_block 5), s2)"
    using demo_client_call [of 5 s1] by (metis prod.collapse)
  have next_5: "walk_back (cached_get_block_by_number (cl_env demo_client)) 1 demo_window 128 0 5 s1
      = (Inr 6, s2)"
    by (subst walk_back.simps) (simp add: 5 hashes add_u_def)
  show ?thesis by (subst walk_back.simps) (simp add: 6 hashes next_5)
qed

lemma demo_reorg: "\<exists>D'. process_block 1 (demo_block 7) demo_detector = (Inr (Reorg 1 6 7), D')"
proof -
  have st: "state_entry 1 demo_detector = demo_window" "clients demo_detector 1 = Some demo_client"
    by (simp_all add: state_entry_def demo_detector_def)
  obtain s' where w: "walk_back (cached_get_block_by_number (cl_env demo_client)) 1 demo_window 128 0 6
      (cl_state demo_client) = (Inr 6, s')"
    using demo_walk by (metis prod.collapse)
  have "get_hash demo_window 6 = Some other_hash" "\<not> state_is_empty demo_window"
    by (simp_all add: demo_window_def get_hash_def state_is_empty_def)
  then show ?thesis
    using st w
    by (simp add: process_block_def find_fork_point_def set_state_def Let_def default_capacity_def
        saturating_sub_def set_client_state_def)
qed

theorem reorg_fork_point_witness:
  "\<exists>D'. process_block 1 (demo_block 7) demo_detector = (Inr (Reorg 1 6 7), D') \<and>
        state_entry 1 D' = prune_above 5 demo_window"
proof -
  obtain D' where p: "process_block 1 (demo_block 7) demo_detector = (Inr (Reorg 1 6 7), D')"
    using demo_reorg by blast
  have "clients demo_detector 1 = Some demo_client" "state_entry 1 demo_detector = demo_window"
    by (simp_all add: demo_detector_def state_entry_def)
  with reorg_fork_point [OF p _ demo_client_is_good] p show ?thesis by auto
qed

subsection \<open>The window after a reorganisation\<close>

text \<open>Between two numbers of the window there is no gap.\<close>

definition gapless :: "chain_state \<Rightarrow> bool" where
  "gapless st \<longleftrightarrow>
     (\<forall>k m n. k \<le> m \<and> m \<le> n \<and> get_hash st k \<noteq> None \<and> get_hash st n \<noteq> None \<longrightarrow> get_hash st m \<noteq> None)"

text \<open>A stored hash of the chain \<open>view\<close> commits to the stored hashes below it.\<close>

definition commits :: "(u64 \<Rightarrow> hash32) \<Rightarrow> chain_state \<Rightarrow> bool" where
  "commits view st \<longleftrightarrow>
     (\<forall>k n. k \<le> n \<and> get_hash st n = Some (view n) \<longrightarrow> get_hash st k \<in> {None, Some (view k)})"

lemma window_below:
  assumes gap: "gapless st" and com: "commits view st" and n: "\<not> forked view st n"
    and le: "m \<le> n" "n \<le> k" and k: "get_hash st k \<noteq> None"
  shows "get_hash st m \<in> {None, Some (view m)}"
proof (cases "get_hash st n")
  case None
  have "get_hash st m \<noteq> None \<Longrightarrow> get_hash st n \<noteq> None"
    using gap [unfolded gapless_def, rule_format, of m n k] le k by blast
  with None show ?thesis by blast
next
  case (Some h)
  then have "get_hash st n = Some (view n)" using n by (auto simp: forked_def)
  then show ?thesis using com [unfolded commits_def, rule_format, of m n] le(1) by blast
qed


lemma get_hash_demo_window:
  "get_hash demo_window n = (if n = 5 then Some zero_hash32 else if n = 6 then Some other_hash else None)"
  by (simp add: demo_window_def get_hash_def)

lemma demo_window_between: "(5 :: u64) \<le> m \<Longrightarrow> m \<le> 6 \<Longrightarrow> m = 5 \<or> m = 6"
proof -
  assume "5 \<le> m" "m \<le> 6"
  then have "unat m = 5 \<or> unat m = 6" by (auto simp: word_le_nat_alt)
  then show ?thesis by (auto simp: word_unat_eq_iff)
qed


section \<open>A chain without reorganisations\<close>

text \<open>Each block is the child of the one before.\<close>

fun linked :: "block list \<Rightarrow> bool" where
  "linked (a # b # bs) \<longleftrightarrow>
     unat (blk_number b) = unat (blk_number a) + 1 \<and> blk_parent_hash b = blk_hash a \<and> linked (b # bs)"
| "linked _ \<longleftrightarrow> True"

text \<open>A stream of blocks given to the detector one by one.\<close>

fun feed ::
  "u64 \<Rightarrow> block list \<Rightarrow> ('p, 'j) reorg_detector
   \<Rightarrow> (sync_error failure + reorg_decision) list \<times> ('p, 'j) reorg_detector" where
  "feed c [] D = ([], D)"
| "feed c (b # bs) D =
     (case process_block c b D of (r, D1) \<Rightarrow> (case feed c bs D1 of (rs, D2) \<Rightarrow> (r # rs, D2)))"

definition entry :: "block \<Rightarrow> u64 \<times> hash32" where
  "entry b = (blk_number b, blk_hash b)"

lemma feed_snoc:
  "feed c (bs @ [b]) D =
     (case feed c bs D of (rs, D1) \<Rightarrow> (case process_block c b D1 of (r, D2) \<Rightarrow> (rs @ [r], D2)))"
  by (induction bs arbitrary: D) (auto split: prod.splits)

lemma linked_snoc:
  "linked (bs @ [a, b]) \<longleftrightarrow>
     linked (bs @ [a]) \<and> unat (blk_number b) = unat (blk_number a) + 1 \<and> blk_parent_hash b = blk_hash a"
  by (induction bs rule: linked.induct) auto

lemma map_fst_entry [simp]: "map fst (map entry bs) = map blk_number bs"
  by (simp add: entry_def)

lemma linked_ascending: "linked bs \<Longrightarrow> sorted_wrt (<) (map blk_number bs)"
proof (induction bs rule: linked.induct)
  case (1 a b bs)
  then have asc: "sorted_wrt (<) (map blk_number (b # bs))" by simp
  have lt: "blk_number a < blk_number b" using 1 by (simp add: word_less_nat_alt)
  then have "\<forall>x \<in> set bs. blk_number a < blk_number x" using asc by (auto dest: less_trans)
  with asc lt show ?case by simp
qed auto

lemma map_of_last:
  assumes "distinct (map fst (xs @ [x]))"
  shows "map_of (xs @ [x]) (fst x) = Some (snd x)"
  using assms by (cases x) (auto simp: map_of_eq_None_iff map_add_Some_iff)

lemma window_parent:
  assumes "recent_blocks st = drop k (map entry (bs @ [a]))" and "k \<le> length bs" and "linked (bs @ [a])"
  shows "get_hash st (blk_number a) = Some (blk_hash a)"
proof -
  have rb: "recent_blocks st = drop k (map entry bs) @ [entry a]" using assms(1,2) by simp
  have "sorted_wrt (<) (map fst (drop k (map entry (bs @ [a]))))"
    using linked_ascending [OF assms(3)] by (metis drop_map map_fst_entry sorted_wrt_drop)
  then have "distinct (map fst (recent_blocks st))"
    using assms(1) by (simp add: strict_sorted_iff)
  then show ?thesis
    using map_of_last [of "drop k (map entry bs)" "entry a"] rb
    by (simp add: get_hash_map_of entry_def)
qed

lemma linked_butlast: "linked (bs @ [b]) \<Longrightarrow> linked bs"
  by (cases bs rule: rev_cases) (auto simp: linked_snoc)

text \<open>The window after the blocks \<open>bs\<close> of a linked chain.\<close>

abbreviation window_of :: "block list \<Rightarrow> chain_state" where
  "window_of bs \<equiv> default_chain_state\<lparr>recent_blocks := drop (length bs - default_capacity) (map entry bs)\<rparr>"

lemma linear_step:
  assumes st: "state_entry c D1 = window_of bs" and linked: "linked (bs @ [b])"
  shows "process_block c b D1 = (Inr Normal, set_state c (window_of (bs @ [b])) D1)"
proof -
  have "process_block c b D1 =
          (Inr Normal, set_state c (push (blk_number b) (blk_hash b) (state_entry c D1)) D1)"
  proof (cases bs rule: rev_cases)
    case Nil
    with st show ?thesis by (intro process_block_accept) (simp add: state_is_empty_def)
  next
    case (snoc cs a)
    with linked have l: "linked (cs @ [a])"
      and nb: "unat (blk_number b) = unat (blk_number a) + 1" and par: "blk_parent_hash b = blk_hash a"
      by (auto simp: linked_snoc)
    have "blk_number b \<noteq> 0" using nb by auto
    then have "blk_number b - 1 = blk_number a" using nb by (simp add: word_unat_eq_iff unat_pred)
    moreover have "get_hash (state_entry c D1) (blk_number a) = Some (blk_hash a)"
      by (rule window_parent [OF _ _ l, of _ "length bs - default_capacity"])
        (use st snoc in \<open>auto simp: default_capacity_def\<close>)
    ultimately show ?thesis using par by (intro process_block_accept) simp
  qed
  moreover have "push (blk_number b) (blk_hash b) (state_entry c D1) = window_of (bs @ [b])"
    using push_last_entries [of "state_entry c D1" default_capacity "map entry bs" "blk_number b" "blk_hash b"]
    by (simp add: st default_chain_state_def new_chain_state_def default_capacity_def entry_def
        push_def Let_def)
  ultimately show ?thesis by simp
qed

lemma feed_linear:
  assumes "state_entry c D = default_chain_state" and "linked bs"
  shows "\<exists>D'. feed c bs D = (replicate (length bs) (Inr Normal), D') \<and> state_entry c D' = window_of bs"
  using assms
proof (induction bs rule: rev_induct)
  case Nil
  then show ?case by (simp add: default_chain_state_def new_chain_state_def)
next
  case (snoc b bs)
  from snoc.IH [OF snoc.prems(1) linked_butlast [OF snoc.prems(2)]] obtain D1 where
    D1: "feed c bs D = (replicate (length bs) (Inr Normal), D1)" and st: "state_entry c D1 = window_of bs"
    by blast
  from linear_step [OF st snoc.prems(2)] D1 show ?case
    by (simp add: feed_snoc replicate_append_same [symmetric])
qed

text \<open>
  Property C8. No false alarm: a detector that starts with an empty window accepts every
  block of a linked chain, whatever its length, and its window then holds exactly the last
  128 blocks of the chain in order.
\<close>

theorem linear_chain_all_normal:
  assumes "state_entry c D = default_chain_state" and "linked bs"
  shows "\<exists>D'. feed c bs D = (replicate (length bs) (Inr Normal), D') \<and>
              recent_blocks (state_entry c D') =
                drop (length bs - 128) (map (\<lambda>b. (blk_number b, blk_hash b)) bs)"
proof -
  have "entry = (\<lambda>b. (blk_number b, blk_hash b))" by (simp add: fun_eq_iff entry_def)
  with feed_linear [OF assms] show ?thesis by (auto simp: default_capacity_def)
qed

theorem linear_chain_all_normal_witness:
  "\<exists>D'. feed 1 [demo_block 8, demo_block 9] (new_detector :: (unit, alloy_header) reorg_detector) =
          ([Inr Normal, Inr Normal], D') \<and>
        recent_blocks (state_entry 1 D') = [(8, zero_hash32), (9, zero_hash32)]"
proof -
  have st: "state_entry 1 (new_detector :: (unit, alloy_header) reorg_detector) = default_chain_state"
    by (simp add: new_detector_def state_entry_def)
  have "linked [demo_block 8, demo_block 9]" by simp
  from linear_chain_all_normal [OF st this] show ?thesis
    by (simp add: eval_nat_numeral del: feed.simps)
qed

section \<open>Reachable detectors\<close>

inductive reachable :: "('p, 'j) reorg_detector \<Rightarrow> bool" where
  reach_new: "reachable new_detector"
| reach_register: "reachable D \<Longrightarrow> reachable (register_client c cl D)"
| reach_seed: "reachable D \<Longrightarrow> reachable (seed_block c n h D)"
| reach_process: "reachable D \<Longrightarrow> reachable (snd (process_block c b D))"

definition windows_ok :: "('p, 'j) reorg_detector \<Rightarrow> bool" where
  "windows_ok D \<longleftrightarrow>
     (\<forall>c st. chain_states D c = Some st \<longrightarrow> window_ok st \<and> capacity st = default_capacity)"

lemma windows_ok_entry:
  "windows_ok D \<Longrightarrow> window_ok (state_entry c D) \<and> capacity (state_entry c D) = default_capacity"
  by (auto simp: windows_ok_def state_entry_def default_chain_state_def split: option.splits)

lemma windows_ok_set:
  "windows_ok D \<Longrightarrow> window_ok st \<Longrightarrow> capacity st = default_capacity \<Longrightarrow> windows_ok (set_state c st D)"
  by (auto simp: windows_ok_def set_state_def)

lemma windows_ok_find_fork_point:
  "windows_ok D \<Longrightarrow> windows_ok (snd (find_fork_point c b D))"
  by (auto simp: find_fork_point_def windows_ok_def set_client_state_def Let_def
      split: option.splits prod.splits)

lemma windows_ok_process_block:
  assumes "windows_ok D"
  shows "windows_ok (snd (process_block c b D))"
proof -
  let ?st = "state_entry c D"
  have entry: "windows_ok (set_state c ?st D)"
    using windows_ok_entry [OF assms] by (intro windows_ok_set [OF assms]) auto
  have push: "windows_ok (set_state c (push n h ?st) (set_state c ?st D))" for n h
    using windows_ok_entry [OF assms, of c] by (intro windows_ok_set [OF entry]) (auto intro: window_ok_push)
  have fork: "windows_ok D'" if "find_fork_point c b (set_state c ?st D) = (r, D')" for r D'
    using windows_ok_find_fork_point [OF entry, of c b] that by simp
  have prune: "windows_ok (set_state c (prune_above m st') D')"
    if "find_fork_point c b (set_state c ?st D) = (r, D')" "chain_states D' c = Some st'" for r D' st' m
    using fork [OF that(1)] that(2)
    by (intro windows_ok_set) (auto simp: windows_ok_def intro: window_ok_prune)
  show ?thesis
    using push fork prune
    by (auto simp: process_block_def Let_def split: option.splits sum.splits prod.splits)
qed

text \<open>
  Property C9. In every detector that registrations, seeds and processed blocks can
  reach, no window holds more than 128 blocks.
\<close>

theorem reachable_window_bound:
  "reachable D \<Longrightarrow> chain_states D c = Some st \<Longrightarrow> state_len st \<le> 128"
proof -
  assume "reachable D"
  then have ok: "windows_ok D"
  proof (induction rule: reachable.induct)
    case reach_new
    then show ?case by (simp add: windows_ok_def new_detector_def)
  next
    case (reach_register D c cl)
    then show ?case by (simp add: windows_ok_def register_client_def)
  next
    case (reach_seed D c n h)
    then show ?case
      unfolding seed_block_def using windows_ok_entry [of D c]
      by (intro windows_ok_set) (auto intro: window_ok_push)
  next
    case (reach_process D c b)
    then show ?case by (simp add: windows_ok_process_block)
  qed
  assume "chain_states D c = Some st"
  with ok have "window_ok st" "capacity st = 128"
    by (auto simp: windows_ok_def default_capacity_def)
  then show ?thesis by (simp add: window_ok_def state_len_def)
qed

theorem reachable_window_bound_witness:
  "\<exists>st. chain_states (seed_block 1 5 zero_hash32 (new_detector :: (unit, unit) reorg_detector)) 1 = Some st \<and>
        state_len st \<le> 128"
proof -
  let ?D = "seed_block 1 5 zero_hash32 (new_detector :: (unit, unit) reorg_detector)"
  obtain st where st: "chain_states ?D 1 = Some st"
    by (simp add: seed_block_def set_state_def)
  have "reachable ?D" by (intro reachable.intros)
  from reachable_window_bound [OF this st] st show ?thesis by blast
qed

section \<open>Siblings\<close>

text \<open>
  The parent is the only thing that is compared: a second block at a height
  that the window already holds, with the same parent, is accepted as a normal extension.
  The window then holds both, \<open>latest_block\<close> gives the new one and \<open>get_hash\<close> the old one.
\<close>

lemma sibling_accepted:
  assumes "get_hash (state_entry c D) (blk_number b) = Some old" and "blk_number b \<noteq> 0"
    and "get_hash (state_entry c D) (blk_number b - 1) = Some (blk_parent_hash b)"
    and "state_len (state_entry c D) < capacity (state_entry c D)"
  shows "\<exists>D'. process_block c b D = (Inr Normal, D') \<and>
              latest_block (state_entry c D') = Some (blk_number b, blk_hash b) \<and>
              get_hash (state_entry c D') (blk_number b) = Some old"
proof -
  have "get_hash (push (blk_number b) (blk_hash b) (state_entry c D)) (blk_number b) = Some old"
    using assms(1,4) by (simp add: get_hash_map_of push_def Let_def state_len_def map_add_def)
  moreover have "process_block c b D =
      (Inr Normal, set_state c (push (blk_number b) (blk_hash b) (state_entry c D)) D)"
    by (rule process_block_accept) (simp add: assms(3))
  ultimately show ?thesis by simp
qed

lemma sibling_accepted_witness:
  "\<exists>D'. process_block 1 (demo_block 6) demo_detector = (Inr Normal, D') \<and>
        latest_block (state_entry 1 D') = Some (6, zero_hash32) \<and>
        get_hash (state_entry 1 D') 6 = Some other_hash"
proof -
  have st: "state_entry 1 demo_detector = demo_window"
    by (simp add: state_entry_def demo_detector_def)
  have "state_len demo_window < capacity demo_window"
    by (simp add: state_len_def demo_window_def default_capacity_def)
  then show ?thesis
    using sibling_accepted [of 1 demo_detector "demo_block 6" other_hash]
    by (simp add: st get_hash_demo_window)
qed

end
