(* ===== verification/Reorg_Store.thy ===== *)
theory Reorg_Store
  imports Write_Buffer
begin

text \<open>
  The shadow tables for chain reorganisations (\<open>forge-index-db/src/reorg.rs\<close>): recording
  the inverse of what was written at a block, replaying it from a block on, and pruning.
  Statements with a bound block number and the rows a query returns come from the server:
  arguments. A returned row is seen through \<open>try_get::<String>\<close>, which gives the value of a
  column of text and nothing for another type or \<open>NULL\<close>.
\<close>

section \<open>The store\<close>

datatype operation = Op_Insert | Op_Update | Op_Delete

fun as_str :: "operation \<Rightarrow> string" where
  "as_str Op_Insert = ''INSERT''"
| "as_str Op_Update = ''UPDATE''"
| "as_str Op_Delete = ''DELETE''"

fun inverse_op :: "operation \<Rightarrow> string" where
  "inverse_op Op_Insert = ''DELETE''"
| "inverse_op Op_Update = ''UPDATE''"
| "inverse_op Op_Delete = ''INSERT''"

definition record_sql ::
  "renderer \<Rightarrow> string \<Rightarrow> string \<Rightarrow> string list \<Rightarrow> operation \<Rightarrow> u64 \<Rightarrow> row \<Rightarrow> string" where
  "record_sql R pg_schema table columns op block r =
     ''INSERT INTO '' @ table_path pg_schema (reorg_name table) @ '' ('' @
     join '', '' (map quote_ident columns @ [quote_ident ''_operation'', quote_ident ''_block_number'']) @
     '') VALUES ('' @
     join '', '' (map (literal_or_null R r) columns @
       [[quote_char] @ inverse_op op @ [quote_char], nat_str (unat block)]) @ '')''"

definition record_flush ::
  "renderer \<Rightarrow> 'd execute \<Rightarrow> string \<Rightarrow> string \<Rightarrow> row list \<Rightarrow> operation \<Rightarrow> u64 \<Rightarrow> string list
   \<Rightarrow> ('d, db_error failure, unit) call" where
  "record_flush R exec pg_schema table rows op block columns =
     for_each (\<lambda>r. execute_flush exec (reorg_name table) (record_sql R pg_schema table columns op block r)) rows"

text \<open>A returned row, as \<open>try_get::<String>\<close> shows it; \<open>get\<close> panics where that fails.\<close>

type_synonym seen_row = "string \<Rightarrow> string option"

definition get_str :: "seen_row \<Rightarrow> string \<Rightarrow> (string, db_error) result" where
  "get_str row c = (case row c of Some v \<Rightarrow> Inr v
     | None \<Rightarrow> Inl (Panic (''called `Result::unwrap()` on an `Err` value: column '' @ c)))"

definition undo_literal :: "seen_row \<Rightarrow> string \<Rightarrow> string" where
  "undo_literal row c = (case row c of Some v \<Rightarrow> quote_text v | None \<Rightarrow> ''NULL'')"

definition undo_delete_sql :: "string \<Rightarrow> string \<Rightarrow> string \<Rightarrow> string \<Rightarrow> string" where
  "undo_delete_sql pg_schema table pk_col pk_val =
     ''DELETE FROM '' @ table_path pg_schema table @ '' WHERE '' @ quote_ident pk_col @ '' = '' @
     [quote_char] @ pk_val @ [quote_char]"

definition undo_insert_sql :: "string \<Rightarrow> string \<Rightarrow> string list \<Rightarrow> seen_row \<Rightarrow> string" where
  "undo_insert_sql pg_schema table columns row =
     ''INSERT INTO '' @ table_path pg_schema table @ '' ('' @ join '', '' (map quote_ident columns) @
     '') VALUES ('' @ join '', '' (map (undo_literal row) columns) @ '') ON CONFLICT DO NOTHING''"

definition undo_sets :: "string list \<Rightarrow> string \<Rightarrow> seen_row \<Rightarrow> string list" where
  "undo_sets columns pk_col row =
     map (\<lambda>c. quote_ident c @ '' = '' @ undo_literal row c) (filter (\<lambda>c. c \<noteq> pk_col) columns)"

definition undo_update_sql :: "string \<Rightarrow> string \<Rightarrow> string list \<Rightarrow> string \<Rightarrow> seen_row \<Rightarrow> string \<Rightarrow> string" where
  "undo_update_sql pg_schema table columns pk_col row pk_val =
     ''UPDATE '' @ table_path pg_schema table @ '' SET '' @ join '', '' (undo_sets columns pk_col row) @
     '' WHERE '' @ quote_ident pk_col @ '' = '' @ [quote_char] @ pk_val @ [quote_char]"

definition undo_row ::
  "'d execute \<Rightarrow> string \<Rightarrow> string \<Rightarrow> string \<Rightarrow> string list \<Rightarrow> seen_row \<Rightarrow> ('d, db_error failure, unit) call" where
  "undo_row exec pg_schema table pk_col columns row =
     seq (lift_res (get_str row ''_operation'')) (\<lambda>op.
       if op = ''DELETE'' then
         seq (lift_res (get_str row pk_col)) (\<lambda>pk_val.
           execute_flush exec table (undo_delete_sql pg_schema table pk_col pk_val))
       else if op = ''INSERT'' then
         execute_flush exec table (undo_insert_sql pg_schema table columns row)
       else if op = ''UPDATE'' then
         seq (lift_res (get_str row pk_col)) (\<lambda>pk_val.
           if undo_sets columns pk_col row = [] then ret ()
           else execute_flush exec table (undo_update_sql pg_schema table columns pk_col row pk_val))
       else ret ())"

definition select_sql :: "string \<Rightarrow> string \<Rightarrow> string list \<Rightarrow> string" where
  "select_sql pg_schema table columns =
     ''SELECT '' @ join '', '' (map quote_ident columns) @ '', '' @ quote_ident ''_operation'' @ '', '' @
     quote_ident ''_block_number'' @ '' FROM '' @ table_path pg_schema (reorg_name table) @
     '' WHERE '' @ quote_ident ''_block_number'' @ '' >= $1 ORDER BY '' @ quote_ident ''_block_number'' @ '' DESC''"

definition cleanup_sql :: "string \<Rightarrow> string \<Rightarrow> string \<Rightarrow> string" where
  "cleanup_sql pg_schema table cmp =
     ''DELETE FROM '' @ table_path pg_schema (reorg_name table) @
     '' WHERE '' @ quote_ident ''_block_number'' @ '' '' @ cmp @ '' $1''"

text \<open>
  The server's part: \<open>exec\<close> runs a statement, \<open>exec_bind\<close> one with a bound \<open>i64\<close>,
  \<open>fetch\<close> a query with one.
\<close>

record 'd pg_pool =
  pg_exec :: "'d execute"
  pg_exec_bind :: "string \<Rightarrow> 64 word \<Rightarrow> ('d, sqlx_error, unit) call"
  pg_fetch :: "string \<Rightarrow> 64 word \<Rightarrow> ('d, sqlx_error, seen_row list) call"

definition rollback_from_block ::
  "'d pg_pool \<Rightarrow> string \<Rightarrow> string \<Rightarrow> u64 \<Rightarrow> string \<Rightarrow> string list \<Rightarrow> ('d, db_error failure, nat) call" where
  "rollback_from_block pool pg_schema table block_number pk_col columns =
     seq (map_err (\<lambda>e. Err (Query (reorg_name table) e)) (pg_fetch pool (select_sql pg_schema table columns) block_number))
       (\<lambda>rows.
     seq (for_each (undo_row (pg_exec pool) pg_schema table pk_col columns) rows) (\<lambda>_.
     seq (map_err (\<lambda>e. Err (Flush (reorg_name table) e))
            (pg_exec_bind pool (cleanup_sql pg_schema table ''>='') block_number)) (\<lambda>_.
     ret (length rows))))"

definition clear_before_block ::
  "'d pg_pool \<Rightarrow> string \<Rightarrow> string \<Rightarrow> u64 \<Rightarrow> ('d, db_error failure, unit) call" where
  "clear_before_block pool pg_schema table block_number =
     map_err (\<lambda>e. Err (Flush (reorg_name table) e))
       (pg_exec_bind pool (cleanup_sql pg_schema table ''<'') block_number)"

section \<open>Reading the statements with a bound number\<close>

text \<open>
  The meaning of these statements goes by their text: the comparison of a column with the
  bound number, and for a query its columns, its table and its order.
\<close>

datatype comparator = Cmp_Ge | Cmp_Le | Cmp_Gt | Cmp_Lt | Cmp_Eq

fun compares :: "comparator \<Rightarrow> int \<Rightarrow> int \<Rightarrow> bool" where
  "compares Cmp_Ge a b = (b \<le> a)"
| "compares Cmp_Le a b = (a \<le> b)"
| "compares Cmp_Gt a b = (b < a)"
| "compares Cmp_Lt a b = (a < b)"
| "compares Cmp_Eq a b = (a = b)"

definition read_comparator :: "comparator reader" where
  "read_comparator s =
     (case expect ''>='' s of Some r \<Rightarrow> Some (Cmp_Ge, r)
      | None \<Rightarrow> (case expect ''<='' s of Some r \<Rightarrow> Some (Cmp_Le, r)
      | None \<Rightarrow> (case expect ''>'' s of Some r \<Rightarrow> Some (Cmp_Gt, r)
      | None \<Rightarrow> (case expect ''<'' s of Some r \<Rightarrow> Some (Cmp_Lt, r)
      | None \<Rightarrow> map_option (\<lambda>r. (Cmp_Eq, r)) (expect ''='' s)))))"

definition read_bound :: "(string \<times> comparator) reader" where
  "read_bound s =
     Option.bind (read_ident s) (\<lambda>(c, s). Option.bind (expect '' '' s) (\<lambda>s.
     Option.bind (read_comparator s) (\<lambda>(cmp, s). Option.bind (expect '' $1'' s) (\<lambda>s. Some ((c, cmp), s)))))"

datatype direction = Ascending | Descending

definition read_direction :: "string \<Rightarrow> direction option" where
  "read_direction s =
     (if s = '' DESC'' then Some Descending else if s = '' ASC'' \<or> s = [] then Some Ascending else None)"

record bound_query =
  bq_columns :: "string list"
  bq_path :: "string \<times> string"
  bq_bound :: "string \<times> comparator"
  bq_order :: "string \<times> direction"

definition read_bound_query :: "string \<Rightarrow> bound_query option" where
  "read_bound_query s =
     Option.bind (expect ''SELECT '' s) (\<lambda>s. Option.bind (read_list (length s) read_ident s) (\<lambda>(cs, s).
     Option.bind (expect '' FROM '' s) (\<lambda>s. Option.bind (read_path s) (\<lambda>(p, s).
     Option.bind (expect '' WHERE '' s) (\<lambda>s. Option.bind (read_bound s) (\<lambda>(w, s).
     Option.bind (expect '' ORDER BY '' s) (\<lambda>s. Option.bind (read_ident s) (\<lambda>(c, s).
     map_option (\<lambda>dir. \<lparr> bq_columns = cs, bq_path = p, bq_bound = w, bq_order = (c, dir) \<rparr>) (read_direction s)))))))))"

definition read_bound_delete :: "string \<Rightarrow> ((string \<times> string) \<times> string \<times> comparator) option" where
  "read_bound_delete s =
     Option.bind (expect ''DELETE FROM '' s) (\<lambda>s. Option.bind (read_path s) (\<lambda>(p, s).
     Option.bind (expect '' WHERE '' s) (\<lambda>s. Option.bind (read_bound s) (\<lambda>(w, s). stop (p, w) s))))"

lemma read_bound_text:
  assumes "plain_name c" and "read_comparator (cmp @ '' $1'' @ rest) = Some (k, '' $1'' @ rest)"
  shows "read_bound (quote_ident c @ '' '' @ cmp @ '' $1'' @ rest) = Some ((c, k), rest)"
  using assms expect_append [of "'' ''"] expect_append [of "'' $1''"]
  by (simp add: read_bound_def read_ident_quote del: expect.simps)

text \<open>What the store sends, read back.\<close>

lemma read_select_sql:
  assumes "table_ok S t cols pk"
  shows "read_bound_query (select_sql S t cols) =
    Some \<lparr> bq_columns = cols @ [''_operation'', ''_block_number''], bq_path = (S, reorg_name t),
           bq_bound = (''_block_number'', Cmp_Ge), bq_order = (''_block_number'', Descending) \<rparr>"
proof -
  let ?cols = "cols @ [''_operation'', ''_block_number'']"
  let ?order = "'' ORDER BY '' @ quote_ident ''_block_number'' @ '' DESC''"
  let ?where = "quote_ident ''_block_number'' @ '' '' @ ''>='' @ '' $1'' @ ?order"
  let ?from = "'' FROM '' @ table_path S (reorg_name t) @ '' WHERE '' @ ?where"
  have plain: "plain_name ''_block_number''" "plain_name ''_operation''" "plain_name S" "plain_name (reorg_name t)"
    using assms by (auto simp: table_ok_def plain_name_def reorg_name_def)
  have cols: "cols \<noteq> []" "\<forall>c \<in> set ?cols. plain_name c" using assms plain(1,2) by (auto simp: table_ok_def list_all_iff)
  have joined: "join '', '' (map quote_ident cols) @ '', '' @ quote_ident ''_operation'' @ '', '' @ quote_ident ''_block_number'' @ x =
      join '', '' (map quote_ident ?cols) @ x" for x
    using cols(1) by (induction cols rule: list_nonempty_induct) (auto simp: neq_Nil_conv)
  have sql: "select_sql S t cols = ''SELECT '' @ join '', '' (map quote_ident ?cols) @ ?from"
    unfolding joined [symmetric] by (simp add: select_sql_def)
  have "read_list (length (join '', '' (map quote_ident ?cols) @ ?from)) read_ident (join '', '' (map quote_ident ?cols) @ ?from) =
      Some (map (\<lambda>c. c) ?cols, ?from)"
    using cols(2) length_join [of "map quote_ident ?cols"]
    by (intro read_list_join) (auto simp: read_ident_quote is_digit_def)
  moreover have "read_bound ?where = Some ((''_block_number'', Cmp_Ge), ?order)"
    by (rule read_bound_text [OF plain(1)]) (simp add: read_comparator_def)
  moreover have "read_path (table_path S (reorg_name t) @ '' WHERE '' @ ?where) = Some ((S, reorg_name t), '' WHERE '' @ ?where)"
    by (rule read_path_append [OF plain(3,4)])
  ultimately show ?thesis
    using expect_append [of "''SELECT ''"] expect_append [of "'' FROM ''"] expect_append [of "'' WHERE ''"]
      expect_append [of "'' ORDER BY ''"] read_ident_quote [OF plain(1)]
    by (simp add: read_bound_query_def sql read_direction_def del: expect.simps append_assoc)
qed

lemma read_cleanup_sql:
  assumes "table_ok S t cols pk" and "read_comparator (cmp @ '' $1'') = Some (k, '' $1'')"
  shows "read_bound_delete (cleanup_sql S t cmp) = Some ((S, reorg_name t), ''_block_number'', k)"
proof -
  have plain: "plain_name ''_block_number''" "plain_name S" "plain_name (reorg_name t)"
    using assms by (auto simp: table_ok_def plain_name_def reorg_name_def)
  have "read_bound (quote_ident ''_block_number'' @ '' '' @ cmp @ '' $1'') = Some ((''_block_number'', k), [])"
    using read_bound_text [OF plain(1), of cmp "[]" k] assms(2) by simp
  then show ?thesis
    using read_path_append [OF plain(2,3)] expect_append [of "''DELETE FROM ''"] expect_append [of "'' WHERE ''"]
    by (simp add: read_bound_delete_def cleanup_sql_def del: expect.simps append_assoc)
qed

section \<open>Tables with a shadow\<close>

record shadow_entry =
  se_block :: int
  se_op :: string
  se_content :: content

text \<open>What \<open>try_get::<String>\<close> shows of a value and of an entry.\<close>

fun text_of :: "column_value \<Rightarrow> string option" where
  "text_of (CV_Text s) = Some s"
| "text_of _ = None"

definition seen :: "shadow_entry \<Rightarrow> seen_row" where
  "seen e = (\<lambda>c. if c = ''_operation'' then Some (se_op e) else text_of (se_content e c))"

definition seen_value :: "seen_row \<Rightarrow> string \<Rightarrow> column_value" where
  "seen_value row c = (case row c of Some v \<Rightarrow> CV_Text v | None \<Rightarrow> CV_Null)"

definition seen_content :: "string list \<Rightarrow> seen_row \<Rightarrow> content" where
  "seen_content cols row = (\<lambda>c. if c \<in> set cols then seen_value row c else CV_Null)"

definition seen_sets :: "string list \<Rightarrow> string \<Rightarrow> seen_row \<Rightarrow> (string \<times> column_value) list" where
  "seen_sets cols pk row = map (\<lambda>c. (c, seen_value row c)) (filter (\<lambda>c. c \<noteq> pk) cols)"

text \<open>The order of a query.\<close>

definition in_order :: "direction \<Rightarrow> shadow_entry list \<Rightarrow> bool" where
  "in_order dir es \<longleftrightarrow>
     sorted_wrt (\<lambda>e e'. case dir of Descending \<Rightarrow> se_block e' \<le> se_block e | Ascending \<Rightarrow> se_block e \<le> se_block e') es"

text \<open>
  A server that holds a table and its shadow, of text columns. \<open>shadow\<close> lists the entries
  of the shadow table. The order of the rows of one block is the server's choice.
\<close>

locale shadowed_table = sql_table "pg_exec pool" view storable R pg_schema table cols pk
  for pool :: "'d pg_pool"
    and view :: "'d \<Rightarrow> table_state"
    and storable :: "row \<Rightarrow> bool"
    and R :: renderer
    and pg_schema table :: string
    and cols :: "string list"
    and pk :: string +
  fixes shadow :: "'d \<Rightarrow> shadow_entry list"
  assumes insert_shadow: "table_ok pg_schema table cols pk \<Longrightarrow> list_all storable rows \<Longrightarrow> rows \<noteq> [] \<Longrightarrow>
      pg_exec pool (insert_sql R pg_schema table cols rows) d = (Inr (), d') \<Longrightarrow> shadow d' = shadow d"
    and update_shadow: "table_ok pg_schema table cols pk \<Longrightarrow> storable r \<Longrightarrow> update_sets R cols pk r \<noteq> [] \<Longrightarrow>
      pg_exec pool (update_sql R pg_schema table cols pk r) d = (Inr (), d') \<Longrightarrow> shadow d' = shadow d"
    and record_law: "table_ok pg_schema table cols pk \<Longrightarrow> storable r \<Longrightarrow>
      pg_exec pool (record_sql R pg_schema table cols op block r) d = (Inr (), d') \<Longrightarrow>
      view d' = view d \<and>
      shadow d' = shadow d @ [\<lparr> se_block = int (unat block), se_op = inverse_op op, se_content = row_content cols r \<rparr>]"
    and undo_delete_law: "table_ok pg_schema table cols pk \<Longrightarrow> quote_char \<notin> set k \<Longrightarrow>
      pg_exec pool (undo_delete_sql pg_schema table pk k) d = (Inr (), d') \<Longrightarrow>
      view d' = delete_effect (CV_Text k) (view d) \<and> shadow d' = shadow d"
    and undo_insert_law: "table_ok pg_schema table cols pk \<Longrightarrow>
      pg_exec pool (undo_insert_sql pg_schema table cols row) d = (Inr (), d') \<Longrightarrow>
      view d' = insert_effect (seen_value row pk) (seen_content cols row) (view d) \<and> shadow d' = shadow d"
    and undo_update_law: "table_ok pg_schema table cols pk \<Longrightarrow> quote_char \<notin> set k \<Longrightarrow> undo_sets cols pk row \<noteq> [] \<Longrightarrow>
      pg_exec pool (undo_update_sql pg_schema table cols pk row k) d = (Inr (), d') \<Longrightarrow>
      view d' = update_effect (CV_Text k) (seen_sets cols pk row) (view d) \<and> shadow d' = shadow d"
    and select_law: "read_bound_query sql = Some q \<Longrightarrow> bq_path q = (pg_schema, reorg_name table) \<Longrightarrow>
      bq_columns q = cols @ [''_operation'', ''_block_number''] \<Longrightarrow>
      bq_bound q = (''_block_number'', cmp) \<Longrightarrow> bq_order q = (''_block_number'', dir) \<Longrightarrow>
      pg_fetch pool sql b d = (Inr srows, d') \<Longrightarrow>
      view d' = view d \<and> shadow d' = shadow d \<and>
      (\<exists>es. srows = map seen es \<and> mset es = mset (filter (\<lambda>e. compares cmp (se_block e) (sint b)) (shadow d)) \<and>
            in_order dir es)"
    and cleanup_law: "read_bound_delete sql = Some ((pg_schema, reorg_name table), ''_block_number'', cmp) \<Longrightarrow>
      pg_exec_bind pool sql b d = (Inr (), d') \<Longrightarrow>
      view d' = view d \<and> shadow d' = filter (\<lambda>e. \<not> compares cmp (se_block e) (sint b)) (shadow d)"

text \<open>What replaying a row asks for; its key must be text that survives in quotes.\<close>

definition apply_undo :: "string list \<Rightarrow> string \<Rightarrow> seen_row \<Rightarrow> table_state \<Rightarrow> table_state" where
  "apply_undo cols pk row =
     (if row ''_operation'' = Some ''DELETE'' then delete_effect (seen_value row pk)
      else if row ''_operation'' = Some ''INSERT'' then insert_effect (seen_value row pk) (seen_content cols row)
      else if row ''_operation'' = Some ''UPDATE'' then update_effect (seen_value row pk) (seen_sets cols pk row)
      else (\<lambda>st. st))"

definition key_ok :: "string \<Rightarrow> seen_row \<Rightarrow> bool" where
  "key_ok pk row = (case row pk of Some k \<Rightarrow> quote_char \<notin> set k | None \<Rightarrow> False)"

lemma lift_res_apply_Inr [call_simps]: "lift_res (Inr x) s = (Inr x, s)"
  by (simp add: lift_res_def)

lemma lift_res_apply_Inl [call_simps]: "lift_res (Inl e) s = (Inl e, s)"
  by (simp add: lift_res_def)

declare map_err_Inr_iff [simp]

lemma fold_insert_other:
  "k \<notin> key ` set rows \<Longrightarrow> fold (\<lambda>r. insert_effect (key r) (m r)) rows st k = st k"
  by (induction rows arbitrary: st) (auto simp: insert_effect_def split: option.splits)

lemma fold_deletes_set:
  assumes "\<And>e. e \<in> set es \<Longrightarrow> \<exists>r \<in> set rows. e = ent r"
    and "\<And>r. r \<in> set rows \<Longrightarrow> ent r \<in> set es" and "\<And>r. r \<in> set rows \<Longrightarrow> f (ent r) = delete_effect (key r)"
  shows "fold f es st k = (if k \<in> key ` set rows then None else st k)"
proof -
  have "fold f xs st k = (if \<exists>r \<in> set rows. ent r \<in> set xs \<and> key r = k then None else st k)"
    if "set xs \<subseteq> set es" for xs
    using that
  proof (induction xs arbitrary: st)
    case (Cons x xs)
    then obtain r where r: "r \<in> set rows" "x = ent r" using assms(1) by auto
    show ?case
      using Cons r assms(3) by (auto simp: delete_effect_def) (metis assms(3) delete_effect_def fun_upd_other fun_upd_same)+
  qed simp
  from this [of es] assms(2) show ?thesis by auto
qed

lemma map_of_map_Pair: "map_of (map (\<lambda>c. (c, f c)) cs) c = (if c \<in> set cs then Some (f c) else None)"
  by (induction cs) auto

context shadowed_table
begin

lemma undo_row_view:
  assumes ok: "table_ok pg_schema table cols pk" and key: "key_ok pk row"
    and run: "undo_row (pg_exec pool) pg_schema table pk cols row d = (Inr u, d')"
  shows "view d' = apply_undo cols pk row (view d) \<and> shadow d' = shadow d"
proof -
  obtain k where k: "row pk = Some k" "quote_char \<notin> set k"
    using key by (auto simp: key_ok_def split: option.splits)
  obtain op where op: "row ''_operation'' = Some op"
    using run by (cases "row ''_operation''") (auto simp: undo_row_def get_str_def seq_def call_simps)
  have upd: "update_effect (CV_Text k) (seen_sets cols pk row) st = st" if "undo_sets cols pk row = []" for st
    using that by (simp add: undo_sets_def seen_sets_def)
  show ?thesis
    using run undo_delete_law [OF ok k(2)] undo_insert_law [OF ok] undo_update_law [OF ok k(2)]
    by (auto simp: undo_row_def get_str_def seq_def call_simps op k(1) apply_undo_def seen_value_def upd
        split: if_splits)
qed

lemma undo_rows_view:
  assumes "table_ok pg_schema table cols pk" and "list_all (key_ok pk) rows"
    and "for_each (undo_row (pg_exec pool) pg_schema table pk cols) rows d = (Inr u, d')"
  shows "view d' = fold (apply_undo cols pk) rows (view d) \<and> shadow d' = shadow d"
  using assms(2,3)
proof (induction rows arbitrary: d)
  case Nil
  then show ?case by (simp add: call_simps)
next
  case (Cons row rows)
  then obtain v d1 where "undo_row (pg_exec pool) pg_schema table pk cols row d = (Inr v, d1)"
    and "for_each (undo_row (pg_exec pool) pg_schema table pk cols) rows d1 = (Inr u, d')"
    by (auto simp: seq_Inr_iff)
  with Cons undo_row_view [OF assms(1)] show ?case by fastforce
qed

lemma rollback_view:
  assumes "table_ok pg_schema table cols pk"
    and "\<forall>e \<in> set (shadow d). sint b \<le> se_block e \<longrightarrow> key_ok pk (seen e)"
    and "rollback_from_block pool pg_schema table b pk cols d = (Inr n, d')"
  shows "\<exists>es. mset es = mset (filter (\<lambda>e. sint b \<le> se_block e) (shadow d)) \<and>
      sorted_wrt (\<lambda>e e'. se_block e' \<le> se_block e) es \<and> n = length es \<and>
      view d' = fold (apply_undo cols pk \<circ> seen) es (view d) \<and>
      shadow d' = filter (\<lambda>e. se_block e < sint b) (shadow d)"
proof -
  from assms(3) obtain rows d1 d2 where
    f: "pg_fetch pool (select_sql pg_schema table cols) b d = (Inr rows, d1)" and
    r: "for_each (undo_row (pg_exec pool) pg_schema table pk cols) rows d1 = (Inr (), d2)" and
    c: "pg_exec_bind pool (cleanup_sql pg_schema table ''>='') b d2 = (Inr (), d')" and n: "n = length rows"
    by (auto simp: rollback_from_block_def seq_Inr_iff call_simps)
  obtain es where es: "rows = map seen es" "mset es = mset (filter (\<lambda>e. sint b \<le> se_block e) (shadow d))"
    "sorted_wrt (\<lambda>e e'. se_block e' \<le> se_block e) es" and d1: "view d1 = view d" "shadow d1 = shadow d"
    using select_law [OF read_select_sql [OF assms(1)] _ _ _ _ f] by (auto simp: in_order_def)
  have "set es = set (filter (\<lambda>e. sint b \<le> se_block e) (shadow d))"
    using es(2) by (rule mset_eq_setD)
  then have "list_all (key_ok pk) rows" using assms(2) by (auto simp: es(1) list_all_iff)
  then have "view d2 = fold (apply_undo cols pk) rows (view d)" "shadow d2 = shadow d"
    using undo_rows_view [OF assms(1) _ r] d1 by auto
  moreover have "read_comparator (''>='' @ '' $1'') = Some (Cmp_Ge, '' $1'')" by (simp add: read_comparator_def)
  note cleanup = cleanup_law [OF read_cleanup_sql [OF assms(1) this] c]
  ultimately show ?thesis
    using cleanup es n by (intro exI [of _ es]) (simp add: fold_map not_le)
qed

lemma record_flush_view:
  assumes "table_ok pg_schema table cols pk" and "list_all storable rows"
    and "record_flush R (pg_exec pool) pg_schema table rows op block cols d = (Inr u, d')"
  shows "view d' = view d \<and>
    shadow d' = shadow d @ map (\<lambda>r. \<lparr> se_block = int (unat block), se_op = inverse_op op,
                                     se_content = row_content cols r \<rparr>) rows"
  using assms(2,3) unfolding record_flush_def
proof (induction rows arbitrary: d)
  case Nil
  then show ?case by (simp add: call_simps)
next
  case (Cons r rows)
  then obtain d1 where "pg_exec pool (record_sql R pg_schema table cols op block r) d = (Inr (), d1)"
    and "for_each (\<lambda>r. execute_flush (pg_exec pool) (reorg_name table)
           (record_sql R pg_schema table cols op block r)) rows d1 = (Inr u, d')"
    by (auto simp: seq_Inr_iff)
  with Cons record_law [OF assms(1)] show ?case by fastforce
qed

lemma inserts_shadow:
  assumes "table_ok pg_schema table cols pk" and "list_all storable rows"
    and "flush_inserts R (pg_exec pool) pg_schema table cols rows d = (Inr u, d')"
  shows "shadow d' = shadow d"
  using assms insert_shadow [OF assms(1,2)] by (auto simp: flush_inserts_def call_simps split: if_splits)

lemma recorded_inserts:
  assumes ok: "table_ok pg_schema table cols pk"
    and rows: "list_all storable rows" "list_all is_insert rows"
    and keys: "\<forall>r \<in> set rows. \<exists>k. row_key pk r = CV_Text k \<and> quote_char \<notin> set k \<and> view d (CV_Text k) = None"
    and old: "\<forall>e \<in> set (shadow d). se_block e < sint b" and new: "sint b \<le> int (unat block)"
    and flush: "flush_inserts R (pg_exec pool) pg_schema table cols rows d = (Inr u, d1)"
    and recd: "record_flush R (pg_exec pool) pg_schema table rows Op_Insert block cols d1 = (Inr v, d2)"
    and roll: "rollback_from_block pool pg_schema table b pk cols d2 = (Inr n, d3)"
  shows "view d3 = view d \<and> shadow d3 = shadow d \<and> n = length rows"
proof -
  define ent where "ent r = \<lparr> se_block = int (unat block), se_op = ''DELETE'', se_content = row_content cols r \<rparr>" for r
  have v1: "view d1 = fold (\<lambda>r. insert_effect (row_key pk r) (row_content cols r)) rows (view d)"
    using inserts_view [OF ok rows flush] rows(2) by (simp add: fold_apply_row)
  have s2: "view d2 = view d1" "shadow d2 = shadow d @ map ent rows"
    using record_flush_view [OF ok rows(1) recd] inserts_shadow [OF ok rows(1) flush] by (simp_all add: ent_def)
  have pk: "pk \<in> set cols" "pk \<noteq> ''_operation''" using ok by (auto simp: table_ok_def)
  have seen_pk: "seen (ent r) pk = text_of (row_key pk r)" for r
    using pk by (simp add: seen_def ent_def row_content_def row_key_def)
  have undo: "apply_undo cols pk (seen (ent r)) = delete_effect (row_key pk r)" if "r \<in> set rows" for r
    using keys that seen_pk [of r] by (fastforce simp: apply_undo_def seen_value_def seen_def ent_def)
  have recent: "filter (\<lambda>e. sint b \<le> se_block e) (shadow d2) = map ent rows"
    "filter (\<lambda>e. se_block e < sint b) (shadow d2) = shadow d"
    using old new by (auto simp: s2 ent_def filter_empty_conv filter_id_conv)
  have "\<forall>e \<in> set (shadow d2). sint b \<le> se_block e \<longrightarrow> key_ok pk (seen e)"
    using keys old by (fastforce simp: s2 key_ok_def seen_pk)
  then obtain es where es: "mset es = mset (map ent rows)" "n = length es"
    "view d3 = fold (apply_undo cols pk \<circ> seen) es (view d2)" and s3: "shadow d3 = shadow d"
    using rollback_view [OF ok _ roll] recent by auto
  have "set es = ent ` set rows" using mset_eq_setD [OF es(1)] by simp
  then have "fold (apply_undo cols pk \<circ> seen) es st k =
      (if k \<in> row_key pk ` set rows then None else st k)" for st k
    using undo by (intro fold_deletes_set) auto
  moreover have "view d k = None" if "k \<in> row_key pk ` set rows" for k
    using keys that by auto
  moreover have "view d1 k = view d k" if "k \<notin> row_key pk ` set rows" for k
    using fold_insert_other [OF that] by (simp add: v1)
  ultimately have "view d3 = view d" by (auto simp: fun_eq_iff es(3) s2(1))
  moreover have "length es = length rows" using es(1) by (metis length_map size_mset)
  ultimately show ?thesis using s3 es(2) by simp
qed

lemma updates_shadow:
  assumes "table_ok pg_schema table cols pk" and "storable r"
    and "flush_updates R (pg_exec pool) pg_schema table cols pk [r] d = (Inr u, d')"
  shows "shadow d' = shadow d"
  using assms update_shadow [OF assms(1,2)]
  by (auto simp: flush_updates_def seq_Inr_iff call_simps split: if_splits)

lemma recorded_update:
  assumes ok: "table_ok pg_schema table cols pk"
    and row: "storable r" "is_update r" "row_key pk r = CV_Text k" "quote_char \<notin> set k"
    and m: "view d (CV_Text k) = Some m"
    and old: "\<forall>e \<in> set (shadow d). se_block e < sint b" and new: "sint b \<le> int (unat block)"
    and flush: "flush_updates R (pg_exec pool) pg_schema table cols pk [r] d = (Inr u, d1)"
    and recd: "record_flush R (pg_exec pool) pg_schema table [r] Op_Update block cols d1 = (Inr v, d2)"
    and roll: "rollback_from_block pool pg_schema table b pk cols d2 = (Inr n, d3)"
  shows "view d3 (CV_Text k) = Some (\<lambda>c. if c \<in> set cols \<and> c \<noteq> pk
           then (case text_of (value_or_null r c) of Some s \<Rightarrow> CV_Text s | None \<Rightarrow> CV_Null) else m c)"
proof -
  define ent where "ent = \<lparr> se_block = int (unat block), se_op = ''UPDATE'', se_content = row_content cols r \<rparr>"
  have v1: "view d1 = update_effect (CV_Text k) (row_sets cols pk r) (view d)"
    using updates_view [OF ok _ _ flush] row by (simp add: apply_row_cases)
  have s2: "view d2 = view d1" "shadow d2 = shadow d @ [ent]"
    using record_flush_view [OF ok _ recd] updates_shadow [OF ok row(1) flush] row(1) by (simp_all add: ent_def)
  have pk: "pk \<in> set cols" "pk \<noteq> ''_operation''" using ok by (auto simp: table_ok_def)
  have seen_pk: "seen ent pk = Some k"
    using pk row(3) by (simp add: seen_def ent_def row_content_def row_key_def)
  have recent: "filter (\<lambda>e. sint b \<le> se_block e) (shadow d2) = [ent]"
    using old new by (auto simp: s2 ent_def filter_empty_conv)
  have "\<forall>e \<in> set (shadow d2). sint b \<le> se_block e \<longrightarrow> key_ok pk (seen e)"
    using old row(4) by (auto simp: s2 key_ok_def seen_pk)
  then obtain es where es: "mset es = mset [ent]" "view d3 = fold (apply_undo cols pk \<circ> seen) es (view d2)"
    using rollback_view [OF ok _ roll] recent by auto
  have "es = [ent]" using es(1) by simp
  moreover have "apply_undo cols pk (seen ent) = update_effect (CV_Text k) (seen_sets cols pk (seen ent))"
    using seen_pk by (simp add: apply_undo_def seen_value_def) (simp add: seen_def ent_def)
  ultimately have v3: "view d3 = update_effect (CV_Text k) (seen_sets cols pk (seen ent)) (view d1)"
    using es(2) s2(1) by simp
  have sets: "map_of (seen_sets cols pk (seen ent)) c =
      (if c \<in> set cols \<and> c \<noteq> pk then Some (seen_value (seen ent) c) else None)" for c
    by (auto simp: seen_sets_def map_of_map_Pair)
  have outside: "map_of (row_sets cols pk r) c = None" if "\<not> (c \<in> set cols \<and> c \<noteq> pk)" for c
    using that by (auto simp: row_sets_def map_of_eq_None_iff set_filter_map)
  have val: "seen_value (seen ent) c = (case text_of (value_or_null r c) of Some s \<Rightarrow> CV_Text s | None \<Rightarrow> CV_Null)"
    if "c \<in> set cols" for c
    using that ok by (auto simp: seen_value_def seen_def ent_def row_content_def table_ok_def)
  show ?thesis
    by (auto simp: v3 v1 update_effect_def m sets outside val fun_eq_iff)
qed

end

subsection \<open>The text server with a shadow\<close>

type_synonym shadow_db = "table_state \<times> shadow_entry list"

definition run_record ::
  "string \<Rightarrow> string \<Rightarrow> string list \<Rightarrow> statement option \<Rightarrow> shadow_entry option" where
  "run_record pg_schema table cols stmt =
     (case stmt of
        Some (S_Insert p ics [vs]) \<Rightarrow>
          if p = (pg_schema, reorg_name table) \<and> ics = cols @ [''_operation'', ''_block_number'']
          then (case drop (length cols) vs of
                  [CV_Text op, CV_BigNumeric n] \<Rightarrow>
                    if int (digits_val n) < 2 ^ 63
                    then Some \<lparr> se_block = int (digits_val n), se_op = op,
                                se_content = content_of cols (take (length cols) vs) \<rparr>
                    else None
                | _ \<Rightarrow> None)
          else None
      | _ \<Rightarrow> None)"

text \<open>An insert into the shadow table has no conflict clause; the reader is given one.\<close>

definition shadow_exec :: "string \<Rightarrow> string \<Rightarrow> string list \<Rightarrow> string \<Rightarrow> shadow_db execute" where
  "shadow_exec pg_schema table cols pk sql = (\<lambda>(st, sh).
     case expect (''INSERT INTO '' @ table_path pg_schema (reorg_name table) @ '' '') sql of
       Some _ \<Rightarrow>
         (case run_record pg_schema table cols (read_statement (sql @ '' ON CONFLICT DO NOTHING'')) of
            Some e \<Rightarrow> (Inr (), (st, sh @ [e]))
          | None \<Rightarrow> (Inl Sqlx_Database, (st, sh)))
     | None \<Rightarrow> (case text_exec pg_schema table cols pk sql st of (r, st') \<Rightarrow> (r, (st', sh))))"

text \<open>The statements with a bound number are read as well.\<close>

definition shadow_delete :: "string \<Rightarrow> string \<Rightarrow> string \<Rightarrow> 64 word \<Rightarrow> (shadow_db, sqlx_error, unit) call" where
  "shadow_delete pg_schema table sql b = (\<lambda>(st, sh).
     case read_bound_delete sql of
       Some (p, c, cmp) \<Rightarrow>
         if p = (pg_schema, reorg_name table) \<and> c = ''_block_number''
         then (Inr (), (st, filter (\<lambda>e. \<not> compares cmp (se_block e) (sint b)) sh))
         else (Inl Sqlx_Database, (st, sh))
     | None \<Rightarrow> (Inl Sqlx_Database, (st, sh)))"

definition order_key :: "direction \<Rightarrow> shadow_entry \<Rightarrow> int" where
  "order_key dir e = (case dir of Descending \<Rightarrow> - se_block e | Ascending \<Rightarrow> se_block e)"

definition shadow_fetch ::
  "string \<Rightarrow> string \<Rightarrow> string list \<Rightarrow> string \<Rightarrow> 64 word \<Rightarrow> (shadow_db, sqlx_error, seen_row list) call" where
  "shadow_fetch pg_schema table cols sql b = (\<lambda>(st, sh).
     case read_bound_query sql of
       Some q \<Rightarrow>
         if bq_path q = (pg_schema, reorg_name table) \<and> bq_columns q = cols @ [''_operation'', ''_block_number''] \<and>
            fst (bq_bound q) = ''_block_number'' \<and> fst (bq_order q) = ''_block_number''
         then (Inr (map seen (sort_key (order_key (snd (bq_order q)))
                 (filter (\<lambda>e. compares (snd (bq_bound q)) (se_block e) (sint b)) sh))), (st, sh))
         else (Inl Sqlx_Database, (st, sh))
     | None \<Rightarrow> (Inl Sqlx_Database, (st, sh)))"

definition shadow_pool :: "string \<Rightarrow> string \<Rightarrow> string list \<Rightarrow> string \<Rightarrow> shadow_db pg_pool" where
  "shadow_pool pg_schema table cols pk =
     \<lparr> pg_exec = shadow_exec pg_schema table cols pk, pg_exec_bind = shadow_delete pg_schema table,
       pg_fetch = shadow_fetch pg_schema table cols \<rparr>"

lemma expect_Some: "expect w s = Some r \<longleftrightarrow> s = w @ r"
  by (induction w s rule: expect.induct) auto

lemma not_shadow:
  assumes "table_ok S t cols pk"
  shows "expect (''INSERT INTO '' @ table_path S (reorg_name t) @ '' '') (''INSERT INTO '' @ table_path S t @ x) = None"
proof (rule ccontr)
  assume "\<not> ?thesis"
  then obtain r where "table_path S t @ x = table_path S (reorg_name t) @ '' '' @ r"
    by (auto simp: expect_Some)
  then have "read_path (table_path S t @ x) = read_path (table_path S (reorg_name t) @ '' '' @ r)" by simp
  then show False
    using assms by (simp add: read_path_append table_ok_def plain_name_def reorg_name_def)
qed

lemma shadow_exec_other:
  assumes "table_ok S t cols pk"
  shows "shadow_exec S t cols pk (''INSERT INTO '' @ table_path S t @ x) d =
      (case text_exec S t cols pk (''INSERT INTO '' @ table_path S t @ x) (fst d) of (r, st') \<Rightarrow> (r, (st', snd d)))"
    and "shadow_exec S t cols pk (''UPDATE '' @ x) d =
      (case text_exec S t cols pk (''UPDATE '' @ x) (fst d) of (r, st') \<Rightarrow> (r, (st', snd d)))"
    and "shadow_exec S t cols pk (''DELETE FROM '' @ x) d =
      (case text_exec S t cols pk (''DELETE FROM '' @ x) (fst d) of (r, st') \<Rightarrow> (r, (st', snd d)))"
  using not_shadow [OF assms, of x] by (cases d; simp add: shadow_exec_def)+

lemma shadow_exec_sql:
  assumes "table_ok S t cols pk"
  shows "shadow_exec S t cols pk (insert_sql R S t cols rows) d = (Inr (), d') \<longleftrightarrow>
      text_exec S t cols pk (insert_sql R S t cols rows) (fst d) = (Inr (), fst d') \<and> snd d' = snd d"
    and "shadow_exec S t cols pk (update_sql R S t cols pk r) d = (Inr (), d') \<longleftrightarrow>
      text_exec S t cols pk (update_sql R S t cols pk r) (fst d) = (Inr (), fst d') \<and> snd d' = snd d"
    and "shadow_exec S t cols pk (delete_sql R S t pk rows) d = (Inr (), d') \<longleftrightarrow>
      text_exec S t cols pk (delete_sql R S t pk rows) (fst d) = (Inr (), fst d') \<and> snd d' = snd d"
    and "shadow_exec S t cols pk (undo_delete_sql S t pk k) d = (Inr (), d') \<longleftrightarrow>
      text_exec S t cols pk (undo_delete_sql S t pk k) (fst d) = (Inr (), fst d') \<and> snd d' = snd d"
    and "shadow_exec S t cols pk (undo_insert_sql S t cols srow) d = (Inr (), d') \<longleftrightarrow>
      text_exec S t cols pk (undo_insert_sql S t cols srow) (fst d) = (Inr (), fst d') \<and> snd d' = snd d"
    and "shadow_exec S t cols pk (undo_update_sql S t cols pk srow k) d = (Inr (), d') \<longleftrightarrow>
      text_exec S t cols pk (undo_update_sql S t cols pk srow k) (fst d) = (Inr (), fst d') \<and> snd d' = snd d"
  unfolding insert_sql_def update_sql_def delete_sql_def undo_delete_sql_def undo_insert_sql_def undo_update_sql_def
    shadow_exec_other [OF assms]
  by (cases d'; auto split: prod.splits)+

lemma escape_quotes_id: "quote_char \<notin> set k \<Longrightarrow> escape_quotes k = k"
  by (induction k) auto

lemma read_quoted: "quote_char \<notin> set k \<Longrightarrow> ends rest \<Longrightarrow>
    read_value (([quote_char] @ k @ [quote_char]) @ rest) = Some (CV_Text k, rest)"
  using read_value_text [of rest k] by (simp add: quote_text_def escape_quotes_id)

lemma read_undo_literal: "ends rest \<Longrightarrow> read_value (undo_literal row c @ rest) = Some (seen_value row c, rest)"
  using read_value_null [of rest]
  by (auto simp: undo_literal_def seen_value_def read_value_text split: option.splits)

lemma text_undo_delete:
  assumes "table_ok S t cols pk" and "quote_char \<notin> set k"
    and "text_exec S t cols pk (undo_delete_sql S t pk k) d = (Inr (), d')"
  shows "d' = delete_effect (CV_Text k) d"
proof -
  have "read_statement (undo_delete_sql S t pk k) = Some (S_Delete (S, t) pk [CV_Text k])"
    unfolding undo_delete_sql_def
    using assms(1) read_quoted [OF assms(2), of "[]"]
    by (intro read_delete_eq_text) (auto simp: table_ok_def list_all_iff)
  then show ?thesis using assms(3) by (simp add: text_exec_def run_statement_def)
qed

lemma text_undo_insert:
  assumes "table_ok S t cols pk" and "text_exec S t cols pk (undo_insert_sql S t cols row) d = (Inr (), d')"
  shows "d' = insert_effect (seen_value row pk) (seen_content cols row) d"
proof -
  have "read_statement (undo_insert_sql S t cols row) = Some (S_Insert (S, t) cols [map (seen_value row) cols])"
  proof -
    have "cols \<noteq> []" using assms(1) by (auto simp: table_ok_def)
    then show ?thesis
      using read_insert_text [of S t cols "[row]" undo_literal seen_value] assms(1)
      by (simp add: undo_insert_sql_def table_ok_def read_undo_literal)
  qed
  moreover have "content_of cols (map (seen_value row) cols) = seen_content cols row"
    by (auto simp: content_of_def seen_content_def map_of_zip_map fun_eq_iff)
  moreover have "seen_content cols row pk = seen_value row pk"
    using assms(1) by (simp add: seen_content_def table_ok_def)
  ultimately show ?thesis
    using assms(2) by (auto simp: text_exec_def run_statement_def split: if_splits)
qed

lemma text_undo_update:
  assumes "table_ok S t cols pk" and "quote_char \<notin> set k" and "undo_sets cols pk row \<noteq> []"
    and "text_exec S t cols pk (undo_update_sql S t cols pk row k) d = (Inr (), d')"
  shows "d' = update_effect (CV_Text k) (seen_sets cols pk row) d"
proof -
  have sets: "undo_sets cols pk row =
      map (\<lambda>x. quote_ident (fst x) @ '' = '' @ undo_literal row (fst x)) (seen_sets cols pk row)"
    by (simp add: undo_sets_def seen_sets_def)
  have "read_statement (undo_update_sql S t cols pk row k) = Some (S_Update (S, t) (seen_sets cols pk row) pk (CV_Text k))"
    unfolding undo_update_sql_def sets
  proof (rule read_update_text)
    show "read_value ([quote_char] @ k @ [quote_char]) = Some (CV_Text k, [])"
      using read_quoted [OF assms(2), of "[]"] by simp
    show "read_value (undo_literal row (fst x) @ rest) = Some (snd x, rest)"
      if "x \<in> set (seen_sets cols pk row)" "ends rest" for x rest
      using that by (auto simp: seen_sets_def read_undo_literal)
    show "list_all (plain_name \<circ> fst) (seen_sets cols pk row)"
      using assms(1) by (auto simp: table_ok_def list_all_iff seen_sets_def)
  qed (use assms(1,3) in \<open>auto simp: table_ok_def list_all_iff undo_sets_def seen_sets_def\<close>)
  then show ?thesis using assms(4) by (simp add: text_exec_def run_statement_def)
qed

lemma text_record:
  assumes ok: "table_ok S t cols pk" and "text_storable pk r"
    and run: "shadow_exec S t cols pk (record_sql R S t cols op block r) d = (Inr (), d')"
  shows "fst d' = fst d \<and>
    snd d' = snd d @ [\<lparr> se_block = int (unat block), se_op = inverse_op op, se_content = row_content cols r \<rparr>]"
proof -
  let ?lit = "\<lambda>r c. if c = ''_operation'' then [quote_char] @ inverse_op op @ [quote_char]
    else if c = ''_block_number'' then nat_str (unat block) else literal_or_null R r c"
  let ?val = "\<lambda>r c. if c = ''_operation'' then CV_Text (inverse_op op)
    else if c = ''_block_number'' then CV_BigNumeric (nat_str (unat block)) else value_or_null r c"
  let ?cols = "cols @ [''_operation'', ''_block_number'']"
  let ?sql = "record_sql R S t cols op block r"
  have "quote_char \<notin> set (inverse_op op)" by (cases op) auto
  then have lit: "read_value (?lit r c @ rest) = Some (?val r c, rest)" if "ends rest" for c rest
    using that assms(2) by (auto simp: read_quoted [simplified] read_value_digits nat_str_digits read_literal_or_null)
  have maps: "map (?lit r) ?cols = map (literal_or_null R r) cols @
      [[quote_char] @ inverse_op op @ [quote_char], nat_str (unat block)]"
    "map (?val r) ?cols = map (value_or_null r) cols @ [CV_Text (inverse_op op), CV_BigNumeric (nat_str (unat block))]"
    using ok by (auto simp: table_ok_def)
  have sql: "?sql @ '' ON CONFLICT DO NOTHING'' =
      ''INSERT INTO '' @ table_path S (reorg_name t) @ '' ('' @ join '', '' (map quote_ident ?cols) @ '') VALUES '' @
      join '', '' (map (\<lambda>r. ''('' @ join '', '' (map (?lit r) ?cols) @ '')'') [r]) @ '' ON CONFLICT DO NOTHING''"
    unfolding list.map(2) [of "\<lambda>r. ''('' @ join '', '' (map (?lit r) ?cols) @ '')''"] list.map(1) join.simps(2) maps
    by (simp add: record_sql_def)
  have "read_statement (?sql @ '' ON CONFLICT DO NOTHING'') =
      Some (S_Insert (S, reorg_name t) ?cols (map (\<lambda>r. map (?val r) ?cols) [r]))"
    unfolding sql
  proof (rule read_insert_text [where lit = ?lit and val = ?val])
    show "read_value (?lit r' c @ rest) = Some (?val r' c, rest)" if "r' \<in> set [r]" "ends rest" for r' c rest
    proof -
      have "r' = r" using that(1) by simp
      then show ?thesis by (simp only: lit [OF that(2)])
    qed
  qed (use ok in \<open>auto simp: table_ok_def plain_name_def reorg_name_def\<close>)
  then have read: "read_statement (?sql @ '' ON CONFLICT DO NOTHING'') =
      Some (S_Insert (S, reorg_name t) ?cols [map (value_or_null r) cols @
        [CV_Text (inverse_op op), CV_BigNumeric (nat_str (unat block))]])"
    unfolding list.map(2) [of "\<lambda>r. map (?val r) ?cols"] list.map(1) maps .
  have "expect (''INSERT INTO '' @ table_path S (reorg_name t) @ '' '') ?sql \<noteq> None"
    by (auto simp: record_sql_def expect_Some)
  then show ?thesis
    using run by (cases d)
      (auto simp: shadow_exec_def read run_record_def content_of_row split: option.splits if_splits)
qed

lemma sorted_by_block: "in_order dir (sort_key (order_key dir) es)"
  using sorted_sort_key [of "order_key dir" es]
  by (cases dir) (simp_all add: in_order_def sorted_map order_key_def)

interpretation shadow_server: shadowed_table "shadow_pool S t cols pk" fst "text_storable pk" R S t cols pk snd
  for S t cols pk R
proof (unfold_locales; (unfold shadow_pool_def pg_pool.simps)?)
  fix rows r d and d' :: shadow_db and op block
  assume ok: "table_ok S t cols pk"
  note exec = shadow_exec_sql [OF ok]
  show "rows \<noteq> [] \<Longrightarrow> list_all (text_storable pk) rows \<Longrightarrow>
      shadow_exec S t cols pk (insert_sql R S t cols rows) d = (Inr (), d') \<Longrightarrow>
      fst d' = fold (\<lambda>r. insert_effect (row_key pk r) (row_content cols r)) rows (fst d)"
    using text_insert [OF ok, of rows R "fst d" "fst d'"] by (simp add: exec)
  show "text_storable pk r \<Longrightarrow> update_sets R cols pk r \<noteq> [] \<Longrightarrow>
      shadow_exec S t cols pk (update_sql R S t cols pk r) d = (Inr (), d') \<Longrightarrow>
      fst d' = update_effect (row_key pk r) (row_sets cols pk r) (fst d)"
    using text_update [OF ok, of r R "fst d" "fst d'"] by (simp add: exec)
  show "rows \<noteq> [] \<Longrightarrow> list_all (text_storable pk) rows \<Longrightarrow>
      shadow_exec S t cols pk (delete_sql R S t pk rows) d = (Inr (), d') \<Longrightarrow>
      fst d' = fold (\<lambda>r. delete_effect (row_key pk r)) rows (fst d)"
    using text_delete [OF ok, of rows R "fst d" "fst d'"] by (simp add: exec)
  show "shadow_exec S t cols pk (insert_sql R S t cols rows) d = (Inr (), d') \<Longrightarrow> snd d' = snd d"
    "shadow_exec S t cols pk (update_sql R S t cols pk r) d = (Inr (), d') \<Longrightarrow> snd d' = snd d"
    by (simp_all add: exec)
  show "text_storable pk r \<Longrightarrow> shadow_exec S t cols pk (record_sql R S t cols op block r) d = (Inr (), d') \<Longrightarrow>
      fst d' = fst d \<and> snd d' = snd d @
        [\<lparr>se_block = int (unat block), se_op = inverse_op op, se_content = row_content cols r\<rparr>]"
    by (rule text_record [OF ok])
next
  fix k row d and d' :: shadow_db
  assume ok: "table_ok S t cols pk"
  note exec = shadow_exec_sql [OF ok]
  show "quote_char \<notin> set k \<Longrightarrow> shadow_exec S t cols pk (undo_delete_sql S t pk k) d = (Inr (), d') \<Longrightarrow>
      fst d' = delete_effect (CV_Text k) (fst d) \<and> snd d' = snd d"
    using text_undo_delete [OF ok, of k "fst d" "fst d'"] by (simp add: exec)
  show "shadow_exec S t cols pk (undo_insert_sql S t cols row) d = (Inr (), d') \<Longrightarrow>
      fst d' = insert_effect (seen_value row pk) (seen_content cols row) (fst d) \<and> snd d' = snd d"
    using text_undo_insert [OF ok, of row "fst d" "fst d'"] by (simp add: exec)
  show "quote_char \<notin> set k \<Longrightarrow> undo_sets cols pk row \<noteq> [] \<Longrightarrow>
      shadow_exec S t cols pk (undo_update_sql S t cols pk row k) d = (Inr (), d') \<Longrightarrow>
      fst d' = update_effect (CV_Text k) (seen_sets cols pk row) (fst d) \<and> snd d' = snd d"
    using text_undo_update [OF ok, of k row "fst d" "fst d'"] by (simp add: exec)
next
  fix sql q cmp dir b srows d and d' :: shadow_db
  assume "read_bound_query sql = Some q" "bq_path q = (S, reorg_name t)"
    "bq_columns q = cols @ [''_operation'', ''_block_number'']" "bq_bound q = (''_block_number'', cmp)"
    "bq_order q = (''_block_number'', dir)" "shadow_fetch S t cols sql b d = (Inr srows, d')"
  then have "d' = d \<and> srows = map seen (sort_key (order_key dir) (filter (\<lambda>e. compares cmp (se_block e) (sint b)) (snd d)))"
    by (auto simp: shadow_fetch_def split: prod.splits)
  then show "fst d' = fst d \<and> snd d' = snd d \<and> (\<exists>es. srows = map seen es \<and>
      mset es = mset (filter (\<lambda>e. compares cmp (se_block e) (sint b)) (snd d)) \<and> in_order dir es)"
    by (intro conjI exI [of _ "sort_key (order_key dir) (filter (\<lambda>e. compares cmp (se_block e) (sint b)) (snd d))"])
      (simp_all add: sorted_by_block)
next
  fix sql cmp b d and d' :: shadow_db
  assume "read_bound_delete sql = Some ((S, reorg_name t), ''_block_number'', cmp)" "shadow_delete S t sql b d = (Inr (), d')"
  then show "fst d' = fst d \<and> snd d' = filter (\<lambda>e. \<not> compares cmp (se_block e) (sint b)) (snd d)"
    by (auto simp: shadow_delete_def split: prod.splits)
qed (auto simp: text_storable_def)

section \<open>What a rollback restores\<close>


abbreviation token_pool :: "shadow_db pg_pool" where
  "token_pool \<equiv> shadow_pool ''public'' ''token'' [''id'', ''owner''] ''id''"


text \<open>
  A recorded update is not rolled back: the shadow table holds the row that
  was written, not the row it replaced. After the rollback every column the update set
  still has its new text, and every other column except the key has lost its value.
\<close>

lemma recorded_update_not_undone:
  assumes "shadowed_table pool view storable R S t cols pk shadow" and "table_ok S t cols pk"
    and "storable r" and "is_update r" and "row_key pk r = CV_Text k" and "quote_char \<notin> set k"
    and "view d (CV_Text k) = Some m"
    and "\<forall>e \<in> set (shadow d). se_block e < sint fork" and "sint fork \<le> int (unat block)"
    and "flush_updates R (pg_exec pool) S t cols pk [r] d = (Inr u, d1)"
    and "record_flush R (pg_exec pool) S t [r] Op_Update block cols d1 = (Inr v, d2)"
    and "rollback_from_block pool S t fork pk cols d2 = (Inr n, d3)"
  shows "view d3 (CV_Text k) = Some (\<lambda>c. if c \<in> set cols \<and> c \<noteq> pk
           then (case text_of (value_or_null r c) of Some s \<Rightarrow> CV_Text s | None \<Rightarrow> CV_Null) else m c)"
  using assms by (rule shadowed_table.recorded_update)

lemma recorded_update_not_undone_witness:
  "\<exists>d1 d2 n d3.
     flush_updates plain_renderer (pg_exec token_pool) ''public'' ''token'' [''id'', ''owner''] ''id''
       [owner_update ''1'' ''eve''] ([CV_Text ''1'' \<mapsto> (\<lambda>_. CV_Text ''bob'')], []) = (Inr (), d1) \<and>
     record_flush plain_renderer (pg_exec token_pool) ''public'' ''token'' [owner_update ''1'' ''eve'']
       Op_Update 7 [''id'', ''owner''] d1 = (Inr (), d2) \<and>
     rollback_from_block token_pool ''public'' ''token'' 5 ''id'' [''id'', ''owner''] d2 = (Inr n, d3) \<and>
     map_option (\<lambda>m. m ''owner'') (fst d3 (CV_Text ''1'')) = Some (CV_Text ''eve'')"
proof -
  let ?upd = "flush_updates plain_renderer (pg_exec token_pool) ''public'' ''token'' [''id'', ''owner''] ''id''
       [owner_update ''1'' ''eve'']" and
    ?rec = "record_flush plain_renderer (pg_exec token_pool) ''public'' ''token'' [owner_update ''1'' ''eve'']
       Op_Update 7 [''id'', ''owner'']" and
    ?roll = "rollback_from_block token_pool ''public'' ''token'' 5 ''id'' [''id'', ''owner'']" and
    ?d = "([CV_Text ''1'' \<mapsto> (\<lambda>_. CV_Text ''bob'')], []) :: shadow_db"
  have "fst (seq ?upd (\<lambda>_. seq ?rec (\<lambda>_. ?roll)) ?d) = Inr 1" by code_simp
  then obtain d3 where "seq ?upd (\<lambda>_. seq ?rec (\<lambda>_. ?roll)) ?d = (Inr 1, d3)"
    by (metis prod.collapse)
  then obtain d1 d2 where steps: "?upd ?d = (Inr (), d1)" "?rec d1 = (Inr (), d2)" "?roll d2 = (Inr 1, d3)"
    by (auto simp: seq_Inr_iff)
  have "fst d3 (CV_Text ''1'') = Some (\<lambda>c. if c \<in> set [''id'', ''owner''] \<and> c \<noteq> ''id''
      then (case text_of (value_or_null (owner_update ''1'' ''eve'') c) of Some s \<Rightarrow> CV_Text s | None \<Rightarrow> CV_Null)
      else CV_Text ''bob'')"
    by (rule recorded_update_not_undone
          [OF shadow_server.shadowed_table_axioms token_table_ok _ _ _ _ _ _ _ steps])
      (simp_all add: owner_storable, simp_all add: owner_defs)
  moreover have "value_or_null (owner_update ''1'' ''eve'') ''owner'' = CV_Text ''eve''" by (simp add: owner_defs)
  ultimately show ?thesis
    using steps by (intro exI [of _ d1] exI [of _ d2] exI [of _ 1] exI [of _ d3]) simp
qed

text \<open>A rollback panics on a row to be deleted or updated whose key is not a text column.\<close>

lemma undo_key_not_text_panics:
  assumes "row ''_operation'' = Some op" and "op = ''DELETE'' \<or> op = ''UPDATE''" and "row pk = None"
  shows "\<exists>m. undo_row exec S t pk cols row d = (Inl (Panic m), d)"
  using assms by (auto simp: undo_row_def get_str_def seq_def call_simps)

end
