(* ===== verification/Realtime.thy ===== *)
theory Realtime
  imports Backfill Reorg_Detector Reorg_Store
begin

text \<open>
  Live indexing after the backfill (\<open>forge-index-sync/src/realtime/processor.rs\<close>,
  \<open>finality.rs\<close>, \<open>subscriber.rs\<close> and \<open>reorg/handler.rs\<close>): the loop that takes a new
  block, asks the reorg detector about it and either rolls the tables back or fetches,
  handles and flushes the block's events. The stream of new heads comes from the network:
  the attempts to open it and the blocks it delivers are arguments.
\<close>

section \<open>Finality\<close>

definition default_confirmed_depth :: u64 where "default_confirmed_depth = 32"

definition is_finalized :: "u64 \<Rightarrow> u64 \<Rightarrow> u64 \<Rightarrow> (bool, 'e) result" where
  "is_finalized confirmed_depth block_number current_block =
     bind_res (add_u block_number confirmed_depth) (\<lambda>n. Inr (n \<le> current_block))"

definition finalized_block :: "u64 \<Rightarrow> u64 \<Rightarrow> u64" where
  "finalized_block confirmed_depth current_block = saturating_sub current_block confirmed_depth"

text \<open>The two agree once the chain is as long as the depth.\<close>

lemma finalized_block_correct:
  assumes "confirmed_depth \<le> current_block" and "unat b + unat confirmed_depth < 2 ^ 64"
  shows "is_finalized confirmed_depth b current_block = Inr (b \<le> finalized_block confirmed_depth current_block)"
  using assms
  by (auto simp: is_finalized_def finalized_block_def add_u_ok word_le_nat_alt unat_saturating_sub
      unat_word_ariths)

section \<open>Subscribing\<close>

definition max_reconnect_attempts :: nat where "max_reconnect_attempts = 3"

text \<open>
  \<open>attempt i\<close> is the outcome of the \<open>i\<close>th call of \<open>subscribe_new_heads\<close>; the waiting
  between the attempts is left out. \<open>show\<close> is the text of an RPC error.
\<close>

fun connect_loop ::
  "(nat \<Rightarrow> rpc_error failure + block list) \<Rightarrow> (rpc_error \<Rightarrow> string) \<Rightarrow> u64 \<Rightarrow> nat \<Rightarrow> nat
   \<Rightarrow> (block list, sync_error) result" where
  "connect_loop attempt show chain_id i 0 = Inl (Panic ''internal error: entered unreachable code'')"
| "connect_loop attempt show chain_id i (Suc n) =
     (case attempt i of
        Inr stream \<Rightarrow> Inr stream
      | Inl (Panic m) \<Rightarrow> Inl (Panic m)
      | Inl (Err e) \<Rightarrow>
          if i = max_reconnect_attempts
          then Inl (Err (SubscriptionLost chain_id
                 (''Failed after '' @ nat_str max_reconnect_attempts @ '' attempts: '' @ show e)))
          else connect_loop attempt show chain_id (i + 1) n)"

definition connect ::
  "(nat \<Rightarrow> rpc_error failure + block list) \<Rightarrow> (rpc_error \<Rightarrow> string) \<Rightarrow> u64 \<Rightarrow> (block list, sync_error) result" where
  "connect attempt show chain_id = connect_loop attempt show chain_id 1 max_reconnect_attempts"

definition subscribe ::
  "(nat \<Rightarrow> rpc_error failure + block list) \<Rightarrow> (rpc_error \<Rightarrow> string) \<Rightarrow> u64 \<Rightarrow> (block list, sync_error) result" where
  "subscribe attempt show chain_id = connect attempt show chain_id"

lemma connect_cases:
  "connect attempt show c =
     (case attempt 1 of
        Inl (Err _) \<Rightarrow> (case attempt 2 of
          Inl (Err _) \<Rightarrow> (case attempt 3 of
            Inl (Err e) \<Rightarrow> Inl (Err (SubscriptionLost c (''Failed after 3 attempts: '' @ show e)))
          | Inl (Panic m) \<Rightarrow> Inl (Panic m) | Inr bs \<Rightarrow> Inr bs)
        | Inl (Panic m) \<Rightarrow> Inl (Panic m) | Inr bs \<Rightarrow> Inr bs)
      | Inl (Panic m) \<Rightarrow> Inl (Panic m) | Inr bs \<Rightarrow> Inr bs)"
proof -
  have "nat_str 3 = ''3''" by code_simp
  then show ?thesis
    by (simp add: connect_def max_reconnect_attempts_def numeral_3_eq_3 numeral_2_eq_2
        split: sum.splits failure.splits)
qed

section \<open>Handling a reorganisation\<close>

record 'd reorg_handler =
  rh_pool :: "'d pg_pool"
  rh_store_schema :: string
  rh_tables :: "(string \<times> string \<times> string list) list"

definition on_db :: "('d, 'e, 'a) call \<Rightarrow> (('p, 'j, 'd) sync_state, 'e, 'a) call" where
  "on_db m = (\<lambda>s. case m (ss_db s) of (r, d) \<Rightarrow> (r, s\<lparr>ss_db := d\<rparr>))"

fun rollback_tables ::
  "'d reorg_handler \<Rightarrow> u64 \<Rightarrow> u64 \<Rightarrow> (string \<times> string \<times> string list) list
   \<Rightarrow> ('d, sync_error failure, u64) call" where
  "rollback_tables H fork_block total_affected [] = ret total_affected"
| "rollback_tables H fork_block total_affected ((table_name, pk_col, columns) # ts) =
     seq (map_err (lift_err Sync_Database)
            (rollback_from_block (rh_pool H) (rh_store_schema H) table_name fork_block pk_col columns)) (\<lambda>affected.
     seq (lift_res (add_u total_affected (of_nat affected))) (\<lambda>sum. rollback_tables H fork_block sum ts))"

definition flush_buffer ::
  "renderer \<Rightarrow> 'd execute \<Rightarrow> ((string \<rightharpoonup> row list) \<Rightarrow> string list)
   \<Rightarrow> (('p, 'j, 'd) sync_state, sync_error failure, (string \<times> nat) list) call" where
  "flush_buffer R exec keys = map_err (lift_err Sync_Database) (on_buffer (flush_all R exec keys))"

definition handle_reorg ::
  "renderer \<Rightarrow> ((string \<rightharpoonup> row list) \<Rightarrow> string list) \<Rightarrow> 'd reorg_handler \<Rightarrow> u64 \<Rightarrow> u64 \<Rightarrow> u64
   \<Rightarrow> (('p, 'j, 'd) sync_state, sync_error failure, u64) call" where
  "handle_reorg R keys H chain_id fork_block new_tip =
     seq (flush_buffer R (pg_exec (rh_pool H)) keys) (\<lambda>_.
     seq (on_db (rollback_tables H fork_block 0 (rh_tables H))) (\<lambda>total_affected.
     seq (lift_res (bind_res (sub_u new_tip fork_block) (\<lambda>n. add_u n 1))) (\<lambda>blocks_rolled_back.
     ret total_affected)))"

section \<open>The processor\<close>

record ('p, 'j, 'd) realtime_processor =
  rp_workers :: "('p, 'j) backfill_worker list"
  rp_registry :: "string \<rightharpoonup> (decoded_event \<Rightarrow> outcome)"
  rp_handler :: "'d reorg_handler"
  rp_renderer :: renderer
  rp_keys :: "(string \<rightharpoonup> row list) \<Rightarrow> string list"
  rp_chain_id :: u64

record ('p, 'j, 'd) realtime_state =
  rt_sync :: "('p, 'j, 'd) sync_state"
  rt_detector :: "('p, 'j) reorg_detector"
  rt_blocks_since_prune :: u64
  rt_ready :: bool

definition on_sync :: "(('p, 'j, 'd) sync_state, 'e, 'a) call \<Rightarrow> (('p, 'j, 'd) realtime_state, 'e, 'a) call" where
  "on_sync m = (\<lambda>s. case m (rt_sync s) of (r, x) \<Rightarrow> (r, s\<lparr>rt_sync := x\<rparr>))"

text \<open>
  The detector's client of the chain is the workers' client: one object behind two
  references. The detector's copy is loaded before a call and read back after it.
\<close>

definition load_client ::
  "u64 \<Rightarrow> ('p, 'j) client_state \<Rightarrow> ('p, 'j) reorg_detector \<Rightarrow> ('p, 'j) reorg_detector" where
  "load_client chain_id cs D =
     (case clients D chain_id of Some cl \<Rightarrow> set_client_state chain_id cl cs D | None \<Rightarrow> D)"

definition stored_client ::
  "u64 \<Rightarrow> ('p, 'j) client_state \<Rightarrow> ('p, 'j) reorg_detector \<Rightarrow> ('p, 'j) client_state" where
  "stored_client chain_id cs D = (case clients D chain_id of Some cl \<Rightarrow> cl_state cl | None \<Rightarrow> cs)"

definition on_detector ::
  "u64 \<Rightarrow> (('p, 'j) reorg_detector, 'e, 'a) call \<Rightarrow> (('p, 'j, 'd) realtime_state, 'e, 'a) call" where
  "on_detector chain_id m = (\<lambda>s.
     let cs = ss_client (rt_sync s)
     in case m (load_client chain_id cs (rt_detector s)) of
          (r, D) \<Rightarrow> (r, s\<lparr>rt_detector := D, rt_sync := (rt_sync s)\<lparr>ss_client := stored_client chain_id cs D\<rparr>\<rparr>))"

text \<open>The events of one block from all workers; a worker's error is logged and passed over.\<close>

fun fetch_block ::
  "('p, 'j) backfill_worker list \<Rightarrow> block_range \<Rightarrow> (('p, 'j, 'd) sync_state, sync_error failure, decoded_event list) call" where
  "fetch_block [] r = ret []"
| "fetch_block (w # ws) r = (\<lambda>s.
     case on_client (fetch_range w r) s of
       (Inr events, s') \<Rightarrow> seq (fetch_block ws r) (\<lambda>rest. ret (events @ rest)) s'
     | (Inl (Err e), s') \<Rightarrow> fetch_block ws r s'
     | (Inl (Panic m), s') \<Rightarrow> (Inl (Panic m), s'))"

definition call_handler ::
  "('p, 'j, 'd) realtime_processor \<Rightarrow> decoded_event \<Rightarrow> ('s, sync_error failure, unit) call" where
  "call_handler P e =
     (case rp_registry P (handler_key e) of
        Some h \<Rightarrow> lift_res (outcome_result (handler_key e) (h e))
      | None \<Rightarrow> ret ())"

definition by_log_index :: "decoded_event \<Rightarrow> u32" where
  "by_log_index e = log_index (de_raw_log e)"

definition index_block ::
  "('p, 'j, 'd) realtime_processor \<Rightarrow> u64 \<Rightarrow> (('p, 'j, 'd) sync_state, sync_error failure, unit) call" where
  "index_block P number =
     seq (fetch_block (rp_workers P) \<lparr> br_from = number, br_to = number \<rparr>) (\<lambda>events.
     seq (for_each (call_handler P) (sort_key by_log_index events)) (\<lambda>_.
     seq (flush_buffer (rp_renderer P) (pg_exec (rh_pool (rp_handler P))) (rp_keys P)) (\<lambda>_. ret ())))"

text \<open>The body of the loop. Pruning at every hundredth block only writes a log line.\<close>

definition process_new_block ::
  "('p, 'j, 'd) realtime_processor \<Rightarrow> block \<Rightarrow> (('p, 'j, 'd) realtime_state, sync_error failure, unit) call" where
  "process_new_block P b =
     seq (on_detector (rp_chain_id P) (process_block (rp_chain_id P) b)) (\<lambda>decision.
       case decision of
         Reorg chain_id fork_block new_tip \<Rightarrow>
           seq (on_sync (handle_reorg (rp_renderer P) (rp_keys P) (rp_handler P) chain_id fork_block new_tip)) (\<lambda>_. ret ())
       | Normal \<Rightarrow>
           seq (on_sync (index_block P (blk_number b))) (\<lambda>_ s.
             (Inr (), s\<lparr>rt_blocks_since_prune := rt_blocks_since_prune s + 1\<rparr>)))"

definition run ::
  "('p, 'j, 'd) realtime_processor \<Rightarrow> (nat \<Rightarrow> rpc_error failure + block list) \<Rightarrow> (rpc_error \<Rightarrow> string)
   \<Rightarrow> (('p, 'j, 'd) realtime_state, sync_error failure, unit) call" where
  "run P attempt show = (\<lambda>s.
     let s = s\<lparr>rt_ready := True\<rparr>
     in seq (lift_res (subscribe attempt show (rp_chain_id P))) (for_each (process_new_block P)) s)"

section \<open>After a reorganisation\<close>

lemma walk_back_pos:
  "walk_back get_block c st lb mn cur s = (Inr f, s') \<Longrightarrow> f \<noteq> 0"
proof (induction get_block c st lb mn cur s rule: walk_back.induct)
  case (1 get_block c st lb mn cur s)
  have add: "add_u cur 1 = (Inr f :: sync_error failure + u64) \<Longrightarrow> f \<noteq> 0"
    by (auto simp: add_u_Inr_iff)
  show ?case
    using 1 add
    by (subst (asm) walk_back.simps) (auto split: if_splits prod.splits sum.splits option.splits)
qed

lemma load_client_state [simp]: "state_entry c (load_client c' cs D) = state_entry c D"
  by (auto simp: load_client_def set_client_state_def state_entry_def split: option.splits)

lemma on_sync_detector [simp]:
  "on_sync m s = (r, s') \<Longrightarrow> rt_detector s' = rt_detector s"
  "on_sync m s = (r, s') \<Longrightarrow> rt_blocks_since_prune s' = rt_blocks_since_prune s"
  by (auto simp: on_sync_def split: prod.splits)

text \<open>
  The blocks of the new branch are skipped: when a block reveals a
  reorganisation and the rollback succeeds, the block itself is not indexed (neither the
  workers nor the handlers take part in the step), the window holds no block from the fork
  on, and whatever block above the fork comes next is accepted as normal, without a look at
  its parent.
\<close>

lemma reorg_branch_skipped:
  assumes "fst (process_block (rp_chain_id P) b
             (load_client (rp_chain_id P) (ss_client (rt_sync s)) (rt_detector s))) = Inr (Reorg c f t)"
    and "ascending (state_entry (rp_chain_id P) (rt_detector s))"
    and "process_new_block P b s = (Inr (), s')"
  shows "(\<forall>ws reg. process_new_block (P\<lparr>rp_workers := ws, rp_registry := reg\<rparr>) b s = (Inr (), s')) \<and>
         (\<forall>m. f \<le> m \<longrightarrow> get_hash (state_entry (rp_chain_id P) (rt_detector s')) m = None) \<and>
         (\<forall>b2. f < blk_number b2 \<longrightarrow> fst (process_block (rp_chain_id P) b2 (rt_detector s')) = Inr Normal)"
proof -
  let ?c = "rp_chain_id P"
  obtain D1 where p: "process_block ?c b (load_client ?c (ss_client (rt_sync s)) (rt_detector s)) =
      (Inr (Reorg c f t), D1)"
    using assms(1) by (metis prod.collapse)
  obtain cl cs where
    "clients (load_client ?c (ss_client (rt_sync s)) (rt_detector s)) ?c = Some cl" and
    walk: "walk_back (cached_get_block_by_number (cl_env cl)) ?c (state_entry ?c (rt_detector s))
       (of_nat default_capacity) (saturating_sub t (of_nat default_capacity)) (saturating_sub t 1)
       (cl_state cl) = (Inr f, cs)" and
    st: "state_entry ?c D1 = prune_above (saturating_sub f 1) (state_entry ?c (rt_detector s))"
    by (rule process_block_reorg [OF p, unfolded load_client_state])
  from assms(3) p have det: "rt_detector s' = D1"
    by (auto simp: process_new_block_def on_detector_def Let_def seq_Inr_iff call_simps)
  have "f \<noteq> 0" by (rule walk_back_pos [OF walk])
  have up: "f \<le> m - 1" if "f < m" for m
  proof -
    have "m \<noteq> 0" using that by auto
    then show ?thesis using that by (simp add: word_less_nat_alt word_le_nat_alt unat_pred)
  qed
  have f1: "saturating_sub f 1 < f"
    using \<open>f \<noteq> 0\<close> by (simp add: saturating_sub_1 word_less_nat_alt unat_pred_less)
  have gone: "get_hash (state_entry ?c D1) m = None" if "f \<le> m" for m
  proof -
    have "\<not> m \<le> saturating_sub f 1" using less_le_trans [OF f1 that] by (simp add: not_le)
    then show ?thesis by (simp add: st prune_above_map [OF assms(2)])
  qed
  have "fst (process_block ?c b2 D1) = Inr Normal" if "f < blk_number b2" for b2
    using process_block_accept [of ?c D1 b2] gone [OF up [OF that]] by simp
  moreover have "process_new_block (P\<lparr>rp_workers := ws, rp_registry := reg\<rparr>) b s = process_new_block P b s" for ws reg
    using p by (simp add: process_new_block_def on_detector_def Let_def seq_def)
  ultimately show ?thesis using assms(3) gone by (simp add: det)
qed

text \<open>A processor for the witnesses: no tables, and a server that accepts everything.\<close>

definition demo_pool :: "unit pg_pool" where
  "demo_pool = \<lparr> pg_exec = (\<lambda>_ d. (Inr (), d)), pg_exec_bind = (\<lambda>_ _ d. (Inr (), d)),
     pg_fetch = (\<lambda>_ _ d. (Inr [], d)) \<rparr>"

definition demo_processor :: "(unit, alloy_header, unit) realtime_processor" where
  "demo_processor = \<lparr> rp_workers = [], rp_registry = Map.empty,
     rp_handler = \<lparr> rh_pool = demo_pool, rh_store_schema = ''public'', rh_tables = [(''t'', ''id'', [''id''])] \<rparr>,
     rp_renderer = plain_renderer, rp_keys = (\<lambda>_. []), rp_chain_id = 1 \<rparr>"

definition demo_realtime :: "(unit, alloy_header, unit) realtime_state" where
  "demo_realtime = \<lparr> rt_sync = \<lparr> ss_client = demo_state, ss_buffer = demo_buffer [], ss_db = (),
       ss_progress = Map.empty \<rparr>,
     rt_detector = demo_detector, rt_blocks_since_prune = 0, rt_ready = True \<rparr>"

lemma demo_load: "load_client 1 (ss_client (rt_sync demo_realtime)) demo_detector = demo_detector"
  by (auto simp: load_client_def demo_realtime_def demo_detector_def demo_client_def set_client_state_def)

lemma reorg_branch_skipped_witness:
  "\<exists>s'. process_new_block demo_processor (demo_block 7) demo_realtime = (Inr (), s') \<and>
        get_hash (state_entry 1 (rt_detector s')) 7 = None \<and>
        fst (process_block 1 ((demo_block 8)\<lparr>blk_parent_hash := other_hash\<rparr>) (rt_detector s')) = Inr Normal"
proof -
  obtain D' where p: "process_block 1 (demo_block 7) demo_detector = (Inr (Reorg 1 6 7), D')"
    using demo_reorg by blast
  have fields: "rp_chain_id demo_processor = 1" "rt_detector demo_realtime = demo_detector"
    by (simp_all add: demo_processor_def demo_realtime_def)
  obtain s' where run: "process_new_block demo_processor (demo_block 7) demo_realtime = (Inr (), s')"
    using p
    by (simp add: process_new_block_def seq_def on_detector_def Let_def fields demo_load on_sync_def
        handle_reorg_def flush_buffer_def on_buffer_def flush_all_def map_err_def demo_processor_def call_simps
        on_db_def rollback_from_block_def demo_pool_def lift_res_def sub_u_def add_u_def)
  have "state_entry 1 demo_detector = demo_window" by (simp add: demo_detector_def state_entry_def)
  then have asc: "ascending (state_entry (rp_chain_id demo_processor) (rt_detector demo_realtime))"
    by (simp add: fields ascending_def demo_window_def)
  have "fst (process_block (rp_chain_id demo_processor) (demo_block 7)
      (load_client (rp_chain_id demo_processor) (ss_client (rt_sync demo_realtime)) (rt_detector demo_realtime))) =
      Inr (Reorg 1 6 7)"
    by (simp add: fields demo_load p)
  from reorg_branch_skipped [OF this asc run] run show ?thesis by (simp add: fields)
qed

section \<open>A chain without reorganisations\<close>

lemma stored_load [simp]:
  "stored_client c cs (set_state c' st (load_client c cs D)) = cs"
  by (auto simp: stored_client_def load_client_def set_state_def set_client_state_def split: option.splits)

lemma linear_block:
  assumes "state_entry (rp_chain_id P) (rt_detector s) = window_of pre" and "linked (pre @ [b])"
  shows "\<exists>s1. process_new_block P b s =
      (fst (index_block P (blk_number b) (rt_sync s)), s1) \<and>
      rt_sync s1 = snd (index_block P (blk_number b) (rt_sync s)) \<and>
      state_entry (rp_chain_id P) (rt_detector s1) = window_of (pre @ [b]) \<and>
      (fst (index_block P (blk_number b) (rt_sync s)) = Inr () \<longrightarrow>
         rt_blocks_since_prune s1 = rt_blocks_since_prune s + 1) \<and>
      rt_ready s1 = rt_ready s"
proof -
  let ?c = "rp_chain_id P" and ?cs = "ss_client (rt_sync s)"
  have "process_block ?c b (load_client ?c ?cs (rt_detector s)) =
      (Inr Normal, set_state ?c (window_of (pre @ [b])) (load_client ?c ?cs (rt_detector s)))"
    using assms by (intro linear_step) simp_all
  moreover have "(rt_sync s)\<lparr>ss_client := ?cs\<rparr> = rt_sync s" by simp
  ultimately have "process_new_block P b s =
      seq (on_sync (index_block P (blk_number b))) (\<lambda>_ s.
        (Inr (), s\<lparr>rt_blocks_since_prune := rt_blocks_since_prune s + 1\<rparr>))
        (s\<lparr>rt_detector := set_state ?c (window_of (pre @ [b])) (load_client ?c ?cs (rt_detector s)),
           rt_sync := rt_sync s\<rparr>)"
    by (simp only: process_new_block_def on_detector_def Let_def stored_load seq_def prod.case sum.case
        reorg_decision.case)
  then show ?thesis
    by (cases "index_block P (blk_number b) (rt_sync s)"; cases "fst (index_block P (blk_number b) (rt_sync s))")
      (auto simp: seq_def on_sync_def)
qed

lemma linked_prefix: "linked (xs @ ys) \<Longrightarrow> linked xs"
proof (induction ys rule: rev_induct)
  case (snoc y ys)
  then show ?case using linked_butlast [of "xs @ ys" y] by simp
qed simp

lemma linear_blocks:
  assumes "state_entry (rp_chain_id P) (rt_detector s) = window_of pre" and "linked (pre @ bs)"
  shows "\<exists>s'. for_each (process_new_block P) bs s =
      (fst (for_each (index_block P) (map blk_number bs) (rt_sync s)), s') \<and>
      rt_sync s' = snd (for_each (index_block P) (map blk_number bs) (rt_sync s)) \<and> rt_ready s' = rt_ready s \<and>
      (fst (for_each (index_block P) (map blk_number bs) (rt_sync s)) = Inr () \<longrightarrow>
         state_entry (rp_chain_id P) (rt_detector s') = window_of (pre @ bs) \<and>
         rt_blocks_since_prune s' = rt_blocks_since_prune s + of_nat (length bs))"
  using assms
proof (induction bs arbitrary: pre s)
  case Nil
  then show ?case by (simp add: call_simps)
next
  case (Cons b bs)
  have l: "linked (pre @ [b])" using linked_prefix [of "pre @ [b]" bs] Cons.prems(2) by simp
  from linear_block [OF Cons.prems(1) l] obtain s1 where
    s1: "process_new_block P b s = (fst (index_block P (blk_number b) (rt_sync s)), s1)"
      "rt_sync s1 = snd (index_block P (blk_number b) (rt_sync s))"
      "state_entry (rp_chain_id P) (rt_detector s1) = window_of (pre @ [b])" "rt_ready s1 = rt_ready s"
      "fst (index_block P (blk_number b) (rt_sync s)) = Inr () \<longrightarrow>
         rt_blocks_since_prune s1 = rt_blocks_since_prune s + 1" by blast
  obtain r x where i: "index_block P (blk_number b) (rt_sync s) = (r, x)" by fastforce
  show ?case
  proof (cases r)
    case (Inl e)
    with s1 i show ?thesis by (simp add: seq_def)
  next
    case (Inr u)
    with s1 i Cons.IH [OF s1(3)] Cons.prems(2) show ?thesis
      by (auto simp: seq_def add.assoc add.commute)
  qed
qed

text \<open>
  Property C23. On a chain without reorganisations the live loop is plain indexing: once
  the subscription is open, its outcome and its effect on the client, the buffer and the
  database are those of indexing the blocks of the stream one by one, in order, each
  exactly once, up to the first error; and if there is none, the window ends with the last
  128 blocks of the chain.
\<close>

theorem realtime_indexes_every_block:
  assumes "linked bs" and "state_entry (rp_chain_id P) (rt_detector s) = default_chain_state"
    and "subscribe attempt show (rp_chain_id P) = Inr bs"
  shows "\<exists>s'. run P attempt show s = (fst (for_each (index_block P) (map blk_number bs) (rt_sync s)), s') \<and>
      rt_sync s' = snd (for_each (index_block P) (map blk_number bs) (rt_sync s)) \<and> rt_ready s' \<and>
      (fst (for_each (index_block P) (map blk_number bs) (rt_sync s)) = Inr () \<longrightarrow>
         recent_blocks (state_entry (rp_chain_id P) (rt_detector s')) =
           drop (length bs - 128) (map (\<lambda>b. (blk_number b, blk_hash b)) bs) \<and>
         rt_blocks_since_prune s' = rt_blocks_since_prune s + of_nat (length bs))"
proof -
  have "state_entry (rp_chain_id P) (rt_detector (s\<lparr>rt_ready := True\<rparr>)) = window_of []"
    using assms(2) by (simp add: default_chain_state_def new_chain_state_def)
  moreover have "entry = (\<lambda>b. (blk_number b, blk_hash b))" by (simp add: fun_eq_iff entry_def)
  ultimately show ?thesis
    using linear_blocks [of P "s\<lparr>rt_ready := True\<rparr>" "[]" bs] assms(1)
    by (auto simp: run_def assms(3) seq_def lift_res_def default_capacity_def)
qed

definition fresh_realtime :: "(unit, alloy_header, unit) realtime_state" where
  "fresh_realtime = demo_realtime\<lparr>rt_detector := new_detector, rt_ready := False\<rparr>"

theorem realtime_indexes_every_block_witness:
  "\<exists>s'. run demo_processor (\<lambda>_. Inr [demo_block 8, demo_block 9]) (\<lambda>_. []) fresh_realtime = (Inr (), s') \<and>
        recent_blocks (state_entry 1 (rt_detector s')) = [(8, zero_hash32), (9, zero_hash32)] \<and>
        rt_blocks_since_prune s' = 2"
proof -
  have fields: "rp_chain_id demo_processor = 1" by (simp add: demo_processor_def)
  have l: "linked [demo_block 8, demo_block 9]" by simp
  have st: "state_entry (rp_chain_id demo_processor) (rt_detector fresh_realtime) = default_chain_state"
    by (simp add: fresh_realtime_def new_detector_def state_entry_def)
  have sub: "subscribe (\<lambda>_. Inr [demo_block 8, demo_block 9]) (\<lambda>_. []) (rp_chain_id demo_processor) =
      Inr [demo_block 8, demo_block 9]"
    by (simp add: subscribe_def connect_cases)
  have "fst (for_each (index_block demo_processor) (map blk_number [demo_block 8, demo_block 9]) x) = Inr ()" for x
    by (simp add: index_block_def demo_processor_def seq_def call_simps flush_buffer_def on_buffer_def
        flush_all_def map_err_def)
  with realtime_indexes_every_block [OF l st sub] show ?thesis
    by (auto simp: fields fresh_realtime_def demo_realtime_def simp del: for_each.simps)
qed

end
