(* ===== verification/Dedup.thy ===== *)
theory Dedup
  imports Main
begin

text \<open>
  The deduplication of concurrent RPC requests (\<open>forge-index-rpc/src/dedup.rs\<close>) as a state
  machine. A task that finds no entry for its key inserts one with a fresh channel and runs
  its request; a task that finds an entry subscribes to its channel and waits. An entry of
  30 seconds or more is removed by the next task that meets it. The shared map locks one
  entry at a time, so that what happens between two accesses to the map or the channel is one
  step of a task, and the steps of the tasks interleave freely. A task may be dropped at any
  moment, by cancellation or by a panic of its request.
\<close>

section \<open>Tasks and channels\<close>

text \<open>
  Where a task is: at the head of the loop, still holding its request; about to remove an
  expired entry; waiting on a channel, with the message that has arrived; running its request;
  about to remove its entry after the result was sent; returned; dropped.
\<close>

datatype 'v phase =
    Looping
  | Evicting
  | Waiting nat "'v option"
  | Running nat
  | Sent nat 'v
  | Done 'v
  | Dropped

record ('k, 'v) dedup_state =
  dd_in_flight :: "'k \<rightharpoonup> nat \<times> nat"
  dd_tasks :: "nat \<rightharpoonup> 'k \<times> 'v phase"
  dd_next :: nat
  dd_clock :: nat

definition dedup_timeout :: nat where
  "dedup_timeout = 30 * 10 ^ 9"

definition new_dedup :: "('k, 'v) dedup_state" where
  "new_dedup = \<lparr> dd_in_flight = Map.empty, dd_tasks = Map.empty, dd_next = 0, dd_clock = 0 \<rparr>"

definition set_phase :: "nat \<Rightarrow> 'k \<Rightarrow> 'v phase \<Rightarrow> ('k, 'v) dedup_state \<Rightarrow> ('k, 'v) dedup_state" where
  "set_phase i k p s = s\<lparr>dd_tasks := (dd_tasks s)(i \<mapsto> (k, p))\<rparr>"

text \<open>The match on the entry of the key.\<close>

definition look_up :: "nat \<Rightarrow> 'k \<Rightarrow> ('k, 'v) dedup_state \<Rightarrow> ('k, 'v) dedup_state" where
  "look_up i k s =
     (case dd_in_flight s k of
        Some (c, created_at) \<Rightarrow>
          if dedup_timeout \<le> dd_clock s - created_at then set_phase i k Evicting s
          else set_phase i k (Waiting c None) s
      | None \<Rightarrow>
          (set_phase i k (Running (dd_next s)) s)
            \<lparr>dd_in_flight := (dd_in_flight s)(k \<mapsto> (dd_next s, dd_clock s)), dd_next := Suc (dd_next s)\<rparr>)"

definition remove_entry :: "'k \<Rightarrow> ('k, 'v) dedup_state \<Rightarrow> ('k, 'v) dedup_state" where
  "remove_entry k s = s\<lparr>dd_in_flight := (dd_in_flight s)(k := None)\<rparr>"

text \<open>A message reaches the tasks that have subscribed to the channel by then.\<close>

fun receive_on :: "nat \<Rightarrow> 'v \<Rightarrow> 'v phase \<Rightarrow> 'v phase" where
  "receive_on c v (Waiting c' None) = (if c' = c then Waiting c' (Some v) else Waiting c' None)"
| "receive_on c v p = p"

definition send :: "nat \<Rightarrow> 'v \<Rightarrow> ('k, 'v) dedup_state \<Rightarrow> ('k, 'v) dedup_state" where
  "send c v s = s\<lparr>dd_tasks := (\<lambda>j. map_option (map_prod (\<lambda>k. k) (receive_on c v)) (dd_tasks s j))\<rparr>"

text \<open>The channel of a task that holds a sender, and whether any sender of a channel is left.\<close>

fun chan_of :: "'v phase \<Rightarrow> nat option" where
  "chan_of (Running c) = Some c"
| "chan_of (Sent c v) = Some c"
| "chan_of _ = None"

definition sends :: "('k, 'v) dedup_state \<Rightarrow> nat \<Rightarrow> nat \<Rightarrow> bool" where
  "sends s i c \<longleftrightarrow> (\<exists>k p. dd_tasks s i = Some (k, p) \<and> chan_of p = Some c)"

definition sender_alive :: "('k, 'v) dedup_state \<Rightarrow> nat \<Rightarrow> bool" where
  "sender_alive s c \<longleftrightarrow> (\<exists>k t. dd_in_flight s k = Some (c, t)) \<or> (\<exists>i. sends s i c)"

section \<open>Steps\<close>

datatype ('k, 'v) label =
    Spawn nat 'k
  | Tick nat
  | Enter nat
  | Evict nat 'k
  | Answer nat 'k 'v
  | Finish nat
  | Receive nat
  | Closed nat
  | Abort nat

inductive dedup_step :: "('k, 'v) dedup_state \<Rightarrow> ('k, 'v) label \<Rightarrow> ('k, 'v) dedup_state \<Rightarrow> bool" where
  spawn: "dd_tasks s i = None \<Longrightarrow> dedup_step s (Spawn i k) (set_phase i k Looping s)"
| tick: "dedup_step s (Tick d) (s\<lparr>dd_clock := dd_clock s + d\<rparr>)"
| enter: "dd_tasks s i = Some (k, Looping) \<Longrightarrow> dedup_step s (Enter i) (look_up i k s)"
| evict: "dd_tasks s i = Some (k, Evicting) \<Longrightarrow>
    dedup_step s (Evict i k) (set_phase i k Looping (remove_entry k s))"
| answer: "dd_tasks s i = Some (k, Running c) \<Longrightarrow>
    dedup_step s (Answer i k v) (set_phase i k (Sent c v) (send c v s))"
| finish: "dd_tasks s i = Some (k, Sent c v) \<Longrightarrow>
    dedup_step s (Finish i) (set_phase i k (Done v) (remove_entry k s))"
| receive: "dd_tasks s i = Some (k, Waiting c (Some v)) \<Longrightarrow>
    dedup_step s (Receive i) (set_phase i k (Done v) s)"
| closed: "dd_tasks s i = Some (k, Waiting c None) \<Longrightarrow> \<not> sender_alive s c \<Longrightarrow>
    dedup_step s (Closed i) (set_phase i k Looping s)"
| abort: "dd_tasks s i = Some (k, p) \<Longrightarrow> \<forall>v. p \<noteq> Done v \<Longrightarrow> dedup_step s (Abort i) (set_phase i k Dropped s)"

inductive dedup_run :: "('k, 'v) label list \<Rightarrow> ('k, 'v) dedup_state \<Rightarrow> bool" where
  init: "dedup_run [] new_dedup"
| step: "dedup_run tr s \<Longrightarrow> dedup_step s l s' \<Longrightarrow> dedup_run (tr @ [l]) s'"

text \<open>The same steps as a function, which follows a trace.\<close>

fun perform :: "('k, 'v) label \<Rightarrow> ('k, 'v) dedup_state \<Rightarrow> ('k, 'v) dedup_state option" where
  "perform (Spawn i k) s = (if dd_tasks s i = None then Some (set_phase i k Looping s) else None)"
| "perform (Tick d) s = Some (s\<lparr>dd_clock := dd_clock s + d\<rparr>)"
| "perform (Enter i) s = (case dd_tasks s i of Some (k, Looping) \<Rightarrow> Some (look_up i k s) | _ \<Rightarrow> None)"
| "perform (Evict i k) s =
     (case dd_tasks s i of Some (k', Evicting) \<Rightarrow>
        if k' = k then Some (set_phase i k Looping (remove_entry k s)) else None | _ \<Rightarrow> None)"
| "perform (Answer i k v) s =
     (case dd_tasks s i of Some (k', Running c) \<Rightarrow>
        if k' = k then Some (set_phase i k (Sent c v) (send c v s)) else None | _ \<Rightarrow> None)"
| "perform (Finish i) s =
     (case dd_tasks s i of Some (k, Sent c v) \<Rightarrow> Some (set_phase i k (Done v) (remove_entry k s)) | _ \<Rightarrow> None)"
| "perform (Receive i) s =
     (case dd_tasks s i of Some (k, Waiting c (Some v)) \<Rightarrow> Some (set_phase i k (Done v) s) | _ \<Rightarrow> None)"
| "perform (Closed i) s =
     (case dd_tasks s i of Some (k, Waiting c None) \<Rightarrow>
        if sender_alive s c then None else Some (set_phase i k Looping s) | _ \<Rightarrow> None)"
| "perform (Abort i) s =
     (case dd_tasks s i of None \<Rightarrow> None | Some (k, Done v) \<Rightarrow> None | Some (k, p) \<Rightarrow> Some (set_phase i k Dropped s))"

fun perform_all :: "('k, 'v) label list \<Rightarrow> ('k, 'v) dedup_state \<Rightarrow> ('k, 'v) dedup_state option" where
  "perform_all [] s = Some s"
| "perform_all (l # tr) s = Option.bind (perform l s) (perform_all tr)"

lemma perform_step: "perform l s = Some s' \<longleftrightarrow> dedup_step s l s'"
proof
  show "perform l s = Some s' \<Longrightarrow> dedup_step s l s'"
    by (cases l) (auto intro: dedup_step.intros split: option.splits prod.splits phase.splits if_splits)
  show "dedup_step s l s' \<Longrightarrow> perform l s = Some s'"
    by (induction rule: dedup_step.induct) (auto split: phase.splits)
qed

lemma perform_all_snoc: "perform_all (tr @ [l]) s = Option.bind (perform_all tr s) (perform l)"
  by (induction tr arbitrary: s) (auto split: Option.bind_splits)

lemma perform_all_run: "perform_all tr new_dedup = Some s \<longleftrightarrow> dedup_run tr s"
proof
  show "perform_all tr new_dedup = Some s \<Longrightarrow> dedup_run tr s"
    by (induction tr arbitrary: s rule: rev_induct)
      (auto simp: perform_all_snoc perform_step bind_eq_Some_conv intro: dedup_run.intros)
  show "dedup_run tr s \<Longrightarrow> perform_all tr new_dedup = Some s"
    by (induction rule: dedup_run.induct) (simp_all add: perform_all_snoc perform_step)
qed

text \<open>The steps a task can make of its own accord.\<close>

definition moves :: "nat \<Rightarrow> ('k, 'v) label \<Rightarrow> bool" where
  "moves i l \<longleftrightarrow> l \<in> {Enter i, Finish i, Receive i, Closed i} \<or> (\<exists>k. l = Evict i k) \<or> (\<exists>k v. l = Answer i k v)"

lemmas dedup_ops = set_phase_def look_up_def remove_entry_def send_def

section \<open>Answers\<close>

definition answered :: "('k, 'v) label list \<Rightarrow> 'k \<Rightarrow> 'v \<Rightarrow> bool" where
  "answered tr k v \<longleftrightarrow> (\<exists>j. Answer j k v \<in> set tr)"

text \<open>
  The invariant: every channel belongs to one key and one sending task, and what a task has
  received or returned was answered for its key.
\<close>

fun phase_ok :: "(nat \<Rightarrow> 'k) \<Rightarrow> nat \<Rightarrow> ('k \<Rightarrow> 'v \<Rightarrow> bool) \<Rightarrow> 'k \<Rightarrow> 'v phase \<Rightarrow> bool" where
  "phase_ok owner n ans k (Waiting c m) \<longleftrightarrow> owner c = k \<and> c < n \<and> (\<forall>v. m = Some v \<longrightarrow> ans k v)"
| "phase_ok owner n ans k (Running c) \<longleftrightarrow> owner c = k \<and> c < n"
| "phase_ok owner n ans k (Sent c v) \<longleftrightarrow> owner c = k \<and> c < n \<and> ans k v"
| "phase_ok owner n ans k (Done v) \<longleftrightarrow> ans k v"
| "phase_ok owner n ans k _ \<longleftrightarrow> True"

definition tasks_ok :: "(nat \<Rightarrow> 'k) \<Rightarrow> ('k \<Rightarrow> 'v \<Rightarrow> bool) \<Rightarrow> ('k, 'v) dedup_state \<Rightarrow> bool" where
  "tasks_ok owner ans s \<longleftrightarrow> (\<forall>i k p. dd_tasks s i = Some (k, p) \<longrightarrow> phase_ok owner (dd_next s) ans k p)"

definition entries_ok :: "(nat \<Rightarrow> 'k) \<Rightarrow> ('k, 'v) dedup_state \<Rightarrow> bool" where
  "entries_ok owner s \<longleftrightarrow> (\<forall>k c t. dd_in_flight s k = Some (c, t) \<longrightarrow> owner c = k \<and> c < dd_next s)"

definition one_sender :: "('k, 'v) dedup_state \<Rightarrow> bool" where
  "one_sender s \<longleftrightarrow> (\<forall>i j c. sends s i c \<longrightarrow> sends s j c \<longrightarrow> i = j)"

definition channels_ok :: "(nat \<Rightarrow> 'k) \<Rightarrow> ('k \<Rightarrow> 'v \<Rightarrow> bool) \<Rightarrow> ('k, 'v) dedup_state \<Rightarrow> bool" where
  "channels_ok owner ans s \<longleftrightarrow> tasks_ok owner ans s \<and> entries_ok owner s \<and> one_sender s"

lemma phase_ok_mono:
  "phase_ok owner n ans k p \<Longrightarrow> n \<le> n' \<Longrightarrow> (\<And>c. c < n \<Longrightarrow> owner' c = owner c) \<Longrightarrow> (\<And>k v. ans k v \<Longrightarrow> ans' k v) \<Longrightarrow>
   phase_ok owner' n' ans' k p"
  by (cases p) auto

lemma phase_ok_chan: "phase_ok owner n ans k p \<Longrightarrow> chan_of p = Some c \<Longrightarrow> owner c = k \<and> c < n"
  by (cases p) auto

lemma receive_on_chan: "chan_of (receive_on c v p) = chan_of p"
  by (induction c v p rule: receive_on.induct) auto

lemma receive_on_ok:
  "phase_ok owner n ans k p \<Longrightarrow> ans (owner c) v \<Longrightarrow> phase_ok owner n ans k (receive_on c v p)"
  by (induction c v p rule: receive_on.induct) auto

lemma sends_set_phase [simp]: "sends (set_phase i k p s) j c \<longleftrightarrow> (if j = i then chan_of p = Some c else sends s j c)"
  by (auto simp: sends_def set_phase_def)

lemma sends_other [simp]: "sends (remove_entry k s) j c = sends s j c" "sends (send c' v s) j c = sends s j c"
  "sends (s\<lparr>dd_clock := d\<rparr>) j c = sends s j c"
  by (auto simp: sends_def remove_entry_def send_def receive_on_chan)

lemma sends_bound: "tasks_ok owner ans s \<Longrightarrow> sends s i c \<Longrightarrow> c < dd_next s"
  by (auto simp: tasks_ok_def sends_def dest: phase_ok_chan)

lemma channels_ok_mono: "channels_ok owner ans s \<Longrightarrow> (\<And>k v. ans k v \<Longrightarrow> ans' k v) \<Longrightarrow> channels_ok owner ans' s"
  by (auto simp: channels_ok_def tasks_ok_def intro: phase_ok_mono [of owner "dd_next s" ans])

text \<open>A task that keeps its sender, gives it up or never had one keeps the invariant.\<close>

lemma channels_ok_set_phase:
  assumes "channels_ok owner ans s" and "phase_ok owner (dd_next s) ans k p"
    and "\<And>c. chan_of p = Some c \<Longrightarrow> sends s i c"
  shows "channels_ok owner ans (set_phase i k p s)"
proof -
  have "tasks_ok owner ans (set_phase i k p s)" "entries_ok owner (set_phase i k p s)"
    using assms(1,2) by (simp_all add: channels_ok_def tasks_ok_def entries_ok_def set_phase_def)
  moreover have "one_sender (set_phase i k p s)"
    using assms(1,3) unfolding channels_ok_def one_sender_def sends_set_phase by metis
  ultimately show ?thesis by (simp add: channels_ok_def)
qed

lemma channels_ok_remove: "channels_ok owner ans s \<Longrightarrow> channels_ok owner ans (remove_entry k s)"
  by (simp add: channels_ok_def one_sender_def tasks_ok_def entries_ok_def remove_entry_def split: if_splits)
    (simp add: sends_def)

lemma channels_ok_tick: "channels_ok owner ans s \<Longrightarrow> channels_ok owner ans (s\<lparr>dd_clock := d\<rparr>)"
  by (simp add: channels_ok_def tasks_ok_def entries_ok_def one_sender_def)

lemma channels_ok_send:
  assumes "channels_ok owner ans s" and "ans (owner c) v"
  shows "channels_ok owner ans (send c v s)"
proof -
  have "tasks_ok owner ans (send c v s)"
    using assms by (auto simp: channels_ok_def tasks_ok_def send_def intro: receive_on_ok)
  moreover have "entries_ok owner (send c v s)" using assms by (simp add: channels_ok_def entries_ok_def send_def)
  ultimately show ?thesis using assms by (simp add: channels_ok_def one_sender_def)
qed

lemma channels_ok_lead:
  assumes "channels_ok owner ans s" and "dd_in_flight s k = None"
  shows "channels_ok (owner(dd_next s := k)) ans (look_up i k s)"
proof -
  let ?o = "owner(dd_next s := k)" and ?n = "dd_next s" and ?s = "look_up i k s"
  have s: "?s = (set_phase i k (Running ?n) s)\<lparr>dd_in_flight := (dd_in_flight s)(k \<mapsto> (?n, dd_clock s)), dd_next := Suc ?n\<rparr>"
    using assms(2) by (simp add: look_up_def)
  have "phase_ok ?o (Suc ?n) ans k' p" if "dd_tasks s j = Some (k', p)" for j k' p
    by (rule phase_ok_mono [of owner ?n ans]) (use assms(1) that in \<open>auto simp: channels_ok_def tasks_ok_def\<close>)
  then have "tasks_ok ?o ans ?s" by (simp add: tasks_ok_def s set_phase_def)
  moreover have "entries_ok ?o ?s" using assms(1) by (fastforce simp: channels_ok_def entries_ok_def s set_phase_def)
  moreover have "sends ?s j c \<longleftrightarrow> (if j = i then c = ?n else sends s j c)" for j c
    by (auto simp: s sends_def set_phase_def)
  then have "one_sender ?s"
    using assms(1) sends_bound [of owner ans s] unfolding channels_ok_def one_sender_def by (metis less_irrefl)
  ultimately show ?thesis by (simp add: channels_ok_def)
qed

lemma channels_ok_look_up:
  assumes "channels_ok owner ans s"
  shows "\<exists>owner'. channels_ok owner' ans (look_up i k s)"
proof (cases "dd_in_flight s k")
  case None
  then show ?thesis using channels_ok_lead [OF assms] by blast
next
  case (Some e)
  obtain c t where e: "e = (c, t)" by (cases e)
  have "owner c = k" "c < dd_next s" using assms Some e by (auto simp: channels_ok_def entries_ok_def)
  then have "channels_ok owner ans (look_up i k s)"
    using Some e assms by (auto simp: look_up_def intro!: channels_ok_set_phase)
  then show ?thesis by blast
qed

lemma channels_ok_task: "channels_ok owner ans s \<Longrightarrow> dd_tasks s i = Some (k, p) \<Longrightarrow> phase_ok owner (dd_next s) ans k p"
  by (simp add: channels_ok_def tasks_ok_def)

lemma channels_ok_step:
  assumes "dedup_step s l s'" and "channels_ok owner (answered tr) s"
  shows "\<exists>owner'. channels_ok owner' (answered (tr @ [l])) s'"
proof -
  have grown: "channels_ok owner (answered (tr @ [l])) s"
    using assms(2) by (rule channels_ok_mono) (auto simp: answered_def)
  note task = channels_ok_task [OF grown]
  show ?thesis using assms(1)
  proof cases
    case (spawn i k)
    then show ?thesis using grown by (auto intro!: exI [of _ owner] channels_ok_set_phase)
  next
    case (tick d)
    then show ?thesis using grown by (auto intro: channels_ok_tick)
  next
    case (enter i k)
    then show ?thesis using channels_ok_look_up [OF grown] by simp
  next
    case (evict i k)
    then show ?thesis using channels_ok_remove [OF grown] by (auto intro!: exI [of _ owner] channels_ok_set_phase)
  next
    case (answer i k c v)
    have owner: "owner c = k" "c < dd_next s" using task [OF answer(3)] by simp_all
    have ans: "answered (tr @ [l]) k v" using answer(1) by (auto simp: answered_def)
    have "sends (send c v s) i c" using answer(3) unfolding sends_other by (auto simp: sends_def)
    moreover have "channels_ok owner (answered (tr @ [l])) (send c v s)"
      using grown ans owner by (intro channels_ok_send) simp_all
    ultimately show ?thesis using answer(2) owner ans
      by (auto intro!: exI [of _ owner] channels_ok_set_phase simp: send_def)
  next
    case (finish i k c v)
    then show ?thesis using channels_ok_remove [OF grown] task [OF finish(3)]
      by (auto intro!: exI [of _ owner] channels_ok_set_phase)
  next
    case (receive i k c v)
    then show ?thesis using grown task [OF receive(3)] by (auto intro!: exI [of _ owner] channels_ok_set_phase)
  next
    case (closed i k c)
    then show ?thesis using grown by (auto intro!: exI [of _ owner] channels_ok_set_phase)
  next
    case (abort i k p)
    then show ?thesis using grown by (auto intro!: exI [of _ owner] channels_ok_set_phase)
  qed
qed

lemma dedup_run_channels: "dedup_run tr s \<Longrightarrow> \<exists>owner. channels_ok owner (answered tr) s"
proof (induction rule: dedup_run.induct)
  case init
  show ?case by (simp add: channels_ok_def tasks_ok_def entries_ok_def one_sender_def sends_def new_dedup_def)
next
  case (step tr s l s')
  then show ?case using channels_ok_step by blast
qed

section \<open>One request at a time\<close>

text \<open>
  As long as nothing was evicted, every running request is listed in the map; as long as no
  task was dropped, every entry has a task that runs its request.
\<close>

definition leads :: "('k, 'v) dedup_state \<Rightarrow> nat \<Rightarrow> 'k \<Rightarrow> nat \<Rightarrow> bool" where
  "leads s i k c \<longleftrightarrow> (\<exists>p. dd_tasks s i = Some (k, p) \<and> chan_of p = Some c)"

definition listed :: "('k, 'v) dedup_state \<Rightarrow> bool" where
  "listed s \<longleftrightarrow> (\<forall>i k c. leads s i k c \<longrightarrow> (\<exists>t. dd_in_flight s k = Some (c, t)))"

definition led :: "('k, 'v) dedup_state \<Rightarrow> bool" where
  "led s \<longleftrightarrow> (\<forall>k c t. dd_in_flight s k = Some (c, t) \<longrightarrow> (\<exists>i. leads s i k c))"

lemma listedD: "listed s \<Longrightarrow> leads s i k c \<Longrightarrow> \<exists>t. dd_in_flight s k = Some (c, t)"
  unfolding listed_def by blast

lemma sends_leads: "sends s i c \<longleftrightarrow> (\<exists>k. leads s i k c)"
  by (auto simp: sends_def leads_def)

lemma leads_set_phase [simp]:
  "leads (set_phase i k p s) j k' c \<longleftrightarrow> (if j = i then k' = k \<and> chan_of p = Some c else leads s j k' c)"
  by (auto simp: leads_def set_phase_def)

lemma leads_other [simp]: "leads (remove_entry k s) j k' c = leads s j k' c" "leads (send c' v s) j k' c = leads s j k' c"
  "leads (s\<lparr>dd_clock := d\<rparr>) j k' c = leads s j k' c"
  "leads (s\<lparr>dd_in_flight := m, dd_next := n\<rparr>) j k' c = leads s j k' c"
  by (auto simp: leads_def remove_entry_def send_def receive_on_chan)

lemma in_flight_other [simp]: "dd_in_flight (set_phase i k p s) = dd_in_flight s" "dd_in_flight (send c v s) = dd_in_flight s"
  "dd_in_flight (remove_entry k s) = (dd_in_flight s)(k := None)"
  by (simp_all add: set_phase_def send_def remove_entry_def)

lemma leads_task: "dd_tasks s i = Some (k, p) \<Longrightarrow> leads s i k' c \<longleftrightarrow> k' = k \<and> chan_of p = Some c"
  by (auto simp: leads_def)

lemma listed_step:
  assumes "dedup_step s l s'" and "listed s" and "one_sender s" and "\<forall>i k. l \<noteq> Evict i k"
  shows "listed s'"
  using assms(1)
proof cases
  case (enter i k)
  have "\<not> leads s j k c" if "dd_in_flight s k = None" for j c
    using listedD [OF assms(2), of j k c] that by auto
  then show ?thesis using enter assms(2) by (auto simp: look_up_def listed_def leads_task split: option.splits)
next
  case (finish i k c v)
  have i: "leads s i k c" using finish by (simp add: leads_task)
  then obtain t where t: "dd_in_flight s k = Some (c, t)" using listedD [OF assms(2)] by blast
  have "j = i" if j: "leads s j k c'" for j c'
  proof -
    have "c' = c" using listedD [OF assms(2) j] t by simp
    then show ?thesis using assms(3) i j by (auto simp: one_sender_def sends_leads)
  qed
  then show ?thesis using finish assms(2) by (auto simp: listed_def)
next
  case (answer i k c v)
  then have "leads s i k c" by (simp add: leads_task)
  then show ?thesis using answer assms(2) by (auto simp: listed_def)
qed (use assms(2,4) in \<open>auto simp: listed_def\<close>)

text \<open>A task whose sender, if it has one, stays with it keeps the entries led.\<close>

lemma led_set_phase:
  assumes "led s" and "\<And>k' c. leads s i k' c \<Longrightarrow> k' = k \<and> chan_of p = Some c"
  shows "led (set_phase i k p s)"
  using assms unfolding led_def in_flight_other leads_set_phase by metis

lemma led_remove: "led s \<Longrightarrow> led (remove_entry k s)"
  by (auto simp: led_def)

lemma led_finish:
  assumes "led s" and "dd_tasks s i = Some (k, q)"
  shows "led (set_phase i k p (remove_entry k s))"
  using assms leads_task [OF assms(2)] unfolding led_def in_flight_other leads_set_phase leads_other
  by (metis fun_upd_apply option.distinct(1))

lemma led_look_up:
  assumes "led s" and "dd_tasks s i = Some (k, Looping)"
  shows "led (look_up i k s)"
proof (cases "dd_in_flight s k")
  case None
  have "led (set_phase i k (Running (dd_next s)) s)" using assms by (intro led_set_phase) (simp_all add: leads_task)
  then show ?thesis using None by (auto simp: look_up_def led_def)
next
  case (Some e)
  then show ?thesis using assms by (cases e) (auto simp: look_up_def leads_task intro!: led_set_phase)
qed

lemma led_step:
  assumes "dedup_step s l s'" and "led s" and "\<forall>i. l \<noteq> Abort i"
  shows "led s'"
  using assms(1)
proof cases
  case (spawn i k)
  then show ?thesis using assms(2) by (auto intro!: led_set_phase simp: leads_def)
next
  case (enter i k)
  then show ?thesis using assms(2) led_look_up [of s i k] by simp
next
  case (evict i k)
  then show ?thesis using assms(2) by (auto intro!: led_set_phase led_remove simp: leads_task)
next
  case (answer i k c v)
  have "led (send c v s)" using assms(2) by (simp add: led_def)
  then show ?thesis using answer by (auto intro!: led_set_phase simp: leads_task)
next
  case (finish i k c v)
  then show ?thesis using assms(2) led_finish [of s i k] by simp
qed (use assms(2,3) in \<open>auto intro!: led_set_phase simp: leads_task, simp add: led_def\<close>)

lemma dedup_run_listed: "dedup_run tr s \<Longrightarrow> \<forall>i k. Evict i k \<notin> set tr \<Longrightarrow> listed s"
proof (induction rule: dedup_run.induct)
  case init
  show ?case by (simp add: listed_def leads_def new_dedup_def)
next
  case (step tr s l s')
  have "one_sender s" using dedup_run_channels [OF step(1)] by (auto simp: channels_ok_def)
  then show ?case using step by (intro listed_step [of s l s']) auto
qed

lemma dedup_run_led: "dedup_run tr s \<Longrightarrow> \<forall>i. Abort i \<notin> set tr \<Longrightarrow> led s"
proof (induction rule: dedup_run.induct)
  case init
  show ?case by (simp add: led_def new_dedup_def)
next
  case (step tr s l s')
  then show ?case by (intro led_step [of s l s']) auto
qed

lemma dedup_run_no_drop:
  assumes "dedup_run tr s" and "\<forall>i. Abort i \<notin> set tr"
  shows "dd_tasks s i \<noteq> Some (k, Dropped)"
  using assms
proof (induction arbitrary: i k rule: dedup_run.induct)
  case (step tr s l s')
  have "receive_on c v p = Dropped \<longleftrightarrow> p = Dropped" for c v and p :: "'b phase"
    by (induction c v p rule: receive_on.induct) auto
  with step show ?case
    by (elim dedup_step.cases) (auto simp: dedup_ops map_prod_def split: option.splits prod.splits if_splits)
qed (simp add: new_dedup_def)

text \<open>A channel whose senders are not all gone has a task of its key that will answer.\<close>

lemma channel_leader:
  assumes "channels_ok owner ans s" and "led s" and "sender_alive s c"
  shows "\<exists>j. leads s j (owner c) c"
proof -
  have in_map: ?thesis if e: "dd_in_flight s k = Some (c, t)" for k t
  proof -
    have "owner c = k" using assms(1) e by (simp add: channels_ok_def entries_ok_def)
    then show ?thesis using assms(2) e unfolding led_def by blast
  qed
  have sending: ?thesis if j: "sends s j c" for j
  proof -
    obtain k where k: "leads s j k c" using j by (auto simp: sends_leads)
    then have "owner c = k" using assms(1) by (auto simp: leads_def channels_ok_def tasks_ok_def dest: phase_ok_chan)
    then show ?thesis using k by blast
  qed
  show ?thesis using assms(3) in_map sending unfolding sender_alive_def by blast
qed

section \<open>What callers get\<close>

text \<open>
  Every caller gets an answer to its own question: a task returns only a
  result that a request for the same key has produced, in every interleaving of any number
  of tasks, with evictions and with dropped tasks. And requests are shared: as long as no
  entry was evicted, at most one request per key is under way at any time.
\<close>

lemma dedup_shares_answers:
  assumes "dedup_run tr s"
  shows "(dd_tasks s i = Some (k, Done v) \<longrightarrow> answered tr k v) \<and>
    ((\<forall>j k. Evict j k \<notin> set tr) \<longrightarrow>
       dd_tasks s i = Some (k, Running c) \<longrightarrow> dd_tasks s j = Some (k, Running c') \<longrightarrow> i = j)"
proof -
  obtain owner where ok: "channels_ok owner (answered tr) s" using dedup_run_channels [OF assms] by blast
  have "i = j" if "\<forall>j k. Evict j k \<notin> set tr" "dd_tasks s i = Some (k, Running c)" "dd_tasks s j = Some (k, Running c')"
  proof -
    have leads: "leads s i k c" "leads s j k c'" using that(2,3) by (simp_all add: leads_task)
    have "listed s" using dedup_run_listed [OF assms that(1)] .
    from listedD [OF this leads(1)] listedD [OF this leads(2)] have "c = c'" by auto
    then show ?thesis using ok leads by (auto simp: channels_ok_def one_sender_def sends_leads)
  qed
  then show ?thesis using channels_ok_task [OF ok, of i k "Done v"] by auto
qed

text \<open>Two tasks with one key: the second waits and gets the answer of the first.\<close>

definition shared_trace :: "(nat, string) label list" where
  "shared_trace = [Spawn 0 7, Enter 0, Spawn 1 7, Enter 1, Answer 0 7 ''ok'', Finish 0, Receive 1]"

lemma dedup_shares_answers_witness:
  "\<exists>s. dedup_run shared_trace s \<and> dd_tasks s 1 = Some (7, Done ''ok'') \<and> answered shared_trace 7 ''ok''"
proof -
  obtain s where s: "perform_all shared_trace new_dedup = Some s" "dd_tasks s 1 = Some (7, Done ''ok'')"
    by (simp add: shared_trace_def new_dedup_def dedup_ops dedup_timeout_def)
  then have run: "dedup_run shared_trace s" by (simp add: perform_all_run)
  then show ?thesis using s(2) dedup_shares_answers [OF run, of 1 7 "''ok''"] by blast
qed

text \<open>
  Property C34. The tasks never block each other: as long as none was dropped, a task that
  has not returned can make a step, or waits for a task with the same key that can.
\<close>

theorem dedup_no_deadlock:
  assumes "dedup_run tr s" and "\<forall>i. Abort i \<notin> set tr"
    and "dd_tasks s i = Some (k, p)" and "\<forall>v. p \<noteq> Done v"
  shows "\<exists>j q l s'. dd_tasks s j = Some (k, q) \<and> moves j l \<and> dedup_step s l s'"
proof -
  obtain owner where ok: "channels_ok owner (answered tr) s" using dedup_run_channels [OF assms(1)] by blast
  have led: "led s" using dedup_run_led [OF assms(1,2)] .
  have no_drop: "p \<noteq> Dropped" using dedup_run_no_drop [OF assms(1,2)] assms(3) by blast
  have leader: ?thesis if lead: "leads s j k c" for j c
  proof -
    obtain q where q: "dd_tasks s j = Some (k, q)" "chan_of q = Some c" using lead by (auto simp: leads_def)
    then have "\<exists>l s'. moves j l \<and> dedup_step s l s'"
      by (cases q) (auto intro: dedup_step.intros simp: moves_def)
    then show ?thesis using q(1) by blast
  qed
  show ?thesis
  proof (cases p)
    case (Waiting c m)
    have owner: "owner c = k" using channels_ok_task [OF ok assms(3)] Waiting by simp
    show ?thesis
    proof (cases "m = None \<and> sender_alive s c")
      case True
      then obtain j where "leads s j k c" using channel_leader [OF ok led] owner by blast
      then show ?thesis by (rule leader)
    next
      case False
      then have "\<exists>l s'. moves i l \<and> dedup_step s l s'"
        using Waiting assms(3) by (cases m) (auto intro: dedup_step.intros simp: moves_def)
      then show ?thesis using assms(3) by blast
    qed
  qed (use assms(3,4) no_drop in \<open>(auto intro!: exI [of _ i] exI [of _ p] simp: moves_def intro: dedup_step.intros)\<close>)
qed

text \<open>The second task after the first has begun its request: it waits, and the first can answer.\<close>

theorem dedup_no_deadlock_witness:
  "\<exists>s. dedup_run (take 4 shared_trace) s \<and> dd_tasks s 1 = Some (7, Waiting 0 None) \<and>
     (\<exists>j q l s'. dd_tasks s j = Some (7, q) \<and> moves j l \<and> dedup_step s l s')"
proof -
  obtain s where s: "perform_all (take 4 shared_trace) new_dedup = Some s" "dd_tasks s 1 = Some (7, Waiting 0 None)"
    by (simp add: shared_trace_def new_dedup_def dedup_ops dedup_timeout_def)
  then have run: "dedup_run (take 4 shared_trace) s" by (simp add: perform_all_run)
  have "\<forall>i. Abort i \<notin> set (take 4 shared_trace)" by (simp add: shared_trace_def)
  from dedup_no_deadlock [OF run this s(2)] show ?thesis using run s(2) by auto
qed

section \<open>Dropped tasks and late answers\<close>

text \<open>
  A task that is dropped while it runs its request leaves its entry behind, and with it a
  sender: a task that waits for the answer can make no step any more.
\<close>

lemma dropped_leader_blocks:
  assumes "perform_all [Spawn 0 k, Enter 0, Spawn 1 k, Enter 1, Abort 0] new_dedup = Some s"
  shows "dd_tasks s 1 = Some (k, Waiting 0 None) \<and> \<not> (\<exists>j l s'. moves j l \<and> dedup_step s l s')"
proof -
  have s: "dd_tasks s = [0 \<mapsto> (k, Dropped), 1 \<mapsto> (k, Waiting 0 None)]" "dd_in_flight s k = Some (0, 0)"
    using assms by (auto simp: new_dedup_def dedup_ops dedup_timeout_def)
  then have alive: "sender_alive s 0" by (auto simp: sender_alive_def)
  have "\<not> moves j l" if step: "dedup_step s l s'" for j l s'
    using step s alive by (auto simp: moves_def perform_step [symmetric] split: if_splits)
  then show ?thesis using s by auto
qed

text \<open>
  A request that outlives its entry removes the entry of its successor when it ends, whatever
  the age of that entry: a third task then starts a request of its own while the second is
  still running.
\<close>

definition late_trace :: "'k \<Rightarrow> 'v \<Rightarrow> ('k, 'v) label list" where
  "late_trace k v = [Spawn 0 k, Enter 0, Tick dedup_timeout, Spawn 1 k, Enter 1, Evict 1 k, Enter 1,
     Answer 0 k v, Finish 0, Spawn 2 k, Enter 2]"

lemma late_answer_frees_key:
  "\<exists>s. dedup_run (late_trace k v) s \<and> dd_tasks s 1 = Some (k, Running 1) \<and> dd_tasks s 2 = Some (k, Running 2)"
proof -
  have "\<exists>s. perform_all (late_trace k v) new_dedup = Some s \<and> dd_tasks s 1 = Some (k, Running 1) \<and>
      dd_tasks s 2 = Some (k, Running 2)"
    by (simp add: late_trace_def new_dedup_def dedup_ops dedup_timeout_def)
  then show ?thesis by (simp add: perform_all_run)
qed

end
