(* ===== verification/Shared_Requests.thy ===== *)
theory Shared_Requests
  imports Rpc_Cache Dedup Utf8
begin

text \<open>
  The requests of the RPC client that pass through the deduplication
  (\<open>forge-index-rpc/src/client.rs\<close>, \<open>types.rs\<close>): their keys, what is run for them, and the
  answer a caller decodes. The state machine of \<open>Dedup\<close> is instantiated with these keys and
  answers, and every caller is shown to get an answer to its own call.
\<close>

section \<open>Keys\<close>

text \<open>The JSON texts of the parameters, by the JSON library; writing one may fail.\<close>

record param_json =
  pj_filter :: "alloy_filter \<Rightarrow> string option"
  pj_hash :: "bytes \<Rightarrow> string option"

definition cache_key :: "text_codec \<Rightarrow> (bytes \<Rightarrow> bytes) \<Rightarrow> string \<Rightarrow> string option \<Rightarrow> string" where
  "cache_key X sha256 method params =
     (let params_json = or_else params []
      in tc_encode X (sha256 (str_bytes method @ str_bytes params_json)))"

datatype request =
    Get_Logs alloy_filter
  | Get_Block_By_Number u64
  | Get_Block_By_Hash bytes
  | Get_Transaction_By_Hash bytes

fun method_of :: "request \<Rightarrow> string" where
  "method_of (Get_Logs f) = ''eth_getLogs''"
| "method_of (Get_Block_By_Number n) = ''eth_getBlockByNumber''"
| "method_of (Get_Block_By_Hash h) = ''eth_getBlockByHash''"
| "method_of (Get_Transaction_By_Hash h) = ''eth_getTransactionByHash''"

fun params_of :: "param_json \<Rightarrow> request \<Rightarrow> string option" where
  "params_of P (Get_Logs f) = pj_filter P f"
| "params_of P (Get_Block_By_Number n) = Some (nat_str (unat n))"
| "params_of P (Get_Block_By_Hash h) = pj_hash P h"
| "params_of P (Get_Transaction_By_Hash h) = pj_hash P h"

definition request_key :: "('p, 'j) client_env \<Rightarrow> param_json \<Rightarrow> request \<Rightarrow> string" where
  "request_key E P q = cache_key (e_codec E) (e_sha256 E) (method_of q) (params_of P q)"

section \<open>The shared part of a call\<close>

text \<open>What the task that finds no entry runs: the retries around one call of the provider.\<close>

fun fetch :: "('p, 'j) client_env \<Rightarrow> request \<Rightarrow> ('p, rpc_error failure, 'j) call" where
  "fetch E (Get_Logs f) =
     with_retry ''eth_getLogs''
       (seq (transport (p_get_logs (e_provider E) f))
            (\<lambda>logs. lift_res (to_json_or ''eth_getLogs'' (e_json_logs E) logs)))"
| "fetch E (Get_Block_By_Number n) =
     with_retry ''eth_getBlockByNumber''
       (seq (transport (p_get_block_by_number (e_provider E) n))
         (\<lambda>b. seq (lift_res (ok_or (decode_err ''eth_getBlockByNumber'' ''block not found'') b))
           (\<lambda>b. lift_res (to_json_or ''eth_getBlockByNumber'' (e_json_block E) b))))"
| "fetch E (Get_Block_By_Hash h) =
     with_retry ''eth_getBlockByHash''
       (seq (transport (p_get_block_by_hash (e_provider E) h))
         (\<lambda>b. seq (lift_res (ok_or (decode_err ''eth_getBlockByHash'' ''block not found'') b))
           (\<lambda>b. lift_res (to_json_or ''eth_getBlockByHash'' (e_json_block E) b))))"
| "fetch E (Get_Transaction_By_Hash h) =
     with_retry ''eth_getTransactionByHash''
       (seq (transport (p_get_transaction_by_hash (e_provider E) h))
         (\<lambda>t. seq (lift_res (ok_or (decode_err ''eth_getTransactionByHash'' ''transaction not found'') t))
           (\<lambda>t. lift_res (to_json_or ''eth_getTransactionByHash'' (e_json_alloy_tx E) t))))"

text \<open>What every caller does with the answer, shared or not.\<close>

definition logs_of_answer :: "('p, 'j) client_env \<Rightarrow> 'j \<Rightarrow> rpc_error failure + log list" where
  "logs_of_answer E j =
     bind_res (of_json_or ''eth_getLogs'' (e_json_logs E) j) (\<lambda>logs.
       Inr (map (\<lambda>l. log_from_alloy (tc_encode (e_codec E)) l (e_chain_id E)) logs))"

definition block_of_answer :: "('p, 'j) client_env \<Rightarrow> string \<Rightarrow> 'j \<Rightarrow> rpc_error failure + block" where
  "block_of_answer E method j =
     bind_res (of_json_or method (e_json_block E) j) (\<lambda>b. Inr (block_from_alloy b (e_chain_id E)))"

definition transaction_of_answer :: "('p, 'j) client_env \<Rightarrow> 'j \<Rightarrow> rpc_error failure + transaction" where
  "transaction_of_answer E j =
     bind_res (of_json_or ''eth_getTransactionByHash'' (e_json_alloy_tx E) j) (\<lambda>t. transaction_from_alloy t (e_chain_id E))"

text \<open>The calls of the client are the shared part followed by the caller's part.\<close>

lemma seq_lift: "seq (lift_res r) (\<lambda>x. lift_res (g x)) = lift_res (bind_res r g)"
  by (cases r) (auto simp: seq_def lift_res_def)

lemma ret_lift: "ret x = lift_res (Inr x)"
  by (simp add: ret_def lift_res_def)

lemma calls_split:
  "client_get_logs (tc_encode (e_codec E)) (e_json_logs E) (e_provider E) (e_chain_id E) flt =
     seq (fetch E (Get_Logs (to_alloy_filter flt))) (\<lambda>j. lift_res (logs_of_answer E j))"
  "client_get_block_by_number (e_json_block E) (e_provider E) (e_chain_id E) n =
     seq (fetch E (Get_Block_By_Number n)) (\<lambda>j. lift_res (block_of_answer E ''eth_getBlockByNumber'' j))"
  "client_get_block_by_hash (e_json_block E) (e_provider E) (e_chain_id E) h =
     seq (fetch E (Get_Block_By_Hash (hash_bytes h))) (\<lambda>j. lift_res (block_of_answer E ''eth_getBlockByHash'' j))"
  "client_get_transaction (e_json_alloy_tx E) (e_provider E) (e_chain_id E) h =
     seq (fetch E (Get_Transaction_By_Hash (hash_bytes h))) (\<lambda>j. lift_res (transaction_of_answer E j))"
  by (simp_all add: client_get_logs_def client_get_block_by_number_def client_get_block_by_hash_def
      client_get_transaction_def logs_of_answer_def block_of_answer_def transaction_of_answer_def
      seq_lift [symmetric] ret_lift)

section \<open>One key, one request\<close>

text \<open>
  What the library promises: parameters can be written as JSON, and the provider sends its
  parameters as that text, so that it cannot tell apart parameters of the same text.
\<close>

definition sends_json :: "param_json \<Rightarrow> 'p provider \<Rightarrow> bool" where
  "sends_json P V \<longleftrightarrow>
     (\<forall>f. pj_filter P f \<noteq> None) \<and> (\<forall>h. pj_hash P h \<noteq> None) \<and>
     (\<forall>f g. pj_filter P f = pj_filter P g \<longrightarrow> p_get_logs V f = p_get_logs V g) \<and>
     (\<forall>h k. pj_hash P h = pj_hash P k \<longrightarrow>
        p_get_block_by_hash V h = p_get_block_by_hash V k \<and>
        p_get_transaction_by_hash V h = p_get_transaction_by_hash V k)"

text \<open>
  What a request is identified by, its method followed by the text of its parameters, and
  what a hash has to keep apart among such texts. Nothing is assumed of the keys.
\<close>

definition key_text :: "param_json \<Rightarrow> request \<Rightarrow> string" where
  "key_text P q = method_of q @ or_else (params_of P q) []"

definition no_collision :: "(bytes \<Rightarrow> bytes) \<Rightarrow> string set \<Rightarrow> bool" where
  "no_collision sha256 texts \<longleftrightarrow> inj_on sha256 (str_bytes ` texts)"

lemma codec_encode_inj:
  assumes "codec_ok X" and "tc_encode X a = tc_encode X b"
  shows "a = b"
proof -
  have X: "hex_codec (tc_encode X) (tc_decode X)" using assms(1) by (simp add: codec_ok_def)
  have "length a = length b"
    using hex_codec.encode_length [OF X, of a] hex_codec.encode_length [OF X, of b] assms(2) by simp
  with assms(2) show ?thesis by (metis X hex_codec.decode_encode option.inject)
qed

lemma str_bytes_append: "str_bytes (a @ b) = str_bytes a @ str_bytes b"
  by (simp add: str_bytes_def)

text \<open>The key of a request is the digest of its text, so that equal keys come from equal texts.\<close>

lemma same_key_same_text:
  assumes "codec_ok (e_codec E)" and "no_collision (e_sha256 E) (key_text P ` qs)" and "q \<in> qs" and "q' \<in> qs"
    and "request_key E P q = request_key E P q'"
  shows "key_text P q = key_text P q'"
proof -
  have "request_key E P r = tc_encode (e_codec E) (e_sha256 E (str_bytes (key_text P r)))" for r
    by (simp add: request_key_def cache_key_def key_text_def str_bytes_append)
  with codec_encode_inj [OF assms(1)] assms(5)
  have "e_sha256 E (str_bytes (key_text P q)) = e_sha256 E (str_bytes (key_text P q'))" by simp
  then have "str_bytes (key_text P q) = str_bytes (key_text P q')"
    using assms(2-4) by (auto simp: no_collision_def inj_on_def)
  then show ?thesis by (metis bytes_str_bytes)
qed

text \<open>
  No name of a method is a prefix of another, so that the text of a key determines the method
  and the parameters although nothing separates them.
\<close>

lemma method_prefix_free:
  assumes "method_of q @ a = method_of q' @ b"
  shows "method_of q = method_of q' \<and> a = b"
  using assms by (cases q; cases q') auto

lemma same_text_same_fetch:
  assumes "key_text P q = key_text P q'" and "sends_json P (e_provider E)"
  shows "fetch E q = fetch E q'"
proof -
  have m: "method_of q = method_of q'" and ps: "or_else (params_of P q) [] = or_else (params_of P q') []"
    using method_prefix_free assms(1) unfolding key_text_def by blast+
  have json: "pj_filter P f \<noteq> None" "pj_hash P h \<noteq> None" for f h
    using assms(2) unfolding sends_json_def by blast+
  have "params_of P q \<noteq> None" "params_of P q' \<noteq> None" using json by (cases q; cases q'; simp)+
  with ps have same: "params_of P q = params_of P q'" by (auto simp: or_else_def)
  have logs: "pj_filter P f = pj_filter P g \<Longrightarrow> p_get_logs (e_provider E) f = p_get_logs (e_provider E) g"
    and hashes: "pj_hash P h = pj_hash P k \<Longrightarrow>
      p_get_block_by_hash (e_provider E) h = p_get_block_by_hash (e_provider E) k \<and>
      p_get_transaction_by_hash (e_provider E) h = p_get_transaction_by_hash (e_provider E) k" for f g h k
    using assms(2) unfolding sends_json_def by blast+
  show ?thesis
  proof (cases q)
    case (Get_Logs f)
    then show ?thesis using m same by (cases q') (auto dest: logs)
  next
    case (Get_Block_By_Number n)
    then show ?thesis using m same by (cases q') (auto simp: nat_str_inj dest!: unsigned_word_eqI)
  next
    case (Get_Block_By_Hash h)
    then show ?thesis using m same by (cases q') (auto dest: hashes)
  next
    case (Get_Transaction_By_Hash h)
    then show ?thesis using m same by (cases q') (auto dest: hashes)
  qed
qed

section \<open>Every caller is answered\<close>

text \<open>
  A run of the client: task \<open>i\<close> makes the request \<open>req i\<close> under its key, and a task that
  answers has run its request on some state of the network. A request that panics gives no
  answer: its task is dropped.
\<close>

fun outcome_of :: "rpc_error + 'j \<Rightarrow> rpc_error failure + 'j" where
  "outcome_of (Inl e) = Inl (Err e)"
| "outcome_of (Inr j) = Inr j"

definition answers_request :: "('p, 'j) client_env \<Rightarrow> request \<Rightarrow> rpc_error + 'j \<Rightarrow> bool" where
  "answers_request E q v \<longleftrightarrow> (\<exists>net. fst (fetch E q net) = outcome_of v)"

definition client_trace ::
  "('p, 'j) client_env \<Rightarrow> param_json \<Rightarrow> (nat \<Rightarrow> request) \<Rightarrow> (string, rpc_error + 'j) label list \<Rightarrow> bool" where
  "client_trace E P req tr \<longleftrightarrow>
     (\<forall>i k. Spawn i k \<in> set tr \<longrightarrow> k = request_key E P (req i)) \<and>
     (\<forall>i k v. Answer i k v \<in> set tr \<longrightarrow> answers_request E (req i) v)"

text \<open>The key of a task is the one it was spawned with.\<close>

lemma phase_key: "dd_tasks (send c v s) i = Some (k, p) \<Longrightarrow> \<exists>p. dd_tasks s i = Some (k, p)"
  by (auto simp: send_def)

lemma step_keys:
  assumes "dedup_step s l s'" and "dd_tasks s' i = Some (k, p)"
  shows "(\<exists>p. dd_tasks s i = Some (k, p)) \<or> l = Spawn i k"
  using assms
  by (induction rule: dedup_step.induct)
    (auto simp: set_phase_def look_up_def remove_entry_def dest: phase_key split: option.splits prod.splits if_splits)

lemma task_spawned:
  assumes "dedup_run tr s"
  shows "(dd_tasks s i = Some (k, p) \<longrightarrow> Spawn i k \<in> set tr) \<and> (Answer i k v \<in> set tr \<longrightarrow> Spawn i k \<in> set tr)"
  using assms
proof (induction arbitrary: i k p v rule: dedup_run.induct)
  case init
  then show ?case by (simp add: new_dedup_def)
next
  case (step tr s l s')
  have "\<exists>c. dd_tasks s i = Some (k, Running c)" if "l = Answer i k v"
    using step.hyps(2) that by (auto elim: dedup_step.cases)
  then show ?case using step.IH step_keys [OF step.hyps(2)] by fastforce
qed

text \<open>
  Property C33. Every caller of the client gets an answer to its own call: in every
  interleaving of any number of calls of \<open>get_logs\<close>, \<open>get_block_by_number\<close>,
  \<open>get_block_by_hash\<close> and \<open>get_transaction\<close>, with evictions and with dropped tasks, the
  result of a call is an outcome of that very request at the provider, whoever has run it;
  and as long as no entry was evicted at most one task is running the same request. What is
  assumed: parameters can be written as JSON and the provider is asked by that text, \<open>hex\<close>
  encodes as documented, and SHA-256 has no collision among the texts of the requests made,
  each the name of the method followed by the parameters.
\<close>

theorem shared_requests_answered:
  assumes "dedup_run tr s" and "client_trace E P req tr"
    and "sends_json P (e_provider E)" and "codec_ok (e_codec E)"
    and "no_collision (e_sha256 E) (key_text P ` range req)"
  shows "(dd_tasks s i = Some (k, Done v) \<longrightarrow> answers_request E (req i) v) \<and>
    ((\<forall>j k. Evict j k \<notin> set tr) \<longrightarrow> dd_tasks s i = Some (k, Running c) \<longrightarrow>
       dd_tasks s j = Some (k', Running c') \<longrightarrow> req i = req j \<longrightarrow> i = j)"
proof (intro conjI impI)
  assume fin: "dd_tasks s i = Some (k, Done v)"
  then obtain j where j: "Answer j k v \<in> set tr"
    using dedup_shares_answers [OF assms(1)] unfolding answered_def by blast
  have "Spawn i k \<in> set tr" "Spawn j k \<in> set tr" using task_spawned [OF assms(1)] fin j by blast+
  then have "request_key E P (req i) = request_key E P (req j)"
    using assms(2) unfolding client_trace_def by metis
  from same_key_same_text [OF assms(4,5) rangeI rangeI this]
  have "fetch E (req i) = fetch E (req j)" by (rule same_text_same_fetch [OF _ assms(3)])
  moreover have "answers_request E (req j) v" using assms(2) j unfolding client_trace_def by blast
  ultimately show "answers_request E (req i) v" by (simp add: answers_request_def)
next
  assume no_evict: "\<forall>j k. Evict j k \<notin> set tr" and i: "dd_tasks s i = Some (k, Running c)"
    and j: "dd_tasks s j = Some (k', Running c')" and same: "req i = req j"
  have "Spawn i k \<in> set tr" "Spawn j k' \<in> set tr" using task_spawned [OF assms(1)] i j by blast+
  then have "k = k'" using assms(2) same unfolding client_trace_def by metis
  then show "i = j" using dedup_shares_answers [OF assms(1)] no_evict i j by blast
qed

text \<open>
  Two callers of one block, where the second gets the block that the first has fetched, and
  a caller of the transaction that has the same parameter text as a block by hash.
\<close>

definition demo_params :: param_json where
  "demo_params = \<lparr> pj_filter = (\<lambda>_. Some []), pj_hash = (\<lambda>_. Some ''0x00'') \<rparr>"

definition digest :: "bytes \<Rightarrow> bytes" where
  "digest b = take 32 (b @ replicate 32 0)"

definition hashed_env :: "(unit, alloy_header) client_env" where
  "hashed_env = demo_env \<lparr> e_sha256 := digest \<rparr>"

definition demo_req :: "nat \<Rightarrow> request" where
  "demo_req i = (if i < 2 then Get_Block_By_Number 7 else if i = 2 then Get_Transaction_By_Hash [0] else Get_Block_By_Hash [0])"

definition demo_key :: "nat \<Rightarrow> string" where
  "demo_key i = request_key hashed_env demo_params (demo_req i)"

definition not_found :: "rpc_error + alloy_header" where
  "not_found = Inl (Decode ''eth_getTransactionByHash'' ''transaction not found'')"

definition block_trace :: "(string, rpc_error + alloy_header) label list" where
  "block_trace = [Spawn 0 (demo_key 0), Enter 0, Spawn 1 (demo_key 1), Enter 1, Spawn 2 (demo_key 2), Enter 2,
     Answer 0 (demo_key 0) (Inr (demo_header 7)), Answer 2 (demo_key 2) not_found, Finish 0, Receive 1]"

lemma demo_texts: "range demo_req = {Get_Block_By_Number 7, Get_Transaction_By_Hash [0], Get_Block_By_Hash [0]}"
proof -
  have "demo_req 0 = Get_Block_By_Number 7" "demo_req 2 = Get_Transaction_By_Hash [0]" "demo_req 3 = Get_Block_By_Hash [0]"
    by (simp_all add: demo_req_def)
  then have "{Get_Block_By_Number 7, Get_Transaction_By_Hash [0], Get_Block_By_Hash [0]} \<subseteq> range demo_req"
    by (metis empty_subsetI insert_subset rangeI)
  then show ?thesis by (auto simp: demo_req_def)
qed

lemma demo_no_collision: "no_collision (e_sha256 hashed_env) (key_text demo_params ` range demo_req)"
proof -
  have seven: "nat_str 7 = ''7''" by code_simp
  show ?thesis
    by (simp add: no_collision_def demo_texts key_text_def demo_params_def or_else_def seven hashed_env_def)
      (simp add: inj_on_def digest_def str_bytes_def)
qed

lemma demo_keys: "demo_key 1 = demo_key 0" "demo_key 0 \<noteq> demo_key 2"
proof -
  show "demo_key 1 = demo_key 0" by (simp add: demo_key_def demo_req_def)
  have "codec_ok (e_codec hashed_env)" by (simp add: hashed_env_def demo_env_def ref_codec_ok)
  from same_key_same_text [OF this demo_no_collision rangeI rangeI, of 0 2]
  show "demo_key 0 \<noteq> demo_key 2" by (auto simp: demo_key_def key_text_def demo_req_def)
qed

theorem shared_requests_answered_witness:
  "\<exists>s. dedup_run block_trace s \<and>
     dd_tasks s 1 = Some (demo_key 1, Done (Inr (demo_header 7))) \<and>
     answers_request hashed_env (Get_Block_By_Number 7) (Inr (demo_header 7)) \<and>
     (\<exists>c. dd_tasks s 2 = Some (demo_key 2, Sent c not_found))"
proof -
  obtain s where s: "perform_all block_trace new_dedup = Some s"
    "dd_tasks s 1 = Some (demo_key 1, Done (Inr (demo_header 7)))"
    "\<exists>c. dd_tasks s 2 = Some (demo_key 2, Sent c not_found)"
    using demo_keys by (simp add: block_trace_def new_dedup_def dedup_ops dedup_timeout_def)
  have run: "dedup_run block_trace s" using s(1) by (simp add: perform_all_run)
  have fetch: "answers_request hashed_env (Get_Block_By_Number 7) (Inr (demo_header 7))"
    "answers_request hashed_env (Get_Transaction_By_Hash [0]) not_found"
    by (simp_all add: answers_request_def hashed_env_def demo_env_def demo_provider_def with_retry_def seq_def
        transport_def map_err_def lift_res_def ok_or_def to_json_or_def not_found_def decode_err_def)
  have trace: "client_trace hashed_env demo_params demo_req block_trace"
    using fetch by (auto simp: client_trace_def block_trace_def demo_key_def demo_req_def)
  have laws: "sends_json demo_params (e_provider hashed_env)" "codec_ok (e_codec hashed_env)"
    by (simp_all add: sends_json_def demo_params_def hashed_env_def demo_env_def demo_provider_def ref_codec_ok)
  have "answers_request hashed_env (demo_req 1) (Inr (demo_header 7))"
    using shared_requests_answered [OF run trace laws demo_no_collision, of 1] s(2) by blast
  then show ?thesis using s(2,3) run by (auto simp: demo_req_def)
qed

text \<open>
  For a block by number: what a caller decodes from a shared answer is a block that the
  provider has returned for the caller's own number.
\<close>

lemma shared_block_from_provider:
  assumes "answers_request E (Get_Block_By_Number n) (Inr j)"
    and "block_of_answer E ''eth_getBlockByNumber'' j = Inr b"
    and "\<And>h j. to_json (e_json_block E) h = Inr j \<Longrightarrow> of_json (e_json_block E) j = Inr h"
  shows "\<exists>h net net'. p_get_block_by_number (e_provider E) n net = (Inr (Some h), net') \<and>
    b = block_from_alloy h (e_chain_id E)"
proof -
  obtain net net' where "fetch E (Get_Block_By_Number n) net = (Inr j, net')"
    using assms(1) by (metis answers_request_def outcome_of.simps(2) prod.collapse)
  then have "client_get_block_by_number (e_json_block E) (e_provider E) (e_chain_id E) n net = (Inr b, net')"
    unfolding calls_split using assms(2) by (simp add: seq_Inr_iff)
  from client_get_block_by_number_Inr [OF this assms(3)] show ?thesis by blast
qed

end
