(* ===== verification/Rate_Limiter.thy ===== *)
theory Rate_Limiter
  imports Prelude Complex_Main
begin

text \<open>
  The token buckets that limit requests: the limiter of the RPC client
  (\<open>forge-index-rpc/src/rate_limiter.rs\<close>), which waits for a token, and the limiter of the
  SQL endpoint (\<open>forge-index-api/src/handlers/sql.rs\<close>), which refuses and keeps one bucket
  per client address. Numbers of type \<open>f64\<close> are real numbers, with the rounding of every
  operation an argument; clock readings are nanoseconds. The main result bounds the requests
  granted in any period, rounding errors included.
\<close>

section \<open>Buckets\<close>

type_synonym rounding = "real \<Rightarrow> real"

record token_bucket =
  tok_tokens :: real
  tok_max :: real
  tok_rate :: real
  tok_last :: nat

text \<open>\<open>Duration::as_secs_f64\<close>: the seconds and the nanoseconds are converted apart.\<close>

definition as_secs_f64 :: "rounding \<Rightarrow> nat \<Rightarrow> real" where
  "as_secs_f64 rnd ns = rnd (rnd (real (ns div 10 ^ 9)) + rnd (real (ns mod 10 ^ 9) / 10 ^ 9))"

definition new_bucket :: "u32 \<Rightarrow> nat \<Rightarrow> token_bucket" where
  "new_bucket max_rps now =
     \<lparr> tok_tokens = real (unat max_rps), tok_max = real (unat max_rps), tok_rate = real (unat max_rps),
       tok_last = now \<rparr>"

text \<open>The difference of two instants is zero where the clock seems to go backwards.\<close>

definition refill :: "rounding \<Rightarrow> nat \<Rightarrow> token_bucket \<Rightarrow> token_bucket" where
  "refill rnd now b =
     (let elapsed = as_secs_f64 rnd (now - tok_last b)
      in b\<lparr> tok_tokens := min (rnd (tok_tokens b + rnd (elapsed * tok_rate b))) (tok_max b), tok_last := now \<rparr>)"

definition try_acquire :: "rounding \<Rightarrow> nat \<Rightarrow> token_bucket \<Rightarrow> bool \<times> token_bucket" where
  "try_acquire rnd now b =
     (let b = refill rnd now b
      in if tok_tokens b \<ge> 1 then (True, b\<lparr>tok_tokens := rnd (tok_tokens b - 1)\<rparr>) else (False, b))"

text \<open>
  \<open>Duration::from_secs_f64\<close> rounds to nanoseconds and panics on an infinite value, which
  the division gives for a rate of zero.
\<close>

definition from_secs_f64 :: "real \<Rightarrow> nat" where
  "from_secs_f64 x = nat \<lfloor>x * 10 ^ 9 + 1 / 2\<rfloor>"

definition time_until_available :: "rounding \<Rightarrow> nat \<Rightarrow> token_bucket \<Rightarrow> (nat, 'e) result \<times> token_bucket" where
  "time_until_available rnd now b =
     (let b = refill rnd now b
      in if tok_tokens b \<ge> 1 then (Inr 0, b)
         else (let deficit = rnd (1 - tok_tokens b)
               in if tok_rate b = 0
                  then (Inl (Panic ''cannot convert float seconds to Duration: value is either too big or NaN''), b)
                  else (Inr (from_secs_f64 (rnd (deficit / tok_rate b))), b)))"

text \<open>
  The loop of \<open>acquire\<close>: each turn reads the clock twice and sleeps. \<open>clock\<close> lists the
  pairs of readings; \<open>None\<close> when they are used up before a token was available. The waiting
  times are collected.
\<close>

fun acquire ::
  "rounding \<Rightarrow> (nat \<times> nat) list \<Rightarrow> token_bucket \<Rightarrow> ((nat list, 'e) result \<times> token_bucket) option" where
  "acquire rnd [] b = None"
| "acquire rnd ((now1, now2) # clock) b =
     (case try_acquire rnd now1 b of
        (True, b') \<Rightarrow> Some (Inr [], b')
      | (False, b') \<Rightarrow>
          (case time_until_available rnd now2 b' of
             (Inl e, b'') \<Rightarrow> Some (Inl e, b'')
           | (Inr wait_time, b'') \<Rightarrow>
               map_option (\<lambda>(r, b). (bind_res r (\<lambda>ws. Inr (wait_time # ws)), b)) (acquire rnd clock b'')))"

section \<open>The limiter of the SQL endpoint\<close>

definition sql_bucket_try_acquire :: "rounding \<Rightarrow> nat \<Rightarrow> token_bucket \<Rightarrow> bool \<times> token_bucket" where
  "sql_bucket_try_acquire rnd now b =
     (let elapsed = as_secs_f64 rnd (now - tok_last b);
          tokens = min (rnd (tok_tokens b + rnd (elapsed * tok_rate b))) (tok_max b);
          b = b\<lparr> tok_tokens := tokens, tok_last := now \<rparr>
      in if tokens \<ge> 1 then (True, b\<lparr>tok_tokens := rnd (tokens - 1)\<rparr>) else (False, b))"

record 'ip sql_rate_limiter =
  rl_buckets :: "'ip \<rightharpoonup> token_bucket"
  rl_max_rps :: u32

definition new_limiter :: "u32 \<Rightarrow> 'ip sql_rate_limiter" where
  "new_limiter max_rps = \<lparr> rl_buckets = Map.empty, rl_max_rps = max_rps \<rparr>"

definition limiter_try_acquire ::
  "rounding \<Rightarrow> nat \<Rightarrow> 'ip \<Rightarrow> 'ip sql_rate_limiter \<Rightarrow> bool \<times> 'ip sql_rate_limiter" where
  "limiter_try_acquire rnd now ip L =
     (let entry = (case rl_buckets L ip of Some b \<Rightarrow> b | None \<Rightarrow> new_bucket (rl_max_rps L) now)
      in case sql_bucket_try_acquire rnd now entry of
           (ok, b) \<Rightarrow> (ok, L\<lparr>rl_buckets := (rl_buckets L)(ip \<mapsto> b)\<rparr>))"

lemma sql_bucket_same: "sql_bucket_try_acquire rnd now b = try_acquire rnd now b"
  by (simp add: sql_bucket_try_acquire_def try_acquire_def refill_def Let_def)

text \<open>
  A sequence of requests, each with the clock reading and the address of the client, and the
  number of those of one address that were granted.
\<close>

fun serve ::
  "rounding \<Rightarrow> (nat \<times> 'ip) list \<Rightarrow> 'ip sql_rate_limiter \<Rightarrow> bool list \<times> 'ip sql_rate_limiter" where
  "serve rnd [] L = ([], L)"
| "serve rnd ((now, ip) # rs) L =
     (case limiter_try_acquire rnd now ip L of
        (ok, L') \<Rightarrow> (case serve rnd rs L' of (oks, L'') \<Rightarrow> (ok # oks, L'')))"

definition requests_of :: "'ip \<Rightarrow> (nat \<times> 'ip) list \<Rightarrow> nat list" where
  "requests_of ip rs = map fst (filter (\<lambda>(now, i). i = ip) rs)"

definition granted :: "'ip \<Rightarrow> (nat \<times> 'ip) list \<Rightarrow> bool list \<Rightarrow> nat" where
  "granted ip rs oks = length (filter (\<lambda>((now, i), ok). i = ip \<and> ok) (zip rs oks))"

text \<open>The same for one bucket.\<close>

fun grants :: "rounding \<Rightarrow> nat list \<Rightarrow> token_bucket \<Rightarrow> nat \<times> token_bucket" where
  "grants rnd [] b = (0, b)"
| "grants rnd (now # ts) b =
     (case try_acquire rnd now b of
        (ok, b') \<Rightarrow> (case grants rnd ts b' of (n, b'') \<Rightarrow> (of_bool ok + n, b'')))"

section \<open>Rounding\<close>

text \<open>
  What the development uses of rounding to 53 bits: the error is at most the 53rd binary
  place of the value, or of one for smaller values, and no sign changes.
\<close>

definition eps :: real where "eps = 1 / 2 ^ 53"

locale f64_rounding =
  fixes rnd :: rounding
  assumes rnd_error: "\<bar>rnd x - x\<bar> \<le> eps * max 1 \<bar>x\<bar>"
    and rnd_nonneg: "0 \<le> x \<Longrightarrow> 0 \<le> rnd x"
begin

lemma rnd_le: "0 \<le> x \<Longrightarrow> x \<le> c \<Longrightarrow> 1 \<le> c \<Longrightarrow> rnd x \<le> x + eps * c"
proof -
  assume x: "0 \<le> x" "x \<le> c" "1 \<le> c"
  have "eps * max 1 \<bar>x\<bar> \<le> eps * c" using x by (intro mult_left_mono) (auto simp: eps_def)
  then show ?thesis using rnd_error [of x] by linarith
qed

end

text \<open>Rounding to 53 significant bits, ties upwards.\<close>

definition ulp :: "real \<Rightarrow> real" where
  "ulp x = 2 powr (of_int \<lfloor>log 2 \<bar>x\<bar>\<rfloor> - 52)"

definition round53 :: rounding where
  "round53 x = (if x = 0 then 0 else ulp x * of_int (round (x / ulp x)))"

interpretation binary64: f64_rounding round53
proof
  fix x :: real
  have pos: "0 < ulp x" by (simp add: ulp_def)
  show "\<bar>round53 x - x\<bar> \<le> eps * max 1 \<bar>x\<bar>"
  proof (cases "x = 0")
    case False
    have "\<bar>of_int (round (x / ulp x)) - x / ulp x\<bar> \<le> 1 / 2" by (rule of_int_round_abs_le)
    then have "ulp x * \<bar>of_int (round (x / ulp x)) - x / ulp x\<bar> \<le> ulp x * (1 / 2)"
      using pos by (intro mult_left_mono) auto
    moreover have "round53 x - x = ulp x * (of_int (round (x / ulp x)) - x / ulp x)"
      using False pos by (simp add: round53_def right_diff_distrib)
    then have "\<bar>round53 x - x\<bar> = ulp x * \<bar>of_int (round (x / ulp x)) - x / ulp x\<bar>"
      using pos by (simp add: abs_mult)
    moreover have "ulp x \<le> \<bar>x\<bar> / 2 ^ 52"
    proof -
      have "2 powr of_int \<lfloor>log 2 \<bar>x\<bar>\<rfloor> \<le> 2 powr (log 2 \<bar>x\<bar>)" by simp
      then have "2 powr of_int \<lfloor>log 2 \<bar>x\<bar>\<rfloor> \<le> \<bar>x\<bar>" using False by simp
      then show ?thesis by (simp add: ulp_def powr_diff field_simps)
    qed
    ultimately have "\<bar>round53 x - x\<bar> \<le> eps * \<bar>x\<bar>" by (simp add: eps_def)
    moreover have "eps * \<bar>x\<bar> \<le> eps * max 1 \<bar>x\<bar>" by (intro mult_left_mono) (auto simp: eps_def)
    ultimately show ?thesis by linarith
  qed (simp add: round53_def eps_def)
  show "0 \<le> round53 x" if "0 \<le> x"
    using that pos round_mono [of 0 "x / ulp x"] by (simp add: round53_def)
qed

section \<open>How much a bucket grants\<close>

text \<open>A bucket of a limiter: as many tokens per second as it holds, at least one.\<close>

definition bucket_ok :: "token_bucket \<Rightarrow> bool" where
  "bucket_ok b \<longleftrightarrow> 0 \<le> tok_tokens b \<and> tok_tokens b \<le> tok_max b \<and> tok_rate b = tok_max b \<and> 1 \<le> tok_max b \<and> tok_max b \<le> 2 ^ 32"

text \<open>The slack of one call: the rounding errors of its operations.\<close>

definition slack :: "token_bucket \<Rightarrow> real" where
  "slack b = 20 * eps * tok_rate b"

context f64_rounding
begin

lemma as_secs_le:
  assumes "real ns / 10 ^ 9 \<le> 1"
  shows "as_secs_f64 rnd ns \<le> real ns / 10 ^ 9 + 5 * eps" and "0 \<le> as_secs_f64 rnd ns"
proof -
  let ?s = "real (ns div 10 ^ 9)" and ?f = "real (ns mod 10 ^ 9) / 10 ^ 9"
  have e: "0 \<le> eps" "eps \<le> 1 / 8" by (simp_all add: eps_def)
  have "ns = ns div 10 ^ 9 * 10 ^ 9 + ns mod 10 ^ 9" by simp
  then have "real ns = real (ns div 10 ^ 9 * 10 ^ 9 + ns mod 10 ^ 9)" by (rule arg_cong)
  also have "\<dots> = real (ns div 10 ^ 9) * 10 ^ 9 + real (ns mod 10 ^ 9)"
    by (simp only: of_nat_add of_nat_mult of_nat_power of_nat_numeral)
  finally have sum: "?s + ?f = real ns / 10 ^ 9" by (simp add: add_divide_distrib)
  have s: "0 \<le> ?s" "?s \<le> 1" "0 \<le> ?f" "?f \<le> 1" using assms sum by (simp_all add: add_increasing add_increasing2)
  then have "rnd ?s \<le> ?s + eps" "rnd ?f \<le> ?f + eps" "0 \<le> rnd ?s" "0 \<le> rnd ?f"
    using rnd_le [of ?s 1] rnd_le [of ?f 1] rnd_nonneg by simp_all
  moreover from this have "rnd (rnd ?s + rnd ?f) \<le> rnd ?s + rnd ?f + eps * 3"
    using assms sum e by (intro rnd_le) linarith+
  ultimately show "as_secs_f64 rnd ns \<le> real ns / 10 ^ 9 + 5 * eps" and "0 \<le> as_secs_f64 rnd ns"
    using sum rnd_nonneg [of "rnd ?s + rnd ?f"] by (simp_all add: as_secs_f64_def)
qed

lemma refill_tokens:
  assumes "bucket_ok b" and "tok_last b \<le> now"
  shows "bucket_ok (refill rnd now b)"
    and "tok_tokens (refill rnd now b) \<le>
           tok_tokens b + tok_rate b * (real (now - tok_last b) / 10 ^ 9) + 19 * eps * tok_rate b"
proof -
  let ?r = "tok_rate b" and ?x = "as_secs_f64 rnd (now - tok_last b)"
  define s where "s = real (now - tok_last b) / 10 ^ 9"
  have r: "1 \<le> ?r" "tok_max b = ?r" "?r \<le> 2 ^ 32" and t: "0 \<le> tok_tokens b" "tok_tokens b \<le> ?r"
    using assms(1) by (auto simp: bucket_ok_def)
  have e: "0 \<le> eps" "eps \<le> 1 / 8" by (simp_all add: eps_def)
  have er: "0 \<le> eps * ?r" "eps * ?r \<le> ?r / 8" using e r mult_right_mono [of eps "1 / 8" ?r] by simp_all
  have x0: "0 \<le> ?x" unfolding as_secs_f64_def by (intro rnd_nonneg add_nonneg_nonneg) simp_all
  then have nonneg: "0 \<le> rnd (tok_tokens b + rnd (?x * ?r))" using r t by (intro rnd_nonneg add_nonneg_nonneg) simp_all
  then show "bucket_ok (refill rnd now b)" using r by (simp add: bucket_ok_def refill_def Let_def)
  have tokens: "tok_tokens (refill rnd now b) \<le> ?r"
    "tok_tokens (refill rnd now b) \<le> rnd (tok_tokens b + rnd (?x * ?r))"
    using r(2) by (simp_all add: refill_def Let_def)
  have "tok_tokens (refill rnd now b) \<le> tok_tokens b + ?r * s + 19 * eps * ?r"
  proof (cases "s \<le> 1")
    case False
    then have "?r \<le> ?r * s" using r by simp
    then show ?thesis using tokens(1) t er by linarith
  next
    case True
    have x: "?x \<le> s + 5 * eps" using as_secs_le(1) True by (simp only: s_def)
    have "?x * ?r \<le> (s + 5 * eps) * ?r" using x r by (intro mult_right_mono) auto
    then have xr: "?x * ?r \<le> ?r * s + 5 * (eps * ?r)" by (simp add: algebra_simps)
    have le: "?r * s \<le> ?r" using True r by (simp add: mult_left_le)
    have x1: "0 \<le> ?x * ?r" using x0 r by simp
    have m1: "rnd (?x * ?r) \<le> ?x * ?r + eps * (2 * ?r)" using xr le r er x1 by (intro rnd_le) linarith+
    have m0: "0 \<le> rnd (?x * ?r)" using x1 by (rule rnd_nonneg)
    have "rnd (tok_tokens b + rnd (?x * ?r)) \<le> tok_tokens b + rnd (?x * ?r) + eps * (4 * ?r)"
      using m0 m1 xr le er t r by (intro rnd_le) linarith+
    then show ?thesis using m1 xr er tokens(2) by linarith
  qed
  then show "tok_tokens (refill rnd now b) \<le>
      tok_tokens b + ?r * (real (now - tok_last b) / 10 ^ 9) + 19 * eps * ?r" by (simp only: s_def)
qed

lemma try_acquire_tokens:
  assumes "bucket_ok b" and "tok_last b \<le> now" and "try_acquire rnd now b = (ok, b')"
  shows "bucket_ok b'" and "tok_rate b' = tok_rate b" and "tok_last b' = now"
    and "tok_tokens b' + of_bool ok \<le> tok_tokens b + tok_rate b * (real (now - tok_last b) / 10 ^ 9) + slack b"
proof -
  let ?c = "refill rnd now b"
  have c: "bucket_ok ?c" "tok_rate ?c = tok_rate b" "tok_last ?c = now" "tok_max ?c = tok_max b"
    using refill_tokens [OF assms(1,2)] by (simp_all add: refill_def Let_def)
  note bound = refill_tokens(2) [OF assms(1,2)]
  have sl: "slack b = 19 * eps * tok_rate b + eps * tok_rate b" by (simp add: slack_def algebra_simps)
  have er: "0 \<le> eps * tok_rate b" using assms(1) by (simp add: bucket_ok_def eps_def)
  have step: "tok_tokens ?c \<ge> 1 \<Longrightarrow> 0 \<le> rnd (tok_tokens ?c - 1) \<and>
      rnd (tok_tokens ?c - 1) \<le> tok_tokens ?c - 1 + eps * tok_rate b"
    using c assms(1) by (intro conjI rnd_nonneg rnd_le) (auto simp: bucket_ok_def)
  show "tok_rate b' = tok_rate b" "tok_last b' = now"
    using assms(3) c by (auto simp: try_acquire_def Let_def split: if_splits)
  show "tok_tokens b' + of_bool ok \<le> tok_tokens b + tok_rate b * (real (now - tok_last b) / 10 ^ 9) + slack b"
    using assms(3) bound sl er step
    by (auto simp: try_acquire_def Let_def simp del: times_divide_eq_right split: if_splits)
  have "eps * tok_rate b \<le> eps * 2 ^ 32" using assms(1) by (intro mult_left_mono) (auto simp: bucket_ok_def eps_def)
  then have "eps * tok_rate b \<le> 1" by (simp add: eps_def)
  then show "bucket_ok b'"
    using assms(3) c step by (auto simp: try_acquire_def Let_def bucket_ok_def split: if_splits)
qed

lemma first_acquire:
  assumes "bucket_ok b" and "tok_last b \<le> now" and "try_acquire rnd now b = (ok, b')"
  shows "tok_tokens b' + of_bool ok \<le> tok_rate b + slack b"
proof -
  let ?c = "refill rnd now b"
  have c: "bucket_ok ?c" "tok_rate ?c = tok_rate b" using refill_tokens [OF assms(1,2)] by (simp_all add: refill_def Let_def)
  have er: "0 \<le> eps * tok_rate b" using assms(1) by (simp add: bucket_ok_def eps_def)
  have "tok_tokens ?c \<ge> 1 \<Longrightarrow> rnd (tok_tokens ?c - 1) \<le> tok_tokens ?c - 1 + eps * tok_rate b"
    using c assms(1) by (intro rnd_le) (auto simp: bucket_ok_def)
  moreover have "tok_tokens ?c \<le> tok_rate b" using c assms(1) by (simp add: bucket_ok_def)
  moreover have "slack b = 20 * (eps * tok_rate b)" by (simp add: slack_def)
  ultimately show ?thesis
    using assms(3) er by (auto simp: try_acquire_def Let_def split: if_splits)
qed

lemma grants_bound:
  assumes "bucket_ok b" and "sorted (tok_last b # ts)"
  shows "real (fst (grants rnd ts b)) \<le>
    tok_tokens b + tok_rate b * (real (last (tok_last b # ts) - tok_last b) / 10 ^ 9) + real (length ts) * slack b"
  using assms
proof (induction ts arbitrary: b)
  case Nil
  then show ?case by (simp add: bucket_ok_def)
next
  case (Cons now ts)
  obtain ok b' where step: "try_acquire rnd now b = (ok, b')" by (cases "try_acquire rnd now b")
  have last: "tok_last b \<le> now" using Cons.prems(2) by simp
  note b' = try_acquire_tokens [OF Cons.prems(1) last step]
  have "sorted (tok_last b' # ts)" using Cons.prems(2) b'(3) by simp
  note IH = Cons.IH [OF b'(1) this]
  have upto: "now \<le> last (now # ts)" using Cons.prems(2) by (cases ts) (auto simp: last_in_set)
  have "tok_rate b * (real (last (now # ts) - tok_last b) / 10 ^ 9) =
      tok_rate b * (real (now - tok_last b) / 10 ^ 9) + tok_rate b * (real (last (now # ts) - now) / 10 ^ 9)"
    using last upto by (simp add: of_nat_diff field_simps)
  moreover have "slack b' = slack b" using b'(2) by (simp add: slack_def)
  moreover have "real (length (now # ts)) * slack b = slack b + real (length ts) * slack b" by (simp add: algebra_simps)
  ultimately show ?case
    using IH b'(2,3,4) step
    by (simp add: case_prod_unfold del: times_divide_eq_right of_nat_diff)
qed

lemma window_bound:
  assumes "bucket_ok b" and "sorted (tok_last b # t # ts)"
  shows "real (fst (grants rnd (t # ts) b)) \<le>
    tok_rate b * (1 + real (last (t # ts) - t) / 10 ^ 9) + real (length (t # ts)) * slack b"
proof -
  obtain ok b' where step: "try_acquire rnd t b = (ok, b')" by (cases "try_acquire rnd t b")
  have last: "tok_last b \<le> t" using assms(2) by simp
  note b' = try_acquire_tokens [OF assms(1) last step] and first = first_acquire [OF assms(1) last step]
  have "sorted (tok_last b' # ts)" using assms(2) b'(3) by simp
  note rest = grants_bound [OF b'(1) this]
  have "slack b' = slack b" using b'(2) by (simp add: slack_def)
  moreover have "real (length (t # ts)) * slack b = slack b + real (length ts) * slack b" by (simp add: algebra_simps)
  moreover have "tok_rate b * (1 + x) = tok_rate b + tok_rate b * x" for x by (simp add: algebra_simps)
  ultimately show ?thesis
    using rest first b'(2,3) step
    by (simp add: case_prod_unfold del: times_divide_eq_right of_nat_diff)
qed

end

section \<open>How much the limiter grants\<close>

text \<open>The bucket of an address, created on its first request.\<close>

definition bucket_for :: "'ip \<Rightarrow> nat \<Rightarrow> 'ip sql_rate_limiter \<Rightarrow> token_bucket" where
  "bucket_for ip now L = (case rl_buckets L ip of Some b \<Rightarrow> b | None \<Rightarrow> new_bucket (rl_max_rps L) now)"

definition limiter_ok :: "nat \<Rightarrow> 'ip sql_rate_limiter \<Rightarrow> bool" where
  "limiter_ok now L \<longleftrightarrow> 1 \<le> unat (rl_max_rps L) \<and>
     (\<forall>b \<in> ran (rl_buckets L). bucket_ok b \<and> tok_rate b = real (unat (rl_max_rps L)) \<and> tok_last b \<le> now)"

lemma limiter_step:
  "limiter_try_acquire rnd now ip L =
     (case try_acquire rnd now (bucket_for ip now L) of (ok, b) \<Rightarrow> (ok, L\<lparr>rl_buckets := (rl_buckets L)(ip \<mapsto> b)\<rparr>))"
  by (simp add: limiter_try_acquire_def bucket_for_def sql_bucket_same)

lemma bucket_for_ok:
  assumes "limiter_ok now L" and "now \<le> t"
  shows "bucket_ok (bucket_for ip t L)" and "tok_rate (bucket_for ip t L) = real (unat (rl_max_rps L))"
    and "tok_last (bucket_for ip t L) \<le> t"
proof -
  have "unat (rl_max_rps L) \<le> 2 ^ 32"
    using unsigned_less [of "rl_max_rps L", where ?'a = nat] by (simp add: less_imp_le)
  then have "real (unat (rl_max_rps L)) \<le> real (2 ^ 32)" by (rule of_nat_mono)
  then have "real (unat (rl_max_rps L)) \<le> 2 ^ 32" by (simp only: of_nat_power of_nat_numeral)
  then show "bucket_ok (bucket_for ip t L)" and "tok_rate (bucket_for ip t L) = real (unat (rl_max_rps L))"
    and "tok_last (bucket_for ip t L) \<le> t"
    using assms
    by (auto simp: bucket_for_def limiter_ok_def ran_def new_bucket_def bucket_ok_def simp del: of_nat_unat
        split: option.splits)
qed

lemma serve_Cons:
  "fst (serve rnd ((now, ip) # rs) L) =
     fst (limiter_try_acquire rnd now ip L) # fst (serve rnd rs (snd (limiter_try_acquire rnd now ip L)))"
  "snd (serve rnd ((now, ip) # rs) L) = snd (serve rnd rs (snd (limiter_try_acquire rnd now ip L)))"
  by (simp_all add: case_prod_unfold)

lemma granted_Cons: "granted ip ((now, i) # rs) (ok # oks) = of_bool (i = ip \<and> ok) + granted ip rs oks"
  by (simp add: granted_def)

lemma requests_Cons: "requests_of ip ((now, i) # rs) = (if i = ip then [now] else []) @ requests_of ip rs"
  by (simp add: requests_of_def)

lemma grants_Cons:
  "fst (grants rnd (now # ts) b) = of_bool (fst (try_acquire rnd now b)) + fst (grants rnd ts (snd (try_acquire rnd now b)))"
  by (simp add: case_prod_unfold)

lemma limiter_parts:
  "fst (limiter_try_acquire rnd now ip L) = fst (try_acquire rnd now (bucket_for ip now L))"
  "snd (limiter_try_acquire rnd now ip L) =
     L\<lparr>rl_buckets := (rl_buckets L)(ip \<mapsto> snd (try_acquire rnd now (bucket_for ip now L)))\<rparr>"
  by (simp_all add: limiter_step case_prod_unfold)

lemmas serve_parts = serve_Cons granted_Cons requests_Cons grants_Cons limiter_parts

text \<open>What an address gets depends on its own requests only.\<close>

lemma serve_projects:
  "rl_buckets L ip = Some b \<Longrightarrow> granted ip rs (fst (serve rnd rs L)) = fst (grants rnd (requests_of ip rs) b)"
proof (induction rs arbitrary: L b)
  case Nil
  then show ?case by (simp add: granted_def requests_of_def)
next
  case (Cons r rs)
  obtain now i where r: "r = (now, i)" by (cases r)
  have "bucket_for ip now L = b" using Cons.prems by (simp add: bucket_for_def)
  then show ?case
    using Cons.IH Cons.prems
    by (cases "i = ip") (simp_all add: r serve_parts del: serve.simps grants.simps)
qed

lemma serve_first:
  assumes "requests_of ip rs = t # ts"
  shows "granted ip rs (fst (serve rnd rs L)) = fst (grants rnd (t # ts) (bucket_for ip t L))"
  using assms
proof (induction rs arbitrary: L)
  case Nil
  then show ?case by (simp add: requests_of_def)
next
  case (Cons r rs)
  obtain now i where r: "r = (now, i)" by (cases r)
  show ?case
  proof (cases "i = ip")
    case True
    then have "t = now" "requests_of ip rs = ts" using Cons.prems by (simp_all add: r requests_of_def)
    then show ?thesis
      using True by (simp add: r serve_parts serve_projects del: serve.simps grants.simps)
  next
    case False
    then have "requests_of ip rs = t # ts" using Cons.prems by (simp add: r requests_of_def)
    moreover have "bucket_for ip t (L\<lparr>rl_buckets := (rl_buckets L)(i \<mapsto> b)\<rparr>) = bucket_for ip t L" for b
      using False by (simp add: bucket_for_def split: option.splits)
    ultimately show ?thesis
      using False Cons.IH by (simp add: r serve_parts del: serve.simps grants.simps)
  qed
qed

context f64_rounding
begin

lemma serve_ok:
  assumes "limiter_ok now L" and "sorted (now # map fst rs)"
  shows "limiter_ok (last (now # map fst rs)) (snd (serve rnd rs L)) \<and> rl_max_rps (snd (serve rnd rs L)) = rl_max_rps L"
  using assms
proof (induction rs arbitrary: now L)
  case Nil
  then show ?case by simp
next
  case (Cons r rs)
  obtain t ip where r: "r = (t, ip)" by (cases r)
  have t: "now \<le> t" using Cons.prems(2) by (simp add: r)
  obtain ok b where step: "try_acquire rnd t (bucket_for ip t L) = (ok, b)"
    by (cases "try_acquire rnd t (bucket_for ip t L)")
  note b = try_acquire_tokens [OF bucket_for_ok(1,3) [OF Cons.prems(1) t] step]
    bucket_for_ok(2) [OF Cons.prems(1) t, of ip]
  let ?L = "L\<lparr>rl_buckets := (rl_buckets L)(ip \<mapsto> b)\<rparr>"
  have "limiter_ok t ?L"
    using Cons.prems(1) t b by (auto simp: limiter_ok_def ran_def split: if_splits)
  moreover have "sorted (t # map fst rs)" using Cons.prems(2) by (simp add: r)
  ultimately show ?case using Cons.IH [of t ?L] by (simp add: r serve_parts step del: serve.simps)
qed

lemma window_of_requests:
  assumes "limiter_ok now L" and "sorted (now # map fst rs)" and "requests_of ip rs = t # ts"
  shows "real (granted ip rs (fst (serve rnd rs L))) \<le>
    real (unat (rl_max_rps L)) * (1 + real (last (t # ts) - t) / 10 ^ 9 + 20 * eps * real (length (t # ts)))"
proof -
  have sub: "sorted (t # ts)" "t \<in> set (map fst rs)"
    using sorted_filter [of fst rs "\<lambda>(now, i). i = ip"] assms(2,3) list.set_intros(1) [of t ts]
    by (auto simp: requests_of_def simp flip: assms(3))
  have "now \<le> t" using assms(2) sub(2) by auto
  note b = bucket_for_ok [OF assms(1) this, of ip]
  have "sorted (tok_last (bucket_for ip t L) # t # ts)" using b(3) sub(1) by auto
  note bound = window_bound [OF b(1) this]
  show ?thesis
    using bound unfolding serve_first [OF assms(3)] b(2) slack_def by (simp add: algebra_simps)
qed

end

text \<open>
  Property C30. The limiter of the SQL endpoint keeps to its rate in every period: of the
  requests that one client sends between two moments, however they are mixed with those of
  other clients and whatever went before, no more are granted than the rate times the length
  of the period in seconds plus one, up to rounding errors of less than \<open>2^-48\<close> of the
  rate per request.
\<close>

theorem sql_requests_bounded:
  fixes rnd :: rounding
  assumes "f64_rounding rnd" and "0 < unat max_rps" and "sorted (map fst (earlier @ period))"
    and "requests_of ip period = t # ts"
  shows "real (granted ip period (fst (serve rnd period (snd (serve rnd earlier (new_limiter max_rps)))))) \<le>
    real (unat max_rps) * (1 + real (last (t # ts) - t) / 10 ^ 9 + 20 * eps * real (length (t # ts)))"
proof -
  let ?L = "snd (serve rnd earlier (new_limiter max_rps))" and ?now = "last (0 # map fst earlier)"
  have "limiter_ok 0 (new_limiter max_rps)" using assms(2) by (simp add: limiter_ok_def new_limiter_def)
  moreover have "sorted (0 # map fst earlier)" using assms(3) by (simp add: sorted_append)
  ultimately have L: "limiter_ok ?now ?L" "rl_max_rps ?L = max_rps"
    using f64_rounding.serve_ok [OF assms(1)] by (fastforce simp: new_limiter_def)+
  have "sorted (?now # map fst period)"
    using assms(3) by (cases earlier rule: rev_cases) (auto simp: sorted_append)
  then show ?thesis using f64_rounding.window_of_requests [OF assms(1) L(1) _ assms(4)] L(2) by simp
qed

text \<open>Three requests of one client at the same moment, with a limit of two per second.\<close>

theorem sql_requests_bounded_witness:
  "real (granted (7 :: nat) [(5, 7), (5, 8), (5, 7), (5, 7)]
     (fst (serve round53 [(5, 7 :: nat), (5, 8), (5, 7), (5, 7)] (snd (serve round53 [(1, 7)] (new_limiter 2)))))) \<le>
     2 * (1 + 0 + 20 * eps * 3)"
  using sql_requests_bounded [OF binary64.f64_rounding_axioms, of 2 "[(1, 7 :: nat)]" "[(5, 7), (5, 8), (5, 7), (5, 7)]"
      7 5 "[5, 5]"]
  by (simp add: requests_of_def del: serve.simps)

text \<open>
  A limit of zero requests per second makes the limiter of the RPC client panic: the waiting
  time is a division by zero.
\<close>

lemma zero_rate_panics:
  assumes "acquire rnd ((now1, now2) # clock) (new_bucket 0 start) = Some (r, b)"
  shows "\<exists>m. r = Inl (Panic m)"
  using assms
  by (auto simp: try_acquire_def time_until_available_def refill_def new_bucket_def Let_def min_def split: if_splits)

end
