(* ===== verification/Backoff.thy ===== *)
theory Backoff
  imports Rpc_Client Rate_Limiter Dedup
begin

text \<open>
  The waiting times of the retry policy (\<open>forge-index-rpc/src/retry.rs\<close>): the jitter of a
  delay and the list of delays that \<open>with_retry\<close> draws up. Durations are nanoseconds; the
  strategy of the retry library is an argument.
\<close>

section \<open>Delays\<close>

definition BASE_DELAY_MS :: nat where "BASE_DELAY_MS = 1000"

definition MAX_DELAY :: nat where "MAX_DELAY = 30 * 10 ^ 9"

text \<open>\<open>Duration::mul_f64\<close>\<close>

definition mul_f64 :: "rounding \<Rightarrow> nat \<Rightarrow> real \<Rightarrow> nat" where
  "mul_f64 rnd d factor = from_secs_f64 (rnd (factor * as_secs_f64 rnd d))"

text \<open>\<open>nanos\<close> are the nanoseconds of the current second on the clock.\<close>

definition jitter_factor :: "rounding \<Rightarrow> nat \<Rightarrow> real" where
  "jitter_factor rnd nanos = rnd (rnd 0.9 + rnd (rnd (real nanos / (2 ^ 32 - 1)) * rnd 0.2))"

definition add_jitter :: "rounding \<Rightarrow> nat \<Rightarrow> nat \<Rightarrow> nat" where
  "add_jitter rnd nanos d = mul_f64 rnd d (jitter_factor rnd nanos)"

text \<open>
  The delays, all drawn up before the first attempt. \<open>backoff base factor max n\<close> is the delay
  number \<open>n\<close> of the strategy, in nanoseconds; \<open>clock n\<close> the reading for its jitter.
\<close>

definition retry_delays :: "rounding \<Rightarrow> (nat \<Rightarrow> nat \<Rightarrow> nat \<Rightarrow> nat \<Rightarrow> nat) \<Rightarrow> (nat \<Rightarrow> nat) \<Rightarrow> nat list" where
  "retry_delays rnd backoff clock =
     map (\<lambda>n. add_jitter rnd (clock n) (backoff BASE_DELAY_MS 2 MAX_DELAY n)) [0..<max_retries]"

text \<open>
  As the library documents it: the base, in milliseconds, to the power of the number of past
  attempts, times the factor, at most the maximum.
\<close>

definition exponential :: "(nat \<Rightarrow> nat \<Rightarrow> nat \<Rightarrow> nat \<Rightarrow> nat) \<Rightarrow> bool" where
  "exponential backoff \<longleftrightarrow>
     (\<forall>base factor cap n. backoff base factor cap n = min (factor * base ^ Suc n * 10 ^ 6) cap)"

section \<open>Jitter\<close>

lemma product_low:
  assumes "0 \<le> e" and "0 \<le> x" and "x \<le> (30 :: real)"
  shows "0.9 * x - 4 * e * 30 - 64 * e \<le> (0.9 - 4 * e) * (x - 64 * e)"
proof -
  have "4 * e * x \<le> 4 * e * 30" using assms by (intro mult_left_mono) auto
  moreover have "0 \<le> e * e" by simp
  moreover have "(0.9 - 4 * e) * (x - 64 * e) = 0.9 * x - 57.6 * e - 4 * e * x + 256 * (e * e)"
    by (simp add: algebra_simps)
  ultimately show ?thesis using assms(1) by linarith
qed

context f64_rounding
begin

lemma rnd_near: "\<bar>x\<bar> \<le> c \<Longrightarrow> 1 \<le> c \<Longrightarrow> \<bar>rnd x - x\<bar> \<le> eps * c"
proof -
  assume "\<bar>x\<bar> \<le> c" "1 \<le> c"
  then have "eps * max 1 \<bar>x\<bar> \<le> eps * c" by (intro mult_left_mono) (auto simp: eps_def)
  then show ?thesis using rnd_error [of x] by linarith
qed

lemma as_secs_near:
  assumes "real ns / 10 ^ 9 \<le> 30"
  shows "\<bar>as_secs_f64 rnd ns - real ns / 10 ^ 9\<bar> \<le> 64 * eps"
proof -
  let ?s = "real (ns div 10 ^ 9)" and ?f = "real (ns mod 10 ^ 9) / 10 ^ 9"
  have e: "0 \<le> eps" "eps \<le> 1 / 64" by (simp_all add: eps_def)
  have "ns = ns div 10 ^ 9 * 10 ^ 9 + ns mod 10 ^ 9" by simp
  then have "real ns = real (ns div 10 ^ 9 * 10 ^ 9 + ns mod 10 ^ 9)" by (rule arg_cong)
  also have "\<dots> = real (ns div 10 ^ 9) * 10 ^ 9 + real (ns mod 10 ^ 9)"
    by (simp only: of_nat_add of_nat_mult of_nat_power of_nat_numeral)
  finally have sum: "?s + ?f = real ns / 10 ^ 9" by (simp add: add_divide_distrib)
  have "ns mod 10 ^ 9 < 10 ^ 9" by simp
  then have "real (ns mod 10 ^ 9) < 10 ^ 9" by (metis of_nat_less_iff of_nat_numeral of_nat_power)
  then have s: "0 \<le> ?s" "?s \<le> 30" "0 \<le> ?f" "?f \<le> 1" using assms sum by simp_all
  have "\<bar>rnd ?s - ?s\<bar> \<le> eps * 30" "\<bar>rnd ?f - ?f\<bar> \<le> eps * 1" using s by (intro rnd_near; simp)+
  moreover from this have "\<bar>rnd (rnd ?s + rnd ?f) - (rnd ?s + rnd ?f)\<bar> \<le> eps * 32"
    using s assms sum e by (intro rnd_near) (simp_all add: abs_le_iff)
  ultimately show ?thesis using sum by (simp add: as_secs_f64_def abs_le_iff)
qed

text \<open>
  The factor lies between 0.9 and 0.947, up to rounding: the nanoseconds of a second are
  divided by the largest 32-bit number, which is more than four seconds.
\<close>

lemma jitter_factor_bounds:
  assumes "nanos < 10 ^ 9"
  shows "0.9 - 4 * eps \<le> jitter_factor rnd nanos" and "jitter_factor rnd nanos \<le> 0.94664"
proof -
  let ?x = "real nanos / (2 ^ 32 - 1)"
  have e: "0 \<le> eps" "eps \<le> 1 / 10 ^ 6" by (simp_all add: eps_def)
  have "real nanos < 10 ^ 9" using assms by (metis of_nat_less_iff of_nat_numeral of_nat_power)
  then have x: "0 \<le> ?x" "?x \<le> 0.2329" by (simp_all add: field_simps)
  have a: "\<bar>rnd ?x - ?x\<bar> \<le> eps * 1" "\<bar>rnd 0.2 - 0.2\<bar> \<le> eps * 1" "\<bar>rnd 0.9 - 0.9\<bar> \<le> eps * 1"
    using x by (intro rnd_near; simp)+
  have "rnd ?x * rnd 0.2 \<le> 0.232902 * 0.200002"
    using a x e by (intro mult_mono) (auto simp: abs_le_iff intro: rnd_nonneg)
  then have p: "0 \<le> rnd ?x * rnd 0.2" "rnd ?x * rnd 0.2 \<le> 0.046582"
    using x rnd_nonneg [of ?x] rnd_nonneg [of "0.2"] by (auto intro: mult_nonneg_nonneg)
  then have b: "0 \<le> rnd (rnd ?x * rnd 0.2)" "rnd (rnd ?x * rnd 0.2) \<le> 0.046583"
    using rnd_near [of "rnd ?x * rnd 0.2" 1] rnd_nonneg e by (simp_all add: abs_le_iff)
  have "\<bar>jitter_factor rnd nanos - (rnd 0.9 + rnd (rnd ?x * rnd 0.2))\<bar> \<le> eps * 1"
    unfolding jitter_factor_def using a b e by (intro rnd_near) (simp_all add: abs_le_iff)
  then show "0.9 - 4 * eps \<le> jitter_factor rnd nanos" "jitter_factor rnd nanos \<le> 0.94664"
    using a b e by (simp_all add: abs_le_iff)
qed

lemma from_secs_near:
  assumes "0 \<le> x"
  shows "\<bar>real (from_secs_f64 x) - x * 10 ^ 9\<bar> \<le> 1 / 2"
proof -
  have "0 \<le> \<lfloor>x * 10 ^ 9 + 1 / 2\<rfloor>" using assms by simp
  then have "real (from_secs_f64 x) = of_int \<lfloor>x * 10 ^ 9 + 1 / 2\<rfloor>" unfolding from_secs_f64_def by (simp only: of_nat_nat)
  moreover have "of_int \<lfloor>x * 10 ^ 9 + 1 / 2\<rfloor> \<le> x * 10 ^ 9 + 1 / 2" "x * 10 ^ 9 + 1 / 2 < of_int \<lfloor>x * 10 ^ 9 + 1 / 2\<rfloor> + 1"
    by linarith+
  ultimately show ?thesis by linarith
qed

lemma add_jitter_bounds:
  assumes "nanos < 10 ^ 9" and "10 ^ 6 \<le> d" and "d \<le> MAX_DELAY"
  shows "0.9 * real d - 1 \<le> real (add_jitter rnd nanos d)" and "real (add_jitter rnd nanos d) \<le> 0.947 * real d"
proof -
  let ?f = "jitter_factor rnd nanos" and ?a = "as_secs_f64 rnd d" and ?S = "real d / 10 ^ 9"
  have e: "0 \<le> eps" "eps \<le> 1 / 10 ^ 15" by (simp_all add: eps_def)
  have d: "10 ^ 6 \<le> real d" "real d \<le> 30 * 10 ^ 9" using assms(2,3) by (simp_all add: MAX_DELAY_def)
  then have S: "0.001 \<le> ?S" "?S \<le> 30" by (simp_all add: field_simps)
  have f: "0.9 - 4 * eps \<le> ?f" "?f \<le> 0.94664" using jitter_factor_bounds [OF assms(1)] by blast+
  have a: "?S - 64 * eps \<le> ?a" "?a \<le> ?S + 64 * eps"
    using as_secs_near [OF S(2)] by (simp_all add: abs_le_iff)
  have up: "?f * ?a \<le> 0.94664 * (?S + 64 * eps)" using f a S e by (intro mult_mono) auto
  have "(0.9 - 4 * eps) * (?S - 64 * eps) \<le> ?f * ?a" using f a S e by (intro mult_mono) auto
  moreover have "0.9 * ?S - 4 * eps * 30 - 64 * eps \<le> (0.9 - 4 * eps) * (?S - 64 * eps)"
    using product_low [of eps ?S] S e by simp
  ultimately have low: "0.9 * ?S - 184 * eps \<le> ?f * ?a" by simp
  have range: "0 \<le> ?f * ?a" "?f * ?a \<le> 30" using low up S e by simp_all
  let ?r = "rnd (?f * ?a)"
  have r: "\<bar>?r - ?f * ?a\<bar> \<le> eps * 30" "0 \<le> ?r" using range rnd_near rnd_nonneg by (simp_all add: abs_le_iff)
  have "?r \<le> 0.94664 * ?S + 91 * eps" "0.9 * ?S - 214 * eps \<le> ?r" using r up low e by (simp_all add: abs_le_iff)
  then have "?r * 10 ^ 9 \<le> 0.94664 * real d + 91 * eps * 10 ^ 9" "0.9 * real d - 214 * eps * 10 ^ 9 \<le> ?r * 10 ^ 9"
    by (simp_all add: field_simps)
  moreover have "real (from_secs_f64 ?r) \<le> ?r * 10 ^ 9 + 1 / 2" "?r * 10 ^ 9 \<le> real (from_secs_f64 ?r) + 1 / 2"
    using from_secs_near [OF r(2)] by linarith+
  ultimately show "0.9 * real d - 1 \<le> real (add_jitter rnd nanos d)" "real (add_jitter rnd nanos d) \<le> 0.947 * real d"
    using d e unfolding add_jitter_def mul_f64_def by simp_all
qed

end

section \<open>How long a call waits\<close>

text \<open>
  With a base of 1000 the powers grow by a factor of thousand: after the first delay of two
  seconds every delay is the maximum.
\<close>

lemma backoff_delays:
  assumes "exponential backoff"
  shows "map (backoff BASE_DELAY_MS 2 MAX_DELAY) [0..<max_retries] = [2 * 10 ^ 9, MAX_DELAY, MAX_DELAY, MAX_DELAY]"
  using assms by (simp add: exponential_def BASE_DELAY_MS_def MAX_DELAY_def max_retries_def upt_rec)

text \<open>
  The jitter only ever shortens a delay, by five to ten percent, and the four delays of a call
  that keeps failing take 82 to 88 seconds together; the first three alone take longer than
  the 30 seconds after which other tasks evict the entry of the request in the deduplication.
\<close>

lemma retry_waits:
  assumes "f64_rounding rnd" and "exponential backoff" and "\<And>n. clock n < 10 ^ 9"
  shows "\<exists>a b c d. retry_delays rnd backoff clock = [a, b, c, d] \<and>
    a \<in> {1799999999..1894000000} \<and> {b, c, d} \<subseteq> {26999999999..28410000000} \<and>
    sum_list [a, b, c, d] < 88 * 10 ^ 9 \<and> dedup_timeout < a + b + c"
proof -
  let ?j = "\<lambda>n d. add_jitter rnd (clock n) d"
  have list: "retry_delays rnd backoff clock = [?j 0 (2 * 10 ^ 9), ?j 1 MAX_DELAY, ?j 2 MAX_DELAY, ?j 3 MAX_DELAY]"
    using backoff_delays [OF assms(2)] by (simp add: retry_delays_def max_retries_def upt_rec numeral_2_eq_2 numeral_3_eq_3)
  have small: "?j n (2 * 10 ^ 9) \<in> {1799999999..1894000000}" for n
    using f64_rounding.add_jitter_bounds [OF assms(1,3), of "2 * 10 ^ 9" n] by (simp add: MAX_DELAY_def)
  have big: "?j n MAX_DELAY \<in> {26999999999..28410000000}" for n
    using f64_rounding.add_jitter_bounds [OF assms(1,3), of MAX_DELAY n] by (simp add: MAX_DELAY_def)
  have "sum_list [?j 0 (2 * 10 ^ 9), ?j 1 MAX_DELAY, ?j 2 MAX_DELAY, ?j 3 MAX_DELAY] < 88 * 10 ^ 9"
    "dedup_timeout < ?j 0 (2 * 10 ^ 9) + ?j 1 MAX_DELAY + ?j 2 MAX_DELAY"
    using small [of 0] big [of 1] big [of 2] big [of 3] by (simp_all add: dedup_timeout_def)
  then show ?thesis using list small [of 0] big [of 1] big [of 2] big [of 3] by blast
qed

text \<open>The strategy as documented is one, and the rounding of 53 bits keeps its laws.\<close>

lemma retry_waits_binary64:
  "\<exists>a b c d. retry_delays round53 (\<lambda>base factor cap n. min (factor * base ^ Suc n * 10 ^ 6) cap) (\<lambda>_. 0) = [a, b, c, d] \<and>
    dedup_timeout < a + b + c"
  using retry_waits [OF binary64.f64_rounding_axioms, of "\<lambda>base factor cap n. min (factor * base ^ Suc n * 10 ^ 6) cap" "\<lambda>_. 0"]
  by (auto simp: exponential_def)

end
