(* ===== verification/Abi_Roundtrip.thy ===== *)
theory Abi_Roundtrip
  imports Abi_Decoder
begin

text \<open>
  The decoder against the Solidity ABI specification: an encoder of event logs, written
  from the specification, for the elementary types, \<open>bytes\<close> and \<open>string\<close>; the theorem that
  decoding an encoded log gives back the values; and the inputs on which the decoder fails.
\<close>

section \<open>Big-endian numbers\<close>

fun be_bytes :: "nat \<Rightarrow> nat \<Rightarrow> bytes" where
  "be_bytes 0 n = []"
| "be_bytes (Suc k) n = be_bytes k (n div 256) @ [of_nat (n mod 256)]"

declare be_bytes.simps [simp del]

lemma length_be_bytes [simp]: "length (be_bytes k n) = k"
  by (induction k arbitrary: n) (auto simp: be_bytes.simps)

lemma be_val_be_bytes: "be_val (be_bytes k n) = n mod 256 ^ k"
proof (induction k arbitrary: n)
  case 0
  then show ?case by (simp add: be_bytes.simps)
next
  case (Suc k)
  have "unat (of_nat (n mod 256) :: u8) = n mod 256" by (simp add: unat_of_nat)
  with Suc show ?case by (simp add: be_bytes.simps be_val_snoc mod_mult2_eq [of n 256 "256 ^ k"])
qed

lemma be_val_drop:
  assumes "length bs = m + k"
  shows "be_val (drop m bs) = be_val bs mod 256 ^ k"
proof -
  have "be_val bs = be_val (take m bs) * 256 ^ k + be_val (drop m bs)"
    using be_val_append [of "take m bs" "drop m bs"] assms by simp
  moreover have "be_val (drop m bs) < 256 ^ k"
    using be_val_less [of "drop m bs"] assms by simp
  ultimately show ?thesis by simp
qed

lemma be_val_0_iff: "be_val bs = 0 \<longleftrightarrow> (\<forall>b \<in> set bs. b = 0)"
  by (induction bs rule: rev_induct) (auto simp: be_val_snoc unat_eq_0)

abbreviation word32 :: "nat \<Rightarrow> bytes" where "word32 \<equiv> be_bytes 32"

lemma low_half: "be_val (take 16 (drop 16 (word32 n))) = n mod 2 ^ 128"
proof -
  have p: "(256 :: nat) ^ 16 = 2 ^ 128" "(256 :: nat) ^ 32 = 2 ^ 256" by simp_all
  have "take 16 (drop 16 (word32 n)) = drop 16 (word32 n)" by simp
  then have "be_val (take 16 (drop 16 (word32 n))) = n mod 2 ^ 256 mod 2 ^ 128"
    using be_val_drop [of "word32 n" 16 16] unfolding be_val_be_bytes p by simp
  also have "\<dots> = n mod 2 ^ 128" by (rule mod_mod_cancel) (rule le_imp_power_dvd, simp)
  finally show ?thesis .
qed

lemma whole_word: "be_val (word32 n) = n mod 2 ^ 256"
  by (simp add: be_val_be_bytes)

section \<open>The encoder of the specification\<close>

datatype sol_value =
    V_Uint nat
  | V_Int int
  | V_Address bytes
  | V_Bool bool
  | V_FixedBytes bytes
  | V_Bytes bytes
  | V_String string

definition int_word :: "int \<Rightarrow> nat" where "int_word i = nat (i mod 2 ^ 256)"

fun enc_word :: "sol_value \<Rightarrow> bytes" where
  "enc_word (V_Uint n) = word32 n"
| "enc_word (V_Int i) = word32 (int_word i)"
| "enc_word (V_Address a) = replicate 12 0 @ a"
| "enc_word (V_Bool b) = word32 (if b then 1 else 0)"
| "enc_word (V_FixedBytes bs) = bs @ replicate (32 - length bs) 0"
| "enc_word _ = []"

definition padding :: "nat \<Rightarrow> nat" where "padding n = (32 - n mod 32) mod 32"

definition enc_bytes :: "bytes \<Rightarrow> bytes" where
  "enc_bytes bs = word32 (length bs) @ bs @ replicate (padding (length bs)) 0"

text \<open>The heads and the tails of a list of values; \<open>off\<close> is the offset of the next tail.\<close>

fun enc :: "nat \<Rightarrow> sol_value list \<Rightarrow> bytes \<times> bytes" where
  "enc off [] = ([], [])"
| "enc off (v # vs) =
     (case v of
        V_Bytes bs \<Rightarrow> (let t = enc_bytes bs; (h, ts) = enc (off + length t) vs in (word32 off @ h, t @ ts))
      | V_String s \<Rightarrow>
          (let t = enc_bytes (str_bytes s); (h, ts) = enc (off + length t) vs in (word32 off @ h, t @ ts))
      | _ \<Rightarrow> (let (h, ts) = enc off vs in (enc_word v @ h, ts)))"

definition abi_encode :: "sol_value list \<Rightarrow> bytes" where
  "abi_encode vs = (let (h, t) = enc (32 * length vs) vs in h @ t)"

text \<open>The values of a type, and what the decoder is to make of them.\<close>

fun has_type :: "abi_type \<Rightarrow> sol_value \<Rightarrow> bool" where
  "has_type (T_Uint bits) (V_Uint n) \<longleftrightarrow> bits \<le> 256 \<and> n < 2 ^ bits"
| "has_type (T_Int bits) (V_Int i) \<longleftrightarrow>
     0 < bits \<and> bits \<le> 256 \<and> - (2 ^ (bits - 1)) \<le> i \<and> i < 2 ^ (bits - 1)"
| "has_type T_Address (V_Address a) \<longleftrightarrow> length a = 20"
| "has_type T_Bool (V_Bool b) \<longleftrightarrow> True"
| "has_type (T_FixedBytes n) (V_FixedBytes bs) \<longleftrightarrow> n \<le> 32 \<and> length bs = n"
| "has_type T_Bytes (V_Bytes bs) \<longleftrightarrow> True"
| "has_type T_String (V_String s) \<longleftrightarrow> from_utf8_lossy (str_bytes s) = str_bytes s"
| "has_type _ _ \<longleftrightarrow> False"

fun expected :: "abi_type \<Rightarrow> sol_value \<Rightarrow> decoded_param" where
  "expected (T_Uint bits) (V_Uint n) = (if bits \<le> 128 then D_Uint (of_nat n) else D_Uint256 (nat_str n))"
| "expected (T_Int bits) (V_Int i) = (if bits \<le> 128 then D_Int i else D_Int256 (int_str i))"
| "expected _ (V_Address a) = D_Address (Address a)"
| "expected _ (V_Bool b) = D_Bool b"
| "expected _ (V_FixedBytes bs) = D_FixedBytes bs"
| "expected _ (V_Bytes bs) = D_Bytes bs"
| "expected _ (V_String s) = D_String s"
| "expected _ _ = D_Bool False"

text \<open>All but negative values of \<open>int128\<close>, on which the decoder panics.\<close>

fun decodable :: "abi_type \<Rightarrow> sol_value \<Rightarrow> bool" where
  "decodable (T_Int bits) (V_Int i) \<longleftrightarrow> \<not> (bits = 128 \<and> i < 0)"
| "decodable _ _ \<longleftrightarrow> True"

section \<open>Elementary values\<close>

lemma word_of_int_word: "of_nat (int_word i mod 2 ^ 128) = (word_of_int i :: u128)"
proof -
  have "int (int_word i mod 2 ^ 128) = i mod 2 ^ 256 mod 2 ^ 128"
    by (simp add: int_word_def zmod_int)
  also have "\<dots> = i mod 2 ^ 128"
    by (rule mod_mod_cancel) (rule le_imp_power_dvd, simp)
  finally have eq: "int (int_word i mod 2 ^ 128) = i mod 2 ^ 128" .
  have "(of_nat (int_word i mod 2 ^ 128) :: u128) = word_of_int (int (int_word i mod 2 ^ 128))"
    by simp
  also have "\<dots> = word_of_int i"
    unfolding eq by (simp add: word_of_int_eq_iff take_bit_eq_mod)
  finally show ?thesis .
qed

lemma raw_int:
  "(of_nat (be_val (take 16 (drop 16 (word32 (int_word i))))) :: u128) = word_of_int i"
  by (simp only: low_half word_of_int_word)

lemma int_range_bit:
  assumes "0 < bits" and "- (2 ^ (bits - 1)) \<le> i" and "(i :: int) < 2 ^ (bits - 1)"
  shows "bits - 1 \<le> k \<Longrightarrow> bit i k \<longleftrightarrow> i < 0"
proof -
  assume k: "bits - 1 \<le> k"
  have "(2 :: int) ^ (bits - 1) \<le> 2 ^ k" using k by (intro power_increasing) auto
  then have "- (2 ^ k) \<le> i" "i < 2 ^ k" using assms(2,3) by linarith+
  then have "signed_take_bit k i = i" by (rule signed_take_bit_int_eq_self)
  then show ?thesis using signed_take_bit_negative_iff [of k i] by simp
qed

lemma and_push_bit_1: "(w :: 'a::len word) AND push_bit n 1 = 0 \<longleftrightarrow> \<not> bit w n"
  by (simp add: and_exp_eq_0_iff_not_bit)

lemma sint_word_of_int:
  assumes "- (2 ^ 127) \<le> i" and "i < 2 ^ 127"
  shows "sint (word_of_int i :: u128) = i"
  using assms by (simp add: sint_sbintrunc' signed_take_bit_int_eq_self)

lemma decode_int_small:
  assumes "0 < bits" and "bits \<le> 128" and "- (2 ^ (bits - 1)) \<le> i" and "i < 2 ^ (bits - 1)"
  shows "decode_int (word32 (int_word i)) bits =
           (if bits = 128 \<and> i < 0 then Inl (overflow ''shift left'') else Inr (D_Int i))"
proof -
  let ?raw = "word_of_int i :: u128"
  have sgn: "bit i k \<longleftrightarrow> i < 0" if "bits - 1 \<le> k" for k
    by (rule int_range_bit [OF assms(1,3,4) that])
  have neg: "?raw AND push_bit (bits - 1) 1 = 0 \<longleftrightarrow> \<not> i < 0"
    using sgn [of "bits - 1"] assms(1,2) by (simp only: and_push_bit_1 bit_word_of_int_iff) auto
  have ext: "?raw OR push_bit bits (NOT 0) = ?raw" if "i < 0"
    by (rule bit_word_eqI) (use sgn that in \<open>auto simp: bit_or_iff bit_push_bit_iff bit_not_iff bit_word_of_int_iff bit_mask_iff\<close>)
  have "(2 :: int) ^ (bits - 1) \<le> 2 ^ 127" using assms(2) by (intro power_increasing) auto
  then have sint: "sint ?raw = i" using assms(3,4) by (intro sint_word_of_int) auto
  show ?thesis
    using assms(1,2) neg ext sint unfolding decode_int_def raw_int Let_def by (cases "i < 0") auto
qed

lemma int_word_cases:
  assumes "- (2 ^ 255) \<le> i" and "i < 2 ^ 255"
  shows "int (int_word i) = (if i < 0 then 2 ^ 256 + i else i)"
proof -
  have "i mod 2 ^ 256 = (if i < 0 then 2 ^ 256 + i else i)"
  proof (cases "i < 0")
    case True
    have "(2 ^ 256 + i) mod 2 ^ 256 = 2 ^ 256 + i" using assms True by (intro mod_pos_pos_trivial) auto
    with True show ?thesis by simp
  qed (use assms in auto)
  moreover have "int (int_word i) = i mod 2 ^ 256" by (simp add: int_word_def)
  ultimately show ?thesis by metis
qed

lemma hd_word: "length bs = Suc k \<Longrightarrow> unat (hd bs) = be_val bs div 256 ^ k"
proof -
  assume len: "length bs = Suc k"
  then obtain b cs where bs: "bs = [b] @ cs" by (cases bs) auto
  with len have "be_val bs = unat b * 256 ^ k + be_val cs"
    using be_val_append [of "[b]" cs] be_val_snoc [of "[]" b] by simp
  with be_val_less [of cs] len bs show ?thesis by simp
qed

lemma top_bit: "(b :: u8) AND 0x80 = 0 \<longleftrightarrow> unat b < 128"
proof -
  have "b AND 0x80 = 0 \<longleftrightarrow> \<not> bit b 7" using and_push_bit_1 [of b 7] by simp
  also have "\<dots> \<longleftrightarrow> even (unat b div 128)"
    using bit_unsigned_iff [of b 7, where ?'a = nat] by (simp add: bit_iff_odd)
  also have "\<dots> \<longleftrightarrow> unat b < 128"
  proof (cases "unat b < 128")
    case False
    moreover have "unat b < 256" using unsigned_less [of b, where ?'a = nat] by simp
    ultimately have "unat b div 128 = 1" by auto
    then show ?thesis using False by simp
  qed simp
  finally show ?thesis .
qed

lemma decode_int_big:
  assumes "128 < bits" and "bits \<le> 256" and "- (2 ^ (bits - 1)) \<le> i" and "i < 2 ^ (bits - 1)"
  shows "decode_int (word32 (int_word i)) bits = Inr (D_Int256 (int_str i))"
proof -
  have "(2 :: int) ^ (bits - 1) \<le> 2 ^ 255" using assms(2) by (intro power_increasing) auto
  then have range: "- (2 ^ 255) \<le> i" "i < 2 ^ 255" using assms(3,4) by linarith+
  note n = int_word_cases [OF range]
  have below: "int_word i < 2 ^ 256" by (simp add: int_word_def nat_less_iff)
  have val: "be_val (word32 (int_word i)) = int_word i"
    unfolding whole_word by (rule mod_less [OF below])
  have "unat (hd (word32 (int_word i))) = be_val (word32 (int_word i)) div 256 ^ 31"
    by (rule hd_word) simp
  then have "hd (word32 (int_word i)) AND 0x80 = 0 \<longleftrightarrow> int_word i div 256 ^ 31 < 128"
    by (simp only: top_bit val)
  also have "\<dots> \<longleftrightarrow> int_word i < 128 * 256 ^ 31"
    by (rule div_less_iff_less_mult) simp
  also have "(128 :: nat) * 256 ^ 31 = 2 ^ 255" by simp
  also have "int_word i < 2 ^ 255 \<longleftrightarrow> int (int_word i) < 2 ^ 255"
    by (metis of_nat_less_iff of_nat_numeral of_nat_power)
  also have "\<dots> \<longleftrightarrow> \<not> i < 0" using n range by (cases "i < 0") auto
  finally have neg: "hd (word32 (int_word i)) AND 0x80 = 0 \<longleftrightarrow> \<not> i < 0" .
  have "unat (NOT (of_nat (int_word i)) + 1 :: 256 word) = nat (- i)" if "i < 0"
  proof -
    have "(of_nat (int_word i) :: 256 word) = word_of_int (int (int_word i))" by simp
    also have "\<dots> = word_of_int (2 ^ 256 + i)" using n that by (simp only: if_True)
    also have "\<dots> = word_of_int i" by (simp add: word_of_int_eq_iff take_bit_eq_mod)
    finally have "NOT (of_nat (int_word i)) + 1 = (word_of_int (- i) :: 256 word)"
      by (simp add: not_eq_complement)
    moreover have "uint (word_of_int (- i) :: 256 word) = - i"
    proof -
      have "- i mod 2 ^ 256 = - i" using range that by (intro mod_pos_pos_trivial) auto
      then show ?thesis by (simp only: uint_word_of_int) simp
    qed
    ultimately show ?thesis by (simp add: unat_eq_nat_uint)
  qed
  moreover have "nat i = int_word i" if "\<not> i < 0" using n that by simp
  ultimately show ?thesis
    using neg assms(1)
    by (cases "i < 0")
      (simp_all add: decode_int_def twos_complement_256_str_def u256_from_be_bytes_def val int_str_def)
qed

fun elementary :: "abi_type \<Rightarrow> bool" where
  "elementary T_Bytes = False"
| "elementary T_String = False"
| "elementary (T_Array _) = False"
| "elementary (T_FixedArray _ _) = False"
| "elementary (T_Tuple _) = False"
| "elementary _ = True"

lemma enc_word_length: "has_type t v \<Longrightarrow> elementary t \<Longrightarrow> length (enc_word v) = 32"
  by (cases "(t, v)" rule: has_type.cases) auto

lemma decode_uint_enc:
  assumes "bits \<le> 256" and "n < 2 ^ bits"
  shows "decode_uint (word32 n) bits = expected (T_Uint bits) (V_Uint n)"
proof (cases "bits \<le> 128")
  case True
  then have "(2 :: nat) ^ bits \<le> 2 ^ 128" by (intro power_increasing) auto
  then have "n < 2 ^ 128" using assms(2) by linarith
  then have "be_val (take 16 (drop 16 (word32 n))) = n" unfolding low_half by (rule mod_less)
  with True show ?thesis by (simp add: decode_uint_def)
next
  case False
  have "(2 :: nat) ^ bits \<le> 2 ^ 256" using assms(1) by (intro power_increasing) auto
  then have "n < 2 ^ 256" using assms(2) by linarith
  then have "be_val (word32 n) = n" unfolding whole_word by (rule mod_less)
  with False show ?thesis by (simp add: decode_uint_def u256_from_be_bytes_def)
qed

lemma bool_slot: "word32 (if b then 1 else 0) ! 31 \<noteq> 0 \<longleftrightarrow> b"
proof -
  have "be_bytes (Suc 31) m ! 31 = of_nat (m mod 256)" for m
    by (subst be_bytes.simps(2)) (simp add: nth_append)
  then have "word32 m ! 31 = of_nat (m mod 256)" for m by simp
  then show ?thesis by simp
qed

lemma decode_elementary_enc:
  assumes "has_type t v" and "elementary t" and "decodable t v"
  shows "decode_elementary t (enc_word v) = Inr (expected t v)"
  using assms
proof (cases "(t, v)" rule: has_type.cases)
  case (2 bits i)
  then show ?thesis
    using assms by (cases "bits \<le> 128")
      (auto simp: decode_elementary_def decode_int_small decode_int_big)
qed (auto simp: decode_elementary_def decode_uint_enc bool_slot)

lemma decode_indexed_enc:
  assumes "has_type t v" and "elementary t" and "decodable t v"
  shows "decode_indexed_param t (enc_word v) = Inr (expected t v)"
  using decode_elementary_enc [OF assms] assms(2)
  by (cases t) (auto simp: decode_elementary_def decode_indexed_param_def)

section \<open>Reading encoded data\<close>

lemma read_slot_at:
  assumes "data = pre @ slot @ post" and "length slot = 32" and "length data < 2 ^ 64" and "off = length pre"
  shows "read_slot data off = Inr slot"
  using assms by (auto simp: read_slot_guarded add_usize_def)

lemma u256_to_usize_word:
  assumes "n < 2 ^ 64"
  shows "u256_to_usize (word32 n) = Inr n"
proof -
  have len: "length (word32 n) = 24 + 8" by simp
  have low: "be_val (drop 24 (word32 n)) = n"
    using be_val_drop [OF len] assms by (simp add: be_val_be_bytes)
  have "be_val (word32 n) = be_val (take 24 (word32 n)) * 256 ^ 8 + be_val (drop 24 (word32 n))"
    using be_val_append [of "take 24 (word32 n)" "drop 24 (word32 n)"] by simp
  with low have "be_val (take 24 (word32 n)) = 0"
    using assms by (simp add: be_val_be_bytes)
  then have "\<not> list_ex (\<lambda>b. b \<noteq> 0) (take 24 (word32 n))" by (simp add: be_val_0_iff list_ex_iff)
  with low show ?thesis by (simp add: u256_to_usize_def)
qed

lemma padded_eq: "(n + 31) div 32 * 32 = n + padding n"
proof (cases "n mod 32 = 0")
  case True
  then obtain k where "n = 32 * k" by (metis mod_0_imp_dvd dvdE)
  then show ?thesis by (simp add: padding_def)
next
  case False
  obtain k r where n: "n = 32 * k + r" and r: "r < 32"
    by (metis div_mult_mod_eq mod_less_divisor mult.commute zero_less_numeral)
  with False have "0 < r" by (metis mod_less mod_mult_self4 neq0_conv)
  then have "(32 * k + r + 31) div 32 = k + 1" using r by (intro div_nat_eqI) simp_all
  with n r \<open>0 < r\<close> show ?thesis by (simp add: padding_def)
qed

lemma bytes_at_enc:
  assumes "data = pre @ enc_bytes bs @ post" and "length data < 2 ^ 64" and "off = length pre"
  shows "\<exists>n. bytes_at data off = Inr (bs, n)"
proof -
  have len: "length data = length pre + 32 + length bs + padding (length bs) + length post"
    using assms(1) by (simp add: enc_bytes_def)
  have "read_slot data off = Inr (word32 (length bs))"
    by (rule read_slot_at [OF _ _ assms(2,3)]) (auto simp: assms(1) enc_bytes_def)
  moreover have "u256_to_usize (word32 (length bs)) = Inr (length bs)"
    using len assms(2) by (intro u256_to_usize_word) linarith
  moreover have "(add_usize off 32 :: (nat, abi_error) result) = Inr (off + 32)"
    "(add_usize (off + 32) (length bs) :: (nat, abi_error) result) = Inr (off + 32 + length bs)"
    using len assms(2,3) by (simp_all add: add_usize_def)
  moreover have "(padded_len (length bs) :: (nat, abi_error) result) = Inr (length bs + padding (length bs))"
    using len assms(2) by (simp add: padded_len_def mul_usize_def padded_eq)
  moreover have "(add_usize 32 (length bs + padding (length bs)) :: (nat, abi_error) result) =
      Inr (32 + (length bs + padding (length bs)))"
    using len assms(2) by (simp add: add_usize_def)
  moreover have "take (min (off + 32 + length bs) (length data) - (off + 32)) (drop (off + 32) data) = bs"
  proof -
    have "drop (off + 32) data = bs @ replicate (padding (length bs)) 0 @ post"
      using assms(1,3) by (simp add: enc_bytes_def)
    then show ?thesis using len assms(3) by simp
  qed
  ultimately show ?thesis by (simp add: bytes_at_guarded)
qed

lemma decode_dynamic_bytes_enc:
  assumes "data = hpre @ word32 off @ hpost" and "data = pre @ enc_bytes bs @ post"
    and "length data < 2 ^ 64" and "off = length pre" and "hoff = length hpre"
  shows "\<exists>n. decode_dynamic_bytes data hoff = Inr (bs, n)"
proof -
  have "read_slot data hoff = Inr (word32 off)" by (rule read_slot_at [OF assms(1) _ assms(3,5)]) simp
  moreover have "u256_to_usize (word32 off) = Inr off"
    using assms(2-4) by (intro u256_to_usize_word) simp
  ultimately show ?thesis
    using bytes_at_enc [OF assms(2-4)] by (simp add: decode_dynamic_bytes_def)
qed

section \<open>Encoded events\<close>

text \<open>An argument of an event: a parameter and its value.\<close>

type_synonym arg = "abi_param \<times> sol_value"

definition arg_ok :: "arg \<Rightarrow> bool" where
  "arg_ok a \<longleftrightarrow>
     has_type (param_type (fst a)) (snd a) \<and> decodable (param_type (fst a)) (snd a) \<and>
     (param_indexed (fst a) \<longrightarrow> elementary (param_type (fst a)))"

definition arg_topics :: "arg list \<Rightarrow> hash32 list" where
  "arg_topics args = map (\<lambda>a. Hash32 (enc_word (snd a))) (filter (\<lambda>a. param_indexed (fst a)) args)"

definition arg_values :: "arg list \<Rightarrow> sol_value list" where
  "arg_values args = map snd (filter (\<lambda>a. \<not> param_indexed (fst a)) args)"

definition arg_result :: "arg \<Rightarrow> string \<times> decoded_param" where
  "arg_result a = (param_name (fst a), expected (param_type (fst a)) (snd a))"

text \<open>One value in the data: its head stands at \<open>hoff\<close>, its tail, if any, at \<open>off\<close>.\<close>

lemma decode_value:
  assumes "has_type t v" and "decodable t v" and "enc off (v # vs) = (h, ts)"
    and "data = hpre @ h @ tpre @ ts" and "length data < 2 ^ 64"
    and "hoff = length hpre" and "off = length (hpre @ h @ tpre)"
  obtains hd1 h' t1 ts' where
    "decode_param_from_data t data hoff = Inr (expected t v, 32)"
    "h = hd1 @ h'" "length hd1 = 32" "ts = t1 @ ts'" "enc (off + length t1) vs = (h', ts')"
proof (cases "elementary t")
  case True
  obtain h' ts' where e: "enc off vs = (h', ts')" by (cases "enc off vs")
  have h: "h = enc_word v @ h'" "ts = ts'"
    using assms(1,3) True e by (cases "(t, v)" rule: has_type.cases; auto)+
  have "read_slot data hoff = Inr (enc_word v)"
    by (rule read_slot_at [OF _ enc_word_length [OF assms(1) True] assms(5,6)]) (simp add: assms(4) h)
  then have "decode_param_from_data t data hoff = Inr (expected t v, 32)"
    using decode_elementary_enc [OF assms(1) True assms(2)] True by (cases t) auto
  from that [OF this h(1) enc_word_length [OF assms(1) True], of "[]" ts'] h e show ?thesis by simp
next
  case False
  with assms(1) obtain bs where v: "(t = T_Bytes \<and> v = V_Bytes bs) \<or>
      (\<exists>s. t = T_String \<and> v = V_String s \<and> bs = str_bytes s \<and> from_utf8_lossy bs = bs)"
    by (cases "(t, v)" rule: has_type.cases) auto
  obtain h' ts' where e: "enc (off + length (enc_bytes bs)) vs = (h', ts')"
    by (cases "enc (off + length (enc_bytes bs)) vs")
  have h: "h = word32 off @ h'" "ts = enc_bytes bs @ ts'"
    using assms(3) v e by (auto simp: Let_def)
  have "data = hpre @ word32 off @ (h' @ tpre @ ts)" by (simp only: assms(4) h(1) append_assoc)
  moreover have "data = (hpre @ h @ tpre) @ enc_bytes bs @ ts'" by (simp only: assms(4) h(2) append_assoc)
  ultimately obtain n where "decode_dynamic_bytes data hoff = Inr (bs, n)"
    using decode_dynamic_bytes_enc [OF _ _ assms(5,7,6)] by blast
  then have "decode_param_from_data t data hoff = Inr (expected t v, 32)" using v by auto
  from that [OF this h(1) _ h(2) e] show ?thesis by simp
qed

lemma arg_simps [simp]:
  "arg_topics [] = []" "arg_values [] = []"
  "param_indexed (fst a) \<Longrightarrow> arg_topics (a # args) = Hash32 (enc_word (snd a)) # arg_topics args"
  "param_indexed (fst a) \<Longrightarrow> arg_values (a # args) = arg_values args"
  "\<not> param_indexed (fst a) \<Longrightarrow> arg_topics (a # args) = arg_topics args"
  "\<not> param_indexed (fst a) \<Longrightarrow> arg_values (a # args) = snd a # arg_values args"
  by (simp_all add: arg_topics_def arg_values_def)

text \<open>One parameter in a topic, and one in the data.\<close>

lemma decode_input_topic:
  assumes "arg_ok a" and "param_indexed (fst a)" and "param_name (fst a) \<notin> fst ` set params"
    and "log_topics l = tpre @ Hash32 (enc_word (snd a)) # tpost"
  shows "decode_input l (params, length tpre, k) (fst a) = Inr (params @ [arg_result a], length (tpre @ [Hash32 (enc_word (snd a))]), k)"
proof -
  have "has_type (param_type (fst a)) (snd a)" "decodable (param_type (fst a)) (snd a)" "elementary (param_type (fst a))"
    using assms(1,2) by (simp_all add: arg_ok_def)
  then show ?thesis using assms(2-4) decode_indexed_enc [of "param_type (fst a)" "snd a"]
    by (simp add: decode_input_def nth_append index_insert_fresh arg_result_def)
qed

lemma decode_input_data:
  assumes "arg_ok a" and "\<not> param_indexed (fst a)" and "param_name (fst a) \<notin> fst ` set params"
    and "enc off (snd a # vs) = (h, ts)" and "log_data l = hpre @ h @ dpre @ ts" and "length (log_data l) < 2 ^ 64"
    and "off = length (hpre @ h @ dpre)"
  obtains h1 h' t1 ts' where "decode_input l (params, i, length hpre) (fst a) = Inr (params @ [arg_result a], i, length (hpre @ h1))"
    and "enc (off + length t1) vs = (h', ts')" and "log_data l = (hpre @ h1) @ h' @ (dpre @ t1) @ ts'"
    and "off + length t1 = length ((hpre @ h1) @ h' @ (dpre @ t1))"
proof -
  let ?t = "param_type (fst a)"
  have ok: "has_type ?t (snd a)" "decodable ?t (snd a)" using assms(1) by (simp_all add: arg_ok_def)
  from decode_value [OF ok assms(4,5,6) refl assms(7)] obtain h1 h' t1 ts' where
    dec: "decode_param_from_data ?t (log_data l) (length hpre) = Inr (expected ?t (snd a), 32)"
    and h: "h = h1 @ h'" "length h1 = 32" "ts = t1 @ ts'"
    and e': "enc (off + length t1) vs = (h', ts')" by blast
  have "length hpre + 32 < 2 ^ 64" using assms(5,6) h by simp
  then have "(add_usize (length hpre) 32 :: (nat, abi_error) result) = Inr (length (hpre @ h1))"
    using h(2) by (simp add: add_usize_def)
  with dec assms(2,3) have "decode_input l (params, i, length hpre) (fst a) = Inr (params @ [arg_result a], i, length (hpre @ h1))"
    by (simp add: decode_input_def index_insert_fresh arg_result_def)
  then show thesis
    by (rule that) (use e' assms(5,7) h in simp_all)
qed

lemma decode_inputs_enc:
  assumes "list_all arg_ok args" and "distinct (map (\<lambda>a. param_name (fst a)) args)"
    and "\<forall>a \<in> set args. param_name (fst a) \<notin> fst ` set params"
    and "log_topics l = tpre @ arg_topics args" and "enc off (arg_values args) = (h, ts)"
    and "log_data l = hpre @ h @ dpre @ ts" and "length (log_data l) < 2 ^ 64"
    and "off = length (hpre @ h @ dpre)"
  shows "\<exists>i k. fold_res (decode_input l) (params, length tpre, length hpre) (map fst args) =
           Inr (params @ map arg_result args, i, k)"
  using assms
proof (induction args arbitrary: params tpre off h ts hpre dpre)
  case Nil
  then show ?case by simp
next
  case (Cons a args)
  let ?params = "params @ [arg_result a]"
  have ok: "arg_ok a" "list_all arg_ok args" "distinct (map (\<lambda>a. param_name (fst a)) args)"
    and new: "param_name (fst a) \<notin> fst ` set params" using Cons.prems(1-3) by simp_all
  have "param_name (fst b) \<noteq> param_name (fst a)" if "b \<in> set args" for b
    using Cons.prems(2) that by (metis (no_types, lifting) distinct.simps(2) imageI list.set_map list.simps(9))
  then have fresh: "\<forall>b \<in> set args. param_name (fst b) \<notin> fst ` set ?params"
    using Cons.prems(3) by (simp add: arg_result_def)
  note IH = Cons.IH [OF ok(2,3) fresh]
  show ?case
  proof (cases "param_indexed (fst a)")
    case True
    have "\<exists>i k. fold_res (decode_input l)
        (?params, length (tpre @ [Hash32 (enc_word (snd a))]), length hpre) (map fst args) =
        Inr (?params @ map arg_result args, i, k)"
      by (rule IH [OF _ _ Cons.prems(6,7,8)]) (use True Cons.prems(4,5) in auto)
    then show ?thesis using decode_input_topic [OF ok(1) True new] True Cons.prems(4) by simp
  next
    case False
    with Cons.prems(5) have e: "enc off (snd a # arg_values args) = (h, ts)" by simp
    obtain h1 h' t1 ts' where
      step: "decode_input l (params, length tpre, length hpre) (fst a) = Inr (?params, length tpre, length (hpre @ h1))"
      and rest: "enc (off + length t1) (arg_values args) = (h', ts')" "log_data l = (hpre @ h1) @ h' @ (dpre @ t1) @ ts'"
        "off + length t1 = length ((hpre @ h1) @ h' @ (dpre @ t1))"
      using decode_input_data [OF ok(1) False new e Cons.prems(6,7,8)] .
    have "\<exists>i k. fold_res (decode_input l) (?params, length tpre, length (hpre @ h1)) (map fst args) =
        Inr (?params @ map arg_result args, i, k)"
      by (rule IH [OF _ rest(1,2) Cons.prems(7) rest(3)]) (use False Cons.prems(4) in auto)
    with step show ?thesis by simp
  qed
qed

lemma enc_head:
  assumes "has_type t v"
  shows "\<exists>w off'. length w = 32 \<and> fst (enc off (v # vs)) = w @ fst (enc off' vs)"
proof (cases "elementary t")
  case True
  then have "fst (enc off (v # vs)) = enc_word v @ fst (enc off vs)"
    using assms by (cases "(t, v)" rule: has_type.cases) (auto split: prod.splits)
  with enc_word_length [OF assms True] show ?thesis by blast
next
  case False
  then have "\<exists>off'. fst (enc off (v # vs)) = word32 off @ fst (enc off' vs)"
    using assms by (cases "(t, v)" rule: has_type.cases) (auto simp: Let_def split_def)
  then show ?thesis by (metis length_be_bytes)
qed

lemma enc_head_length:
  "list_all arg_ok args \<Longrightarrow> length (fst (enc off (arg_values args))) = 32 * length (arg_values args)"
proof (induction args arbitrary: off)
  case Nil
  then show ?case by simp
next
  case (Cons a args)
  show ?case
  proof (cases "param_indexed (fst a)")
    case True
    with Cons show ?thesis by simp
  next
    case False
    from Cons.prems have "has_type (param_type (fst a)) (snd a)" by (simp add: arg_ok_def)
    from enc_head [OF this, of off "arg_values args"] obtain w off' where
      "length w = 32" "fst (enc off (snd a # arg_values args)) = w @ fst (enc off' (arg_values args))" by blast
    with Cons False show ?thesis by simp
  qed
qed

lemma decode_encoded_log:
  assumes "dec selector = Some ev" and "ev_inputs ev = map fst args"
    and "list_all arg_ok args" and "distinct (map (\<lambda>a. param_name (fst a)) args)"
    and "log_topics l = selector # arg_topics args" and "log_data l = abi_encode (arg_values args)"
    and "length (log_data l) < 2 ^ 64"
  shows "decode dec l name = Inr \<lparr> de_name = ev_name ev, de_contract_name = name,
           de_params = map (\<lambda>(p, v). (param_name p, expected (param_type p) v)) args, de_raw_log = l \<rparr>"
proof -
  obtain h ts where e: "enc (32 * length (arg_values args)) (arg_values args) = (h, ts)"
    by (cases "enc (32 * length (arg_values args)) (arg_values args)")
  have len: "length h = 32 * length (arg_values args)"
    using enc_head_length [OF assms(3), of "32 * length (arg_values args)"] e by simp
  have data: "log_data l = [] @ h @ [] @ ts" using assms(6) e by (simp add: abi_encode_def)
  have topics: "log_topics l = [selector] @ arg_topics args" using assms(5) by simp
  have "\<exists>i k. fold_res (decode_input l) ([], length [selector], length ([] :: bytes)) (map fst args) =
           Inr ([] @ map arg_result args, i, k)"
    by (rule decode_inputs_enc [OF assms(3,4) _ topics e data assms(7)]) (simp_all add: len)
  then obtain i k where "fold_res (decode_input l) ([], 1, 0) (ev_inputs ev) =
      Inr (map arg_result args, i, k)" using assms(2) by auto
  moreover have "map arg_result args = map (\<lambda>(p, v). (param_name p, expected (param_type p) v)) args"
    by (simp add: arg_result_def split_def)
  ultimately show ?thesis using assms(1,5) by (simp add: decode_def)
qed


text \<open>A transfer event with a note, for the witness.\<close>

definition demo_event :: abi_event where
  "demo_event = \<lparr> ev_name = ''Transfer'', ev_signature = [], ev_selector = zero_hash32,
     ev_inputs = [AbiParam ''to'' T_Address True, AbiParam ''delta'' (T_Int 256) False,
                  AbiParam ''note'' T_Bytes False] \<rparr>"

definition demo_args :: "arg list" where
  "demo_args = [(AbiParam ''to'' T_Address True, V_Address (replicate 20 7)),
                (AbiParam ''delta'' (T_Int 256) False, V_Int (-5)),
                (AbiParam ''note'' T_Bytes False, V_Bytes [1, 2, 3])]"

definition demo_event_log :: log where
  "demo_event_log = \<lparr> log_id = [], log_chain_id = 1, log_address = zero_address,
     log_topics = zero_hash32 # arg_topics demo_args, log_data = abi_encode (arg_values demo_args),
     log_block_number = 0, log_block_hash = zero_hash32, log_transaction_hash = zero_hash32,
     log_index = 0, log_transaction_index = 0, log_removed = False \<rparr>"


section \<open>Inputs on which the decoder panics\<close>

text \<open>
  Every negative value of type \<open>int128\<close> makes \<open>decode_int\<close> panic: the mask
  is shifted by the full width of 128 bits.
\<close>

lemma negative_int128_panics:
  assumes "- (2 ^ 127) \<le> i" and "i < 0"
  shows "decode_int (word32 (int_word i)) 128 = Inl (overflow ''shift left'')"
  using decode_int_small [of 128 i] assms by simp

lemma negative_int128_panics_witness:
  "decode_int (word32 (int_word (-1))) 128 = Inl (overflow ''shift left'')"
  by (rule negative_int128_panics) simp_all

text \<open>
  The length word of a dynamic array is trusted: a length of \<open>2 ^ 58\<close> or more
  in the data of a log makes the decoder panic in \<open>Vec::with_capacity\<close>, whatever the
  element type and however short the data.
\<close>

lemma huge_array_length_panics:
  assumes "read_slot data offset = Inr head" and "u256_to_usize head = Inr abs_offset"
    and "read_slot data abs_offset = Inr len_slot" and "u256_to_usize len_slot = Inr len"
    and "2 ^ 58 \<le> len"
  shows "decode_param_from_data (T_Array inner) data offset = Inl (Panic ''capacity overflow'')"
  using assms
  by (simp add: decode_dynamic_array_def array_at_def with_capacity_def param_bytes_def)

lemma huge_array_length_panics_witness:
  "decode_param_from_data (T_Array T_Bool) (word32 32 @ word32 (2 ^ 60)) 0 =
     Inl (Panic ''capacity overflow'')"
proof (rule huge_array_length_panics)
  show "read_slot (word32 32 @ word32 (2 ^ 60)) 0 = Inr (word32 32)"
    by (rule read_slot_at [of _ "[]" _ "word32 (2 ^ 60)"]) simp_all
  show "u256_to_usize (word32 32) = Inr 32" by (rule u256_to_usize_word) simp
  show "read_slot (word32 32 @ word32 (2 ^ 60)) 32 = Inr (word32 (2 ^ 60))"
    by (rule read_slot_at [of _ "word32 32" _ "[]"]) simp_all
  show "u256_to_usize (word32 (2 ^ 60)) = Inr (2 ^ 60)" by (rule u256_to_usize_word) simp
qed simp

section \<open>Events that cannot panic\<close>

definition safe_type :: "abi_type \<Rightarrow> bool" where
  "safe_type t \<longleftrightarrow> elementary t \<and> t \<noteq> T_Int 0 \<and> t \<noteq> T_Int 128"

lemma decode_int_no_panic: "bits \<noteq> 0 \<Longrightarrow> bits \<noteq> 128 \<Longrightarrow> decode_int slot bits \<noteq> Inl e"
  by (simp add: decode_int_def Let_def)

lemma decode_elementary_no_panic: "safe_type t \<Longrightarrow> decode_elementary t slot \<noteq> Inl e"
  by (cases t) (auto simp: safe_type_def decode_elementary_def decode_int_no_panic)

lemma decode_indexed_no_panic: "safe_type t \<Longrightarrow> decode_indexed_param t slot \<noteq> Inl e"
  by (cases t) (auto simp: safe_type_def decode_indexed_param_def decode_int_no_panic)

lemma read_slot_no_panic: "off + 32 < 2 ^ 64 \<Longrightarrow> read_slot data off \<noteq> Inl (Panic m)"
  by (simp add: read_slot_guarded add_usize_def)

lemma safe_data:
  assumes "safe_type t"
  shows "decode_param_from_data t data off =
           bind_res (read_slot data off) (\<lambda>slot. bind_res (decode_elementary t slot) (\<lambda>v. Inr (v, 32)))"
  using assms by (cases t) (auto simp: safe_type_def)

lemma decode_input_no_panic:
  assumes "safe_type (param_type p)" and "off + 32 < 2 ^ 64"
  shows "decode_input l (params, i, off) p \<noteq> Inl (Panic m)"
    and "decode_input l (params, i, off) p = Inr (params', i', off') \<Longrightarrow> off' \<le> off + 32"
  using assms read_slot_no_panic [OF assms(2), of "log_data l" m]
    decode_elementary_no_panic [OF assms(1)] decode_indexed_no_panic [OF assms(1)]
  by (auto simp: decode_input_def safe_data bind_res_Inl_iff bind_res_Inr_iff add_usize_def
      split: if_splits)

lemma fold_inputs_no_panic:
  assumes "\<forall>p \<in> set ps. safe_type (param_type p)" and "off + 32 * length ps + 32 < 2 ^ 64"
  shows "fold_res (decode_input l) (params, i, off) ps \<noteq> Inl (Panic m)"
  using assms
proof (induction ps arbitrary: params i off)
  case Nil
  then show ?case by simp
next
  case (Cons p ps)
  have safe: "safe_type (param_type p)" and off: "off + 32 < 2 ^ 64" using Cons.prems by auto
  have rest: "fold_res (decode_input l) st ps \<noteq> Inl (Panic m)"
    if st: "decode_input l (params, i, off) p = Inr st" for st
  proof -
    obtain params' i' off' where "st = (params', i', off')" by (cases st)
    moreover from this st have "off' \<le> off + 32" using decode_input_no_panic(2) [OF safe off] by blast
    ultimately show ?thesis using Cons.IH [of off' params' i'] Cons.prems by auto
  qed
  show ?case
    using decode_input_no_panic(1) [OF safe off] rest
    by (auto simp: bind_res_Inl_iff)
qed



end
