(* ===== verification/Abi_Typing.thy ===== *)
theory Abi_Typing
  imports Abi_Roundtrip
begin

text \<open>
  The types of decoded values. The decoder reads attacker-chosen bytes: whatever they are,
  a value it returns has the form that the type of its parameter promises to the handlers.
\<close>

section \<open>The values of a type\<close>

definition decimal :: "nat \<Rightarrow> string \<Rightarrow> bool" where
  "decimal limit s \<longleftrightarrow> s \<noteq> [] \<and> list_all is_digit s \<and> digits_val s < limit"

definition signed_decimal :: "string \<Rightarrow> bool" where
  "signed_decimal s \<longleftrightarrow>
     (if take 1 s = ''-'' then decimal (2 ^ 255 + 1) (drop 1 s) else decimal (2 ^ 255) s)"

fun shaped :: "abi_type \<Rightarrow> decoded_param \<Rightarrow> bool"
and shaped_all :: "abi_param list \<Rightarrow> decoded_param list \<Rightarrow> bool" where
  "shaped (T_Uint bits) v \<longleftrightarrow>
     (case v of D_Uint _ \<Rightarrow> bits \<le> 128 | D_Uint256 s \<Rightarrow> 128 < bits \<and> decimal (2 ^ 256) s | _ \<Rightarrow> False)"
| "shaped (T_Int bits) v \<longleftrightarrow>
     (case v of D_Int i \<Rightarrow> bits \<le> 128 \<and> - (2 ^ 127) \<le> i \<and> i < 2 ^ 127
              | D_Int256 s \<Rightarrow> 128 < bits \<and> signed_decimal s | _ \<Rightarrow> False)"
| "shaped T_Address v \<longleftrightarrow> (case v of D_Address a \<Rightarrow> wf_address a | _ \<Rightarrow> False)"
| "shaped T_Bool v \<longleftrightarrow> (case v of D_Bool _ \<Rightarrow> True | _ \<Rightarrow> False)"
| "shaped (T_FixedBytes n) v \<longleftrightarrow> (case v of D_FixedBytes bs \<Rightarrow> length bs = min n 32 | _ \<Rightarrow> False)"
| "shaped T_Bytes v \<longleftrightarrow> (case v of D_Bytes _ \<Rightarrow> True | _ \<Rightarrow> False)"
| "shaped T_String v \<longleftrightarrow> (case v of D_String s \<Rightarrow> utf8_valid (str_bytes s) | _ \<Rightarrow> False)"
| "shaped (T_Array t) v \<longleftrightarrow> (case v of D_Array vs \<Rightarrow> list_all (shaped t) vs | _ \<Rightarrow> False)"
| "shaped (T_FixedArray t n) v \<longleftrightarrow>
     (case v of D_Array vs \<Rightarrow> length vs = n \<and> list_all (shaped t) vs | _ \<Rightarrow> False)"
| "shaped (T_Tuple ps) v \<longleftrightarrow> (case v of D_Tuple vs \<Rightarrow> shaped_all ps vs | _ \<Rightarrow> False)"
| "shaped_all [] vs \<longleftrightarrow> vs = []"
| "shaped_all (AbiParam n t i # ps) vs \<longleftrightarrow>
     (case vs of [] \<Rightarrow> False | v # vs' \<Rightarrow> shaped t v \<and> shaped_all ps vs')"

text \<open>An indexed parameter of a dynamic type is only known by its hash.\<close>

definition shaped_param :: "abi_param \<Rightarrow> decoded_param \<Rightarrow> bool" where
  "shaped_param p v \<longleftrightarrow>
     (if param_indexed p \<and> \<not> elementary (param_type p)
      then (case v of D_FixedBytes bs \<Rightarrow> length bs = 32 | _ \<Rightarrow> False)
      else shaped (param_type p) v)"

section \<open>Elementary values\<close>

lemma decimal_nat_str: "n < limit \<Longrightarrow> decimal limit (nat_str n)"
  by (simp add: decimal_def nat_str_digits)

lemma nat_str_no_sign: "take 1 (nat_str n) \<noteq> ''-''"
  using hd_nat_str_digit [of n] nat_str_nonempty [of n]
  by (cases "nat_str n") (auto simp: is_digit_def)

lemma decode_uint_shaped:
  assumes "length slot = 32"
  shows "shaped (T_Uint bits) (decode_uint slot bits)"
proof -
  have "(256 :: nat) ^ 32 = 2 ^ 256" by simp
  then have "be_val slot < 2 ^ 256" using be_val_less [of slot] assms by simp
  then show ?thesis by (simp add: decode_uint_def u256_from_be_bytes_def decimal_nat_str)
qed

lemma sign_bit:
  assumes "length slot = 32"
  shows "hd slot AND 0x80 = 0 \<longleftrightarrow> be_val slot < 2 ^ 255"
proof -
  have "unat (hd slot) = be_val slot div 256 ^ 31" using assms by (intro hd_word) simp
  then have "hd slot AND 0x80 = 0 \<longleftrightarrow> be_val slot div 256 ^ 31 < 128" by (simp only: top_bit)
  also have "\<dots> \<longleftrightarrow> be_val slot < 128 * 256 ^ 31" by (rule div_less_iff_less_mult) simp
  also have "(128 :: nat) * 256 ^ 31 = 2 ^ 255" by simp
  finally show ?thesis .
qed

lemma twos_complement_bound:
  assumes "length slot = 32" and "hd slot AND 0x80 \<noteq> 0"
  shows "unat (NOT (of_nat (be_val slot)) + 1 :: 256 word) < 2 ^ 255 + 1"
proof -
  have "(256 :: nat) ^ 32 = 2 ^ 256" by simp
  then have below: "be_val slot < 2 ^ 256" using be_val_less [of slot] assms(1) by simp
  have high: "2 ^ 255 \<le> be_val slot" using sign_bit [OF assms(1)] assms(2) by simp
  let ?w = "of_nat (be_val slot) :: 256 word"
  have w: "unat ?w = be_val slot" using below by (simp add: unat_of_nat take_bit_nat_eq_self)
  have "unat (- ?w + ?w) = (unat (- ?w) + be_val slot) mod 2 ^ 256"
    by (simp only: unat_word_ariths w) simp
  then have "(unat (- ?w) + be_val slot) mod 2 ^ 256 = 0" by simp
  then obtain k where k: "unat (- ?w) + be_val slot = 2 ^ 256 * k" by (metis mod_0_imp_dvd dvdE)
  have "unat (- ?w) < 2 ^ 256" using unsigned_less [of "- ?w", where ?'a = nat] by simp
  then have "2 ^ 256 * k < 2 ^ 256 * 2" using below k by simp
  then have "k \<le> 1" by simp
  then have "unat (- ?w) + be_val slot \<le> 2 ^ 256" unfolding k by simp
  moreover have "(2 :: nat) ^ 256 = 2 ^ 255 + 2 ^ 255" by simp
  ultimately have "unat (- ?w) \<le> 2 ^ 255" using high by linarith
  then show ?thesis by (simp add: not_eq_complement)
qed

lemma decode_int_shaped:
  assumes "length slot = 32" and "decode_int slot bits = Inr v"
  shows "shaped (T_Int bits) v"
proof (cases "bits \<le> 128")
  case True
  then obtain w :: u128 where "v = D_Int (sint w)"
    using assms(2) by (auto simp: decode_int_def Let_def split: if_splits)
  then show ?thesis using True sint_range_size [of w] by (simp add: word_size)
next
  case False
  show ?thesis
  proof (cases "hd slot AND 0x80 = 0")
    case True
    then show ?thesis
      using assms(2) False sign_bit [OF assms(1)] nat_str_no_sign [of "be_val slot"]
      by (auto simp: decode_int_def u256_from_be_bytes_def signed_decimal_def decimal_nat_str)
  next
    case neg: False
    then show ?thesis
      using assms False twos_complement_bound [OF assms(1) neg]
      by (auto simp: decode_int_def twos_complement_256_str_def signed_decimal_def decimal_nat_str)
  qed
qed

lemma decode_elementary_shaped:
  assumes "length slot = 32" and "elementary t" and "decode_elementary t slot = Inr v"
  shows "shaped t v"
proof (cases t)
  case (T_Uint bits)
  then show ?thesis using assms decode_uint_shaped [of slot bits] by (auto simp: decode_elementary_def)
next
  case (T_Int bits)
  then show ?thesis using assms decode_int_shaped [of slot bits v] by (simp add: decode_elementary_def)
qed (use assms in \<open>auto simp: decode_elementary_def wf_address_def\<close>)

lemma decode_indexed_shaped:
  assumes "length topic = 32" and "decode_indexed_param (param_type p) topic = Inr v" and "param_indexed p"
  shows "shaped_param p v"
proof (cases "elementary (param_type p)")
  case True
  then have "decode_elementary (param_type p) topic = Inr v"
    using assms(2) by (cases "param_type p") (auto simp: decode_indexed_param_def decode_elementary_def)
  then show ?thesis using decode_elementary_shaped [OF assms(1) True] True by (simp add: shaped_param_def)
next
  case False
  then have "v = D_FixedBytes topic"
    using assms(2) by (cases "param_type p") (auto simp: decode_indexed_param_def)
  then show ?thesis using False assms(1,3) by (simp add: shaped_param_def)
qed

lemma read_slot_length: "read_slot data offset = Inr slot \<Longrightarrow> length slot = 32"
  by (auto simp: read_slot_guarded result_simps add_usize_def split: if_splits)

section \<open>Compound values\<close>

lemma decode_items_shaped:
  assumes "\<And>pos v n. f pos = Inr (v, n) \<Longrightarrow> P v" and "decode_items f len pos = Inr (vs, e)"
  shows "length vs = len \<and> list_all P vs"
  using assms(2)
proof (induction len arbitrary: pos vs e)
  case 0
  then show ?case by simp
next
  case (Suc len)
  then show ?case using assms(1) by (auto simp: result_simps)
qed

lemma array_at_shaped:
  assumes "\<And>pos v n. f pos = Inr (v, n) \<Longrightarrow> P v" and "array_at f data off = Inr (vs, e)"
  shows "list_all P vs"
  using assms(2) decode_items_shaped [of f P] assms(1)
  by (auto simp: array_at_def result_simps)

lemma string_shaped: "shaped T_String (D_String (bytes_str (from_utf8_lossy bs)))"
  by (simp add: utf8_valid_lossy)

lemma shaped_all_Cons:
  "shaped_all (p # ps) (v # vs) \<longleftrightarrow> shaped (param_type p) v \<and> shaped_all ps vs"
  by (cases p) simp

lemma elementary_slot_shaped:
  "read_slot data off = Inr slot \<Longrightarrow> decode_elementary t slot = Inr v \<Longrightarrow> elementary t \<Longrightarrow> shaped t v"
  using decode_elementary_shaped read_slot_length by blast

lemma decode_data_shaped:
  "decode_param_from_data t data off = Inr (v, n) \<Longrightarrow> shaped t v"
  "decode_tuple_items ps data base pos = Inr (vs, e) \<Longrightarrow> shaped_all ps vs"
  "decode_param_from_data_at_abs t data off = Inr (v, n) \<Longrightarrow> shaped t v"
proof (induction t data off and ps data base pos and t data off arbitrary: v n and vs e and v n
    rule: decode_param_from_data_decode_tuple_items_decode_param_from_data_at_abs.induct)
  case (3 inner data offset)
  then show ?case
    using array_at_shaped [of "\<lambda>pos. decode_param_from_data inner data pos" "shaped inner" data]
    by (auto simp: decode_dynamic_array_def result_simps)
next
  case (4 inner len data offset)
  have inner: "shaped inner v" if "with_capacity len = (Inr u :: (unit, abi_error) result)"
    "decode_param_from_data inner data pos = Inr (v, m)" for u pos v m
    using 4(1) [of pos] 4(2) [of u pos] that by blast
  then show ?case
    using 4(3) decode_items_shaped [of "\<lambda>pos. decode_param_from_data inner data pos" "shaped inner" len]
    by (auto simp: decode_fixed_array_dynamic_def result_simps split: if_splits)
next
  case (5 params data offset)
  then show ?case by (auto simp: result_simps split: if_splits)
next
  case (8 p ps data base pos)
  then show ?case
    by (auto simp: result_simps shaped_all_Cons split: if_splits)
next
  case (11 inner data abs_offset)
  then show ?case
    using array_at_shaped [of "\<lambda>pos. decode_param_from_data inner data pos" "shaped inner" data]
    by (auto simp: result_simps)
qed (auto simp: result_simps string_shaped elementary_slot_shaped simp del: shaped.simps(1-5,7))

section \<open>Events\<close>

lemma decode_input_shaped:
  assumes "decode_input l (params, i, off) p = Inr st" and "\<forall>t \<in> set (log_topics l). wf_hash32 t"
  shows "\<exists>v i' off'. st = (index_insert (param_name p) v params, i', off') \<and> shaped_param p v"
proof (cases "param_indexed p")
  case True
  then show ?thesis
    using assms decode_indexed_shaped [OF _ _ True]
    by (fastforce simp: decode_input_def result_simps wf_hash32_def split: if_splits)
next
  case False
  then show ?thesis
    using assms(1) decode_data_shaped(1) [of "param_type p" "log_data l" off]
    by (auto simp: decode_input_def result_simps shaped_param_def)
qed

lemma decode_inputs_shaped:
  assumes "fold_res (decode_input l) (params, i, off) ps = Inr (params', i', off')"
    and "distinct (map param_name ps)" and "fst ` set params \<inter> param_name ` set ps = {}"
    and "\<forall>t \<in> set (log_topics l). wf_hash32 t"
  shows "\<exists>new. params' = params @ new \<and>
           list_all2 (\<lambda>p (name, v). name = param_name p \<and> shaped_param p v) ps new"
  using assms(1-3)
proof (induction ps arbitrary: params i off)
  case Nil
  then show ?case by simp
next
  case (Cons p ps)
  obtain st where step: "decode_input l (params, i, off) p = Inr st"
    and rest: "fold_res (decode_input l) st ps = Inr (params', i', off')"
    using Cons.prems(1) by (auto simp: result_simps)
  obtain v j o' where st: "st = (index_insert (param_name p) v params, j, o')" and v: "shaped_param p v"
    using decode_input_shaped [OF step assms(4)] by blast
  have st': "st = (params @ [(param_name p, v)], j, o')"
    using st Cons.prems(3) by (simp add: index_insert_fresh)
  have "distinct (map param_name ps)"
    and "fst ` set (params @ [(param_name p, v)]) \<inter> param_name ` set ps = {}"
    using Cons.prems(2,3) by auto
  then obtain new where "params' = (params @ [(param_name p, v)]) @ new"
    "list_all2 (\<lambda>p (name, v). name = param_name p \<and> shaped_param p v) ps new"
    using Cons.IH [OF rest [unfolded st']] by blast
  then show ?case using v by (intro exI [of _ "(param_name p, v) # new"]) simp
qed

lemma decoded_shaped:
  assumes "decode dec l contract = Inr e" and "dec (hd (log_topics l)) = Some ev"
    and "distinct (map param_name (ev_inputs ev))" and "\<forall>t \<in> set (log_topics l). wf_hash32 t"
  shows "list_all2 (\<lambda>p (name, v). name = param_name p \<and> shaped_param p v) (ev_inputs ev) (de_params e)"
proof -
  obtain params i off where "fold_res (decode_input l) ([], 1, 0) (ev_inputs ev) = Inr (params, i, off)"
    and "de_params e = params"
    using assms(1,2) by (auto simp: decode_def result_simps split: list.splits option.splits)
  then show ?thesis using decode_inputs_shaped [OF _ assms(3) _ assms(4), of "[]" 1 0] by fastforce
qed

text \<open>
  Property C12. Whatever bytes a log holds, the parameters of a decoded event are those of
  the event's declaration, in order, and each value has the form its type promises: small
  integers within 128 bits and large ones as decimal numerals within 256 bits, addresses of
  20 bytes, byte strings of the declared length, well-formed UTF-8 text, arrays of the
  declared length and tuples with the declared components, down to every nesting level.
  (The event must not declare two parameters of one name, which would share an entry.)
\<close>

theorem decoded_values_typed:
  assumes "decode dec l contract = Inr e" and "dec (hd (log_topics l)) = Some ev"
    and "distinct (map param_name (ev_inputs ev))" and "\<forall>t \<in> set (log_topics l). wf_hash32 t"
  shows "list_all2 (\<lambda>p (name, v). name = param_name p \<and> shaped_param p v) (ev_inputs ev) (de_params e)"
  by (rule decoded_shaped [OF assms])

text \<open>An event with two flags, on data that are no booleans.\<close>

definition flags_event :: abi_event where
  "flags_event = demo_event\<lparr> ev_inputs := [AbiParam ''to'' T_Address True,
                             AbiParam ''flags'' (T_FixedArray T_Bool 2) False] \<rparr>"

definition flags_log :: log where
  "flags_log = demo_event_log\<lparr> log_data := replicate 63 0 @ [9] \<rparr>"

definition flags_decoded :: decoded_event where
  "flags_decoded = \<lparr> de_name = ''Transfer'', de_contract_name = ''Token'',
     de_params = [(''to'', D_Address (Address (replicate 20 7))), (''flags'', D_Array [D_Bool False, D_Bool True])],
     de_raw_log = flags_log \<rparr>"

theorem decoded_values_typed_witness:
  "decode [zero_hash32 \<mapsto> flags_event] flags_log ''Token'' = Inr flags_decoded \<and>
   list_all2 (\<lambda>p (name, v). name = param_name p \<and> shaped_param p v) (ev_inputs flags_event) (de_params flags_decoded)"
proof -
  have slots: "read_slot (log_data flags_log) 0 = Inr (replicate 32 0)"
    "read_slot (log_data flags_log) 32 = Inr (replicate 31 0 @ [9])"
    by (simp_all add: read_slot_guarded add_usize_def flags_log_def)
  have "decode_items (decode_param_from_data T_Bool (log_data flags_log)) (Suc (Suc 0)) 0 =
      Inr ([D_Bool False, D_Bool True], 64)"
    using slots by (simp add: decode_elementary_def add_usize_def nth_append)
  then have flags: "decode_param_from_data (T_FixedArray T_Bool 2) (log_data flags_log) 0 =
      Inr (D_Array [D_Bool False, D_Bool True], 64)"
    unfolding decode_param_from_data.simps(4) numeral_2_eq_2 [symmetric]
    by (simp add: with_capacity_def param_bytes_def mul_usize_def
        del: decode_items.simps decode_param_from_data.simps)
  have topics: "log_topics flags_log = [zero_hash32, Hash32 (replicate 12 0 @ replicate 20 7)]"
    by (simp add: flags_log_def demo_event_log_def demo_args_def arg_topics_def)
  have run: "decode [zero_hash32 \<mapsto> flags_event] flags_log ''Token'' = Inr flags_decoded"
    by (simp add: decode_def topics flags_event_def demo_event_def decode_input_def flags
        decode_indexed_param_def add_usize_def flags_decoded_def del: decode_param_from_data.simps)
  moreover have "list_all2 (\<lambda>p (name, v). name = param_name p \<and> shaped_param p v)
      (ev_inputs flags_event) (de_params flags_decoded)"
  proof (rule decoded_values_typed [OF run])
    show "[zero_hash32 \<mapsto> flags_event] (hd (log_topics flags_log)) = Some flags_event" by (simp add: topics)
    show "distinct (map param_name (ev_inputs flags_event))" by (simp add: flags_event_def)
    show "\<forall>t \<in> set (log_topics flags_log). wf_hash32 t" by (simp add: topics wf_hash32_def zero_hash32_def)
  qed
  ultimately show ?thesis by blast
qed

end
