(* ===== verification/Build_Id.thy ===== *)
theory Build_Id
  imports Rows "HOL-Library.Char_ord" "HOL-Library.List_Lexorder" "HOL-Library.Multiset"
begin

text \<open>
  The fingerprint of an application (\<open>forge-index-telemetry/src/build_id.rs\<close>): canonical
  JSON of the configuration and the schema and the sorted handler keys, hashed. The
  serialisation of the structures, of atomic JSON values and the hash are library code.
\<close>

section \<open>Canonical JSON\<close>

fun canonical_json :: "(json \<Rightarrow> string) \<Rightarrow> json \<Rightarrow> string" where
  "canonical_json atom (JObject fs) =
     ''{'' @ join '','' (map (\<lambda>(k, t). dquote @ k @ dquote @ '':'' @ t)
       (sort_key fst (map (\<lambda>(k, v). (k, canonical_json atom v)) fs))) @ ''}''"
| "canonical_json atom (JArray xs) = ''['' @ join '','' (map (canonical_json atom) xs) @ '']''"
| "canonical_json atom v = atom v"

record build_lib =
  bl_hex :: "bytes \<Rightarrow> string"
  bl_sha256 :: "bytes \<Rightarrow> bytes"
  bl_atom :: "json \<Rightarrow> string"
  bl_config :: "config \<Rightarrow> json"
  bl_schema :: "schema \<Rightarrow> json"

definition compute_build_id :: "build_lib \<Rightarrow> config \<Rightarrow> schema \<Rightarrow> string list \<Rightarrow> string" where
  "compute_build_id B cfg s handler_keys =
     bl_hex B (bl_sha256 B (str_bytes
       (canonical_json (bl_atom B) (bl_config B cfg) @ canonical_json (bl_atom B) (bl_schema B s) @
        concat (sort handler_keys))))"

definition build_id_changed :: "string \<Rightarrow> string \<Rightarrow> bool" where
  "build_id_changed old new \<longleftrightarrow> old \<noteq> new"

section \<open>What the fingerprint depends on\<close>

text \<open>Two values that differ only in the order of object fields, at any depth.\<close>

inductive same_json :: "json \<Rightarrow> json \<Rightarrow> bool" where
  atom: "same_json v v"
| array: "list_all2 same_json xs ys \<Longrightarrow> same_json (JArray xs) (JArray ys)"
| object: "list_all2 (\<lambda>p q. fst p = fst q \<and> same_json (snd p) (snd q)) fs gs \<Longrightarrow> mset gs = mset hs \<Longrightarrow>
    distinct (map fst hs) \<Longrightarrow> same_json (JObject fs) (JObject hs)"

lemma sort_key_permuted:
  assumes "mset xs = mset ys" and "distinct (map fst ys)"
  shows "sort_key fst xs = sort_key fst (ys :: (string \<times> 'b) list)"
proof (rule map_sorted_distinct_set_unique [of fst])
  have set: "set xs = set ys" using assms(1) by (rule mset_eq_setD)
  have "distinct (map fst xs)"
    using assms by (metis mset_map mset_eq_imp_distinct_iff)
  then show "distinct (map fst (sort_key fst xs))"
    by (metis mset_map mset_sort mset_eq_imp_distinct_iff)
  show "distinct (map fst (sort_key fst ys))"
    using assms(2) by (metis mset_map mset_sort mset_eq_imp_distinct_iff)
  show "inj_on fst (set (sort_key fst xs) \<union> set (sort_key fst ys))"
    using assms(2) set by (simp add: distinct_map)
  show "set (sort_key fst xs) = set (sort_key fst ys)" using set by simp
qed simp_all

lemma canonical_json_order:
  "same_json v w \<Longrightarrow> canonical_json atom v = canonical_json atom w"
proof (induction rule: same_json.induct)
  case (array xs ys)
  then have "map (canonical_json atom) xs = map (canonical_json atom) ys"
    by (auto simp: list_all2_conv_all_nth intro!: nth_equalityI)
  then show ?case by simp
next
  case (object fs gs hs)
  let ?f = "\<lambda>(k, v). (k, canonical_json atom v)"
  have "map ?f fs = map ?f gs"
    using object.IH by (auto simp: list_all2_conv_all_nth split_def intro!: nth_equalityI prod_eqI)
  moreover have "sort_key fst (map ?f gs) = sort_key fst (map ?f hs)"
    using object.hyps by (intro sort_key_permuted) (auto simp: split_def o_def)
  ultimately show ?case by simp
qed simp

lemma build_id_order_independent:
  assumes "same_json (bl_config B c) (bl_config B c')" and "same_json (bl_schema B s) (bl_schema B s')"
    and "mset keys = mset keys'"
  shows "compute_build_id B c s keys = compute_build_id B c' s' keys'"
proof -
  have "sort keys = sort keys'" using assms(3) by (metis mset_sort properties_for_sort sorted_sort)
  then show ?thesis using assms(1,2) by (simp add: compute_build_id_def canonical_json_order [of _ _ "bl_atom B"])
qed

text \<open>Without separators between them, different keys give one fingerprint.\<close>

lemma handler_keys_collide:
  "compute_build_id B c s [''T:A'', ''T:B''] = compute_build_id B c s [''T:AT:B'']"
proof -
  have "sort [''T:A'', ''T:B''] = [''T:A'', ''T:B'']" by code_simp
  then show ?thesis by (simp add: compute_build_id_def)
qed

end
