(* ===== verification/App.thy ===== *)
theory App
  imports Backfill Build_Id
begin

text \<open>
  The application around the sync engine: the database manager
  (\<open>forge-index-db/src/manager.rs\<close>), the registry of handlers
  (\<open>forge-index-core/src/registry\<close>), the builder and the runner
  (\<open>forge-index/src/builder.rs\<close>, \<open>runner.rs\<close>). Handlers are arguments; the API server that
  the runner starts beside the backfill, its log lines and the operating system's signals
  are not part of the model.
\<close>

section \<open>The database manager\<close>

datatype build_id_status = BS_Same | BS_Changed string string | BS_NotFound

text \<open>
  The connection of the manager: plain statements, the statement that binds the build
  identifier and the query for it. Errors are known by their text; the answers of the query
  that the code distinguishes are constructors.
\<close>

datatype meta_answer = MA_Found string | MA_RowNotFound | MA_Missing_Table | MA_Error sqlx_error

record 'm meta_server =
  ms_execute :: "string \<Rightarrow> ('m, string, unit) call"
  ms_execute_bind :: "string \<Rightarrow> string \<Rightarrow> ('m, string, unit) call"
  ms_fetch_one :: "string \<Rightarrow> 'm \<Rightarrow> meta_answer"
  ms_unlock :: "int \<Rightarrow> ('m, string, unit) call"

record manager_lib =
  ml_hex :: "bytes \<Rightarrow> string"
  ml_sha256 :: "bytes \<Rightarrow> bytes"
  ml_schema_text :: "schema \<Rightarrow> string option"

definition lock_key :: "manager_lib \<Rightarrow> string \<Rightarrow> int" where
  "lock_key B schema_name =
     sint (of_nat (be_val (take 8 (ml_sha256 B (str_bytes (''forge-index-lock:'' @ schema_name))))) :: 64 word)"

text \<open>A manager holds the key of its schema and the name; the connection pool is opened by library code.\<close>

record database_manager =
  dm_lock_key :: int
  dm_pg_schema :: string

definition manager_new ::
  "manager_lib \<Rightarrow> (string \<Rightarrow> u32 \<Rightarrow> string + unit) \<Rightarrow> database_config \<Rightarrow> db_error + database_manager" where
  "manager_new B connect c =
     (case c of
        Postgres connection_string schema_name pool_max_connections \<Rightarrow>
          (case connect connection_string pool_max_connections of
             Inl e \<Rightarrow> Inl (PoolCreation e)
           | Inr _ \<Rightarrow> Inr \<lparr> dm_lock_key = lock_key B schema_name, dm_pg_schema = schema_name \<rparr>)
      | PGlite _ \<Rightarrow> Inl (PoolCreation ''PGlite is not yet supported''))"

definition create_schema_sql :: "string \<Rightarrow> string" where
  "create_schema_sql pg_schema = ''CREATE SCHEMA IF NOT EXISTS '' @ quote_ident pg_schema"

definition newline_indent :: "nat \<Rightarrow> string" where
  "newline_indent n = CHR 0x0A # replicate n CHR '' ''"

definition meta_sql :: "string \<Rightarrow> string" where
  "meta_sql pg_schema = ''CREATE TABLE IF NOT EXISTS '' @ table_path pg_schema ''_forge_meta'' @ '' ('' @
     newline_indent 16 @ ''key TEXT PRIMARY KEY,'' @ newline_indent 16 @ ''value TEXT NOT NULL'' @
     newline_indent 12 @ '')''"

definition upsert_sql :: "string \<Rightarrow> string" where
  "upsert_sql pg_schema = ''INSERT INTO '' @ table_path pg_schema ''_forge_meta'' @
     '' (key, value) VALUES ('' @ [quote_char] @ ''build_id'' @ [quote_char] @ '', $1)'' @ newline_indent 15 @
     ''ON CONFLICT (key) DO UPDATE SET value = $1''"

definition build_id_sql :: "string \<Rightarrow> string" where
  "build_id_sql pg_schema = ''SELECT value FROM '' @ table_path pg_schema ''_forge_meta'' @
     '' WHERE key = '' @ [quote_char] @ ''build_id'' @ [quote_char]"

definition migrate :: "'m meta_server \<Rightarrow> (string \<Rightarrow> string) \<Rightarrow> string \<Rightarrow> ('m, db_error, unit) call" where
  "migrate M describe sql = map_err (\<lambda>e. Migration (describe e)) (ms_execute M sql)"

definition manager_build_id :: "manager_lib \<Rightarrow> schema \<Rightarrow> string" where
  "manager_build_id B s = schema_build_id (ml_hex B) (ml_sha256 B) (ml_schema_text B) s"

definition manager_setup :: "manager_lib \<Rightarrow> 'm meta_server \<Rightarrow> schema \<Rightarrow> string \<Rightarrow> ('m, db_error, unit) call" where
  "manager_setup B M s pg_schema =
     seq (migrate M (\<lambda>e. e) (create_schema_sql pg_schema)) (\<lambda>_.
     seq (for_each (\<lambda>stmt. migrate M (\<lambda>e. stmt @ '': '' @ e) stmt) (to_create_sql pg_schema s)) (\<lambda>_.
     seq (migrate M (\<lambda>e. e) (meta_sql pg_schema)) (\<lambda>_.
       map_err Migration (ms_execute_bind M (upsert_sql pg_schema) (manager_build_id B s)))))"

definition check_build_id ::
  "manager_lib \<Rightarrow> 'm meta_server \<Rightarrow> schema \<Rightarrow> string \<Rightarrow> ('m, db_error, build_id_status) call" where
  "check_build_id B M s pg_schema = (\<lambda>m.
     let new_id = manager_build_id B s
     in case ms_fetch_one M (build_id_sql pg_schema) m of
          MA_Found old_id \<Rightarrow> (Inr (if old_id = new_id then BS_Same else BS_Changed old_id new_id), m)
        | MA_RowNotFound \<Rightarrow> (Inr BS_NotFound, m)
        | MA_Missing_Table \<Rightarrow> (Inr BS_NotFound, m)
        | MA_Error e \<Rightarrow> (Inl (Query ''_forge_meta'' e), m))"

definition release_lock :: "'m meta_server \<Rightarrow> database_manager \<Rightarrow> ('m, db_error, unit) call" where
  "release_lock M dm = map_err Migration (ms_unlock M (dm_lock_key dm))"

text \<open>What a database promises of the one row that is written and read.\<close>

locale meta_table =
  fixes M :: "'m meta_server" and pg_schema :: string
  assumes upsert_read: "ms_execute_bind M (upsert_sql pg_schema) v m = (Inr (), m') \<Longrightarrow>
      ms_fetch_one M (build_id_sql pg_schema) m' = MA_Found v"
begin

lemma setup_then_same:
  assumes "manager_setup B M s pg_schema m = (Inr (), m')"
  shows "check_build_id B M s pg_schema m' = (Inr BS_Same, m')"
proof -
  obtain m1 where "ms_execute_bind M (upsert_sql pg_schema) (manager_build_id B s) m1 = (Inr (), m')"
    using assms by (auto simp: manager_setup_def seq_Inr_iff map_err_Inr_iff)
  then have "ms_fetch_one M (build_id_sql pg_schema) m' = MA_Found (manager_build_id B s)" by (rule upsert_read)
  then show ?thesis by (simp add: check_build_id_def Let_def)
qed

end

text \<open>A database that reads the two texts: build identifiers by schema.\<close>

definition read_meta_path :: "string \<Rightarrow> string \<Rightarrow> string option" where
  "read_meta_path prefix sql =
     Option.bind (expect prefix sql) (\<lambda>s. Option.bind (read_path s) (\<lambda>((a, b), r).
       if b = ''_forge_meta'' then Some a else None))"

definition text_meta :: "(string \<rightharpoonup> string) meta_server" where
  "text_meta = \<lparr>
     ms_execute = (\<lambda>sql m. (Inr (), m)),
     ms_execute_bind = (\<lambda>sql v m. case read_meta_path ''INSERT INTO '' sql of
         Some a \<Rightarrow> (Inr (), m(a \<mapsto> v)) | None \<Rightarrow> (Inl ''syntax error'', m)),
     ms_fetch_one = (\<lambda>sql m. case read_meta_path ''SELECT value FROM '' sql of
         Some a \<Rightarrow> (case m a of Some v \<Rightarrow> MA_Found v | None \<Rightarrow> MA_RowNotFound) | None \<Rightarrow> MA_Error Sqlx_Database),
     ms_unlock = (\<lambda>_ m. (Inr (), m)) \<rparr>"

lemma read_meta_texts:
  assumes "plain_name S"
  shows "read_meta_path ''INSERT INTO '' (upsert_sql S) = Some S"
    and "read_meta_path ''SELECT value FROM '' (build_id_sql S) = Some S"
proof -
  have "plain_name ''_forge_meta''" by (simp add: plain_name_def)
  note path = read_path_append [OF assms this]
  show "read_meta_path ''INSERT INTO '' (upsert_sql S) = Some S"
    using path by (simp add: read_meta_path_def upsert_sql_def)
  show "read_meta_path ''SELECT value FROM '' (build_id_sql S) = Some S"
    using path by (simp add: read_meta_path_def build_id_sql_def)
qed

interpretation text_meta: meta_table text_meta "''public''"
  by unfold_locales (simp add: text_meta_def read_meta_texts plain_name_def)

text \<open>
  A change of the schema is never reported: the runner stores the new build
  identifier before it compares it with the stored one, so that on every database the
  comparison finds them equal, whatever was stored before.
\<close>

lemma build_change_never_reported:
  assumes "meta_table M pg_schema"
    and "seq (manager_setup B M s pg_schema) (\<lambda>_. check_build_id B M s pg_schema) m = (Inr status, m')"
  shows "status = BS_Same"
  using assms(2) meta_table.setup_then_same [OF assms(1)] by (auto simp: seq_Inr_iff)

definition demo_manager_lib :: manager_lib where
  "demo_manager_lib = \<lparr> ml_hex = hex_encode_ref, ml_sha256 = (\<lambda>bs. take 2 bs), ml_schema_text = (\<lambda>_. Some ''ab'') \<rparr>"

lemma build_change_never_reported_witness:
  "check_build_id demo_manager_lib text_meta \<lparr> sch_tables = [] \<rparr> ''public'' [''public'' \<mapsto> ''old''] =
     (Inr (BS_Changed ''old'' ''6162''), [''public'' \<mapsto> ''old'']) \<and>
   fst (seq (manager_setup demo_manager_lib text_meta \<lparr> sch_tables = [] \<rparr> ''public'')
     (\<lambda>_. check_build_id demo_manager_lib text_meta \<lparr> sch_tables = [] \<rparr> ''public'') [''public'' \<mapsto> ''old'']) = Inr BS_Same"
proof
  have bid: "manager_build_id demo_manager_lib \<lparr> sch_tables = [] \<rparr> = ''6162''" by code_simp
  show "check_build_id demo_manager_lib text_meta \<lparr> sch_tables = [] \<rparr> ''public'' [''public'' \<mapsto> ''old''] =
     (Inr (BS_Changed ''old'' ''6162''), [''public'' \<mapsto> ''old''])"
    by (simp add: check_build_id_def bid text_meta_def read_meta_texts plain_name_def)
  obtain status m' where run: "seq (manager_setup demo_manager_lib text_meta \<lparr> sch_tables = [] \<rparr> ''public'')
     (\<lambda>_. check_build_id demo_manager_lib text_meta \<lparr> sch_tables = [] \<rparr> ''public'') [''public'' \<mapsto> ''old''] = (Inr status, m')"
    by (simp add: manager_setup_def migrate_def seq_def map_err_def text_meta_def read_meta_texts plain_name_def
        to_create_sql_def check_build_id_def ret_def Let_def)
  show "fst (seq (manager_setup demo_manager_lib text_meta \<lparr> sch_tables = [] \<rparr> ''public'')
     (\<lambda>_. check_build_id demo_manager_lib text_meta \<lparr> sch_tables = [] \<rparr> ''public'') [''public'' \<mapsto> ''old'']) = Inr BS_Same"
    using build_change_never_reported [OF text_meta.meta_table_axioms run] by (simp add: run)
qed

section \<open>The registry\<close>

text \<open>Legacy handlers see an event and a JSON context; setup handlers only the context.\<close>

record event_registry =
  er_handlers :: "string \<rightharpoonup> (decoded_event \<Rightarrow> outcome)"
  er_setup_handlers :: "string \<rightharpoonup> outcome"

definition new_registry :: event_registry where
  "new_registry = \<lparr> er_handlers = Map.empty, er_setup_handlers = Map.empty \<rparr>"

definition register :: "string \<Rightarrow> (decoded_event \<Rightarrow> outcome) \<Rightarrow> event_registry \<Rightarrow> event_registry" where
  "register key h r = r\<lparr>er_handlers := (er_handlers r)(key \<mapsto> h)\<rparr>"

definition register_setup :: "string \<Rightarrow> outcome \<Rightarrow> event_registry \<Rightarrow> event_registry" where
  "register_setup contract h r = r\<lparr>er_setup_handlers := (er_setup_handlers r)(contract \<mapsto> h)\<rparr>"

definition registry_get :: "event_registry \<Rightarrow> string \<Rightarrow> (decoded_event \<Rightarrow> outcome) option" where
  "registry_get r key = er_handlers r key"

definition get_setup :: "event_registry \<Rightarrow> string \<Rightarrow> outcome option" where
  "get_setup r contract = er_setup_handlers r contract"

definition has_handler :: "event_registry \<Rightarrow> string \<Rightarrow> bool" where
  "has_handler r key \<longleftrightarrow> er_handlers r key \<noteq> None"

definition registry_keys :: "event_registry \<Rightarrow> string set" where
  "registry_keys r = dom (er_handlers r)"

section \<open>The builder\<close>

datatype forge_error =
    FE_Rpc u64 string
  | FE_Database sqlx_error
  | FE_AbiDecode string
  | FE_Config string
  | FE_SchemaLocked string
  | FE_Reorg u64 u64
  | FE_Handler string string
  | FE_Io string

record ('d, 'h) forge_index =
  fi_config :: "config option"
  fi_schema :: "schema option"
  fi_legacy_registry :: event_registry
  fi_db_handlers :: "string \<rightharpoonup> 'd handler"
  fi_db_setup_handlers :: "string \<rightharpoonup> 'h"
  fi_all_handler_keys :: "string list"

definition new_forge_index :: "('d, 'h) forge_index" where
  "new_forge_index = \<lparr> fi_config = None, fi_schema = None, fi_legacy_registry = new_registry,
     fi_db_handlers = Map.empty, fi_db_setup_handlers = Map.empty, fi_all_handler_keys = [] \<rparr>"

definition fi_set_config :: "config \<Rightarrow> ('d, 'h) forge_index \<Rightarrow> ('d, 'h) forge_index" where
  "fi_set_config c F = F\<lparr>fi_config := Some c\<rparr>"

definition fi_set_schema :: "schema \<Rightarrow> ('d, 'h) forge_index \<Rightarrow> ('d, 'h) forge_index" where
  "fi_set_schema s F = F\<lparr>fi_schema := Some s\<rparr>"

definition fi_on :: "string \<Rightarrow> (decoded_event \<Rightarrow> outcome) \<Rightarrow> ('d, 'h) forge_index \<Rightarrow> ('d, 'h) forge_index" where
  "fi_on key h F = F\<lparr>fi_legacy_registry := register key h (fi_legacy_registry F),
                     fi_all_handler_keys := fi_all_handler_keys F @ [key]\<rparr>"

definition fi_on_db :: "string \<Rightarrow> 'd handler \<Rightarrow> ('d, 'h) forge_index \<Rightarrow> ('d, 'h) forge_index" where
  "fi_on_db key h F = F\<lparr>fi_db_handlers := (fi_db_handlers F)(key \<mapsto> h),
                        fi_all_handler_keys := fi_all_handler_keys F @ [key]\<rparr>"

definition fi_setup :: "string \<Rightarrow> outcome \<Rightarrow> ('d, 'h) forge_index \<Rightarrow> ('d, 'h) forge_index" where
  "fi_setup contract h F = F\<lparr>fi_legacy_registry := register_setup contract h (fi_legacy_registry F)\<rparr>"

definition fi_setup_db :: "string \<Rightarrow> 'h \<Rightarrow> ('d, 'h) forge_index \<Rightarrow> ('d, 'h) forge_index" where
  "fi_setup_db contract h F = F\<lparr>fi_db_setup_handlers := (fi_db_setup_handlers F)(contract \<mapsto> h)\<rparr>"

record 'd runner =
  ru_config :: config
  ru_schema :: schema
  ru_registry :: event_registry
  ru_db_handlers :: "string \<rightharpoonup> 'd handler"
  ru_build_id :: string

text \<open>The keys of the events of every contract whose ABI can be parsed.\<close>

definition known_events :: "(string \<Rightarrow> (parsed_abi, abi_error) result) \<Rightarrow> config \<Rightarrow> string list" where
  "known_events abi c = concat (map (\<lambda>k. case abi (cc_abi_json k) of
     Inr parsed \<Rightarrow> map (\<lambda>e. cc_name k @ '':'' @ ev_name e) (abi_events parsed)
   | Inl _ \<Rightarrow> []) (cfg_contracts c))"

definition unknown_handler :: "string \<Rightarrow> forge_error" where
  "unknown_handler key = FE_Config (''Handler '' @ quoted key @ '' references unknown contract or event. '' @
     ''Ensure the contract is in the config and the event is in its ABI.'')"

definition fi_build ::
  "(string \<Rightarrow> (parsed_abi, abi_error) result) \<Rightarrow> build_lib \<Rightarrow> ('d, 'h) forge_index \<Rightarrow> forge_error + 'd runner" where
  "fi_build abi B F =
     (case fi_config F of
        None \<Rightarrow> Inl (FE_Config ''Config is required'')
      | Some c \<Rightarrow>
          (case fi_schema F of
             None \<Rightarrow> Inl (FE_Config ''Schema is required'')
           | Some s \<Rightarrow>
               (case find (\<lambda>key. key \<notin> set (known_events abi c)) (fi_all_handler_keys F) of
                  Some key \<Rightarrow> Inl (unknown_handler key)
                | None \<Rightarrow>
                    Inr \<lparr> ru_config = c, ru_schema = s, ru_registry = fi_legacy_registry F,
                          ru_db_handlers = fi_db_handlers F,
                          ru_build_id = compute_build_id B c s (fi_all_handler_keys F) \<rparr>)))"

text \<open>The production setup handlers are lost: no runner ever sees them.\<close>

lemma setup_db_handlers_dropped: "fi_build abi B (fi_setup_db contract h F) = fi_build abi B F"
  by (cases "fi_config F"; cases "fi_schema F") (simp_all add: fi_build_def fi_setup_db_def split: option.splits)

text \<open>Every handler of a runner belongs to an event of a configured contract.\<close>

lemma built_handlers_known:
  assumes "fi_build abi B F = Inr R" and "dom (fi_db_handlers F) \<union> dom (er_handlers (fi_legacy_registry F)) \<subseteq> set (fi_all_handler_keys F)"
  shows "dom (ru_db_handlers R) \<union> dom (er_handlers (ru_registry R)) \<subseteq> set (known_events abi (ru_config R))"
  using assms by (fastforce simp: fi_build_def find_None_iff split: option.splits)

section \<open>Wiring the sync engine\<close>

text \<open>
  What the runner builds on: the parser of ABI texts, the construction of a client from the
  configuration of a chain, which fails on a malformed URL, and the texts of errors.
\<close>

record ('p, 'j) wiring_lib =
  wl_abi :: "string \<Rightarrow> (parsed_abi, abi_error) result"
  wl_client :: "chain_config \<Rightarrow> rpc_error + ('p, 'j) client_env"
  wl_show_rpc :: "rpc_error \<Rightarrow> string"
  wl_show_abi :: "abi_error \<Rightarrow> string"

type_synonym ('p, 'j) wiring = "(u64 \<times> string \<rightharpoonup> ('p, 'j) backfill_worker) \<times> (u64 \<rightharpoonup> contract_config list)"

definition build_client ::
  "('p, 'j) wiring_lib \<Rightarrow> (u64 \<rightharpoonup> ('p, 'j) client_env) \<Rightarrow> chain_config
   \<Rightarrow> (u64 \<rightharpoonup> ('p, 'j) client_env, forge_error) result" where
  "build_client W m ch =
     (case wl_client W ch of
        Inl e \<Rightarrow> Inl (Err (FE_Rpc (ch_chain_id ch) (''Failed to build RPC client: '' @ wl_show_rpc W e)))
      | Inr E \<Rightarrow> Inr (m(ch_chain_id ch \<mapsto> E)))"

definition build_clients ::
  "('p, 'j) wiring_lib \<Rightarrow> chain_config list \<Rightarrow> (u64 \<rightharpoonup> ('p, 'j) client_env, forge_error) result" where
  "build_clients W chs = fold_res (build_client W) Map.empty chs"

text \<open>\<open>collect()\<close> into a map: a later chain of the same name wins.\<close>

definition chain_id_by_name :: "chain_config list \<Rightarrow> string \<rightharpoonup> u64" where
  "chain_id_by_name chs = map_of (rev (map (\<lambda>c. (ch_name c, ch_chain_id c)) chs))"

definition wire_chain ::
  "(string \<rightharpoonup> u64) \<Rightarrow> (u64 \<rightharpoonup> ('p, 'j) client_env) \<Rightarrow> parsed_abi \<Rightarrow> contract_config \<Rightarrow> ('p, 'j) wiring \<Rightarrow> string
   \<Rightarrow> (('p, 'j) wiring, forge_error) result" where
  "wire_chain ids clients abi k st chain_name =
     (case ids chain_name of
        None \<Rightarrow> Inl (Err (FE_Config (''Contract '' @ quoted (cc_name k) @ '' references unknown chain '' @ quoted chain_name)))
      | Some chain_id \<Rightarrow>
          (case clients chain_id of
             None \<Rightarrow> Inr st
           | Some E \<Rightarrow>
               (case st of (workers, contracts) \<Rightarrow>
                  Inr (workers((chain_id, cc_name k) \<mapsto>
                         new_worker E (new_decoder abi) k chain_id (map ev_selector (abi_events abi))),
                       contracts(chain_id \<mapsto>
                         (case contracts chain_id of Some ks \<Rightarrow> ks | None \<Rightarrow> []) @ [k])))))"

definition wire_contract ::
  "('p, 'j) wiring_lib \<Rightarrow> (string \<rightharpoonup> u64) \<Rightarrow> (u64 \<rightharpoonup> ('p, 'j) client_env) \<Rightarrow> ('p, 'j) wiring \<Rightarrow> contract_config
   \<Rightarrow> (('p, 'j) wiring, forge_error) result" where
  "wire_contract W ids clients st k =
     (case wl_abi W (cc_abi_json k) of
        Inl (Err e) \<Rightarrow> Inl (Err (FE_AbiDecode (''Failed to parse ABI for '' @ cc_name k @ '': '' @ wl_show_abi W e)))
      | Inl (Panic m) \<Rightarrow> Inl (Panic m)
      | Inr abi \<Rightarrow> fold_res (wire_chain ids clients abi k) st (cc_chain_names k))"

definition wire ::
  "('p, 'j) wiring_lib \<Rightarrow> config \<Rightarrow> ((u64 \<rightharpoonup> ('p, 'j) client_env) \<times> ('p, 'j) wiring, forge_error) result" where
  "wire W c =
     bind_res (build_clients W (cfg_chains c)) (\<lambda>clients.
     bind_res (fold_res (wire_contract W (chain_id_by_name (cfg_chains c)) clients) (Map.empty, Map.empty) (cfg_contracts c))
       (\<lambda>st. Inr (clients, st)))"

definition chunk_sizes :: "chain_config list \<Rightarrow> u64 \<rightharpoonup> u64" where
  "chunk_sizes chs =
     map_of (rev (filter_map (\<lambda>c. map_option (Pair (ch_chain_id c)) (ch_max_block_range c)) chs))"

subsection \<open>A valid configuration is wired completely\<close>

text \<open>A contract has its worker on every chain it names, and the chain lists it.\<close>

definition wired ::
  "('p, 'j) wiring_lib \<Rightarrow> (string \<rightharpoonup> u64) \<Rightarrow> (u64 \<rightharpoonup> ('p, 'j) client_env) \<Rightarrow> ('p, 'j) wiring \<Rightarrow> contract_config \<Rightarrow> string \<Rightarrow> bool" where
  "wired W ids clients st k n \<longleftrightarrow>
     (\<exists>cid E abi ks. ids n = Some cid \<and> clients cid = Some E \<and> wl_abi W (cc_abi_json k) = Inr abi \<and>
       fst st (cid, cc_name k) = Some (new_worker E (new_decoder abi) k cid (map ev_selector (abi_events abi))) \<and>
       snd st cid = Some ks \<and> k \<in> set ks)"

lemma wire_chain_wired:
  assumes "wl_abi W (cc_abi_json k) = Inr abi" and "ids n = Some cid" and "clients cid = Some E"
  shows "\<exists>st'. wire_chain ids clients abi k st n = Inr st' \<and> wired W ids clients st' k n \<and>
    (\<forall>k' n'. (k' = k \<or> cc_name k' \<noteq> cc_name k) \<longrightarrow> wired W ids clients st k' n' \<longrightarrow> wired W ids clients st' k' n')"
proof -
  obtain ws cs where st: "st = (ws, cs)" by (cases st)
  let ?st = "(ws((cid, cc_name k) \<mapsto> new_worker E (new_decoder abi) k cid (map ev_selector (abi_events abi))),
      cs(cid \<mapsto> (case cs cid of Some ks \<Rightarrow> ks | None \<Rightarrow> []) @ [k]))"
  have "wire_chain ids clients abi k st n = Inr ?st" using assms by (simp add: wire_chain_def st)
  moreover have "wired W ids clients ?st k n" using assms by (auto simp: wired_def)
  moreover have "wired W ids clients ?st k' n'"
    if k': "k' = k \<or> cc_name k' \<noteq> cc_name k" and old: "wired W ids clients st k' n'" for k' n'
  proof -
    obtain cid' E' abi' ks where w: "ids n' = Some cid'" "clients cid' = Some E'" "wl_abi W (cc_abi_json k') = Inr abi'"
      "ws (cid', cc_name k') = Some (new_worker E' (new_decoder abi') k' cid' (map ev_selector (abi_events abi')))"
      "cs cid' = Some ks" "k' \<in> set ks"
      using old by (auto simp: wired_def st)
    show ?thesis
    proof (cases "cid' = cid")
      case True
      then show ?thesis using w k' assms by (auto simp: wired_def)
    next
      case False
      then show ?thesis using w by (auto simp: wired_def)
    qed
  qed
  ultimately show ?thesis by blast
qed

lemma wire_chains_wired:
  assumes "wl_abi W (cc_abi_json k) = Inr abi" and "\<forall>n \<in> set ns. \<exists>cid E. ids n = Some cid \<and> clients cid = Some E"
  shows "\<exists>st'. fold_res (wire_chain ids clients abi k) st ns = Inr st' \<and> (\<forall>n \<in> set ns. wired W ids clients st' k n) \<and>
    (\<forall>k' n'. (k' = k \<or> cc_name k' \<noteq> cc_name k) \<longrightarrow> wired W ids clients st k' n' \<longrightarrow> wired W ids clients st' k' n')"
  using assms(2)
proof (induction ns arbitrary: st)
  case Nil
  then show ?case by simp
next
  case (Cons n ns)
  then obtain cid E where "ids n = Some cid" "clients cid = Some E" by auto
  from wire_chain_wired [of W k abi ids n cid clients E st, OF assms(1) this]
  obtain st1 where st1: "wire_chain ids clients abi k st n = Inr st1" "wired W ids clients st1 k n"
    "\<forall>k' n'. (k' = k \<or> cc_name k' \<noteq> cc_name k) \<longrightarrow> wired W ids clients st k' n' \<longrightarrow> wired W ids clients st1 k' n'" by blast
  have "\<forall>n \<in> set ns. \<exists>cid E. ids n = Some cid \<and> clients cid = Some E" using Cons.prems by simp
  then obtain st2 where st2: "fold_res (wire_chain ids clients abi k) st1 ns = Inr st2"
    "\<forall>n \<in> set ns. wired W ids clients st2 k n"
    "\<forall>k' n'. (k' = k \<or> cc_name k' \<noteq> cc_name k) \<longrightarrow> wired W ids clients st1 k' n' \<longrightarrow> wired W ids clients st2 k' n'"
    using Cons.IH [of st1] by blast
  show ?case using st1 st2 by (intro exI [of _ st2]) auto
qed

lemma wire_contracts_wired:
  assumes "distinct (map cc_name ks)"
    and "\<forall>k \<in> set ks. (\<exists>abi. wl_abi W (cc_abi_json k) = Inr abi) \<and>
           (\<forall>n \<in> set (cc_chain_names k). \<exists>cid E. ids n = Some cid \<and> clients cid = Some E)"
  shows "\<exists>st'. fold_res (wire_contract W ids clients) st ks = Inr st' \<and>
    (\<forall>k \<in> set ks. \<forall>n \<in> set (cc_chain_names k). wired W ids clients st' k n) \<and>
    (\<forall>k' n'. cc_name k' \<notin> cc_name ` set ks \<longrightarrow> wired W ids clients st k' n' \<longrightarrow> wired W ids clients st' k' n')"
  using assms
proof (induction ks arbitrary: st)
  case Nil
  then show ?case by simp
next
  case (Cons k ks)
  obtain abi where abi: "wl_abi W (cc_abi_json k) = Inr abi" using Cons.prems(2) by auto
  then obtain st1 where st1: "wire_contract W ids clients st k = Inr st1"
    "\<forall>n \<in> set (cc_chain_names k). wired W ids clients st1 k n"
    "\<forall>k' n'. cc_name k' \<noteq> cc_name k \<longrightarrow> wired W ids clients st k' n' \<longrightarrow> wired W ids clients st1 k' n'"
    using wire_chains_wired [OF abi, of "cc_chain_names k" ids clients st] Cons.prems(2)
    by (auto simp: wire_contract_def)
  obtain st2 where st2: "fold_res (wire_contract W ids clients) st1 ks = Inr st2"
    "\<forall>k \<in> set ks. \<forall>n \<in> set (cc_chain_names k). wired W ids clients st2 k n"
    "\<forall>k' n'. cc_name k' \<notin> cc_name ` set ks \<longrightarrow> wired W ids clients st1 k' n' \<longrightarrow> wired W ids clients st2 k' n'"
    using Cons.IH [of st1] Cons.prems by auto
  show ?case using st1 st2 Cons.prems(1) by (intro exI [of _ st2]) auto
qed

lemma build_clients_ok:
  assumes "\<forall>ch \<in> set chs. \<exists>E. wl_client W ch = Inr E"
  shows "\<exists>m'. fold_res (build_client W) m chs = Inr m' \<and> dom m \<union> ch_chain_id ` set chs \<subseteq> dom m'"
  using assms
proof (induction chs arbitrary: m)
  case Nil
  then show ?case by simp
next
  case (Cons ch chs)
  obtain E where E: "wl_client W ch = Inr E" using Cons.prems by auto
  obtain m' where "fold_res (build_client W) (m(ch_chain_id ch \<mapsto> E)) chs = Inr m'"
    "dom (m(ch_chain_id ch \<mapsto> E)) \<union> ch_chain_id ` set chs \<subseteq> dom m'"
    using Cons.IH Cons.prems by (metis list.set_intros(2))
  moreover have "build_client W m ch = Inr (m(ch_chain_id ch \<mapsto> E))" using E by (simp add: build_client_def)
  ultimately show ?case by auto
qed

lemma chain_id_by_name_some:
  assumes "n \<in> ch_name ` set chs"
  obtains cid where "chain_id_by_name chs n = Some cid" and "cid \<in> ch_chain_id ` set chs"
proof -
  have "n \<in> dom (chain_id_by_name chs)"
    using assms by (auto simp: chain_id_by_name_def dom_map_of_conv_image_fst image_image)
  then obtain cid where cid: "chain_id_by_name chs n = Some cid" by auto
  then have "(n, cid) \<in> set (map (\<lambda>c. (ch_name c, ch_chain_id c)) chs)"
    unfolding chain_id_by_name_def by (metis map_of_SomeD set_rev)
  with cid that show thesis by auto
qed


text \<open>One chain and one contract on it.\<close>

definition demo_builder :: config_builder where
  "demo_builder =
     cb_set_database (db_postgres ''postgres://localhost'')
       (cb_contract ''Token'' (\<lambda>k. k\<lparr>cc_chain_names := [''mainnet'']\<rparr>)
         (cb_chain ''mainnet'' (\<lambda>ch. ch\<lparr>ch_chain_id := 1, ch_rpc_http := ''http://localhost''\<rparr>) new_config_builder))"

definition demo_wiring :: "('p, 'j) client_env \<Rightarrow> ('p, 'j) wiring_lib" where
  "demo_wiring E = \<lparr> wl_abi = (\<lambda>_. Inr \<lparr> abi_events = [], abi_functions = [] \<rparr>), wl_client = (\<lambda>_. Inr E),
     wl_show_rpc = (\<lambda>_. []), wl_show_abi = (\<lambda>_. []) \<rparr>"


text \<open>
  Names need not be distinct for the validation: of two contracts of one name on one chain,
  only the later one has a worker.
\<close>

lemma same_name_overwrites:
  assumes "wl_abi W (cc_abi_json k) = Inr abi" and "ids n = Some cid" and "clients cid = Some E"
    and "cc_name k' = cc_name k" and "wire_chain ids clients abi k st n = Inr st'"
  shows "\<exists>w. fst st' (cid, cc_name k') = Some w \<and> bw_contract w = k"
  using assms by (cases st) (auto simp: wire_chain_def new_worker_def)

section \<open>The run of an indexer\<close>

text \<open>
  The state of a run: the database of the manager, the sync engine with the clients of the
  chains, the ready signal, and whether the task of the API server exists: spawned and not
  aborted. The client of a chain is loaded into the sync state while
  its chain is worked on; the cache in the database is shared.
\<close>

record ('m, 'p, 'j, 'd) app_state =
  ap_meta :: 'm
  ap_sync :: "('p, 'j, 'd) sync_state"
  ap_nets :: "u64 \<rightharpoonup> 'p"
  ap_ready :: bool
  ap_serving :: bool

record ('m, 'p, 'j, 'd) app_lib =
  al_wiring :: "('p, 'j) wiring_lib"
  al_manager :: manager_lib
  al_meta :: "'m meta_server"
  al_connect :: "string \<Rightarrow> u32 \<Rightarrow> string + unit"
  al_cache_setup :: "('m, string, unit) call"
  al_show_db :: "db_error \<Rightarrow> string"
  al_show_sync :: "sync_error \<Rightarrow> string"
  al_renderer :: renderer
  al_exec :: "'d execute"
  al_keys :: "(string \<rightharpoonup> row list) \<Rightarrow> string list"
  al_fail :: "nat \<Rightarrow> bool"
  al_chain_order :: "(u64 \<rightharpoonup> contract_config list) \<Rightarrow> u64 list"

definition app_coordinator ::
  "('m, 'p, 'j, 'd) app_lib \<Rightarrow> 'd runner \<Rightarrow> ('p, 'j) wiring \<Rightarrow> ('p, 'j, 'd) coordinator" where
  "app_coordinator A R st =
     \<lparr> co_workers = fst st, co_registry = er_handlers (ru_registry R), co_db_handlers = ru_db_handlers R,
       co_renderer = al_renderer A, co_exec = al_exec A, co_keys = al_keys A, co_fail = al_fail A,
       co_chain_contracts = snd st, co_chunk_sizes = chunk_sizes (cfg_chains (ru_config R)) \<rparr>"

definition load_net :: "u64 \<Rightarrow> ('m, 'p, 'j, 'd) app_state \<Rightarrow> ('p, 'j, 'd) sync_state" where
  "load_net chain_id s =
     (case ap_nets s chain_id of
        Some p \<Rightarrow> (ap_sync s)\<lparr>ss_client := (ss_client (ap_sync s))\<lparr>cs_net := p\<rparr>\<rparr>
      | None \<Rightarrow> ap_sync s)"

definition store_net ::
  "u64 \<Rightarrow> ('p, 'j, 'd) sync_state \<Rightarrow> ('m, 'p, 'j, 'd) app_state \<Rightarrow> ('m, 'p, 'j, 'd) app_state" where
  "store_net chain_id y s = s\<lparr>ap_sync := y, ap_nets := (ap_nets s)(chain_id \<mapsto> cs_net (ss_client y))\<rparr>"

text \<open>The backfill of one chain, and the loop over the chains; \<open>None\<close> if a planner never ends.\<close>

definition backfill_chain ::
  "('m, 'p, 'j, 'd) app_lib \<Rightarrow> 'd runner \<Rightarrow> (u64 \<rightharpoonup> ('p, 'j) client_env) \<Rightarrow> ('p, 'j) wiring \<Rightarrow> u64
   \<Rightarrow> ('m, 'p, 'j, 'd) app_state \<Rightarrow> ((unit, forge_error) result \<times> ('m, 'p, 'j, 'd) app_state) option" where
  "backfill_chain A R clients st chain_id s =
     (case clients chain_id of
        None \<Rightarrow> Some (Inr (), s)
      | Some E \<Rightarrow>
          (case on_client (cached_get_block_number E) (load_net chain_id s) of
             (Inl (Panic m), y) \<Rightarrow> Some (Inl (Panic m), store_net chain_id y s)
           | (Inl (Err e), y) \<Rightarrow>
               Some (Inl (Err (FE_Rpc chain_id (''Failed to get current block: '' @ wl_show_rpc (al_wiring A) e))),
                     store_net chain_id y s)
           | (Inr current_block, y) \<Rightarrow>
               (case run_chain (app_coordinator A R st) chain_id current_block y of
                  None \<Rightarrow> None
                | Some (r, y) \<Rightarrow>
                    Some (case r of
                        Inl f \<Rightarrow> Inl (lift_err (\<lambda>e. FE_Config (''Backfill failed: '' @ al_show_sync A e)) f)
                      | Inr _ \<Rightarrow> Inr (),
                      store_net chain_id y s))))"

fun backfill_chains ::
  "('m, 'p, 'j, 'd) app_lib \<Rightarrow> 'd runner \<Rightarrow> (u64 \<rightharpoonup> ('p, 'j) client_env) \<Rightarrow> ('p, 'j) wiring \<Rightarrow> u64 list
   \<Rightarrow> ('m, 'p, 'j, 'd) app_state \<Rightarrow> ((unit, forge_error) result \<times> ('m, 'p, 'j, 'd) app_state) option" where
  "backfill_chains A R clients st [] s = Some (Inr (), s)"
| "backfill_chains A R clients st (c # cs) s =
     (case backfill_chain A R clients st c s of
        None \<Rightarrow> None
      | Some (Inl e, s) \<Rightarrow> Some (Inl e, s)
      | Some (Inr _, s) \<Rightarrow> backfill_chains A R clients st cs s)"

text \<open>The setup handlers of the contracts in order. A failure is only logged; a panic ends the program.\<close>

datatype setup_end = Setup_Done | Setup_Panics string

fun setup_handlers :: "event_registry \<Rightarrow> contract_config list \<Rightarrow> setup_end" where
  "setup_handlers r [] = Setup_Done"
| "setup_handlers r (k # ks) =
     (case get_setup r (cc_name k) of
        Some (Call_Panics p) \<Rightarrow> Setup_Panics (panic_message p)
      | Some (Future_Panics m) \<Rightarrow> Setup_Panics m
      | Some (Returns _) \<Rightarrow> setup_handlers r ks
      | None \<Rightarrow> setup_handlers r ks)"

text \<open>Everything before the backfill: the database, the caches, the wiring and the setup handlers.\<close>

definition start_up ::
  "('m, 'p, 'j, 'd) app_lib \<Rightarrow> 'd runner \<Rightarrow> string
   \<Rightarrow> ('m, forge_error failure, database_manager \<times> (u64 \<rightharpoonup> ('p, 'j) client_env) \<times> ('p, 'j) wiring) call" where
  "start_up A R pg_schema =
     seq (map_err (\<lambda>e. Err (FE_Config (''Database setup failed: '' @ al_show_db A e)))
           (lift_res (manager_new (al_manager A) (al_connect A) (cfg_database (ru_config R))))) (\<lambda>dm.
     seq (map_err (\<lambda>e. Err (case e of SchemaLocked n \<Rightarrow> FE_SchemaLocked n
                    | _ \<Rightarrow> FE_Config (''Schema migration failed: '' @ al_show_db A e)))
           (manager_setup (al_manager A) (al_meta A) (ru_schema R) pg_schema)) (\<lambda>_.
     seq (map_err (\<lambda>e. Err (FE_Config (''Build ID check failed: '' @ al_show_db A e)))
           (check_build_id (al_manager A) (al_meta A) (ru_schema R) pg_schema)) (\<lambda>_.
     seq (map_err (\<lambda>e. Err (FE_Config (''Failed to set up cache store: '' @ e))) (al_cache_setup A)) (\<lambda>_.
     seq (lift_res (wire (al_wiring A) (ru_config R))) (\<lambda>(clients, st).
       case setup_handlers (ru_registry R) (cfg_contracts (ru_config R)) of
         Setup_Panics m \<Rightarrow> throw (Panic m)
       | Setup_Done \<Rightarrow> ret (dm, clients, st))))))"

definition shut_down ::
  "('m, 'p, 'j, 'd) app_lib \<Rightarrow> database_manager \<Rightarrow> ('m, 'p, 'j, 'd) app_state \<Rightarrow> (unit, forge_error) result \<times> ('m, 'p, 'j, 'd) app_state" where
  "shut_down A dm s =
     (case map_err (lift_err Sync_Database) (on_buffer (flush_all (al_renderer A) (al_exec A) (al_keys A))) (ap_sync s) of
        (Inl f, y) \<Rightarrow> (Inl (lift_err (\<lambda>e. FE_Config (''Final flush failed: '' @ al_show_sync A e)) f), s\<lparr>ap_sync := y\<rparr>)
      | (Inr _, y) \<Rightarrow>
          (case release_lock (al_meta A) dm (ap_meta s) of
             (Inl e, m) \<Rightarrow> (Inl (Err (FE_Config (''Lock release failed: '' @ al_show_db A e))), s\<lparr>ap_sync := y, ap_meta := m\<rparr>)
           | (Inr _, m) \<Rightarrow> (Inr (), s\<lparr>ap_sync := y, ap_meta := m, ap_serving := False\<rparr>)))"

text \<open>Up to the point where the API server is spawned and the backfill begins.\<close>

definition launch ::
  "('m, 'p, 'j, 'd) app_lib \<Rightarrow> 'd runner \<Rightarrow> ('m, 'p, 'j, 'd) app_state
   \<Rightarrow> (database_manager \<times> (u64 \<rightharpoonup> ('p, 'j) client_env) \<times> ('p, 'j) wiring, forge_error) result \<times> ('m, 'p, 'j, 'd) app_state" where
  "launch A R s =
     (case cfg_database (ru_config R) of
        PGlite _ \<Rightarrow> (Inl (Err (FE_Config ''PGlite is not yet supported'')), s)
      | Postgres _ pg_schema _ \<Rightarrow>
          (case start_up A R pg_schema (ap_meta s) of
             (Inl e, m) \<Rightarrow> (Inl e, s\<lparr>ap_meta := m\<rparr>)
           | (Inr x, m) \<Rightarrow>
               (Inr x, s\<lparr>ap_meta := m, ap_sync := (ap_sync s)\<lparr>ss_buffer := new_buffer pg_schema (ru_schema R)\<rparr>,
                         ap_serving := True\<rparr>)))"

text \<open>An error of the backfill leaves the server's task behind; only an orderly end aborts it.\<close>

definition app_run ::
  "('m, 'p, 'j, 'd) app_lib \<Rightarrow> 'd runner \<Rightarrow> ('m, 'p, 'j, 'd) app_state
   \<Rightarrow> ((unit, forge_error) result \<times> ('m, 'p, 'j, 'd) app_state) option" where
  "app_run A R s =
     (case launch A R s of
        (Inl e, s) \<Rightarrow> Some (Inl e, s)
      | (Inr (dm, clients, st), s) \<Rightarrow>
          (case backfill_chains A R clients st (al_chain_order A (snd st)) s of
             None \<Rightarrow> None
           | Some (Inl e, s) \<Rightarrow> Some (Inl e, s)
           | Some (Inr _, s) \<Rightarrow> Some (shut_down A dm (s\<lparr>ap_ready := True\<rparr>))))"

text \<open>\<open>ForgeIndex::run\<close>.\<close>

definition fi_run ::
  "('m, 'p, 'j, 'd) app_lib \<Rightarrow> build_lib \<Rightarrow> ('d, 'h) forge_index \<Rightarrow> ('m, 'p, 'j, 'd) app_state
   \<Rightarrow> ((unit, forge_error) result \<times> ('m, 'p, 'j, 'd) app_state) option" where
  "fi_run A B F s =
     (case fi_build (wl_abi (al_wiring A)) B F of
        Inl e \<Rightarrow> Some (Inl (Err e), s)
      | Inr R \<Rightarrow> app_run A R s)"

subsection \<open>When the backfill of every chain has succeeded\<close>

text \<open>
  Said without the loop: the chain has a client, which tells the current block, and the run of the chain
  up to that block succeeds; and this for one chain after the other.
\<close>

inductive chain_indexed ::
  "('m, 'p, 'j, 'd) app_lib \<Rightarrow> 'd runner \<Rightarrow> (u64 \<rightharpoonup> ('p, 'j) client_env) \<Rightarrow> ('p, 'j) wiring \<Rightarrow> u64
   \<Rightarrow> ('m, 'p, 'j, 'd) app_state \<Rightarrow> ('m, 'p, 'j, 'd) app_state \<Rightarrow> bool"
  for A R clients st c s where
  indexed: "clients c = Some E \<Longrightarrow> on_client (cached_get_block_number E) (load_net c s) = (Inr current, y) \<Longrightarrow>
    run_chain (app_coordinator A R st) c current y = Some (Inr u, y') \<Longrightarrow> t = store_net c y' s \<Longrightarrow>
    chain_indexed A R clients st c s t"

inductive chains_indexed ::
  "('m, 'p, 'j, 'd) app_lib \<Rightarrow> 'd runner \<Rightarrow> (u64 \<rightharpoonup> ('p, 'j) client_env) \<Rightarrow> ('p, 'j) wiring \<Rightarrow> u64 list
   \<Rightarrow> ('m, 'p, 'j, 'd) app_state \<Rightarrow> ('m, 'p, 'j, 'd) app_state \<Rightarrow> bool"
  for A R clients st where
  no_chain: "chains_indexed A R clients st [] s s"
| next_chain: "chain_indexed A R clients st c s t \<Longrightarrow> chains_indexed A R clients st cs t u \<Longrightarrow>
    chains_indexed A R clients st (c # cs) s u"

inductive_simps chain_indexed_iff: "chain_indexed A R clients st c s t"
inductive_simps chains_indexed_Nil: "chains_indexed A R clients st [] s t"
inductive_simps chains_indexed_Cons: "chains_indexed A R clients st (c # cs) s t"

lemma backfill_chain_indexed:
  assumes "clients c \<noteq> None"
  shows "backfill_chain A R clients st c s = Some (Inr (), t) \<longleftrightarrow> chain_indexed A R clients st c s t"
  using assms
  by (auto simp: chain_indexed_iff backfill_chain_def split: option.splits prod.splits sum.splits failure.splits)

lemma backfill_chains_indexed:
  assumes "set cs \<subseteq> dom clients"
  shows "backfill_chains A R clients st cs s = Some (Inr (), t) \<longleftrightarrow> chains_indexed A R clients st cs s t"
  using assms
proof (induction cs arbitrary: s)
  case Nil
  then show ?case by (auto simp: chains_indexed_Nil)
next
  case (Cons c cs)
  then have "clients c \<noteq> None" by auto
  note one = backfill_chain_indexed [where clients = clients and c = c, OF this]
  have "backfill_chains A R clients st (c # cs) s = Some (Inr (), t) \<longleftrightarrow>
      (\<exists>s1. backfill_chain A R clients st c s = Some (Inr (), s1) \<and> backfill_chains A R clients st cs s1 = Some (Inr (), t))"
    by (auto split: option.splits sum.splits)
  also have "\<dots> \<longleftrightarrow> chains_indexed A R clients st (c # cs) s t"
    using Cons.IH Cons.prems by (auto simp: chains_indexed_Cons one simp del: backfill_chains.simps)
  finally show ?case .
qed

text \<open>A chain that has contracts has a client.\<close>

lemma wire_clients:
  assumes "wire W c = Inr (clients, st)"
  shows "dom (snd st) \<subseteq> dom clients" and "finite (dom (snd st))"
proof -
  let ?ids = "chain_id_by_name (cfg_chains c)"
  let ?I = "\<lambda>st. dom (snd st) \<subseteq> dom clients \<and> finite (dom (snd st))"
  have chain: "?I st'" if "?I st" "wire_chain ?ids clients abi k st n = Inr st'" for abi k n st st'
    using that by (auto simp: wire_chain_def dest: subsetD [OF _ domI] split: option.splits prod.splits if_splits)
  have contract: "?I st'" if old: "?I st" and new: "wire_contract W ?ids clients st k = Inr st'" for k st st'
  proof -
    obtain abi where "fold_res (wire_chain ?ids clients abi k) st (cc_chain_names k) = Inr st'"
      using new by (auto simp: wire_contract_def split: sum.splits failure.splits)
    then show ?thesis by (rule fold_res_inv [where P = ?I]) (use old chain in blast)+
  qed
  have "fold_res (wire_contract W ?ids clients) (Map.empty, Map.empty) (cfg_contracts c) = Inr st"
    using assms by (auto simp: wire_def bind_res_Inr_iff)
  then have "?I st" by (rule fold_res_inv [where P = ?I]) (use contract in \<open>simp | blast\<close>)+
  then show "dom (snd st) \<subseteq> dom clients" "finite (dom (snd st))" by simp_all
qed

lemma start_up_wires:
  assumes "start_up A R w m = (Inr (dm, clients, st), m')"
  shows "wire (al_wiring A) (ru_config R) = Inr (clients, st)"
  using assms
  by (cases "setup_handlers (ru_registry R) (cfg_contracts (ru_config R))")
    (auto simp: start_up_def seq_Inr_iff lift_res_def throw_def ret_def split: prod.splits)

lemma launch_wires:
  assumes "launch A R s = (Inr (dm, clients, st), t)"
  shows "wire (al_wiring A) (ru_config R) = Inr (clients, st)" and "ap_serving t" and "ap_ready t = ap_ready s"
  using assms by (auto simp: launch_def dest: start_up_wires split: database_config.splits prod.splits sum.splits)

lemma launch_fails:
  assumes "launch A R s = (Inl e, t)"
  shows "ap_serving t = ap_serving s" and "ap_ready t = ap_ready s"
  using assms by (auto simp: launch_def split: database_config.splits prod.splits sum.splits)

text \<open>The keys of a hash map: each once, in any order.\<close>

definition lists_chains :: "('m, 'p, 'j, 'd) app_lib \<Rightarrow> bool" where
  "lists_chains A \<longleftrightarrow>
     (\<forall>m. finite (dom m) \<longrightarrow> distinct (al_chain_order A m) \<and> set (al_chain_order A m) = dom m)"

definition backfill_complete :: "('m, 'p, 'j, 'd) app_lib \<Rightarrow> 'd runner \<Rightarrow> ('m, 'p, 'j, 'd) app_state \<Rightarrow> bool" where
  "backfill_complete A R s \<longleftrightarrow>
     (\<exists>dm clients st s1 u. launch A R s = (Inr (dm, clients, st), s1) \<and>
        set (al_chain_order A (snd st)) = dom (snd st) \<and>
        chains_indexed A R clients st (al_chain_order A (snd st)) s1 u)"

lemma backfill_complete_iff:
  assumes "lists_chains A" and up: "launch A R s = (Inr (dm, clients, st), s1)"
  shows "backfill_complete A R s \<longleftrightarrow>
    (\<exists>u. backfill_chains A R clients st (al_chain_order A (snd st)) s1 = Some (Inr (), u))"
proof -
  note w = wire_clients [OF launch_wires(1) [OF up]]
  have order: "set (al_chain_order A (snd st)) = dom (snd st)" using assms(1) w(2) by (simp add: lists_chains_def)
  then show ?thesis
    using w(1) backfill_chains_indexed [of "al_chain_order A (snd st)" clients A R st s1]
    by (auto simp: backfill_complete_def up)
qed

text \<open>What the steps do to the two signals.\<close>

lemma backfill_chain_signals:
  "backfill_chain A R clients st c s = Some (r, s') \<Longrightarrow> ap_ready s' = ap_ready s \<and> ap_serving s' = ap_serving s"
  by (auto simp: backfill_chain_def store_net_def split: option.splits prod.splits sum.splits failure.splits)

lemma backfill_chains_signals:
  "backfill_chains A R clients st cs s = Some (r, s') \<Longrightarrow> ap_ready s' = ap_ready s \<and> ap_serving s' = ap_serving s"
  by (induction cs arbitrary: s)
    (auto split: option.splits prod.splits sum.splits dest!: backfill_chain_signals)

lemma shut_down_signals:
  assumes "shut_down A dm s = (r, s')"
  shows "ap_ready s' = ap_ready s" and "ap_serving s' \<longleftrightarrow> ap_serving s \<and> r \<noteq> Inr ()"
  using assms by (auto simp: shut_down_def split: prod.splits sum.splits)

text \<open>
  How a run ends: without a server if the start-up failed; with the server's task left
  behind if something failed later; and aborted after an orderly end.
\<close>

lemma app_run_signals:
  assumes "lists_chains A" and "\<not> ap_ready s" and "\<not> ap_serving s" and "app_run A R s = Some (r, s')"
  shows "ap_ready s' \<longleftrightarrow> backfill_complete A R s"
    and "ap_serving s' \<longleftrightarrow> r \<noteq> Inr () \<and> (\<exists>x t. launch A R s = (Inr x, t))"
proof -
  obtain x s1 where up: "launch A R s = (x, s1)" by (cases "launch A R s")
  have "(ap_ready s' \<longleftrightarrow> backfill_complete A R s) \<and> (ap_serving s' \<longleftrightarrow> r \<noteq> Inr () \<and> (\<exists>x t. launch A R s = (Inr x, t)))"
  proof (cases x)
    case (Inl e)
    then have fin: "r = Inl e" "s' = s1" using assms(4) up by (simp_all add: app_run_def)
    have "\<not> backfill_complete A R s" using up Inl by (simp add: backfill_complete_def)
    then show ?thesis using launch_fails [OF up [unfolded Inl]] fin assms(2,3) up Inl by simp
  next
    case (Inr b)
    obtain dm clients st where b: "b = (dm, clients, st)" by (cases b)
    note up = up [unfolded Inr b]
    obtain y s2 where run: "backfill_chains A R clients st (al_chain_order A (snd st)) s1 = Some (y, s2)"
      using assms(4) up by (auto simp: app_run_def split: option.splits)
    note signals = backfill_chains_signals [OF run] launch_wires(2,3) [OF up] backfill_complete_iff [OF assms(1) up]
    show ?thesis
    proof (cases y)
      case (Inl e)
      then have "r = Inl e" "s' = s2" using assms(4) up run by (simp_all add: app_run_def)
      then show ?thesis using signals run Inl assms(2) up by auto
    next
      case (Inr u)
      then have "shut_down A dm (s2\<lparr>ap_ready := True\<rparr>) = (r, s')" using assms(4) up run by (simp add: app_run_def)
      from shut_down_signals [OF this] show ?thesis using signals run Inr up by auto
    qed
  qed
  then show "ap_ready s' \<longleftrightarrow> backfill_complete A R s" "ap_serving s' \<longleftrightarrow> r \<noteq> Inr () \<and> (\<exists>x t. launch A R s = (Inr x, t))"
    by simp_all
qed

section \<open>Errors of the RPC client\<close>

text \<open>The conversion into the error of the framework: most variants do not know their chain.\<close>

definition forge_of_rpc_error :: "(rpc_error \<Rightarrow> string) \<Rightarrow> rpc_error \<Rightarrow> forge_error" where
  "forge_of_rpc_error shown e =
     (let chain_id = (case e of RateLimit c \<Rightarrow> c | NoWebSocket c \<Rightarrow> c | _ \<Rightarrow> 0)
      in FE_Rpc chain_id (shown e))"

end
