(* ===== verification/Typed_Server.thy ===== *)
theory Typed_Server
  imports Write_Buffer
begin

text \<open>
  A server for tables with integer columns. The server of \<open>Sql_Text\<close> reads a number as a
  numeral; a database converts it to the type of its column. The laws of the interface
  carry over, because a row and the row with its integers written as numerals give the same
  statement texts.
\<close>

datatype column_kind = K_Text | K_Int | K_BigInt

fun cast :: "column_kind \<Rightarrow> column_value \<Rightarrow> column_value" where
  "cast K_Int (CV_BigNumeric s) = CV_Int (of_nat (digits_val s))"
| "cast K_BigInt (CV_BigNumeric s) = CV_BigInt (of_nat (digits_val s))"
| "cast k v = v"

definition typed_view :: "(string \<Rightarrow> column_kind) \<Rightarrow> table_state \<Rightarrow> table_state" where
  "typed_view kind st = (\<lambda>k. map_option (\<lambda>m c. cast (kind c) (m c)) (st k))"

text \<open>Integers as numerals.\<close>

fun numeral_value :: "column_value \<Rightarrow> column_value" where
  "numeral_value (CV_Int i) = CV_BigNumeric (int_str (sint i))"
| "numeral_value (CV_BigInt i) = CV_BigNumeric (int_str (sint i))"
| "numeral_value v = v"

definition numeral_row :: "row \<Rightarrow> row" where
  "numeral_row r = r\<lparr>row_columns := map (\<lambda>(c, v). (c, numeral_value v)) (row_columns r)\<rparr>"

text \<open>Values that fit their columns; integers are not negative.\<close>

fun fits :: "column_kind \<Rightarrow> column_value \<Rightarrow> bool" where
  "fits K_Int v \<longleftrightarrow> (case v of CV_Int i \<Rightarrow> 0 \<le> sint i | _ \<Rightarrow> False)"
| "fits K_BigInt v \<longleftrightarrow> (case v of CV_BigInt i \<Rightarrow> 0 \<le> sint i | _ \<Rightarrow> False)"
| "fits K_Text v \<longleftrightarrow> plain_value v"

definition typed_storable :: "(string \<Rightarrow> column_kind) \<Rightarrow> string \<Rightarrow> row \<Rightarrow> bool" where
  "typed_storable kind pk r \<longleftrightarrow>
     kind pk = K_Text \<and> row_key pk r \<noteq> CV_Null \<and> list_all (\<lambda>(c, v). fits (kind c) v) (row_columns r)"

lemma numeral_literal [simp]: "to_sql_literal R (numeral_value v) = to_sql_literal R v"
  by (cases v) simp_all

lemma numeral_get [simp]: "row_get (numeral_row r) c = map_option numeral_value (row_get r c)"
  by (simp add: row_get_def numeral_row_def map_of_map)

lemma numeral_sql:
  "insert_sql R S t cols (map numeral_row rows) = insert_sql R S t cols rows"
  "update_sets R cols pk (numeral_row r) = update_sets R cols pk r"
  "update_sql R S t cols pk (numeral_row r) = update_sql R S t cols pk r"
  "delete_sql R S t pk (map numeral_row rows) = delete_sql R S t pk rows"
proof -
  have lit: "literal_or_null R (numeral_row r) = literal_or_null R r" for r
    by (auto simp: literal_or_null_def fun_eq_iff split: option.splits)
  show "insert_sql R S t cols (map numeral_row rows) = insert_sql R S t cols rows"
    by (simp add: insert_sql_def lit o_def)
  show sets: "update_sets R cols pk (numeral_row r) = update_sets R cols pk r"
    by (simp add: update_sets_def option.map_comp o_def)
  show "update_sql R S t cols pk (numeral_row r) = update_sql R S t cols pk r"
    by (simp add: update_sql_def sets lit)
  have "delete_keys R pk (map numeral_row rows) = delete_keys R pk rows"
    by (simp add: delete_keys_def filter_map_conv o_def filter_map option.map_comp)
  then show "delete_sql R S t pk (map numeral_row rows) = delete_sql R S t pk rows"
    by (simp add: delete_sql_def)
qed

lemma cast_numeral: "fits k v \<Longrightarrow> cast k (numeral_value v) = v"
proof (cases v)
  case (CV_Int i)
  moreover assume "fits k v"
  ultimately have "k = K_Int" "0 \<le> sint i" by (cases k; simp)+
  then show ?thesis using CV_Int by (simp add: int_str_def)
qed (cases k; simp add: int_str_def)+

section \<open>Effects\<close>

lemma typed_get: "typed_storable kind pk r \<Longrightarrow> row_get r c = Some v \<Longrightarrow> fits (kind c) v"
  using map_of_SomeD [of "row_columns r" c v] by (auto simp: typed_storable_def row_get_def list_all_iff)

lemma typed_cast:
  "typed_storable kind pk r \<Longrightarrow> cast (kind c) (value_or_null (numeral_row r) c) = value_or_null r c"
  using typed_get [of kind pk r c] cast_numeral [of "kind c"]
  by (cases "row_get r c") (auto simp: value_or_null_def simp del: fits.simps)

lemma typed_key: "typed_storable kind pk r \<Longrightarrow> row_key pk (numeral_row r) = row_key pk r"
  using typed_cast [of kind pk r pk] by (simp add: typed_storable_def row_key_def)

lemma fits_plain: "fits k v \<Longrightarrow> plain_value (numeral_value v)"
  by (cases v; cases k) (auto simp: int_str_def nat_str_digits)

lemma typed_text_storable: "typed_storable kind pk r \<Longrightarrow> text_storable pk (numeral_row r)"
  using typed_key [of kind pk r]
  by (auto simp: typed_storable_def text_storable_def numeral_row_def list_all_iff dest!: bspec dest: fits_plain)

lemma typed_content:
  "typed_storable kind pk r \<Longrightarrow> (\<lambda>c. cast (kind c) (row_content cols (numeral_row r) c)) = row_content cols r"
  using typed_cast [of kind pk r] by (auto simp: row_content_def fun_eq_iff)

lemma view_insert: "typed_view kind (insert_effect k m st) = insert_effect k (\<lambda>c. cast (kind c) (m c)) (typed_view kind st)"
  by (auto simp: typed_view_def insert_effect_def fun_eq_iff split: option.splits)

lemma view_update:
  "typed_view kind (update_effect k sets st) =
     update_effect k (map (\<lambda>(c, v). (c, cast (kind c) v)) sets) (typed_view kind st)"
proof -
  have "map_of (map (\<lambda>(c, v). (c, cast (kind c) v)) sets) c = map_option (cast (kind c)) (map_of sets c)" for c
    by (induction sets) auto
  then show ?thesis
    by (auto simp: typed_view_def update_effect_def fun_eq_iff split: option.splits)
qed

lemma view_delete: "typed_view kind (delete_effect k st) = delete_effect k (typed_view kind st)"
  by (auto simp: typed_view_def delete_effect_def fun_eq_iff)

section \<open>The laws\<close>

lemma typed_sets:
  assumes "typed_storable kind pk r"
  shows "map (\<lambda>(c, v). (c, cast (kind c) v)) (row_sets cols pk (numeral_row r)) = row_sets cols pk r"
proof -
  have "cast (kind c) (numeral_value v) = v" if "row_get r c = Some v" for c v
    using typed_get [OF assms that] by (rule cast_numeral)
  then show ?thesis by (auto simp: row_sets_def filter_map_conv)
qed

lemma view_inserts:
  "list_all (typed_storable kind pk) rows \<Longrightarrow>
     typed_view kind (fold (\<lambda>r. insert_effect (row_key pk r) (row_content cols r)) (map numeral_row rows) st) =
     fold (\<lambda>r. insert_effect (row_key pk r) (row_content cols r)) rows (typed_view kind st)"
  by (induction rows arbitrary: st) (auto simp: view_insert typed_key typed_content)

lemma view_deletes:
  "list_all (typed_storable kind pk) rows \<Longrightarrow>
     typed_view kind (fold (\<lambda>r. delete_effect (row_key pk r)) (map numeral_row rows) st) =
     fold (\<lambda>r. delete_effect (row_key pk r)) rows (typed_view kind st)"
  by (induction rows arbitrary: st) (auto simp: view_delete typed_key)

interpretation typed_server:
  sql_table "text_exec S t cols pk" "typed_view kind" "typed_storable kind pk" R S t cols pk
  for S t cols pk kind R
proof
  show "typed_storable kind pk r \<Longrightarrow> row_key pk r \<noteq> CV_Null" for r by (simp add: typed_storable_def)
  have rows: "list_all (text_storable pk) (map numeral_row rows)" if "list_all (typed_storable kind pk) rows" for rows
    using that by (auto simp: list_all_iff intro: typed_text_storable)
  show "typed_view kind d' = fold (\<lambda>r. insert_effect (row_key pk r) (row_content cols r)) rows (typed_view kind d)"
    if "table_ok S t cols pk" "rows \<noteq> []" "list_all (typed_storable kind pk) rows"
      "text_exec S t cols pk (insert_sql R S t cols rows) d = (Inr (), d')" for rows d d'
    using text_insert [OF that(1) _ rows [OF that(3)], of R d d'] that view_inserts [OF that(3)]
    by (simp add: numeral_sql)
  show "typed_view kind d' = update_effect (row_key pk r) (row_sets cols pk r) (typed_view kind d)"
    if "table_ok S t cols pk" "typed_storable kind pk r" "update_sets R cols pk r \<noteq> []"
      "text_exec S t cols pk (update_sql R S t cols pk r) d = (Inr (), d')" for r d d'
    using text_update [OF that(1) typed_text_storable [OF that(2)], of R d d'] that
    by (simp add: numeral_sql view_update typed_sets typed_key)
  show "typed_view kind d' = fold (\<lambda>r. delete_effect (row_key pk r)) rows (typed_view kind d)"
    if "table_ok S t cols pk" "rows \<noteq> []" "list_all (typed_storable kind pk) rows"
      "text_exec S t cols pk (delete_sql R S t pk rows) d = (Inr (), d')" for rows d d'
    using text_delete [OF that(1) _ rows [OF that(3)], of R d d'] that view_deletes [OF that(3)]
    by (simp add: numeral_sql)
qed

text \<open>The server accepts every insert of rows that fit.\<close>

lemma typed_insert_accepted:
  assumes "table_ok S t cols pk" and "rows \<noteq> []" and "list_all (typed_storable kind pk) rows"
  shows "\<exists>d'. text_exec S t cols pk (insert_sql R S t cols rows) d = (Inr (), d')"
proof -
  have storable: "\<forall>r \<in> set rows. text_storable pk (numeral_row r)"
    using assms(3) by (auto simp: list_all_iff intro: typed_text_storable)
  have "read_statement (insert_sql R S t cols (map numeral_row rows)) =
      Some (S_Insert (S, t) cols (map (\<lambda>r. map (value_or_null r) cols) (map numeral_row rows)))"
    unfolding insert_sql_def using assms(1,2) storable
    by (intro read_insert_text) (auto simp: table_ok_def list_all_iff intro: read_literal_or_null)
  moreover have "row_content cols (numeral_row r) pk \<noteq> CV_Null" if "r \<in> set rows" for r
    using assms(1) bspec [OF storable that] by (simp add: row_content_def row_key_def table_ok_def text_storable_def)
  ultimately show ?thesis
    by (auto simp: text_exec_def run_statement_def content_of_row numeral_sql)
qed

end
