(* ===== verification/Sql_Tables.thy ===== *)
theory Sql_Tables
  imports Typed_Server
begin

text \<open>
  A database with several tables: the laws of \<open>Write_Buffer\<close> for one table, extended by the
  law that statements on other tables leave it alone, and the effect of \<open>flush_all\<close>
  (\<open>forge-index-db/src/buffer.rs\<close>) on a table. The extended interface is interpreted on a
  server with any number of typed tables that reads the statement texts.
\<close>

section \<open>Calls that leave a part of the state alone\<close>

lemma seq_keeps:
  assumes "\<And>s. f (snd (m s)) = f s" and "\<And>x s. f (snd (k x s)) = f s"
  shows "f (snd (seq m k s)) = f s"
  by (rule seq_inv [where P = "\<lambda>t. f t = f s"]) (simp_all add: assms)

lemma for_each_keeps:
  assumes "\<And>x s. f (snd (g x s)) = f s"
  shows "f (snd (for_each g xs s)) = f s"
  by (rule for_each_inv [where P = "\<lambda>t. f t = f s"]) (simp_all add: assms)

section \<open>Statements on other tables\<close>

definition table_statement :: "renderer \<Rightarrow> string \<Rightarrow> string \<Rightarrow> string \<Rightarrow> bool" where
  "table_statement R S t sql \<longleftrightarrow>
     (\<exists>cols rows. sql = insert_sql R S t cols rows) \<or> (\<exists>cols pk r. sql = update_sql R S t cols pk r) \<or>
     (\<exists>pk rows. sql = delete_sql R S t pk rows)"

lemma table_statementI [simp]:
  "table_statement R S t (insert_sql R S t cols rows)" "table_statement R S t (update_sql R S t cols pk r)"
  "table_statement R S t (delete_sql R S t pk rows)"
  by (auto simp: table_statement_def)

locale sql_tables = sql_table exec view storable R pg_schema table cols pk
  for exec :: "'d execute" and view storable R pg_schema table cols pk +
  assumes frame_law: "table' \<noteq> table \<Longrightarrow> plain_name pg_schema \<Longrightarrow> plain_name table' \<Longrightarrow>
    table_statement R pg_schema table' sql \<Longrightarrow> view (snd (exec sql d)) = view d"
begin

lemma execute_frame:
  assumes "table' \<noteq> table" and "plain_name pg_schema" and "plain_name table'" and "table_statement R pg_schema table' sql"
  shows "view (snd (execute_flush exec table' sql d)) = view d"
  using frame_law [OF assms, of d] by (auto simp: execute_flush_def map_err_def split: prod.splits sum.splits)

lemma flush_updates_frame:
  assumes "table' \<noteq> table" and "plain_name pg_schema" and "plain_name table'"
  shows "view (snd (flush_updates R exec pg_schema table' cs k rows d)) = view d"
  unfolding flush_updates_def
  by (rule for_each_keeps) (simp add: execute_frame [OF assms] ret_def)

lemma flush_rows_frame:
  assumes "table' \<noteq> table" and "plain_name pg_schema" and "plain_name table'" and "wb_pg_schema b = pg_schema"
  shows "view (snd (flush_rows R exec b table' rows d)) = view d"
proof -
  note frame = execute_frame [OF assms(1-3)] flush_updates_frame [OF assms(1-3)]
  have i: "view (snd (flush_inserts R exec pg_schema table' cs is d)) = view d" for cs "is" d
    by (simp add: flush_inserts_def frame ret_def)
  have x: "view (snd (flush_deletes R exec pg_schema table' k ds d)) = view d" for k ds d
    by (simp add: flush_deletes_def frame ret_def)
  show ?thesis
    unfolding flush_rows_def Let_def assms(4)
    by (intro seq_keeps) (auto simp: i x frame ret_def split: option.splits)
qed

lemma flush_table_frame:
  assumes "table' \<noteq> table" and "plain_name pg_schema" and "plain_name table'" and "wb_pg_schema b = pg_schema"
    and "flush_table R exec table' (b, d) = (r, b', d')"
  shows "view d' = view d"
proof (cases "wb_buffers b table'")
  case (Some rows)
  then show ?thesis
    using assms(5) flush_rows_frame [OF assms(1-3), of "set_rows table' [] b" rows d] assms(4)
    by (auto simp: flush_table_def Let_def split: prod.splits sum.splits if_splits)
qed (use assms(5) in \<open>simp add: flush_table_def\<close>)

end

context sql_tables
begin

lemma flush_tables_view:
  assumes "table_ok pg_schema table cols pk" and "wb_table_columns b table = Some cols"
    and "wb_pk_columns b table = Some pk" and "wb_pg_schema b = pg_schema"
    and "list_all storable (buffered b table)" and "distinct ts" and "list_all plain_name ts"
    and "table \<in> set ts \<or> buffered b table = []"
    and "flush_tables R exec ts stats (b, d) = (Inr n, b', d')"
  shows "view d' = fold (apply_row cols pk) (flush_order (buffered b table)) (view d)"
  using assms(2-9)
proof (induction ts arbitrary: b d stats)
  case Nil
  then show ?case by (simp add: ret_def flush_order_def)
next
  case (Cons t ts)
  obtain c b1 d1 where one: "flush_table R exec t (b, d) = (Inr c, b1, d1)"
    and rest: "flush_tables R exec ts (if c > 0 then stats @ [(t, c)] else stats) (b1, d1) = (Inr n, b', d')"
    using Cons.prems(8) by (auto simp: seq_Inr_iff)
  note b1 = flush_table_buffer [OF one]
  have plain: "plain_name pg_schema" using assms(1) by (simp add: table_ok_def)
  have left: "buffered b1 table = (if table = t then [] else buffered b table)" using b1(1,2) by auto
  have ih: "view d' = fold (apply_row cols pk) (flush_order (buffered b1 table)) (view d1)"
    using Cons.prems b1(3-7) left by (intro Cons.IH [OF _ _ _ _ _ _ _ rest]) auto
  show ?case
  proof (cases "t = table")
    case True
    then have "view d1 = fold (apply_row cols pk) (flush_order (buffered b table)) (view d)"
      using flush_table_view [OF assms(1) Cons.prems(4,1-3)] one by simp
    then show ?thesis using ih b1(1) True by (simp add: flush_order_def)
  next
    case False
    then have "view d1 = view d" using flush_table_frame [OF _ plain _ Cons.prems(3) one] Cons.prems(6) by simp
    then show ?thesis using ih b1(2) False by simp
  qed
qed

lemma flush_all_view:
  assumes "table_ok pg_schema table cols pk" and "wb_table_columns b table = Some cols"
    and "wb_pk_columns b table = Some pk" and "wb_pg_schema b = pg_schema"
    and "list_all storable (buffered b table)"
    and "distinct (keys (wb_buffers b))" and "set (keys (wb_buffers b)) = dom (wb_buffers b)"
    and "\<forall>t \<in> dom (wb_buffers b). plain_name t"
    and "flush_all R exec keys (b, d) = (Inr n, b', d')"
  shows "view d' = fold (apply_row cols pk) (flush_order (buffered b table)) (view d)"
proof (rule flush_tables_view [OF assms(1-6)])
  show "list_all plain_name (keys (wb_buffers b))" using assms(7,8) by (simp add: list_all_iff)
  show "table \<in> set (keys (wb_buffers b)) \<or> buffered b table = []"
    using assms(7) by (auto simp: buffered_def split: option.splits)
  show "flush_tables R exec (keys (wb_buffers b)) [] (b, d) = (Inr n, b', d')"
    using assms(9) by (simp add: flush_all_def)
qed

end

section \<open>A server with several tables\<close>

fun statement_path :: "statement \<Rightarrow> string \<times> string" where
  "statement_path (S_Insert p _ _) = p"
| "statement_path (S_Update p _ _ _) = p"
| "statement_path (S_Delete p _ _) = p"

text \<open>Tables by name, each with its columns, its key and the kinds of its columns.\<close>

record table_shape =
  sh_columns :: "string list"
  sh_pk :: string
  sh_kind :: "string \<Rightarrow> column_kind"

definition tables_exec :: "string \<Rightarrow> (string \<rightharpoonup> table_shape) \<Rightarrow> (string \<Rightarrow> table_state) execute" where
  "tables_exec S shapes sql = (\<lambda>st.
     case read_statement sql of
       None \<Rightarrow> (Inl Sqlx_Database, st)
     | Some stmt \<Rightarrow>
         (case shapes (snd (statement_path stmt)) of
            None \<Rightarrow> (Inl Sqlx_Database, st)
          | Some sh \<Rightarrow>
              (let t = snd (statement_path stmt)
               in case run_statement (S, t) (sh_columns sh) (sh_pk sh) stmt (st t) of
                    None \<Rightarrow> (Inl Sqlx_Database, st)
                  | Some st' \<Rightarrow> (Inr (), st(t := st')))))"

definition table_view :: "string \<Rightarrow> table_shape \<Rightarrow> (string \<Rightarrow> table_state) \<Rightarrow> table_state" where
  "table_view t sh st = typed_view (sh_kind sh) (st t)"

lemma read_statement_path:
  assumes "plain_name S" and "plain_name t" and "table_statement R S t sql" and "read_statement sql = Some stmt"
  shows "statement_path stmt = (S, t)"
proof -
  note path = read_path_append [OF assms(1,2)]
  consider r where "sql = ''INSERT INTO '' @ table_path S t @ r" | r where "sql = ''UPDATE '' @ table_path S t @ r"
    | r where "sql = ''DELETE FROM '' @ table_path S t @ r"
    using assms(3) by (auto simp: table_statement_def insert_sql_def update_sql_def delete_sql_def)
  then show ?thesis
  proof cases
    case 1
    then show ?thesis using assms(4) path
      by (auto simp: read_statement_def read_insert_def stop_def split: Option.bind_splits if_splits)
  next
    case 2
    then show ?thesis using assms(4) path
      by (auto simp: read_statement_def read_update_def stop_def split: Option.bind_splits if_splits)
  next
    case 3
    then show ?thesis using assms(4) path
      by (auto simp: read_statement_def read_delete_def stop_def split: Option.bind_splits if_splits option.splits)
  qed
qed

lemma tables_exec_other:
  assumes "t \<noteq> u" and "plain_name S" and "plain_name t" and "table_statement R S t sql"
  shows "snd (tables_exec S shapes sql st) u = st u"
  using read_statement_path [OF assms(2-4)] assms(1)
  by (auto simp: tables_exec_def Let_def split: option.splits)

lemma tables_exec_own:
  assumes "plain_name S" and "plain_name t" and "table_statement R S t sql" and "shapes t = Some sh"
    and "tables_exec S shapes sql st = (Inr (), st')"
  shows "text_exec S t (sh_columns sh) (sh_pk sh) sql (st t) = (Inr (), st' t)"
  using read_statement_path [OF assms(1-3)] assms(4,5)
  by (auto simp: tables_exec_def text_exec_def Let_def split: option.splits)

lemma tables_exec_accepts:
  assumes "plain_name S" and "plain_name t" and "table_statement R S t sql" and "shapes t = Some sh"
    and "text_exec S t (sh_columns sh) (sh_pk sh) sql (st t) = (Inr (), x)"
  shows "tables_exec S shapes sql st = (Inr (), st(t := x))"
  using read_statement_path [OF assms(1-3)] assms(4,5)
  by (auto simp: tables_exec_def text_exec_def Let_def split: option.splits Option.bind_splits)

lemma tables_server:
  assumes "shapes t = Some sh"
  shows "sql_tables (tables_exec S shapes) (table_view t sh) (typed_storable (sh_kind sh) (sh_pk sh)) R S t
    (sh_columns sh) (sh_pk sh)"
proof
  have own: "text_exec S t (sh_columns sh) (sh_pk sh) sql (d t) = (Inr (), d' t)"
    if "table_ok S t (sh_columns sh) (sh_pk sh)" "table_statement R S t sql" "tables_exec S shapes sql d = (Inr (), d')"
    for sql d d'
    using tables_exec_own [of S t R sql shapes sh d d'] that assms by (simp add: table_ok_def)
  show "typed_storable (sh_kind sh) (sh_pk sh) r \<Longrightarrow> row_key (sh_pk sh) r \<noteq> CV_Null" for r
    by (rule typed_server.storable_key)
  show "table_view t sh d' = fold (\<lambda>r. insert_effect (row_key (sh_pk sh) r) (row_content (sh_columns sh) r)) rows (table_view t sh d)"
    if "table_ok S t (sh_columns sh) (sh_pk sh)" "rows \<noteq> []" "list_all (typed_storable (sh_kind sh) (sh_pk sh)) rows"
      "tables_exec S shapes (insert_sql R S t (sh_columns sh) rows) d = (Inr (), d')" for rows d d'
    unfolding table_view_def using that own [OF that(1) _ that(4)]
    by (intro typed_server.insert_law) simp_all
  show "table_view t sh d' = update_effect (row_key (sh_pk sh) r) (row_sets (sh_columns sh) (sh_pk sh) r) (table_view t sh d)"
    if "table_ok S t (sh_columns sh) (sh_pk sh)" "typed_storable (sh_kind sh) (sh_pk sh) r"
      "update_sets R (sh_columns sh) (sh_pk sh) r \<noteq> []"
      "tables_exec S shapes (update_sql R S t (sh_columns sh) (sh_pk sh) r) d = (Inr (), d')" for r d d'
    unfolding table_view_def using that own [OF that(1) _ that(4)]
    by (intro typed_server.update_law) simp_all
  show "table_view t sh d' = fold (\<lambda>r. delete_effect (row_key (sh_pk sh) r)) rows (table_view t sh d)"
    if "table_ok S t (sh_columns sh) (sh_pk sh)" "rows \<noteq> []" "list_all (typed_storable (sh_kind sh) (sh_pk sh)) rows"
      "tables_exec S shapes (delete_sql R S t (sh_pk sh) rows) d = (Inr (), d')" for rows d d'
    unfolding table_view_def using that own [OF that(1) _ that(4)]
    by (intro typed_server.delete_law) simp_all
  show "table_view t sh (snd (tables_exec S shapes sql d)) = table_view t sh d"
    if "table' \<noteq> t" "plain_name S" "plain_name table'" "table_statement R S table' sql" for table' sql d
    unfolding table_view_def tables_exec_other [OF that] ..
qed


interpretation tables_server: sql_tables "tables_exec S (shapes(t \<mapsto> sh))" "table_view t sh"
  "typed_storable (sh_kind sh) (sh_pk sh)" R S t "sh_columns sh" "sh_pk sh"
  for S shapes t sh R
  by (rule tables_server) simp

end
