(* ===== verification/Backfill_View.thy ===== *)
theory Backfill_View
  imports Backfill Sql_Tables
begin

text \<open>
  What a backfill leaves in the database, for an application with one contract on a chain:
  the planner, the workers with their cache, the handlers, the buffer and the checkpoints
  of \<open>forge-index-sync/src/backfill\<close> together. The effect of \<open>run_chain\<close> on a table is that of
  a specification that knows neither ranges of the provider, nor retries, caches, buffers or
  statements: the rows of the events of the chain are applied to the table, range by range.
\<close>

section \<open>Logs from the provider\<close>

lemma client_get_logs_Inr:
  assumes "client_get_logs encode J P chain_id f s = (Inr logs, t)"
    and "\<And>x j. to_json J x = Inr j \<Longrightarrow> of_json J j = Inr x"
  shows "\<exists>als s' t'. p_get_logs P (to_alloy_filter f) s' = (Inr als, t') \<and>
    logs = map (\<lambda>l. log_from_alloy encode l chain_id) als"
proof -
  let ?call = "seq (transport (p_get_logs P (to_alloy_filter f))) (\<lambda>logs. lift_res (to_json_or ''eth_getLogs'' J logs))"
  from assms(1) obtain j s1 where retry: "with_retry ''eth_getLogs'' ?call s = (Inr j, s1)"
    and rest: "seq (lift_res (of_json_or ''eth_getLogs'' J j))
      (\<lambda>logs. ret (map (\<lambda>l. log_from_alloy encode l chain_id) logs)) s1 = (Inr logs, t)"
    by (auto simp: client_get_logs_def seq_Inr_iff)
  from with_retry_Inr [OF retry] obtain s' where "?call s' = (Inr j, s1)" by blast
  then obtain als t' where "p_get_logs P (to_alloy_filter f) s' = (Inr als, t')" "to_json J als = Inr j"
    by (auto simp: seq_Inr_iff)
  with rest assms(2) show ?thesis by (auto simp: seq_Inr_iff ret_def)
qed

text \<open>
  A provider that serves the chain: whenever it answers the request of the worker for a range,
  the answer holds the logs of that range, and the JSON library gives back what it stored.
\<close>

definition serves :: "('p, 'j) backfill_worker \<Rightarrow> (block_range \<Rightarrow> log list) \<Rightarrow> bool" where
  "serves W chain \<longleftrightarrow>
     (\<forall>x j. to_json (e_json_logs (bw_env W)) x = Inr j \<longrightarrow> of_json (e_json_logs (bw_env W)) j = Inr x) \<and>
     (\<forall>r als n n'. p_get_logs (e_provider (bw_env W)) (to_alloy_filter (worker_filter W r)) n = (Inr als, n') \<longrightarrow>
        map (\<lambda>l. log_from_alloy (tc_encode (e_codec (bw_env W))) l (e_chain_id (bw_env W))) als = chain r)"

text \<open>
  What the protocol says of \<open>eth_getLogs\<close>: a mined log is in the answer exactly when its block is
  in the range, its address is listed and each of its first four topics is, where an empty list
  admits everything. A truthful provider may fail at any call, but what it answers is the part
  of the chain's logs that the filter admits.
\<close>

definition admits :: "alloy_filter \<Rightarrow> alloy_log \<Rightarrow> bool" where
  "admits f l \<longleftrightarrow>
     (case al_block_number l of None \<Rightarrow> False | Some n \<Rightarrow> af_from_block f \<le> n \<and> n \<le> af_to_block f) \<and>
     (af_address f = [] \<or> al_address l \<in> set (af_address f)) \<and>
     list_all (\<lambda>i. af_topics f ! i = [] \<or> (i < length (al_topics l) \<and> al_topics l ! i \<in> set (af_topics f ! i)))
       [0..<length (af_topics f)]"

definition truthful :: "'p provider \<Rightarrow> alloy_log list \<Rightarrow> bool" where
  "truthful P chain \<longleftrightarrow> (\<forall>f als n n'. p_get_logs P f n = (Inr als, n') \<longrightarrow> als = filter (admits f) chain)"

text \<open>The filter of a worker with addresses and selectors, in these terms.\<close>

lemma admits_worker_filter:
  assumes "bw_addresses W \<noteq> []" and "bw_selectors W \<noteq> []"
  shows "admits (to_alloy_filter (worker_filter W r)) l \<longleftrightarrow>
    (\<exists>n. al_block_number l = Some n \<and> br_from r \<le> n \<and> n \<le> br_to r) \<and>
    al_address l \<in> addr_bytes ` set (bw_addresses W) \<and>
    al_topics l \<noteq> [] \<and> hd (al_topics l) \<in> hash_bytes ` set (bw_selectors W)"
proof -
  have "[0..<4] = [0, 1, 2, 3 :: nat]" by (simp add: upt_rec)
  then show ?thesis using assms
    by (auto simp: admits_def to_alloy_filter_def worker_filter_def numeral_eq_Suc hd_conv_nth split: option.splits)
qed

text \<open>No row of the cache is for one of these ranges.\<close>

definition uncached :: "('p, 'j) backfill_worker \<Rightarrow> block_range list \<Rightarrow> 'j cache_db \<Rightarrow> bool" where
  "uncached W rs db \<longleftrightarrow> (\<forall>r \<in> set rs. \<forall>row \<in> set (c_logs db).
     \<not> row_matches (e_codec (bw_env W)) (e_chain_id (bw_env W)) (worker_filter W r) row)"

lemma get_logs_db: "c_logs (snd (store_get_logs X fail c f db)) = c_logs db"
  unfolding store_get_logs_def
  by (intro seq_keeps) (auto simp: stmt_def ret_def Let_def intro!: seq_keeps)

lemma get_logs_miss:
  assumes "\<forall>row \<in> set (c_logs db). \<not> row_matches X c f row"
  shows "fst (store_get_logs X fail c f db) \<noteq> Inr (Some logs)"
  using assms by (auto simp: store_get_logs_def seq_def stmt_def ret_def Let_def filter_empty_conv)

lemma put_logs_window:
  assumes "row \<in> set (c_logs (snd (store_put_logs X fail c f logs db)))"
  shows "row \<in> set (c_logs db) \<or> (lr_from_block row = lf_from_block f \<and> lr_to_block row = lf_to_block f)"
proof -
  let ?P = "\<lambda>d. \<forall>row \<in> set (c_logs d). row \<in> set (c_logs db) \<or>
    (lr_from_block row = lf_from_block f \<and> lr_to_block row = lf_to_block f)"
  have "?P (snd (store_put_logs X fail c f logs db))"
    unfolding store_put_logs_def
  proof (rule seq_inv [where P = ?P])
    show "?P (snd (for_each (insert_log_stmt X fail c f) logs d))" if "?P d" for d
      by (rule for_each_inv [where P = ?P, OF that])
        (auto simp: insert_log_stmt_def stmt_def Let_def insert_log_row_def log_to_row_def)
  qed (auto simp: stmt_def Let_def insert_log_row_def sentinel_row_def ret_def)
  with assms show ?thesis by blast
qed

lemma fetch_uncached:
  assumes "serves W chain" and "uncached W (r # rs) (cs_db s)" and "\<forall>r' \<in> set rs. (br_from r', br_to r') \<noteq> (br_from r, br_to r)"
    and "cached_get_logs (bw_env W) (worker_filter W r) s = (Inr logs, s')"
  shows "logs = chain r" and "uncached W rs (cs_db s')"
proof -
  let ?E = "bw_env W" and ?f = "worker_filter W r"
  obtain x db where get: "store_get_logs (e_codec ?E) (e_fail ?E) (e_chain_id ?E) ?f (cs_db s) = (x, db)"
    by (cases "store_get_logs (e_codec ?E) (e_fail ?E) (e_chain_id ?E) ?f (cs_db s)")
  have miss: "x \<noteq> Inr (Some ls)" for ls
    using get_logs_miss [of "cs_db s" "e_codec ?E" "e_chain_id ?E" ?f "e_fail ?E" ls] assms(2) get
    by (simp add: uncached_def)
  have logs_db: "c_logs db = c_logs (cs_db s)" using get_logs_db [of "e_codec ?E" "e_fail ?E" "e_chain_id ?E" ?f "cs_db s"] get by simp
  obtain net net' where call: "client_get_logs (tc_encode (e_codec ?E)) (e_json_logs ?E) (e_provider ?E) (e_chain_id ?E) ?f net =
      (Inr logs, net')"
    and db': "cs_db s' = snd (store_put_logs (e_codec ?E) (e_fail ?E) (e_chain_id ?E) ?f logs db)"
    using assms(4) miss
    by (auto simp: cached_get_logs_def get Let_def record_miss_def record_hit_def split: sum.splits option.splits prod.splits)
  show "logs = chain r" using client_get_logs_Inr [OF call] assms(1) by (fastforce simp: serves_def)
  have "\<not> row_matches (e_codec ?E) (e_chain_id ?E) (worker_filter W r') row"
    if "r' \<in> set rs" "row \<in> set (c_logs (cs_db s'))" for r' row
    using put_logs_window [of row] that assms(2,3) unfolding db'
    by (fastforce simp: uncached_def row_matches_def worker_filter_def logs_db)
  then show "uncached W rs (cs_db s')" by (simp add: uncached_def)
qed

section \<open>Applications\<close>

text \<open>The second buffer is the first one with rows appended, all in the given tables.\<close>

definition appends :: "string set \<Rightarrow> (string \<Rightarrow> row list) \<Rightarrow> write_buffer \<Rightarrow> write_buffer \<Rightarrow> bool" where
  "appends tables rows b b' \<longleftrightarrow>
     same_tables b b' \<and> dom (wb_buffers b') \<subseteq> tables \<and> (\<forall>t. buffered b' t = buffered b t @ rows t)"

definition clean :: "string set \<Rightarrow> write_buffer \<Rightarrow> bool" where
  "clean tables b \<longleftrightarrow> dom (wb_buffers b) \<subseteq> tables \<and> (\<forall>t. buffered b t = [])"

text \<open>
  An application as the coordinator runs it: its handlers answer the events they know by
  appending rows to the buffer, at most \<open>width\<close> for each table, as long as there is room; the
  map of the buffer lists each of its tables once.
\<close>

locale backfill_app =
  fixes C :: "('p, 'j, 'd) coordinator" and tables :: "string set"
    and known :: "decoded_event \<Rightarrow> bool" and rows_of :: "decoded_event \<Rightarrow> string \<Rightarrow> row list" and width :: nat
  assumes plain_tables: "t \<in> tables \<Longrightarrow> plain_name t"
    and keys_law: "dom m \<subseteq> tables \<Longrightarrow> distinct (co_keys C m) \<and> set (co_keys C m) = dom m"
    and rows_width: "known e \<Longrightarrow> length (rows_of e t) \<le> width"
    and handler_law: "known e \<Longrightarrow> dom (wb_buffers (ss_buffer s)) \<subseteq> tables \<Longrightarrow>
      \<forall>t. length (buffered (ss_buffer s) t) + width \<le> wb_max_size (ss_buffer s) \<Longrightarrow>
      \<exists>b'. handle_event C e s = (Inr (), s\<lparr>ss_buffer := b'\<rparr>) \<and> appends tables (rows_of e) (ss_buffer s) b'"

text \<open>The events of a range in the order in which they are handled.\<close>

definition range_events :: "('p, 'j) backfill_worker \<Rightarrow> (block_range \<Rightarrow> log list) \<Rightarrow> block_range \<Rightarrow> decoded_event list" where
  "range_events W chain r =
     (case decode_logs (bw_decoder W) (cc_name (bw_contract W)) (chain r) of
        Inr es \<Rightarrow> sort_key event_key es
      | Inl _ \<Rightarrow> [])"

lemma sort_key_twice: "sort_key f (sort_key f xs) = sort_key f xs"
  by (rule properties_for_sort_key) simp_all

lemma sort_range_events: "sort_key event_key (range_events W chain r) = range_events W chain r"
  by (simp add: range_events_def sort_key_twice split: sum.splits)

lemma fetch_range_uncached:
  assumes "serves W chain" and "uncached W (r # rs) (cs_db s)" and "\<forall>r' \<in> set rs. (br_from r', br_to r') \<noteq> (br_from r, br_to r)"
    and "fetch_range W r s = (Inr events, s')"
  shows "events = range_events W chain r" and "uncached W rs (cs_db s')"
proof -
  obtain logs es where get: "cached_get_logs (bw_env W) (worker_filter W r) s = (Inr logs, s')"
    and d: "decode_logs (bw_decoder W) (cc_name (bw_contract W)) logs = Inr es" "events = sort_key event_key es"
    using assms(4) by (auto simp: fetch_range_def seq_Inr_iff map_err_def bind_res_Inr_iff split: prod.splits sum.splits)
  show "events = range_events W chain r" using fetch_uncached(1) [OF assms(1-3) get] d by (simp add: range_events_def)
  show "uncached W rs (cs_db s')" by (rule fetch_uncached(2) [OF assms(1-3) get])
qed

context backfill_app
begin

abbreviation event_rows :: "decoded_event list \<Rightarrow> string \<Rightarrow> row list" where
  "event_rows es t \<equiv> concat (map (\<lambda>e. rows_of e t) es)"

lemma handle_events:
  assumes "list_all known es" and "dom (wb_buffers (ss_buffer s)) \<subseteq> tables"
    and "\<forall>t. length (buffered (ss_buffer s) t) + width * length es \<le> wb_max_size (ss_buffer s)"
  shows "\<exists>b'. for_each (handle_event C) es s = (Inr (), s\<lparr>ss_buffer := b'\<rparr>) \<and> appends tables (event_rows es) (ss_buffer s) b'"
  using assms
proof (induction es arbitrary: s)
  case Nil
  then show ?case by (intro exI [of _ "ss_buffer s"]) (simp add: ret_def appends_def same_tables_def)
next
  case (Cons e es)
  have "\<forall>t. length (buffered (ss_buffer s) t) + width \<le> wb_max_size (ss_buffer s)"
  proof
    show "length (buffered (ss_buffer s) t) + width \<le> wb_max_size (ss_buffer s)" for t
      using Cons.prems(3) [rule_format, of t] by simp
  qed
  then obtain b1 where b1: "handle_event C e s = (Inr (), s\<lparr>ss_buffer := b1\<rparr>)" "appends tables (rows_of e) (ss_buffer s) b1"
    using handler_law [of e s] Cons.prems by auto
  have "length (buffered b1 t) + width * length es \<le> wb_max_size b1" for t
    using Cons.prems(3) [rule_format, of t] rows_width [of e t] Cons.prems(1) b1(2) by (simp add: appends_def same_tables_def)
  then obtain b2 where "for_each (handle_event C) es (s\<lparr>ss_buffer := b1\<rparr>) = (Inr (), s\<lparr>ss_buffer := b2\<rparr>)"
    "appends tables (event_rows es) b1 b2"
    using Cons.IH [of "s\<lparr>ss_buffer := b1\<rparr>"] Cons.prems(1) b1(2) by (auto simp: appends_def)
  then show ?case using b1 by (intro exI [of _ b2]) (simp add: seq_def appends_def same_tables_def)
qed

lemma flush_clean:
  assumes "appends tables rows b b1" and "clean tables b" and "flush_all R exec (co_keys C) (b1, d) = (Inr n, b2, d2)"
  shows "clean tables b2" and "same_tables b b2"
proof -
  have keys: "set (co_keys C (wb_buffers b1)) = dom (wb_buffers b1)"
    using keys_law [of "wb_buffers b1"] assms(1) by (auto simp: appends_def)
  have "same_tables b1 b2 \<and> dom (wb_buffers b2) = dom (wb_buffers b1) \<and>
      (\<forall>t. buffered b2 t = (if t \<in> dom (wb_buffers b1) then [] else buffered b1 t))"
    using flush_tables_buffer [of R exec "co_keys C (wb_buffers b1)" "[]" b1 d n b2 d2] assms(3) keys
    by (simp add: flush_all_def)
  moreover have "buffered b1 t = []" if "t \<notin> dom (wb_buffers b1)" for t
    using that by (auto simp: buffered_def split: option.splits)
  ultimately show "clean tables b2" "same_tables b b2" using assms(1) by (auto simp: clean_def appends_def same_tables_def)
qed

end

section \<open>A range\<close>

text \<open>
  What a run may rely on: the provider serves the chain, the events of every range are known
  and fit the buffer, and the database keeps the laws of SQL for the table.
\<close>

context backfill_app
begin

text \<open>The effect of a range on a table, by the specification.\<close>

definition range_effect :: "('p, 'j) backfill_worker \<Rightarrow> (block_range \<Rightarrow> log list) \<Rightarrow> string \<Rightarrow> string list \<Rightarrow> string
    \<Rightarrow> block_range \<Rightarrow> table_state \<Rightarrow> table_state" where
  "range_effect W chain t cols pk r = fold (apply_row cols pk) (flush_order (event_rows (range_events W chain r) t))"

definition range_fits :: "('p, 'j) backfill_worker \<Rightarrow> (block_range \<Rightarrow> log list) \<Rightarrow> nat \<Rightarrow> block_range \<Rightarrow> bool" where
  "range_fits W chain room r \<longleftrightarrow> list_all known (range_events W chain r) \<and> width * length (range_events W chain r) \<le> room"

lemma run_range_single:
  assumes "co_workers C (c, bp_contract_name p) = Some W" and "plan_range idx p = Some r"
    and "run_range C c [p] idx s = (Inr (), s')"
  obtains events s1 s2 n where "fetch_range W r (ss_client s) = (Inr events, ss_client s1)"
    and "s1 = s\<lparr>ss_client := ss_client s1\<rparr>"
    and "for_each (handle_event C) (sort_key event_key events) s1 = (Inr (), s2)"
    and "flush_all (co_renderer C) (co_exec C) (co_keys C) (ss_buffer s2, ss_db s2) = (Inr n, ss_buffer s', ss_db s')"
    and "c_logs (cs_db (ss_client s')) = c_logs (cs_db (ss_client s2))"
proof -
  obtain events s1 s2 n where "fetch_all C c idx [p] s = (Inr events, s1)"
    and handled: "for_each (handle_event C) (sort_key event_key events) s1 = (Inr (), s2)"
    and flush: "flush_all (co_renderer C) (co_exec C) (co_keys C) (ss_buffer s2, ss_db s2) = (Inr n, ss_buffer s', ss_db s')"
    and logs: "c_logs (cs_db (ss_client s')) = c_logs (cs_db (ss_client s2))"
    by (rule run_range_phases [OF assms(3)])
  then have "fetch_range W r (ss_client s) = (Inr events, ss_client s1)" "s1 = s\<lparr>ss_client := ss_client s1\<rparr>"
    using assms(1,2) by (auto simp: seq_Inr_iff on_client_def call_simps split: prod.splits)
  then show thesis using handled flush logs by (rule that)
qed

text \<open>A range that succeeded handled its events and flushed the rows they append.\<close>

lemma range_handled:
  assumes worker: "co_workers C (c, bp_contract_name p) = Some W" "serves W chain" and range: "plan_range idx p = Some r"
    and cache: "uncached W (r # rs) (cs_db (ss_client s))" "\<forall>r' \<in> set rs. (br_from r', br_to r') \<noteq> (br_from r, br_to r)"
    and fits: "range_fits W chain (wb_max_size (ss_buffer s)) r" and clean: "clean tables (ss_buffer s)"
    and run: "run_range C c [p] idx s = (Inr (), s')"
  obtains b n where "appends tables (event_rows (range_events W chain r)) (ss_buffer s) b"
    and "flush_all (co_renderer C) (co_exec C) (co_keys C) (b, ss_db s) = (Inr n, ss_buffer s', ss_db s')"
    and "uncached W rs (cs_db (ss_client s'))"
proof -
  obtain events s1 s2 n where fetch: "fetch_range W r (ss_client s) = (Inr events, ss_client s1)"
    and s1: "s1 = s\<lparr>ss_client := ss_client s1\<rparr>"
    and handled: "for_each (handle_event C) (sort_key event_key events) s1 = (Inr (), s2)"
    and flush: "flush_all (co_renderer C) (co_exec C) (co_keys C) (ss_buffer s2, ss_db s2) = (Inr n, ss_buffer s', ss_db s')"
    and logs: "c_logs (cs_db (ss_client s')) = c_logs (cs_db (ss_client s2))"
    by (rule run_range_single [OF worker(1) range run])
  have events: "events = range_events W chain r" by (rule fetch_range_uncached(1) [OF worker(2) cache fetch])
  have b1: "ss_buffer s1 = ss_buffer s" "ss_db s1 = ss_db s" by (subst s1, simp)+
  obtain b' where b': "for_each (handle_event C) events s1 = (Inr (), s1\<lparr>ss_buffer := b'\<rparr>)"
    "appends tables (event_rows events) (ss_buffer s) b'"
    using handle_events [of events s1] fits clean by (auto simp: events b1 range_fits_def clean_def)
  have s2: "s2 = s1\<lparr>ss_buffer := b'\<rparr>" using handled b'(1) by (simp add: events sort_range_events)
  have "uncached W rs (cs_db (ss_client s1))" by (rule fetch_range_uncached(2) [OF worker(2) cache fetch])
  then have "uncached W rs (cs_db (ss_client s'))" using logs by (simp add: uncached_def s2)
  then show thesis using that b'(2) flush by (simp add: s2 b1 events)
qed

lemma range_view:
  assumes server: "sql_tables (co_exec C) view storable (co_renderer C) (wb_pg_schema (ss_buffer s)) t cols pk"
    and table: "table_ok (wb_pg_schema (ss_buffer s)) t cols pk" "wb_table_columns (ss_buffer s) t = Some cols"
      "wb_pk_columns (ss_buffer s) t = Some pk"
    and storable: "list_all storable (event_rows (range_events W chain r) t)" and clean: "clean tables (ss_buffer s)"
    and rows: "appends tables (event_rows (range_events W chain r)) (ss_buffer s) b"
    and flush: "flush_all (co_renderer C) (co_exec C) (co_keys C) (b, ss_db s) = (Inr n, b', d')"
  shows "view d' = range_effect W chain t cols pk r (view (ss_db s))"
proof -
  have buffered: "buffered b t = event_rows (range_events W chain r) t" using rows clean by (simp add: appends_def clean_def)
  have keys: "distinct (co_keys C (wb_buffers b))" "set (co_keys C (wb_buffers b)) = dom (wb_buffers b)"
    using keys_law [of "wb_buffers b"] rows by (auto simp: appends_def)
  show ?thesis
    using sql_tables.flush_all_view [OF server table(1), of b "co_keys C" "ss_db s" n b' d'] rows table keys storable flush
      plain_tables
    by (auto simp: buffered range_effect_def appends_def same_tables_def)
qed

end

section \<open>A chain\<close>

abbreviation window :: "block_range \<Rightarrow> u64 \<times> u64" where
  "window r \<equiv> (br_from r, br_to r)"

lemma windows_distinct:
  assumes "distinct (concat (map range_blocks rs))" and "\<forall>r \<in> set rs. br_from r \<le> br_to r"
  shows "distinct (map window rs)"
  using assms
proof (induction rs)
  case (Cons r rs)
  have "window r' \<noteq> window r" if "r' \<in> set rs" for r'
  proof
    assume "window r' = window r"
    then have "range_blocks r' = range_blocks r" by (simp add: range_blocks_def)
    moreover have "range_blocks r \<noteq> []" using Cons.prems(2) by (simp add: range_blocks_def word_le_nat_alt)
    moreover have "set (range_blocks r) \<inter> set (range_blocks r') = {}" using Cons.prems(1) that by auto
    ultimately show False by auto
  qed
  then have "window r \<notin> window ` set rs" by (auto dest!: sym [of "br_from r"] sym [of "br_to r"])
  then show ?case using Cons by simp
qed simp

lemma distinct_map_Cons: "distinct (map f (x # xs)) \<Longrightarrow> \<forall>y \<in> set xs. f y \<noteq> f x"
  by (auto intro: rev_image_eqI)

lemma max_ranges_single: "max_ranges [p] = length (bp_ranges p)"
  by (simp add: max_ranges_def)

context backfill_app
begin

lemma ranges_step:
  assumes server: "sql_tables (co_exec C) view storable (co_renderer C) pg t cols pk" and ok: "table_ok pg t cols pk"
    and worker: "co_workers C (c, bp_contract_name p) = Some W" "serves W chain"
    and windows: "distinct (map window (bp_ranges p))"
    and fits: "\<forall>r \<in> set (bp_ranges p). range_fits W chain room r \<and> list_all storable (event_rows (range_events W chain r) t)"
    and run: "for_each (run_range C c [p]) [i..<length (bp_ranges p)] s = (Inr (), s')"
    and buffer: "wb_pg_schema (ss_buffer s) = pg" "wb_max_size (ss_buffer s) = room" "wb_table_columns (ss_buffer s) t = Some cols"
      "wb_pk_columns (ss_buffer s) t = Some pk" "clean tables (ss_buffer s)"
    and cache: "uncached W (drop i (bp_ranges p)) (cs_db (ss_client s))"
  shows "view (ss_db s') = fold (range_effect W chain t cols pk) (drop i (bp_ranges p)) (view (ss_db s)) \<and>
    clean tables (ss_buffer s') \<and> same_tables (ss_buffer s) (ss_buffer s')"
  using run buffer cache
proof (induction "length (bp_ranges p) - i" arbitrary: i s)
  case 0
  then show ?case by (simp add: ret_def same_tables_def)
next
  case (Suc m)
  then have i: "i < length (bp_ranges p)" and up: "[i..<length (bp_ranges p)] = i # [Suc i..<length (bp_ranges p)]"
    by (auto simp: upt_conv_Cons)
  let ?r = "bp_ranges p ! i" and ?rs = "drop (Suc i) (bp_ranges p)"
  have dr: "drop i (bp_ranges p) = ?r # ?rs" using i by (simp add: Cons_nth_drop_Suc)
  obtain s1 where step: "run_range C c [p] i s = (Inr (), s1)"
    and rest: "for_each (run_range C c [p]) [Suc i..<length (bp_ranges p)] s1 = (Inr (), s')"
    using Suc.prems(1) by (auto simp: up seq_Inr_iff)
  have "distinct (map window (?r # ?rs))" unfolding dr [symmetric] drop_map [symmetric] by (rule distinct_drop [OF windows])
  then have others: "\<forall>r' \<in> set ?rs. window r' \<noteq> window ?r" using distinct_map_Cons [of window ?r ?rs] by blast
  have r: "plan_range i p = Some ?r" "?r \<in> set (bp_ranges p)" using i by (simp_all add: plan_range_def)
  have U: "uncached W (?r # ?rs) (cs_db (ss_client s))" using Suc.prems(7) by (simp only: dr)
  have F: "range_fits W chain (wb_max_size (ss_buffer s)) ?r" "list_all storable (event_rows (range_events W chain ?r) t)"
    using fits r(2) Suc.prems(3) by simp_all
  obtain b n where b: "appends tables (event_rows (range_events W chain ?r)) (ss_buffer s) b"
    and flush: "flush_all (co_renderer C) (co_exec C) (co_keys C) (b, ss_db s) = (Inr n, ss_buffer s1, ss_db s1)"
    and cache1: "uncached W ?rs (cs_db (ss_client s1))"
    by (rule range_handled [OF worker r(1) U others F(1) Suc.prems(6) step])
  have view1: "view (ss_db s1) = range_effect W chain t cols pk ?r (view (ss_db s))"
    using range_view [OF _ _ Suc.prems(4,5) F(2) Suc.prems(6) b flush] server ok Suc.prems(2) by simp
  note b1 = flush_clean [OF b Suc.prems(6) flush]
  have "view (ss_db s') = fold (range_effect W chain t cols pk) ?rs (view (ss_db s1)) \<and>
      clean tables (ss_buffer s') \<and> same_tables (ss_buffer s1) (ss_buffer s')"
    using Suc.hyps(2) i Suc.prems(2-5) b1 cache1 by (intro Suc.hyps(1) rest) (auto simp: same_tables_def)
  then show ?case using view1 b1(2) by (simp add: dr same_tables_def)
qed

lemma chain_view:
  assumes server: "sql_tables (co_exec C) view storable (co_renderer C) (wb_pg_schema (ss_buffer s)) t cols pk"
    and table: "table_ok (wb_pg_schema (ss_buffer s)) t cols pk" "wb_table_columns (ss_buffer s) t = Some cols"
      "wb_pk_columns (ss_buffer s) t = Some pk"
    and contract: "co_fail C = no_fail" "co_chain_contracts C c = Some [k]" "0 < chunk_of C c"
      "unat current + unat (chunk_of C c) < 2 ^ 64"
    and plan: "plan k c current (checkpoints s (c, cc_name k)) (chunk_of C c) = Some (Inr p)"
    and worker: "co_workers C (c, cc_name k) = Some W" "serves W chain"
    and fits: "\<forall>r \<in> set (bp_ranges p). range_fits W chain (wb_max_size (ss_buffer s)) r \<and>
      list_all storable (event_rows (range_events W chain r) t)"
    and start: "clean tables (ss_buffer s)" "uncached W (bp_ranges p) (cs_db (ss_client s))"
    and run: "run_chain C c current s = Some (Inr (), s')"
  shows "view (ss_db s') = fold (range_effect W chain t cols pk) (bp_ranges p) (view (ss_db s))"
    and "clean tables (ss_buffer s')" and "same_tables (ss_buffer s) (ss_buffer s')"
proof -
  let ?db = "(cs_db (ss_client s))\<lparr>c_clock := Suc (c_clock (cs_db (ss_client s)))\<rparr>"
  have name: "bp_contract_name p = cc_name k" by (rule plan_name [OF plan])
  have "make_plans C c current [k] (cs_db (ss_client s)) = Some (Inr [p], ?db)"
    using plan by (simp add: get_checkpoint_def contract(1) Let_def chunk_of_def)
  then obtain total where run': "for_each (run_range C c [p]) [0..<length (bp_ranges p)]
      (s\<lparr>ss_client := (ss_client s)\<lparr>cs_db := ?db\<rparr>, ss_progress := init_chain c total (ss_progress s)\<rparr>) = (Inr (), s')"
    using run contract(2) by (auto simp: run_chain_def Let_def max_ranges_single bind_res_Inr_iff split: sum.splits prod.splits)
  have windows: "distinct (map window (bp_ranges p))"
    using plan_bounds(1,2) [OF plan contract(3,4)] by (intro windows_distinct) simp_all
  have cache: "uncached W (bp_ranges p) ?db" using start(2) by (simp add: uncached_def)
  have w: "co_workers C (c, bp_contract_name p) = Some W" using worker(1) name by simp
  have "view (ss_db s') = fold (range_effect W chain t cols pk) (drop 0 (bp_ranges p)) (view (ss_db s)) \<and>
      clean tables (ss_buffer s') \<and> same_tables (ss_buffer s) (ss_buffer s')"
    using ranges_step [OF server table(1) w worker(2) windows fits run'] table start(1) cache by simp
  then show "view (ss_db s') = fold (range_effect W chain t cols pk) (bp_ranges p) (view (ss_db s))"
    "clean tables (ss_buffer s')" "same_tables (ss_buffer s) (ss_buffer s')" by simp_all
qed

end

section \<open>A run that succeeds\<close>

text \<open>A provider that answers every request of the worker, and a database that takes the rows of a table.\<close>

definition answers :: "('p, 'j) backfill_worker \<Rightarrow> (block_range \<Rightarrow> log list) \<Rightarrow> bool" where
  "answers W chain \<longleftrightarrow>
     (\<forall>r n. \<exists>n'. client_get_logs (tc_encode (e_codec (bw_env W))) (e_json_logs (bw_env W)) (e_provider (bw_env W))
        (e_chain_id (bw_env W)) (worker_filter W r) n = (Inr (chain r), n'))"

definition takes :: "renderer \<Rightarrow> 'd execute \<Rightarrow> write_buffer \<Rightarrow> string \<Rightarrow> row list \<Rightarrow> bool" where
  "takes R exec b t rows \<longleftrightarrow>
     rows = [] \<or> list_all is_insert rows \<and>
       (\<exists>cols. wb_table_columns b t = Some cols \<and> (\<forall>d. \<exists>d'. exec (insert_sql R (wb_pg_schema b) t cols rows) d = (Inr (), d')))"

lemma fetch_succeeds:
  assumes "answers W chain" and "uncached W (r # rs) (cs_db s)"
    and "decode_logs (bw_decoder W) (cc_name (bw_contract W)) (chain r) = Inr es"
  shows "\<exists>s'. fetch_range W r s = (Inr (range_events W chain r), s')"
proof -
  let ?E = "bw_env W" and ?f = "worker_filter W r"
  obtain x db where get: "store_get_logs (e_codec ?E) (e_fail ?E) (e_chain_id ?E) ?f (cs_db s) = (x, db)"
    by (cases "store_get_logs (e_codec ?E) (e_fail ?E) (e_chain_id ?E) ?f (cs_db s)")
  have miss: "x \<noteq> Inr (Some ls)" for ls
    using get_logs_miss [of "cs_db s" "e_codec ?E" "e_chain_id ?E" ?f "e_fail ?E" ls] assms(2) get
    by (simp add: uncached_def)
  obtain n' where call: "client_get_logs (tc_encode (e_codec ?E)) (e_json_logs ?E) (e_provider ?E) (e_chain_id ?E) ?f (cs_net s) =
      (Inr (chain r), n')"
    using assms(1) unfolding answers_def by blast
  have "(\<exists>e. x = Inl e) \<or> x = Inr None" using miss by (cases x) auto
  then obtain s' where "cached_get_logs ?E ?f s = (Inr (chain r), s')"
    using call by (auto simp: cached_get_logs_def get Let_def record_miss_def)
  then show ?thesis using assms(3)
    by (simp add: fetch_range_def seq_def map_err_def lift_res_def range_events_def)
qed

lemma flush_table_succeeds:
  assumes "takes R exec b t (buffered b t)"
  shows "\<exists>n b' d'. flush_table R exec t (b, d) = (Inr n, b', d')"
proof (cases "buffered b t = []")
  case True
  then show ?thesis by (auto simp: flush_table_def buffered_def Let_def split: option.splits)
next
  case False
  then obtain rows where rows: "wb_buffers b t = Some rows" "buffered b t = rows" "rows \<noteq> []"
    by (auto simp: buffered_def split: option.splits)
  then obtain cols d' where ins: "list_all is_insert rows" "wb_table_columns b t = Some cols"
    "exec (insert_sql R (wb_pg_schema b) t cols rows) d = (Inr (), d')"
    using assms by (auto simp: takes_def) blast
  then have "filter is_insert rows = rows" "filter is_update rows = []" "filter is_delete rows = []"
    by (auto simp: list_all_iff filter_empty_conv is_insert_def)
  then show ?thesis using rows ins
    by (auto simp: flush_table_def Let_def flush_rows_def flush_inserts_def flush_updates_def flush_deletes_def
        execute_flush_def map_err_def delete_keys_def seq_def ret_def split: option.splits)
qed

lemma flush_tables_succeed:
  assumes "\<forall>t \<in> set ts. takes R exec b t (buffered b t)" and "distinct ts"
  shows "\<exists>n b' d'. flush_tables R exec ts stats (b, d) = (Inr n, b', d')"
  using assms
proof (induction ts arbitrary: b d stats)
  case (Cons t ts)
  obtain n b1 d1 where one: "flush_table R exec t (b, d) = (Inr n, b1, d1)"
    using flush_table_succeeds Cons.prems(1) by fastforce
  have "\<forall>u \<in> set ts. takes R exec b1 u (buffered b1 u)"
  proof
    fix u assume u: "u \<in> set ts"
    then have "u \<noteq> t" using Cons.prems(2) by auto
    then have "buffered b1 u = buffered b u" by (rule flush_table_buffer(2) [OF one])
    then show "takes R exec b1 u (buffered b1 u)"
      using Cons.prems(1) u flush_table_buffer(3,5) [OF one] by (simp add: takes_def)
  qed
  from Cons.IH [OF this, of "if n > 0 then stats @ [(t, n)] else stats" d1] show ?case
    using Cons.prems(2) one by (auto simp: seq_def)
qed (simp add: ret_def)

context backfill_app
begin

definition range_healthy :: "('p, 'j) backfill_worker \<Rightarrow> (block_range \<Rightarrow> log list) \<Rightarrow> write_buffer \<Rightarrow> block_range \<Rightarrow> bool" where
  "range_healthy W chain b r \<longleftrightarrow>
     range_fits W chain (wb_max_size b) r \<and>
     (\<exists>es. decode_logs (bw_decoder W) (cc_name (bw_contract W)) (chain r) = Inr es) \<and>
     (\<forall>t. takes (co_renderer C) (co_exec C) b t (event_rows (range_events W chain r) t))"

lemma range_succeeds:
  assumes worker: "co_workers C (c, bp_contract_name p) = Some W" "answers W chain" and range: "plan_range idx p = Some r"
    and cache: "uncached W (r # rs) (cs_db (ss_client s))" and healthy: "range_healthy W chain (ss_buffer s) r"
    and clean: "clean tables (ss_buffer s)" and fail: "co_fail C = no_fail" "bounded_plan p" and order: "br_from r \<le> br_to r"
  shows "\<exists>s'. run_range C c [p] idx s = (Inr (), s')"
proof -
  let ?es = "range_events W chain r"
  obtain c1 where fetch: "fetch_range W r (ss_client s) = (Inr ?es, c1)"
    using fetch_succeeds [OF worker(2) cache] healthy by (auto simp: range_healthy_def)
  let ?s1 = "s\<lparr>ss_client := c1\<rparr>"
  have fetched: "fetch_all C c idx [p] s = (Inr ?es, ?s1)"
    using worker(1) range fetch by (simp add: seq_def on_client_def ret_def)
  obtain b where b: "for_each (handle_event C) ?es ?s1 = (Inr (), ?s1\<lparr>ss_buffer := b\<rparr>)"
    "appends tables (event_rows ?es) (ss_buffer s) b"
    using handle_events [of ?es ?s1] healthy clean by (auto simp: range_healthy_def range_fits_def clean_def)
  have "takes (co_renderer C) (co_exec C) b t (buffered b t)" for t
    using healthy b(2) clean by (simp add: range_healthy_def takes_def appends_def clean_def same_tables_def)
  then obtain n b' d' where "flush_all (co_renderer C) (co_exec C) (co_keys C) (b, ss_db s) = (Inr n, b', d')"
    using flush_tables_succeed [of "co_keys C (wb_buffers b)" "co_renderer C" "co_exec C" b "[]" "ss_db s"] b(2) keys_law
    by (auto simp: flush_all_def appends_def)
  then have flush: "map_err (lift_err Sync_Database) (on_buffer (flush_all (co_renderer C) (co_exec C) (co_keys C)))
      (?s1\<lparr>ss_buffer := b\<rparr>) = (Inr n, ?s1\<lparr>ss_buffer := b', ss_db := d'\<rparr>)"
    by (simp add: map_err_def on_buffer_def)
  have "unat (br_to r) + 1 < 2 ^ 64"
    using fail(2) range by (auto simp: bounded_plan_def plan_range_def split: if_splits)
  then have "(add_u (br_to r - br_from r) 1 :: (u64, sync_error) result) = Inr (br_to r - br_from r + 1)"
    using order by (intro add_u_ok) (simp add: unat_sub)
  then have blocks: "blocks_in_range idx [p] = Inr (br_to r - br_from r + 1)"
    using range order by (simp add: blocks_in_range_def range_len_def sub_u_ok)
  obtain s4 where "for_each (write_checkpoint C c idx) [p] (?s1\<lparr>ss_buffer := b', ss_db := d'\<rparr>) = (Inr (), s4)"
    using write_checkpoints_ok [OF fail(1), of "[p]" c idx] fail(2) by auto
  then show ?thesis
    unfolding run_range_def using fetched b(1) flush blocks by (simp add: seq_def lift_res_def sort_range_events Let_def)
qed

lemma ranges_succeed:
  assumes worker: "co_workers C (c, bp_contract_name p) = Some W" "answers W chain" "serves W chain"
    and plan: "distinct (map window (bp_ranges p))" "bounded_plan p" "\<forall>r \<in> set (bp_ranges p). br_from r \<le> br_to r"
    and fail: "co_fail C = no_fail"
    and healthy: "\<forall>r \<in> set (bp_ranges p). range_healthy W chain b r" and same: "same_tables b (ss_buffer s)"
    and start: "clean tables (ss_buffer s)" "uncached W (drop i (bp_ranges p)) (cs_db (ss_client s))"
  shows "\<exists>s'. for_each (run_range C c [p]) [i..<length (bp_ranges p)] s = (Inr (), s') \<and> clean tables (ss_buffer s')"
  using same start
proof (induction "length (bp_ranges p) - i" arbitrary: i s)
  case 0
  then show ?case by (simp add: ret_def)
next
  case (Suc m)
  then have i: "i < length (bp_ranges p)" and up: "[i..<length (bp_ranges p)] = i # [Suc i..<length (bp_ranges p)]"
    by (auto simp: upt_conv_Cons)
  let ?r = "bp_ranges p ! i" and ?rs = "drop (Suc i) (bp_ranges p)"
  have dr: "drop i (bp_ranges p) = ?r # ?rs" using i by (simp add: Cons_nth_drop_Suc)
  have "distinct (map window (?r # ?rs))" unfolding dr [symmetric] drop_map [symmetric] by (rule distinct_drop [OF plan(1)])
  then have others: "\<forall>r' \<in> set ?rs. window r' \<noteq> window ?r" using distinct_map_Cons [of window ?r ?rs] by blast
  have r: "plan_range i p = Some ?r" "?r \<in> set (bp_ranges p)" using i by (simp_all add: plan_range_def)
  have U: "uncached W (?r # ?rs) (cs_db (ss_client s))" using Suc.prems(3) by (simp only: dr)
  have H: "range_healthy W chain (ss_buffer s) ?r"
    using healthy r(2) Suc.prems(1) by (simp add: range_healthy_def takes_def same_tables_def)
  obtain s1 where step: "run_range C c [p] i s = (Inr (), s1)"
    using range_succeeds [OF worker(1,2) r(1) U H Suc.prems(2) fail plan(2)] plan(3) r(2) by blast
  have F: "range_fits W chain (wb_max_size (ss_buffer s)) ?r" using H by (simp add: range_healthy_def)
  obtain b1 n where b: "appends tables (event_rows (range_events W chain ?r)) (ss_buffer s) b1"
    and flush: "flush_all (co_renderer C) (co_exec C) (co_keys C) (b1, ss_db s) = (Inr n, ss_buffer s1, ss_db s1)"
    and cache1: "uncached W ?rs (cs_db (ss_client s1))"
    by (rule range_handled [OF worker(1,3) r(1) U others F Suc.prems(2) step])
  note b1 = flush_clean [OF b Suc.prems(2) flush]
  have "\<exists>s'. for_each (run_range C c [p]) [Suc i..<length (bp_ranges p)] s1 = (Inr (), s') \<and> clean tables (ss_buffer s')"
    using Suc.hyps(2) i Suc.prems(1) b1 cache1 by (intro Suc.hyps(1)) (auto simp: same_tables_def)
  then show ?case using step by (auto simp: up seq_def)
qed

lemma chain_succeeds:
  assumes contract: "co_fail C = no_fail" "co_chain_contracts C c = Some [k]" "0 < chunk_of C c"
      "unat current + unat (chunk_of C c) < 2 ^ 64"
    and plan: "plan k c current (checkpoints s (c, cc_name k)) (chunk_of C c) = Some (Inr p)"
    and worker: "co_workers C (c, cc_name k) = Some W" "answers W chain" "serves W chain"
    and healthy: "\<forall>r \<in> set (bp_ranges p). range_healthy W chain (ss_buffer s) r"
    and start: "clean tables (ss_buffer s)" "uncached W (bp_ranges p) (cs_db (ss_client s))"
  shows "\<exists>s'. run_chain C c current s = Some (Inr (), s') \<and> clean tables (ss_buffer s')"
proof -
  let ?db = "(cs_db (ss_client s))\<lparr>c_clock := Suc (c_clock (cs_db (ss_client s)))\<rparr>"
  have plans: "make_plans C c current [k] (cs_db (ss_client s)) = Some (Inr [p], ?db)"
    using plan by (simp add: get_checkpoint_def contract(1) Let_def chunk_of_def)
  note bounds = plan_bounds [OF plan contract(3,4)]
  have windows: "distinct (map window (bp_ranges p))" using bounds(1,2) by (intro windows_distinct) simp_all
  have bounded: "bounded_plan p" using bounds(3) by (simp add: bounded_plan_def)
  have w: "co_workers C (c, bp_contract_name p) = Some W" using worker(1) plan_name [OF plan] by simp
  have "(add_u 0 (bp_total_blocks p) :: (u64, sync_error) result) = Inr (bp_total_blocks p)"
    using unsigned_less [of "bp_total_blocks p", where ?'a = nat] by (simp add: add_u_Inr_iff)
  then have total: "sum_blocks [p] = Inr (bp_total_blocks p)" by (simp add: sum_blocks_def)
  let ?s = "s\<lparr>ss_client := (ss_client s)\<lparr>cs_db := ?db\<rparr>, ss_progress := init_chain c (bp_total_blocks p) (ss_progress s)\<rparr>"
  have "\<exists>s'. for_each (run_range C c [p]) [0..<length (bp_ranges p)] ?s = (Inr (), s') \<and> clean tables (ss_buffer s')"
    using start bounds(2) healthy
    by (intro ranges_succeed [OF w worker(2,3) windows bounded _ contract(1), of "ss_buffer s"])
      (auto simp: uncached_def same_tables_def)
  then show ?thesis using contract(2) plans total
    by (simp add: run_chain_def Let_def max_ranges_single del: make_plans.simps)
qed

end

end
