(* ===== verification/Sql_Validator.thy ===== *)
theory Sql_Validator
  imports Errors Std_Strings
begin

text \<open>
  The validator of the SQL endpoint (\<open>forge-index-api/src/sql/parser.rs\<close> and
  \<open>sql/mod.rs\<close>). Queries are strings of ASCII characters, on which the Unicode operations
  of the code (case, white space) are those of \<open>Std_Strings\<close>.
\<close>

section \<open>The validator\<close>

datatype sql_error =
    InvalidStatement string
  | ForbiddenKeyword string
  | TooLong nat nat
  | Timeout
  | Sql_Database sqlx_error

definition max_query_length :: nat where "max_query_length = 10000"

definition max_limit :: nat where "max_limit = 1000"

definition banned_keywords :: "string list" where
  "banned_keywords = [''INSERT'', ''UPDATE'', ''DELETE'', ''DROP'', ''CREATE'', ''ALTER'', ''TRUNCATE'',
     ''GRANT'', ''REVOKE'', ''COPY'', ''EXECUTE'']"

definition banned_schemas :: "string list" where
  "banned_schemas = [''pg_catalog'', ''information_schema'']"

record validated_sql =
  vs_original :: string
  vs_sanitised :: string
  vs_table_names :: "string list"

text \<open>A character that continues a word.\<close>

definition word_char :: "char \<Rightarrow> bool" where
  "word_char c \<longleftrightarrow> is_ascii_alphanumeric c \<or> c = CHR ''_''"

text \<open>
  The loop of \<open>find_keyword_pos\<close> from the index \<open>start\<close>; \<open>contains_keyword\<close> is the same
  loop with another result. The keywords of the callers are not empty.
\<close>

lemma find_sub_bound: "find_sub pat s = Some pos \<Longrightarrow> pos + length pat \<le> length s"
proof (induction pat s arbitrary: pos rule: find_sub.induct)
  case (2 pat c s)
  show ?case
  proof (cases "starts_with pat (c # s)")
    case True
    then have "length (take (length pat) (c # s)) = length pat" by (simp add: starts_with_def)
    then have "length pat \<le> length (c # s)" by simp
    then show ?thesis using 2 True by simp
  next
    case False
    then show ?thesis using 2 by auto
  qed
qed (auto split: if_splits)

function find_keyword_from :: "string \<Rightarrow> string \<Rightarrow> nat \<Rightarrow> nat option" where
  "find_keyword_from upper_sql keyword start =
     (if keyword = [] then None
      else case find_sub keyword (drop start upper_sql) of
        None \<Rightarrow> None
      | Some pos \<Rightarrow>
          (let abs_pos = start + pos;
               before_ok = (abs_pos = 0 \<or> \<not> word_char (upper_sql ! (abs_pos - 1)));
               after_pos = abs_pos + length keyword;
               after_ok = (after_pos \<ge> length upper_sql \<or> \<not> word_char (upper_sql ! after_pos))
           in if before_ok \<and> after_ok then Some abs_pos
              else find_keyword_from upper_sql keyword after_pos))"
  by pat_completeness auto
termination
proof (relation "measure (\<lambda>(s, _, start). length s - start)", goal_cases)
  case (2 s keyword start pos)
  then have "pos + length keyword \<le> length (drop start s)" using find_sub_bound by blast
  with 2 show ?case by (cases keyword) auto
qed simp

declare find_keyword_from.simps [simp del]

definition find_keyword_pos :: "string \<Rightarrow> string \<Rightarrow> nat option" where
  "find_keyword_pos upper_sql keyword = find_keyword_from upper_sql keyword 0"

definition contains_keyword :: "string \<Rightarrow> string \<Rightarrow> bool" where
  "contains_keyword upper_sql keyword \<longleftrightarrow> find_keyword_pos upper_sql keyword \<noteq> None"

text \<open>The table a token names; \<open>None\<close> for a subquery.\<close>

definition table_of_token :: "string \<Rightarrow> string option" where
  "table_of_token t =
     (let raw = trim_matches (\<lambda>c. c = CHR 0x22)
                  (trim_matches (\<lambda>c. c = CHR ''('' \<or> c = CHR '')'' \<or> c = CHR '','') t)
      in if raw \<noteq> [] \<and> raw \<noteq> ''('' \<and> \<not> starts_with ''SELECT'' (upper raw) \<and> \<not> starts_with ''('' raw
         then Some (case rsplit_once CHR ''.'' raw of Some (_, table) \<Rightarrow> table | None \<Rightarrow> raw)
         else None)"

fun extract_tokens :: "string list \<Rightarrow> string list \<Rightarrow> string list" where
  "extract_tokens tables (t # u # ts) =
     extract_tokens
       (if upper t = ''FROM'' \<or> ends_with ''JOIN'' (upper t)
        then (case table_of_token u of
                Some name \<Rightarrow> if name \<in> set tables then tables else tables @ [name]
              | None \<Rightarrow> tables)
        else tables) (u # ts)"
| "extract_tokens tables _ = tables"

definition extract_table_names :: "string \<Rightarrow> string list" where
  "extract_table_names sql = extract_tokens [] (split_whitespace sql)"

definition prefix_step :: "string \<Rightarrow> string \<Rightarrow> string \<Rightarrow> string \<Rightarrow> string" where
  "prefix_step pg_schema table kw result =
     (let qualified = pg_schema @ ''.'' @ dquote @ table @ dquote;
          pattern = kw @ '' '' @ table;
          already_qualified = kw @ '' '' @ pg_schema @ ''.'';
          already_quoted = kw @ '' '' @ dquote @ table;
          result = (if contains_sub pattern result \<and> \<not> contains_sub already_qualified result
                    then replace_all pattern (kw @ '' '' @ qualified) result else result)
      in if contains_sub already_quoted result \<and> \<not> contains_sub already_qualified result
         then replace_all (kw @ '' '' @ dquote @ table @ dquote) (kw @ '' '' @ qualified) result else result)"

definition add_schema_prefix :: "string \<Rightarrow> string \<Rightarrow> string \<Rightarrow> string" where
  "add_schema_prefix sql table pg_schema =
     fold (prefix_step pg_schema table) [''FROM'', ''JOIN'', ''from'', ''join'', ''From'', ''Join''] sql"

definition enforce_limit :: "string \<Rightarrow> string" where
  "enforce_limit sql =
     (case find_keyword_pos (upper sql) ''LIMIT'' of
        None \<Rightarrow> sql @ '' LIMIT '' @ nat_str max_limit
      | Some limit_pos \<Rightarrow>
          (let rest = drop (limit_pos + 5) sql; after_limit = trim_start rest
           in case split_whitespace after_limit of
                [] \<Rightarrow> sql
              | num_str # _ \<Rightarrow>
                  (case parse_u64 (trim_matches (\<lambda>c. \<not> is_digit c) num_str) of
                     None \<Rightarrow> sql
                   | Some n \<Rightarrow>
                       if unat n > max_limit
                       then (let num_start = length sql - length rest + (length rest - length after_limit);
                                 num_end = num_start + length num_str
                             in take num_start sql @ nat_str max_limit @ drop num_end sql)
                       else sql)))"

definition validate_sql :: "string \<Rightarrow> string \<Rightarrow> sql_error + validated_sql" where
  "validate_sql query pg_schema =
     (let sql = trim query;
          trimmed = trim (trim_end_matches CHR '';'' sql);
          first_word = upper (case split_whitespace sql of w # _ \<Rightarrow> w | [] \<Rightarrow> [])
      in if length sql > max_query_length then Inl (TooLong (length sql) max_query_length)
         else if sql = [] then Inl (InvalidStatement ''Empty query'')
         else if first_word \<noteq> ''SELECT'' then Inl (InvalidStatement ''Only SELECT statements are allowed'')
         else if CHR '';'' \<in> set trimmed then Inl (InvalidStatement ''Multiple statements are not allowed'')
         else if contains_sub ''$$'' sql \<or> contains_sub ''$tag$'' sql
              then Inl (InvalidStatement ''Dollar-sign quoting is not allowed'')
         else case find (contains_keyword (upper sql)) banned_keywords of
                Some keyword \<Rightarrow> Inl (ForbiddenKeyword keyword)
              | None \<Rightarrow>
                  (case find (\<lambda>schema. contains_sub schema (lower sql)) banned_schemas of
                     Some schema \<Rightarrow> Inl (ForbiddenKeyword (''Access to '' @ schema @ '' is not allowed''))
                   | None \<Rightarrow>
                       (let table_names = extract_table_names trimmed;
                            sanitised = fold (\<lambda>table sql. add_schema_prefix sql table pg_schema) table_names trimmed
                        in Inr \<lparr> vs_original = sql, vs_sanitised = enforce_limit sanitised,
                                 vs_table_names = table_names \<rparr>)))"

section \<open>The scan for keywords\<close>

text \<open>A word stands at position \<open>p\<close>, and no word character touches it.\<close>

definition occurs_at :: "string \<Rightarrow> string \<Rightarrow> nat \<Rightarrow> bool" where
  "occurs_at kw s p \<longleftrightarrow> take (length kw) (drop p s) = kw"

definition standalone_at :: "string \<Rightarrow> string \<Rightarrow> nat \<Rightarrow> bool" where
  "standalone_at kw s p \<longleftrightarrow> occurs_at kw s p \<and> (p = 0 \<or> \<not> word_char (s ! (p - 1))) \<and>
     (p + length kw \<ge> length s \<or> \<not> word_char (s ! (p + length kw)))"

lemma occurs_at_bound: "occurs_at kw s p \<Longrightarrow> kw \<noteq> [] \<Longrightarrow> p + length kw \<le> length s"
proof -
  assume a: "occurs_at kw s p" "kw \<noteq> []"
  then have "length (take (length kw) (drop p s)) = length kw" by (simp add: occurs_at_def)
  with a(2) show ?thesis by (cases "p \<le> length s") (auto simp: min_def split: if_splits)
qed

lemma occurs_at_nth: "occurs_at kw s p \<Longrightarrow> i < length kw \<Longrightarrow> s ! (p + i) = kw ! i"
proof -
  assume a: "occurs_at kw s p" "i < length kw"
  then have b: "p + length kw \<le> length s" by (intro occurs_at_bound) auto
  from a have "kw ! i = take (length kw) (drop p s) ! i" by (simp add: occurs_at_def)
  with a(2) b show ?thesis by simp
qed

lemma find_sub_occurs:
  assumes "pat \<noteq> []"
  shows "find_sub pat s = (if \<exists>p. occurs_at pat s p then Some (LEAST p. occurs_at pat s p) else None)"
proof (induction s)
  case Nil
  then show ?case using assms by (simp add: occurs_at_def)
next
  case (Cons c s)
  have step: "occurs_at pat (c # s) (Suc p) \<longleftrightarrow> occurs_at pat s p" for p
    by (simp add: occurs_at_def)
  have zero: "occurs_at pat (c # s) 0 \<longleftrightarrow> starts_with pat (c # s)"
    by (simp add: occurs_at_def starts_with_def)
  show ?case
  proof (cases "starts_with pat (c # s)")
    case True
    then have "(LEAST p. occurs_at pat (c # s) p) = 0" using zero by (intro Least_eq_0) simp
    then show ?thesis using True zero by auto
  next
    case False
    have ex: "(\<exists>p. occurs_at pat (c # s) p) \<longleftrightarrow> (\<exists>p. occurs_at pat s p)"
      using False zero step by (metis not0_implies_Suc)
    have "(LEAST p. occurs_at pat (c # s) p) = Suc (LEAST p. occurs_at pat s p)" if "occurs_at pat s p" for p
      using Least_Suc [of "occurs_at pat (c # s)" "Suc p"] that False zero by (simp add: step)
    then show ?thesis using False Cons ex by auto
  qed
qed

lemma find_sub_least:
  assumes "find_sub pat s = Some p" and "pat \<noteq> []"
  shows "occurs_at pat s p" and "\<And>q. q < p \<Longrightarrow> \<not> occurs_at pat s q"
proof -
  have ex: "\<exists>p. occurs_at pat s p" and p: "p = (LEAST p. occurs_at pat s p)"
    using assms by (auto simp: find_sub_occurs split: if_splits)
  show "occurs_at pat s p" unfolding p using ex by (rule LeastI_ex)
  show "\<And>q. q < p \<Longrightarrow> \<not> occurs_at pat s q" unfolding p by (rule not_less_Least)
qed

lemma contains_sub_occurs: "pat \<noteq> [] \<Longrightarrow> contains_sub pat s \<longleftrightarrow> (\<exists>p. occurs_at pat s p)"
  by (simp add: contains_sub_def find_sub_occurs)

lemma occurs_at_drop: "occurs_at kw (drop start s) p \<longleftrightarrow> occurs_at kw s (start + p)"
  by (simp add: occurs_at_def add.commute)

text \<open>
  The loop jumps over a whole occurrence, but a word that starts inside one has a word
  character before it, so nothing is missed.
\<close>

lemma inside_not_standalone:
  assumes "occurs_at kw s p" and "list_all word_char kw" and "p < q" and "q < p + length kw"
  shows "\<not> standalone_at kw' s q"
proof -
  have i: "q - 1 - p < length kw" using assms(3,4) by simp
  have "s ! (p + (q - 1 - p)) = kw ! (q - 1 - p)" by (rule occurs_at_nth [OF assms(1) i])
  moreover have "p + (q - 1 - p) = q - 1" using assms(3) by simp
  ultimately have "word_char (s ! (q - 1))" using assms(2) i by (auto simp: list_all_length)
  then show ?thesis using assms(3) by (auto simp: standalone_at_def)
qed

lemma find_keyword_from_spec:
  assumes "kw \<noteq> []" and "list_all word_char kw"
  shows "case find_keyword_from s kw start of
           None \<Rightarrow> \<forall>q \<ge> start. \<not> standalone_at kw s q
         | Some p \<Rightarrow> start \<le> p \<and> standalone_at kw s p \<and> (\<forall>q. start \<le> q \<and> q < p \<longrightarrow> \<not> standalone_at kw s q)"
proof (induction "length s - start" arbitrary: start rule: less_induct)
  case less
  show ?case
  proof (cases "find_sub kw (drop start s)")
    case None
    then have "\<not> occurs_at kw s (start + p)" for p
      using assms(1) by (auto simp: find_sub_occurs occurs_at_drop split: if_splits)
    then have "\<forall>q \<ge> start. \<not> standalone_at kw s q"
      by (metis le_add_diff_inverse standalone_at_def)
    then show ?thesis using None by (simp add: find_keyword_from.simps assms(1))
  next
    case (Some pos)
    let ?p = "start + pos"
    have pos: "occurs_at kw s ?p" "\<And>i. i < pos \<Longrightarrow> \<not> occurs_at kw s (start + i)"
      using find_sub_least [OF Some assms(1)] by (simp_all add: occurs_at_drop)
    have before: "\<not> standalone_at kw s q" if "start \<le> q" "q < ?p" for q
      using pos(2) [of "q - start"] that by (auto simp: standalone_at_def)
    have inside: "\<not> standalone_at kw s q" if "?p < q" "q < ?p + length kw" for q
      by (rule inside_not_standalone [OF pos(1) assms(2) that])
    show ?thesis
    proof (cases "standalone_at kw s ?p")
      case True
      then have "find_keyword_from s kw start = Some ?p"
        using Some assms(1) by (subst find_keyword_from.simps) (simp add: standalone_at_def Let_def)
      then show ?thesis using True before by simp
    next
      case False
      then have f: "find_keyword_from s kw start = find_keyword_from s kw (?p + length kw)"
        using Some assms(1) pos(1) by (subst find_keyword_from.simps) (auto simp: standalone_at_def Let_def)
      have "?p + length kw \<le> length s" by (rule occurs_at_bound [OF pos(1) assms(1)])
      then have "length s - (?p + length kw) < length s - start" using assms(1) by (cases kw) auto
      note IH = less [OF this]
      have skip: "\<not> standalone_at kw s q" if "start \<le> q" "q < ?p + length kw" for q
        using before [OF that(1)] inside [OF _ that(2)] False by (metis nat_neq_iff)
      show ?thesis
      proof (cases "find_keyword_from s kw (?p + length kw)")
        case None
        then show ?thesis using IH skip by (auto simp: f) (metis not_le)
      next
        case (Some p)
        then show ?thesis using IH skip by (auto simp: f) (metis not_le)
      qed
    qed
  qed
qed

lemma find_keyword_pos_Some:
  assumes "kw \<noteq> []" and "list_all word_char kw" and "standalone_at kw s p"
    and "\<And>q. q < p \<Longrightarrow> \<not> standalone_at kw s q"
  shows "find_keyword_pos s kw = Some p"
  using find_keyword_from_spec [OF assms(1,2), where s = s and start = 0] assms(3,4)
  by (auto simp: find_keyword_pos_def split: option.splits) (metis nat_neq_iff)

lemma find_keyword_pos_None:
  assumes "kw \<noteq> []" and "list_all word_char kw"
  shows "find_keyword_pos s kw = None \<longleftrightarrow> (\<forall>q. \<not> standalone_at kw s q)"
  using find_keyword_from_spec [OF assms, where s = s and start = 0] by (auto simp: find_keyword_pos_def split: option.splits)

section \<open>The limit\<close>

lemma word_char_facts [simp]:
  "word_char CHR ''L''" "word_char CHR ''I''" "word_char CHR ''M''" "word_char CHR ''T''" "\<not> word_char CHR '' ''" "\<not> word_char CHR ''(''" "word_char CHR ''1''"
  by (simp_all add: word_char_def is_ascii_alphanumeric_def is_ascii_alphabetic_def is_digit_def)

lemma limit_word: "''LIMIT'' \<noteq> []" "list_all word_char ''LIMIT''"
  by simp_all

lemma upper_simps [simp]:
  "upper (a @ b) = upper a @ upper b" "length (upper s) = length s" "upper [] = []"
  "upper (c # s) = ascii_upper c # upper s"
  by (simp_all add: upper_def)

lemma ascii_upper_id: "\<not> (97 \<le> (of_char c :: nat) \<and> (of_char c :: nat) \<le> 122) \<Longrightarrow> ascii_upper c = c"
  unfolding ascii_upper_def Let_def by (rule if_not_P)

lemma upper_LIMIT:
  "ascii_upper CHR ''L'' = CHR ''L''" "ascii_upper CHR ''I'' = CHR ''I''" "ascii_upper CHR ''M'' = CHR ''M''"
  "ascii_upper CHR ''T'' = CHR ''T''" "ascii_upper CHR '' '' = CHR '' ''" "ascii_upper CHR ''('' = CHR ''(''"
  "ascii_upper CHR '')'' = CHR '')''"
  by (simp_all add: ascii_upper_id)

lemma upper_digits: "list_all is_digit s \<Longrightarrow> upper s = s"
  by (induction s) (auto simp: is_digit_def ascii_upper_id)

text \<open>
  Behind a query without the word, a space and the word: positions up to the space hold
  no occurrence that stands alone.
\<close>

lemma no_limit_before:
  assumes none: "\<forall>p. \<not> standalone_at ''LIMIT'' u p" and "p \<le> length u"
  shows "\<not> standalone_at ''LIMIT'' (u @ CHR '' '' # t) p"
proof
  let ?s = "u @ CHR '' '' # t"
  assume st: "standalone_at ''LIMIT'' ?s p"
  then have oc: "occurs_at ''LIMIT'' ?s p" by (simp add: standalone_at_def)
  show False
  proof (cases "p + 5 \<le> length u")
    case False
    then have "length u - p < 5" "p + (length u - p) = length u" using assms(2) by auto
    then have "?s ! length u = ''LIMIT'' ! (length u - p)"
      using occurs_at_nth [OF oc, of "length u - p"] by simp
    moreover have "?s ! length u = CHR '' ''" by simp
    moreover have "''LIMIT'' ! i \<noteq> CHR '' ''" if "i < 5" for i
      using that by (simp add: less_Suc_eq numeral_eq_Suc) auto
    ultimately show False using \<open>length u - p < 5\<close> by metis
  next
    case True
    have "take (length ''LIMIT'') (drop p ?s) = take (length ''LIMIT'') (drop p u)" using True by simp
    then have "occurs_at ''LIMIT'' u p" using oc by (simp only: occurs_at_def)
    moreover have "p = 0 \<or> \<not> word_char (u ! (p - 1))"
    proof -
      have "p - 1 < length u" if "p \<noteq> 0" using True that by simp
      then have "?s ! (p - 1) = u ! (p - 1)" if "p \<noteq> 0" using that by (simp add: nth_append)
      then show ?thesis using st by (auto simp: standalone_at_def)
    qed
    moreover have "p + 5 \<ge> length u \<or> \<not> word_char (u ! (p + 5))"
    proof -
      have "length ''LIMIT'' = 5" by simp
      then have "length ?s \<le> p + 5 \<or> \<not> word_char (?s ! (p + 5))"
        using st unfolding standalone_at_def by presburger
      then show ?thesis by (cases "p + 5 < length u") (auto simp: nth_append simp del: add_Suc_right)
    qed
    moreover have "length ''LIMIT'' = 5" by simp
    ultimately have "standalone_at ''LIMIT'' u p" unfolding standalone_at_def by presburger
    then show False using none by blast
  qed
qed

lemma limit_pos:
  assumes "\<forall>p. \<not> standalone_at ''LIMIT'' (upper q) p" and "t = [] \<or> \<not> word_char (hd (upper t))"
  shows "find_keyword_pos (upper (q @ '' LIMIT'' @ t)) ''LIMIT'' = Some (length q + 1)"
proof (rule find_keyword_pos_Some)
  let ?s = "upper q @ CHR '' '' # ''LIMIT'' @ upper t"
  have s: "upper (q @ '' LIMIT'' @ t) = ?s" by (simp add: upper_LIMIT)
  have "occurs_at ''LIMIT'' ?s (length q + 1)" by (simp add: occurs_at_def)
  moreover have "?s ! (length q + 1 - 1) = CHR '' ''" by (simp add: nth_append)
  moreover have "length q + 1 + 5 \<ge> length ?s \<or> \<not> word_char (?s ! (length q + 1 + 5))"
    using assms(2) by (cases t) (auto simp: nth_append)
  ultimately show "standalone_at ''LIMIT'' (upper (q @ '' LIMIT'' @ t)) (length q + 1)"
    unfolding s standalone_at_def by (simp add: eval_nat_numeral)
  show "\<not> standalone_at ''LIMIT'' (upper (q @ '' LIMIT'' @ t)) p" if "p < length q + 1" for p
    unfolding s using no_limit_before [OF assms(1), of p] that by simp
qed simp_all

lemma no_whitespace_digit: "is_digit c \<Longrightarrow> \<not> is_whitespace c"
  by (auto simp: is_digit_def is_whitespace_def Let_def)

lemma split_one_word:
  assumes "w \<noteq> []" and "list_all (\<lambda>c. \<not> is_whitespace c) w"
  shows "split_whitespace w = [w]"
proof -
  have "trim_start w = w" using assms by (cases w) (simp_all add: trim_start_def)
  moreover have "takeWhile (\<lambda>c. \<not> is_whitespace c) w = w" "dropWhile (\<lambda>c. \<not> is_whitespace c) w = []"
    using assms(2) by (simp_all add: takeWhile_eq_all_conv dropWhile_eq_Nil_conv list_all_iff)
  moreover have "split_whitespace [] = []" by (simp add: split_whitespace.simps trim_start_def)
  ultimately show ?thesis using assms(1) by (simp only: split_whitespace.simps [of w] Let_def if_False)
qed

lemma trim_matches_mid:
  assumes "w \<noteq> []" and "list_all P a" and "list_all P b" and "list_all (\<lambda>c. \<not> P c) w"
  shows "trim_matches P (a @ w @ b) = w"
proof -
  have w: "dropWhile P w = w" using assms(1,4) by (cases w) simp_all
  have w': "dropWhile P (rev w) = rev w" using assms(1,4) by (cases w rule: rev_cases) (simp_all add: list_all_iff)
  have "dropWhile P (a @ w @ b) = w @ b"
    using assms(2) w assms(1,4) by (induction a) (auto simp: dropWhile_append list_all_iff split: if_splits)
  moreover have "dropWhile P (rev b @ rev w) = rev w"
    using assms(3) w' by (simp add: dropWhile_append list_all_iff)
  ultimately show ?thesis by (simp add: trim_matches_def)
qed

lemma parse_u64_nat_str: "n < 2 ^ 64 \<Longrightarrow> parse_u64 (nat_str n) = Some (of_nat n)"
  by (simp add: parse_u64_def parse_nat_nat_str)

lemma nat_str_word: "list_all (\<lambda>c. \<not> is_whitespace c) (nat_str n)"
  using nat_str_digits [of n] by (auto simp: list_all_iff no_whitespace_digit)


lemma digit_chars:
  "digit_char 0 = CHR ''0''" "digit_char (Suc 0) = CHR ''1''" "digit_char 5 = CHR ''5''"
  by code_simp+

lemma number_texts: "nat_str 5000 = ''5000''" "nat_str 1000 = ''1000''"
  by (simp_all add: nat_str.simps digit_chars)


lemma joined_limit_not_word:
  assumes "\<forall>p. \<not> standalone_at ''LIMIT'' (upper q) p"
  shows "\<forall>p. \<not> standalone_at ''LIMIT'' (upper q @ CHR '' '' # ''LIMIT1000'') p"
proof
  fix p
  let ?s = "upper q @ CHR '' '' # ''LIMIT1000''"
  consider "p \<le> length q" | "p = length q + 1" | "length q + 2 \<le> p" by linarith
  then show "\<not> standalone_at ''LIMIT'' ?s p"
  proof cases
    case 1
    then show ?thesis using no_limit_before [OF assms, of p] by simp
  next
    case 2
    have "?s ! (p + length ''LIMIT'') = CHR ''1''" by (simp add: 2 nth_append)
    then show ?thesis unfolding standalone_at_def by (simp add: 2)
  next
    case 3
    show ?thesis
    proof
      assume "standalone_at ''LIMIT'' ?s p"
      then have oc: "occurs_at ''LIMIT'' ?s p" by (simp add: standalone_at_def)
      have "p < length ?s" using occurs_at_bound [OF oc] by simp
      then have "?s ! p \<in> set ''IMIT1000''"
        using 3 nth_mem [of "p - length q - 2" "''IMIT1000''"] by (simp add: nth_append nth_Cons' eval_nat_numeral)
      moreover have "?s ! p = CHR ''L''" using occurs_at_nth [OF oc, of 0] by simp
      ultimately show False by simp
    qed
  qed
qed

text \<open>
  A limit in parentheses escapes: it is replaced together with its
  parentheses, so that the keyword and the number run together into one name. What is
  left has no LIMIT any more, and the server reads the name as an alias of the table.
\<close>

lemma limit_in_parentheses_lost:
  assumes "\<forall>p. \<not> standalone_at ''LIMIT'' (upper q) p" and "1000 < n" and "n < 2 ^ 64"
  shows "enforce_limit (q @ '' LIMIT('' @ nat_str n @ '')'') = q @ '' LIMIT1000'' \<and>
         \<not> contains_keyword (upper (q @ '' LIMIT1000'')) ''LIMIT''"
proof
  let ?t = "''('' @ nat_str n @ '')''"
  have pos: "find_keyword_pos (upper (q @ '' LIMIT'' @ ?t)) ''LIMIT'' = Some (length q + 1)"
    by (rule limit_pos [OF assms(1)]) (simp add: upper_LIMIT)
  have rest: "drop (length q + 1 + 5) (q @ '' LIMIT'' @ ?t) = ?t" by simp
  have after: "trim_start ?t = ?t" by (simp add: trim_start_def is_whitespace_def)
  have word: "split_whitespace ?t = [?t]"
    using nat_str_word [of n] by (intro split_one_word) (simp_all add: is_whitespace_def)
  have num: "trim_matches (\<lambda>c. \<not> is_digit c) ?t = nat_str n"
    by (rule trim_matches_mid) (use nat_str_digits [of n] in simp_all, simp_all add: is_digit_def)
  have "unat (of_nat n :: u64) = n" using assms(3) by (simp add: unat_of_nat take_bit_nat_eq_self)
  then have "enforce_limit (q @ '' LIMIT'' @ ?t) = q @ '' LIMIT1000''"
    using parse_u64_nat_str [OF assms(3)] assms(2)
    unfolding enforce_limit_def pos option.case Let_def rest after word list.case num
    by (simp add: max_limit_def number_texts)
  then show "enforce_limit (q @ '' LIMIT('' @ nat_str n @ '')'') = q @ '' LIMIT1000''" by simp
  have "upper (q @ '' LIMIT1000'') = upper q @ CHR '' '' # ''LIMIT1000''" by (simp add: upper_LIMIT ascii_upper_id)
  then show "\<not> contains_keyword (upper (q @ '' LIMIT1000'')) ''LIMIT''"
    using joined_limit_not_word [OF assms(1)]
    by (simp only: contains_keyword_def find_keyword_pos_None [OF limit_word] simp_thms)
qed

lemma limit_in_parentheses_lost_witness:
  "enforce_limit ''SELECT * FROM t LIMIT(5000)'' = ''SELECT * FROM t LIMIT1000''"
proof -
  have "find_keyword_pos (upper ''SELECT * FROM t'') ''LIMIT'' = None" by code_simp
  then have none: "\<forall>p. \<not> standalone_at ''LIMIT'' (upper ''SELECT * FROM t'') p"
    unfolding find_keyword_pos_None [OF limit_word] .
  from limit_in_parentheses_lost [OF none, of 5000] show ?thesis by (simp add: number_texts)
qed

section \<open>What a validated query is\<close>

subsection \<open>No character is made up\<close>

lemma set_dropWhile_subset: "set (dropWhile P s) \<subseteq> set s"
  by (auto dest: set_dropWhileD)

lemma set_takeWhile_subset: "set (takeWhile P s) \<subseteq> set s"
  by (auto dest: set_takeWhileD)

lemma set_trim: "set (trim_matches P s) \<subseteq> set s"
  using set_dropWhile_subset [of P "rev (dropWhile P s)"] set_dropWhile_subset [of P s]
  by (auto simp: trim_matches_def)

lemma set_trim_start: "set (trim_start s) \<subseteq> set s"
  by (simp add: trim_start_def set_dropWhile_subset)

lemma set_split_whitespace: "t \<in> set (split_whitespace s) \<Longrightarrow> set t \<subseteq> set s"
proof (induction s rule: split_whitespace.induct)
  case (1 s)
  let ?t = "trim_start s"
  show ?case
  proof (cases "?t = []")
    case True
    then show ?thesis using 1 by (subst (asm) split_whitespace.simps) simp
  next
    case False
    then have "t = takeWhile (\<lambda>c. \<not> is_whitespace c) ?t \<or>
        t \<in> set (split_whitespace (dropWhile (\<lambda>c. \<not> is_whitespace c) ?t))"
      using 1(2) by (subst (asm) split_whitespace.simps) (simp add: Let_def)
    then have "set t \<subseteq> set ?t"
      using 1(1) [OF refl False] set_takeWhile_subset [of _ ?t] set_dropWhile_subset [of _ ?t] by blast
    then show ?thesis using set_trim_start by blast
  qed
qed

lemma set_table_of_token: "table_of_token t = Some name \<Longrightarrow> set name \<subseteq> set t"
proof -
  assume a: "table_of_token t = Some name"
  let ?raw = "trim_matches (\<lambda>c. c = CHR 0x22) (trim_matches (\<lambda>c. c = CHR ''('' \<or> c = CHR '')'' \<or> c = CHR '','') t)"
  have raw: "set ?raw \<subseteq> set t" using set_trim by blast
  have split: "set b \<subseteq> set s" if "rsplit_once c s = Some (x, b)" for c s x b
    using that set_takeWhile_subset [of "\<lambda>d. d \<noteq> c" "rev s"] by (auto simp: rsplit_once_def Let_def split: if_splits)
  have "name = ?raw \<or> (\<exists>x. rsplit_once CHR ''.'' ?raw = Some (x, name))"
    using a unfolding table_of_token_def Let_def
    by (simp split: if_splits option.splits prod.splits)
  then have "set name \<subseteq> set ?raw" using split by blast
  then show ?thesis using raw by blast
qed

lemma set_extract_tokens:
  assumes "name \<in> set (extract_tokens tables ts)" and "\<forall>n \<in> set tables. set n \<subseteq> A" and "\<forall>t \<in> set ts. set t \<subseteq> A"
  shows "set name \<subseteq> A"
  using assms
proof (induction tables ts rule: extract_tokens.induct)
  case (1 tables t u ts)
  have "set n \<subseteq> A" if "table_of_token u = Some n" for n
    using set_table_of_token [OF that] 1(4) by auto
  with 1 show ?case by (auto split: if_splits option.splits)
qed auto

lemma set_extract_table_names: "name \<in> set (extract_table_names s) \<Longrightarrow> set name \<subseteq> set s"
  unfolding extract_table_names_def by (rule set_extract_tokens) (auto dest: set_split_whitespace)

lemma set_replace_all: "set (replace_all pat rep s) \<subseteq> set s \<union> set rep"
proof (induction pat rep s rule: replace_all.induct)
  case (1 pat rep s)
  show ?case
  proof (cases "s = [] \<or> pat = []")
    case False
    then show ?thesis
      using 1 set_drop_subset [of "length pat" s] list.set_sel [of s]
      by (subst replace_all.simps) (auto dest: list.set_sel(2))
  qed (simp add: replace_all.simps)
qed

lemma set_prefix_step:
  "set (prefix_step S table kw s) \<subseteq> set s \<union> set kw \<union> set S \<union> set table \<union> set (dquote @ '' .'')"
  using set_replace_all [of "kw @ '' '' @ table" "kw @ '' '' @ S @ ''.'' @ dquote @ table @ dquote" s]
    set_replace_all [of "kw @ '' '' @ dquote @ table @ dquote" "kw @ '' '' @ S @ ''.'' @ dquote @ table @ dquote"]
  by (auto simp: prefix_step_def Let_def)

lemma no_semicolon_prefix:
  assumes "CHR '';'' \<notin> set s" and "CHR '';'' \<notin> set table" and "CHR '';'' \<notin> set S"
  shows "CHR '';'' \<notin> set (add_schema_prefix s table S)"
proof -
  have "CHR '';'' \<notin> set (fold (prefix_step S table) kws s)"
    if "\<forall>kw \<in> set kws. CHR '';'' \<notin> set kw" "CHR '';'' \<notin> set s" for kws s
    using that
  proof (induction kws arbitrary: s)
    case (Cons kw kws)
    have "CHR '';'' \<notin> set (prefix_step S table kw s)"
      using set_prefix_step [of S table kw s] Cons.prems assms(2,3) by auto
    then show ?case using Cons by simp
  qed simp
  then show ?thesis unfolding add_schema_prefix_def using assms(1) by (simp del: fold.simps)
qed

lemma no_semicolon_prefixes:
  assumes "CHR '';'' \<notin> set s" and "\<forall>t \<in> set tables. CHR '';'' \<notin> set t" and "CHR '';'' \<notin> set S"
  shows "CHR '';'' \<notin> set (fold (\<lambda>table sql. add_schema_prefix sql table S) tables s)"
  using assms(1,2) by (induction tables arbitrary: s) (simp_all add: no_semicolon_prefix assms(3))

lemma set_enforce_limit: "set (enforce_limit s) \<subseteq> set s \<union> set '' LIMIT '' \<union> set (nat_str max_limit)"
proof -
  have sub: "set (take m s) \<subseteq> set s" "set (drop m s) \<subseteq> set s" for m
    by (rule set_take_subset, rule set_drop_subset)
  have "set (take m s @ nat_str max_limit @ drop k s) \<subseteq> set s \<union> set (nat_str max_limit)" for m k
    using sub [of m] sub [of k] by auto
  then show ?thesis
    unfolding enforce_limit_def Let_def
    by (auto split: option.splits list.splits if_splits simp del: set_append) fastforce+
qed

lemma no_semicolon_enforce: "CHR '';'' \<notin> set s \<Longrightarrow> CHR '';'' \<notin> set (enforce_limit s)"
proof -
  have "CHR '';'' \<notin> set (nat_str max_limit)"
    using nat_str_digits [of max_limit] by (auto simp: list_all_iff is_digit_def)
  then show "CHR '';'' \<notin> set s \<Longrightarrow> ?thesis" using set_enforce_limit [of s] by auto
qed

subsection \<open>It stays a SELECT\<close>

text \<open>The first word, with nothing before it.\<close>

definition select_first :: "string \<Rightarrow> bool" where
  "select_first s \<longleftrightarrow> upper (take 6 s) = ''SELECT''"

lemma upper_char_eq: "ascii_upper c = d \<Longrightarrow> \<not> (97 \<le> (of_char d :: nat) \<and> (of_char d :: nat) \<le> 122)"
  using of_char_ascii_upper [of c] by (auto simp: Let_def split: if_splits)

lemma select_first_append: "select_first s \<longleftrightarrow> (\<exists>w r. s = w @ r \<and> upper w = ''SELECT'')"
proof
  assume "select_first s"
  then show "\<exists>w r. s = w @ r \<and> upper w = ''SELECT''"
    by (intro exI [of _ "take 6 s"] exI [of _ "drop 6 s"]) (simp add: select_first_def)
next
  assume "\<exists>w r. s = w @ r \<and> upper w = ''SELECT''"
  then obtain w r where s: "s = w @ r" "upper w = ''SELECT''" by blast
  have "length w = 6" using s(2) upper_simps(2) [of w] by simp
  then show "select_first s" using s by (simp add: select_first_def)
qed

lemma select_chars:
  assumes "upper w = ''SELECT''" and "c \<in> set w"
  shows "ascii_upper c \<in> set ''SELECT''"
proof -
  have "ascii_upper c \<in> set (upper w)" using assms(2) by (simp add: upper_def)
  then show ?thesis by (simp only: assms(1))
qed

lemma replace_all_skip:
  assumes "\<forall>c \<in> set w. c \<noteq> hd pat" and "pat \<noteq> []"
  shows "replace_all pat rep (w @ r) = w @ replace_all pat rep r"
  using assms(1)
proof (induction w)
  case (Cons c w)
  then have "\<not> starts_with pat (c # w @ r)" using assms(2) by (cases pat) (auto simp: starts_with_def)
  then show ?case using Cons assms(2) by (subst replace_all.simps) simp
qed simp

lemma select_first_replace:
  assumes "select_first s" and "ascii_upper (hd pat) \<notin> set ''SELECT''" and "pat \<noteq> []"
  shows "select_first (replace_all pat rep s)"
proof -
  obtain w r where s: "s = w @ r" "upper w = ''SELECT''" using assms(1) select_first_append by blast
  have "\<forall>c \<in> set w. c \<noteq> hd pat" using select_chars [OF s(2)] assms(2) by blast
  then have "replace_all pat rep s = w @ replace_all pat rep r" unfolding s(1) by (rule replace_all_skip [OF _ assms(3)])
  then show ?thesis using s(2) select_first_append by metis
qed

lemma select_first_prefix_step:
  assumes "select_first s" and "kw \<noteq> []" and "ascii_upper (hd kw) \<notin> set ''SELECT''"
  shows "select_first (prefix_step S table kw s)"
  using assms by (auto simp: prefix_step_def Let_def intro!: select_first_replace)

lemma select_first_prefixes:
  "select_first s \<Longrightarrow> select_first (fold (\<lambda>table sql. add_schema_prefix sql table S) tables s)"
proof (induction tables arbitrary: s)
  case (Cons t ts)
  have "select_first (add_schema_prefix s t S)"
    unfolding add_schema_prefix_def fold.simps comp_apply id_apply
    by (intro select_first_prefix_step Cons.prems) (simp_all, code_simp+)
  then show ?case using Cons.IH by simp
qed simp

lemma select_first_limit_pos:
  assumes "select_first s" and "standalone_at ''LIMIT'' (upper s) p"
  shows "1 \<le> p"
proof (rule ccontr)
  assume "\<not> 1 \<le> p"
  then have "p = 0" by simp
  then have "upper s ! 0 = CHR ''L''"
    using assms(2) occurs_at_nth [of "''LIMIT''" "upper s" p 0] by (simp add: standalone_at_def)
  moreover obtain w r where s: "s = w @ r" "upper w = ''SELECT''" using assms(1) select_first_append by blast
  ultimately show False by simp
qed

lemma select_first_take: "select_first s \<Longrightarrow> 6 \<le> m \<Longrightarrow> select_first (take m s @ r)"
proof -
  assume a: "select_first s" "6 \<le> m"
  have "length (upper (take 6 s)) = 6" using a(1) by (simp add: select_first_def)
  then have "6 \<le> length s" by simp
  then show "select_first (take m s @ r)" using a by (simp add: select_first_def min_def)
qed

lemma select_first_enforce: "select_first s \<Longrightarrow> select_first (enforce_limit s)"
proof -
  assume sel: "select_first s"
  have app: "select_first (s @ r)" for r
    using sel by (metis append.assoc select_first_append)
  show ?thesis
  proof (cases "find_keyword_pos (upper s) ''LIMIT''")
    case None
    then show ?thesis using app by (simp add: enforce_limit_def)
  next
    case (Some p)
    then have st: "standalone_at ''LIMIT'' (upper s) p"
      using find_keyword_from_spec [OF limit_word, where s = "upper s" and start = 0] by (simp add: find_keyword_pos_def)
    then have "p + 5 \<le> length s" using occurs_at_bound [of "''LIMIT''" "upper s" p] by (simp add: standalone_at_def)
    moreover have "1 \<le> p" by (rule select_first_limit_pos [OF sel st])
    ultimately have "6 \<le> length s - length (drop (p + 5) s) + k" for k by simp
    then have "select_first (take (length s - length (drop (p + 5) s) + k) s @ r)" for k r
      by (intro select_first_take [OF sel])
    then show ?thesis
      unfolding enforce_limit_def Some option.case Let_def using sel
      by (simp split: list.splits option.splits if_splits)
  qed
qed

lemma keep_front:
  assumes "w \<noteq> []" and "\<forall>c \<in> set w. \<not> P c"
  shows "\<exists>r'. rev (dropWhile P (rev (w @ r))) = w @ r'"
proof -
  have "dropWhile P (rev w) = rev w" using assms by (cases w rule: rev_cases) simp_all
  then have "dropWhile P (rev (w @ r)) = dropWhile P (rev r) @ rev w"
    by (auto simp: dropWhile_append dropWhile_eq_Nil_conv)
  then show ?thesis by simp
qed

lemma select_first_trims:
  assumes "select_first s"
  shows "select_first (trim (trim_end_matches CHR '';'' s))"
proof -
  obtain w r where s: "s = w @ r" "upper w = ''SELECT''" using assms select_first_append by blast
  have w: "w \<noteq> []" using s(2) by auto
  have chars: "c \<noteq> CHR '';'' \<and> \<not> is_whitespace c" if "c \<in> set w" for c
  proof -
    have up: "ascii_upper c \<in> set ''SELECT''" by (rule select_chars [OF s(2) that])
    then have "65 \<le> (of_char (ascii_upper c) :: nat)" by auto
    then have "65 \<le> (of_char c :: nat)" by (auto simp: of_char_ascii_upper Let_def split: if_splits)
    then show ?thesis by (auto simp: is_whitespace_def Let_def)
  qed
  obtain r1 where r1: "trim_end_matches CHR '';'' s = w @ r1"
    using keep_front [OF w, of "\<lambda>d. d = CHR '';''" r] chars by (auto simp: trim_end_matches_def s(1))
  have "dropWhile is_whitespace (w @ r1) = w @ r1" using w chars by (cases w) auto
  then obtain r2 where "trim (w @ r1) = w @ r2"
    using keep_front [OF w, of is_whitespace r1] chars by (auto simp: trim_def trim_matches_def)
  then show ?thesis using s(2) r1 select_first_append by metis
qed

lemma select_first_word:
  assumes "trim q = s" and "upper (case split_whitespace s of w # _ \<Rightarrow> w | [] \<Rightarrow> []) = ''SELECT''"
  shows "select_first s"
proof -
  have "trim_start s = s"
  proof (cases s)
    case (Cons c t)
    have "\<not> is_whitespace (hd s)"
    proof -
      let ?d = "dropWhile is_whitespace q"
      have s: "s = rev (dropWhile is_whitespace (rev ?d))" using assms(1) by (simp add: trim_def trim_matches_def)
      then obtain z where "rev ?d = z @ rev s" by (metis rev_rev_ident takeWhile_dropWhile_id)
      then have d: "?d = s @ rev z" by (metis rev_append rev_rev_ident)
      then have "?d \<noteq> []" using Cons by simp
      then show ?thesis using hd_dropWhile [of is_whitespace q] d Cons by simp
    qed
    then show ?thesis by (simp add: Cons trim_start_def)
  qed (simp add: trim_start_def)
  then have "split_whitespace s = (if s = [] then [] else
      takeWhile (\<lambda>c. \<not> is_whitespace c) s # split_whitespace (dropWhile (\<lambda>c. \<not> is_whitespace c) s))"
    using split_whitespace.simps [of s] by (simp add: Let_def)
  then have "upper (takeWhile (\<lambda>c. \<not> is_whitespace c) s) = ''SELECT''"
    using assms(2) by (auto split: if_splits)
  then show ?thesis using select_first_append takeWhile_dropWhile_id by metis
qed

lemma banned_words: "\<forall>kw \<in> set banned_keywords. kw \<noteq> [] \<and> list_all word_char kw"
  by code_simp

lemma find_None: "find P xs = None \<Longrightarrow> x \<in> set xs \<Longrightarrow> \<not> P x"
  by (auto simp: find_None_iff)

text \<open>The text that is sent.\<close>

lemma validated_select:
  assumes "validate_sql query S = Inr v" and "CHR '';'' \<notin> set S"
  shows "upper (take 6 (vs_sanitised v)) = ''SELECT''" and "CHR '';'' \<notin> set (vs_sanitised v)"
proof -
  let ?sql = "trim query" let ?tr = "trim (trim_end_matches CHR '';'' ?sql)"
  let ?san = "fold (\<lambda>table sql. add_schema_prefix sql table S) (extract_table_names ?tr) ?tr"
  from assms(1) have v: "vs_sanitised v = enforce_limit ?san"
    and first: "upper (case split_whitespace ?sql of w # _ \<Rightarrow> w | [] \<Rightarrow> []) = ''SELECT''"
    and semi: "CHR '';'' \<notin> set ?tr"
    by (auto simp: validate_sql_def Let_def split: if_splits option.splits)
  have "select_first (vs_sanitised v)"
    unfolding v
    by (intro select_first_enforce select_first_prefixes select_first_trims select_first_word [OF refl first])
  then show "upper (take 6 (vs_sanitised v)) = ''SELECT''" by (simp add: select_first_def)
  show "CHR '';'' \<notin> set (vs_sanitised v)"
    unfolding v
    by (intro no_semicolon_enforce no_semicolon_prefixes) (use semi assms(2) set_extract_table_names in blast)+
qed

text \<open>
  Property C24. What the endpoint runs is one SELECT: if a query is accepted and the schema
  name holds no semicolon, the text sent to the server begins with SELECT and holds no
  semicolon, so that it is a single statement; and the query, of at most 10000 characters,
  contains none of the banned keywords as a word of its own, wherever it stands, and none
  of the system schemas.
\<close>

theorem validated_is_one_select:
  assumes "validate_sql query S = Inr v" and "CHR '';'' \<notin> set S"
  shows "upper (take 6 (vs_sanitised v)) = ''SELECT'' \<and> CHR '';'' \<notin> set (vs_sanitised v) \<and>
         length (vs_original v) \<le> 10000 \<and>
         (\<forall>kw \<in> set banned_keywords. \<forall>p. \<not> standalone_at kw (upper (vs_original v)) p) \<and>
         (\<forall>schema \<in> set banned_schemas. \<forall>p. \<not> occurs_at schema (lower (vs_original v)) p)"
proof -
  let ?sql = "trim query"
  from assms(1) have v: "vs_original v = ?sql"
    and len: "length ?sql \<le> max_query_length"
    and kws: "find (contains_keyword (upper ?sql)) banned_keywords = None"
    and schemas: "find (\<lambda>schema. contains_sub schema (lower ?sql)) banned_schemas = None"
    by (auto simp: validate_sql_def Let_def split: if_splits option.splits)
  have "\<not> standalone_at kw (upper ?sql) p" if "kw \<in> set banned_keywords" for kw p
    using find_None [OF kws that] find_keyword_pos_None [of kw "upper ?sql"] banned_words that
    by (auto simp: contains_keyword_def)
  moreover have "\<not> occurs_at schema (lower ?sql) p" if "schema \<in> set banned_schemas" for schema p
    using find_None [OF schemas that] contains_sub_occurs [of schema "lower ?sql"] that
    by (auto simp: banned_schemas_def)
  ultimately show ?thesis using len validated_select [OF assms] by (simp add: v max_query_length_def)
qed

theorem validated_is_one_select_witness:
  "\<exists>v. validate_sql ''SELECT a FROM t;'' ''public'' = Inr v \<and> CHR '';'' \<notin> set (vs_sanitised v)"
proof -
  have strs: "trim ''SELECT a FROM t;'' = ''SELECT a FROM t;''"
    "trim (trim_end_matches CHR '';'' ''SELECT a FROM t;'') = ''SELECT a FROM t''"
    "split_whitespace ''SELECT a FROM t;'' = [''SELECT'', ''a'', ''FROM'', ''t;'']" "upper ''SELECT'' = ''SELECT''"
    by code_simp+
  have checks: "\<not> contains_sub ''$$'' ''SELECT a FROM t;''" "\<not> contains_sub ''$tag$'' ''SELECT a FROM t;''"
    "find (contains_keyword (upper ''SELECT a FROM t;'')) banned_keywords = None"
    "find (\<lambda>schema. contains_sub schema (lower ''SELECT a FROM t;'')) banned_schemas = None"
    by code_simp+
  obtain v where v: "validate_sql ''SELECT a FROM t;'' ''public'' = Inr v"
    unfolding validate_sql_def strs checks Let_def using checks(1,2)
    by (simp add: max_query_length_def strs(4) del: upper_simps)
  from validated_is_one_select [OF this] v show ?thesis by auto
qed

end
