(* ===== verification/Pagination.thy ===== *)
theory Pagination
  imports Std_Strings Utf8 Abi_Types
begin

text \<open>
  The cursors of the GraphQL lists (\<open>forge-index-api/src/graphql/pagination.rs\<close>): base 64
  written by hand over JSON text. The JSON library is a pair of arguments. The main result
  is that a cursor is read back as what it was made from.
\<close>

section \<open>Base 64\<close>

definition b64_chars :: string where
  "b64_chars = ''ABCDEFGHIJKLMNOPQRSTUVWXYZabcdefghijklmnopqrstuvwxyz0123456789+/''"

definition b64_char :: "u32 \<Rightarrow> char" where
  "b64_char w = b64_chars ! unat (w AND 0x3F)"

text \<open>The bits of up to three bytes, and the characters of a chunk.\<close>

definition byte_at :: "nat \<Rightarrow> bytes \<Rightarrow> u32" where
  "byte_at i chunk = (if length chunk > i then ucast (chunk ! i) else 0)"

definition enc_triple :: "bytes \<Rightarrow> u32" where
  "enc_triple chunk =
     (let b0 = ucast (chunk ! 0); b1 = byte_at 1 chunk; b2 = byte_at 2 chunk
      in push_bit 16 b0 OR push_bit 8 b1 OR b2)"

definition enc_chunk :: "bytes \<Rightarrow> string" where
  "enc_chunk chunk =
     (let triple = enc_triple chunk
      in [b64_char (drop_bit 18 triple), b64_char (drop_bit 12 triple),
          if length chunk > 1 then b64_char (drop_bit 6 triple) else CHR ''='',
          if length chunk > 2 then b64_char triple else CHR ''=''])"

definition base64_encode :: "string \<Rightarrow> string" where
  "base64_encode input = concat (map enc_chunk (chunks 3 (str_bytes input)))"

text \<open>Characters outside the alphabet count as zero.\<close>

definition b64_index :: "char \<Rightarrow> u8" where
  "b64_index b = (case position (\<lambda>c. c = b) b64_chars of Some p \<Rightarrow> of_nat p | None \<Rightarrow> 0)"

definition dec_triple :: "u8 list \<Rightarrow> u32" where
  "dec_triple chunk =
     (let b0 = ucast (chunk ! 0); b1 = ucast (chunk ! 1); b2 = byte_at 2 chunk; b3 = byte_at 3 chunk
      in push_bit 18 b0 OR push_bit 12 b1 OR push_bit 6 b2 OR b3)"

definition dec_chunk :: "u8 list \<Rightarrow> bytes" where
  "dec_chunk chunk =
     (let triple = dec_triple chunk
      in [ucast (drop_bit 16 triple AND 0xFF)] @
         (if length chunk > 2 then [ucast (drop_bit 8 triple AND 0xFF)] else []) @
         (if length chunk > 3 then [ucast (triple AND 0xFF)] else []))"

text \<open>The loop, which ends at a chunk of less than two characters.\<close>

fun dec_chunks :: "u8 list list \<Rightarrow> bytes" where
  "dec_chunks [] = []"
| "dec_chunks (chunk # rest) = (if length chunk < 2 then [] else dec_chunk chunk @ dec_chunks rest)"

definition base64_decode :: "string \<Rightarrow> string option" where
  "base64_decode input =
     (let chars = map b64_index (trim_end_matches CHR ''='' input);
          bytes = dec_chunks (chunks 4 chars)
      in if utf8_valid bytes then Some (bytes_str bytes) else None)"

section \<open>Base 64 is read back\<close>

text \<open>The six-bit groups of the input, without padding.\<close>

definition sextet :: "u32 \<Rightarrow> nat \<Rightarrow> u8" where
  "sextet t i = ucast (drop_bit i t AND 0x3F)"

fun sextets :: "bytes \<Rightarrow> u8 list" where
  "sextets [] = []"
| "sextets [a] = map (sextet (enc_triple [a])) [18, 12]"
| "sextets [a, b] = map (sextet (enc_triple [a, b])) [18, 12, 6]"
| "sextets (a # b # c # rest) = map (sextet (enc_triple [a, b, c])) [18, 12, 6, 0] @ sextets rest"

fun pads :: "bytes \<Rightarrow> nat" where
  "pads [] = 0"
| "pads [a] = 2"
| "pads [a, b] = 1"
| "pads (a # b # c # rest) = pads rest"

lemma sextet_take_bit: "drop_bit i t AND 0x3F = take_bit 6 (drop_bit i (t :: u32))"
  by (simp add: take_bit_eq_mask mask_numeral)

lemma unat_sextet: "unat (sextet t i) = unat (drop_bit i t AND 0x3F)"
  and sextet_small: "unat (sextet t i) < 64"
proof -
  have "unat (drop_bit i t AND 0x3F) = unat (drop_bit i t) mod 64"
    unfolding sextet_take_bit by (simp only: unsigned_take_bit_eq) (simp add: take_bit_eq_mod)
  then have small: "unat (drop_bit i t AND 0x3F) < 64" by simp
  then show *: "unat (sextet t i) = unat (drop_bit i t AND 0x3F)"
    by (simp add: sextet_def unsigned_ucast_eq take_bit_nat_eq_self)
  show "unat (sextet t i) < 64" using * small by simp
qed

lemma b64_length [simp]: "length b64_chars = 64" and b64_distinct: "distinct b64_chars"
  and b64_no_pad: "CHR ''='' \<notin> set b64_chars"
  by (simp_all add: b64_chars_def)

lemma b64_index_char: "b64_index (b64_char (drop_bit i t)) = sextet t i"
proof -
  have "position (\<lambda>c. c = b64_char (drop_bit i t)) b64_chars = Some (unat (sextet t i))"
    using position_nth_distinct [OF b64_distinct, of "unat (sextet t i)"] sextet_small [of t i]
    by (simp add: b64_char_def unat_sextet)
  then show ?thesis by (simp add: b64_index_def)
qed

lemma b64_char_no_pad: "b64_char w \<noteq> CHR ''=''"
proof -
  have "unat (w AND 0x3F) < 64" using sextet_small [of w 0] unat_sextet [of w 0] by simp
  then have "b64_char w \<in> set b64_chars" by (simp add: b64_char_def)
  then show ?thesis using b64_no_pad by metis
qed

text \<open>The text is the characters of the groups followed by the padding.\<close>

definition chars_of :: "u32 \<Rightarrow> nat list \<Rightarrow> string" where
  "chars_of t is = map (\<lambda>i. b64_char (drop_bit i t)) is"

lemma enc_chunk_chars:
  "enc_chunk [a] = chars_of (enc_triple [a]) [18, 12] @ replicate 2 CHR ''=''"
  "enc_chunk [a, b] = chars_of (enc_triple [a, b]) [18, 12, 6] @ replicate 1 CHR ''=''"
  "enc_chunk [a, b, c] = chars_of (enc_triple [a, b, c]) [18, 12, 6, 0]"
  by (simp_all add: enc_chunk_def chars_of_def Let_def numeral_2_eq_2)

lemma chars_of_index: "map b64_index (chars_of t is) = map (sextet t) is"
  by (simp add: chars_of_def b64_index_char)

lemma chars_of_no_pad: "CHR ''='' \<notin> set (chars_of t is)"
  using b64_char_no_pad [symmetric] by (auto simp: chars_of_def)

lemma encode_shape:
  "\<exists>cs. concat (map enc_chunk (chunks 3 bs)) = cs @ replicate (pads bs) CHR ''='' \<and>
        CHR ''='' \<notin> set cs \<and> map b64_index cs = sextets bs"
proof (induction bs rule: sextets.induct)
  case 1
  then show ?case by simp
next
  case (2 a)
  then show ?case
    by (intro exI [of _ "chars_of (enc_triple [a]) [18, 12]"])
      (simp add: chunks_short enc_chunk_chars chars_of_index chars_of_no_pad)
next
  case (3 a b)
  then show ?case
    by (intro exI [of _ "chars_of (enc_triple [a, b]) [18, 12, 6]"])
      (simp add: chunks_short enc_chunk_chars chars_of_index chars_of_no_pad)
next
  case (4 a b c rest)
  then obtain cs where cs: "concat (map enc_chunk (chunks 3 rest)) = cs @ replicate (pads rest) CHR ''=''"
    "CHR ''='' \<notin> set cs" "map b64_index cs = sextets rest" by blast
  then show ?case
    using chunks_append [of "[a, b, c]" 3 rest]
    by (intro exI [of _ "chars_of (enc_triple [a, b, c]) [18, 12, 6, 0] @ cs"])
      (simp add: enc_chunk_chars chars_of_index chars_of_no_pad)
qed

text \<open>Four groups of six bits make up the 24 bits again.\<close>

lemma bit_sextet: "bit (ucast (sextet t i) :: u32) n \<longleftrightarrow> n < 6 \<and> bit t (i + n)"
  unfolding sextet_def sextet_take_bit by (auto simp: bit_simps)

lemma byte_at_Cons [simp]:
  "byte_at 0 (x # xs) = ucast x" "byte_at (Suc i) (x # xs) = byte_at i xs" "byte_at i [] = 0"
  by (simp_all add: byte_at_def)

lemma byte_at_numeral [simp]: "byte_at (numeral k) (x # xs) = byte_at (pred_numeral k) xs"
  by (simp add: numeral_eq_Suc)

lemma enc_triple_short: "enc_triple [a] = enc_triple [a, 0, 0]" "enc_triple [a, b] = enc_triple [a, b, 0]"
  by (simp_all add: enc_triple_def)

lemma bit_enc_triple:
  "bit (enc_triple [a, b, c]) n \<longleftrightarrow>
     (16 \<le> n \<and> bit a (n - 16)) \<or> (8 \<le> n \<and> bit b (n - 8)) \<or> bit c n"
  by (auto simp: enc_triple_def Let_def bit_simps dest: bit_imp_le_length)

lemma triple_sextets: "dec_triple (map (sextet (enc_triple [a, b, c])) [18, 12, 6, 0]) = enc_triple [a, b, c]"
proof (rule bit_eqI)
  fix n
  let ?t = "enc_triple [a, b, c]"
  have top: "bit ?t n \<Longrightarrow> n < 24" by (auto simp: bit_enc_triple dest: bit_imp_le_length)
  have "bit (dec_triple (map (sextet ?t) [18, 12, 6, 0])) n \<longleftrightarrow>
      (18 \<le> n \<and> n < 32 \<and> n - 18 < 6 \<and> bit ?t (18 + (n - 18))) \<or>
      (12 \<le> n \<and> n < 32 \<and> n - 12 < 6 \<and> bit ?t (12 + (n - 12))) \<or>
      (6 \<le> n \<and> n < 32 \<and> n - 6 < 6 \<and> bit ?t (6 + (n - 6))) \<or> (n < 6 \<and> bit ?t (0 + n))"
    by (simp add: dec_triple_def Let_def bit_or_iff bit_push_bit_iff bit_sextet conj_ac
        del: bit_ucast_iff le_add_diff_inverse)
  also have "\<dots> \<longleftrightarrow> n < 24 \<and> bit ?t n" by (cases "18 \<le> n"; cases "12 \<le> n"; cases "6 \<le> n"; auto)
  finally show "bit (dec_triple (map (sextet ?t) [18, 12, 6, 0])) n \<longleftrightarrow> bit ?t n" using top by blast
qed

lemma byte_bit_high [simp]: "8 \<le> n \<Longrightarrow> \<not> bit (b :: u8) n"
  using bit_imp_le_length [of b n] by auto

lemma low_sextets:
  "sextet (enc_triple [a, b, 0]) 0 = 0" "sextet (enc_triple [a, 0, 0]) 0 = 0" "sextet (enc_triple [a, 0, 0]) 6 = 0"
  unfolding sextet_def sextet_take_bit
  by (auto intro!: bit_eqI simp: bit_simps bit_enc_triple)

lemma triple_bytes:
  "ucast (drop_bit 16 (enc_triple [a, b, c]) AND 0xFF) = a"
  "ucast (drop_bit 8 (enc_triple [a, b, c]) AND 0xFF) = b"
  "ucast (enc_triple [a, b, c] AND 0xFF) = c"
proof -
  have m: "x AND 0xFF = take_bit 8 (x :: u32)" for x by (simp add: take_bit_eq_mask mask_numeral)
  show "ucast (drop_bit 16 (enc_triple [a, b, c]) AND 0xFF) = a"
    "ucast (drop_bit 8 (enc_triple [a, b, c]) AND 0xFF) = b"
    "ucast (enc_triple [a, b, c] AND 0xFF) = c"
    unfolding m
    by (auto intro!: bit_eqI simp: bit_simps bit_enc_triple dest: bit_imp_le_length)
qed

lemma dec_chunk_sextets:
  "dec_chunk (map (sextet (enc_triple [a])) [18, 12]) = [a]"
  "dec_chunk (map (sextet (enc_triple [a, b])) [18, 12, 6]) = [a, b]"
  "dec_chunk (map (sextet (enc_triple [a, b, c])) [18, 12, 6, 0]) = [a, b, c]"
proof -
  have "dec_triple (map (sextet (enc_triple [a])) [18, 12]) = enc_triple [a]"
    using triple_sextets [of a 0 0] by (simp add: enc_triple_short dec_triple_def Let_def low_sextets)
  then show "dec_chunk (map (sextet (enc_triple [a])) [18, 12]) = [a]"
    using triple_bytes(1) [of a 0 0] by (simp add: dec_chunk_def enc_triple_short Let_def)
  have "dec_triple (map (sextet (enc_triple [a, b])) [18, 12, 6]) = enc_triple [a, b]"
    using triple_sextets [of a b 0] by (simp add: enc_triple_short dec_triple_def Let_def low_sextets)
  then show "dec_chunk (map (sextet (enc_triple [a, b])) [18, 12, 6]) = [a, b]"
    using triple_bytes(1,2) [of a b 0] by (simp add: dec_chunk_def enc_triple_short Let_def)
  show "dec_chunk (map (sextet (enc_triple [a, b, c])) [18, 12, 6, 0]) = [a, b, c]"
    using triple_sextets [of a b c] triple_bytes [of a b c] by (simp add: dec_chunk_def Let_def)
qed

lemma dec_chunks_sextets: "dec_chunks (chunks 4 (sextets bs)) = bs"
proof (induction bs rule: sextets.induct)
  case (4 a b c rest)
  then show ?case
    using chunks_append [of "map (sextet (enc_triple [a, b, c])) [18, 12, 6, 0]" 4 "sextets rest"]
      dec_chunk_sextets(3) [of a b c]
    by simp
qed (use dec_chunk_sextets in \<open>simp_all add: chunks_short\<close>)

lemma base64_roundtrip:
  assumes "utf8_valid (str_bytes s)"
  shows "base64_decode (base64_encode s) = Some s"
proof -
  obtain cs where cs: "base64_encode s = cs @ replicate (pads (str_bytes s)) CHR ''=''"
    "CHR ''='' \<notin> set cs" "map b64_index cs = sextets (str_bytes s)"
    using encode_shape [of "str_bytes s"] by (auto simp: base64_encode_def)
  then show ?thesis
    using assms by (simp add: base64_decode_def trim_end_matches_pads dec_chunks_sextets)
qed

section \<open>Cursors\<close>

record cursor_data =
  cur_pk_value :: string
  cur_order_col :: string
  cur_order_val :: json

text \<open>The JSON text of a cursor and its reading, functions of the JSON library.\<close>

record cursor_json =
  cj_to_string :: "cursor_data \<Rightarrow> string option"
  cj_from_str :: "string \<Rightarrow> cursor_data option"

definition encode_cursor :: "cursor_json \<Rightarrow> string \<Rightarrow> string \<Rightarrow> json \<Rightarrow> string" where
  "encode_cursor J pk_value order_col order_val =
     (let data = \<lparr> cur_pk_value = pk_value, cur_order_col = order_col, cur_order_val = order_val \<rparr>;
          json = (case cj_to_string J data of Some t \<Rightarrow> t | None \<Rightarrow> [])
      in base64_encode json)"

datatype api_error = Internal string | NotFound string | BadRequest string

definition decode_cursor :: "cursor_json \<Rightarrow> string \<Rightarrow> api_error + cursor_data" where
  "decode_cursor J cursor =
     (case base64_decode cursor of
        None \<Rightarrow> Inl (BadRequest ''Invalid cursor encoding'')
      | Some json \<Rightarrow>
          (case cj_from_str J json of
             None \<Rightarrow> Inl (BadRequest ''Invalid cursor format'')
           | Some data \<Rightarrow> Inr data))"

text \<open>
  What the JSON library promises: for well-formed strings and for order values that are
  texts, booleans or natural numbers, the text it writes is UTF-8 and reads back as the value.
\<close>

abbreviation utf8_text :: "string \<Rightarrow> bool" where "utf8_text s \<equiv> utf8_valid (str_bytes s)"

fun cursor_value :: "json \<Rightarrow> bool" where
  "cursor_value (JString s) = utf8_text s"
| "cursor_value (JBool b) = True"
| "cursor_value (JNumber (PosInt n)) = True"
| "cursor_value _ = False"

locale json_text =
  fixes J :: cursor_json
  assumes reads_back: "utf8_text (cur_pk_value d) \<Longrightarrow> utf8_text (cur_order_col d) \<Longrightarrow>
      cursor_value (cur_order_val d) \<Longrightarrow>
      \<exists>t. cj_to_string J d = Some t \<and> utf8_text t \<and> cj_from_str J t = Some d"
begin

lemma cursor_reads_back:
  assumes "utf8_text pk" and "utf8_text col" and "cursor_value v"
  shows "decode_cursor J (encode_cursor J pk col v) =
           Inr \<lparr> cur_pk_value = pk, cur_order_col = col, cur_order_val = v \<rparr>"
proof -
  define d where "d = \<lparr> cur_pk_value = pk, cur_order_col = col, cur_order_val = v \<rparr>"
  obtain t where "cj_to_string J d = Some t" "utf8_text t" "cj_from_str J t = Some d"
    using reads_back [of d] assms by (auto simp: d_def)
  then show ?thesis by (simp add: encode_cursor_def decode_cursor_def d_def base64_roundtrip)
qed

end

section \<open>A JSON writer and reader for cursors\<close>

text \<open>
  The law holds of a writer and reader for this one kind of object, with the escapes of
  JSON: quotes and backslashes after a backslash, control characters by their code.
\<close>

abbreviation backslash :: char where "backslash \<equiv> CHR 0x5C"

definition escape_char :: "char \<Rightarrow> string" where
  "escape_char c =
     (if c = CHR 0x22 \<or> c = backslash then [backslash, c]
      else if (of_char c :: nat) < 32 then [backslash, CHR ''u''] @ ''00'' @
        [hex_digit (of_char c div 16), hex_digit (of_char c mod 16)]
      else [c])"

definition write_string :: "string \<Rightarrow> string" where
  "write_string s = dquote @ concat (map escape_char s) @ dquote"

fun read_string_body :: "string \<Rightarrow> (string \<times> string) option" where
  "read_string_body [] = None"
| "read_string_body (c # cs) =
     (if c = CHR 0x22 then Some ([], cs)
      else if c = backslash then
        (case cs of
           CHR ''u'' # CHR ''0'' # CHR ''0'' # h # l # r \<Rightarrow>
             (case (hex_digit_val h, hex_digit_val l) of
                (Some a, Some b) \<Rightarrow> map_option (\<lambda>(s, t). (char_of (16 * a + b) # s, t)) (read_string_body r)
              | _ \<Rightarrow> None)
         | d # r \<Rightarrow> map_option (\<lambda>(s, t). (d # s, t)) (read_string_body r)
         | [] \<Rightarrow> None)
      else map_option (\<lambda>(s, t). (c # s, t)) (read_string_body cs))"

definition read_string :: "string \<Rightarrow> (string \<times> string) option" where
  "read_string s = (case s of c # cs \<Rightarrow> if c = CHR 0x22 then read_string_body cs else None | [] \<Rightarrow> None)"

fun write_value :: "json \<Rightarrow> string option" where
  "write_value (JString s) = Some (write_string s)"
| "write_value (JBool b) = Some (if b then ''true'' else ''false'')"
| "write_value (JNumber (PosInt n)) = Some (nat_str (unat n))"
| "write_value _ = None"

definition read_json_value :: "string \<Rightarrow> (json \<times> string) option" where
  "read_json_value s =
     (if takeWhile is_digit s \<noteq> [] then
        Some (JNumber (PosInt (of_nat (digits_val (takeWhile is_digit s)))), dropWhile is_digit s)
      else if starts_with ''true'' s then Some (JBool True, drop 4 s)
      else if starts_with ''false'' s then Some (JBool False, drop 5 s)
      else map_option (\<lambda>(t, r). (JString t, r)) (read_string s))"

definition drop_prefix :: "string \<Rightarrow> string \<Rightarrow> string option" where
  "drop_prefix pre s = (if starts_with pre s then Some (drop (length pre) s) else None)"

definition key_text :: "string \<Rightarrow> string" where
  "key_text k = dquote @ k @ dquote @ '':''"

definition ref_json :: cursor_json where
  "ref_json = \<lparr>
     cj_to_string = (\<lambda>d. map_option (\<lambda>v.
        CHR ''{'' # key_text ''pk_value'' @ write_string (cur_pk_value d) @
        '','' @ key_text ''order_col'' @ write_string (cur_order_col d) @
        '','' @ key_text ''order_val'' @ v @ ''}'') (write_value (cur_order_val d))),
     cj_from_str = (\<lambda>s.
       Option.bind (drop_prefix (CHR ''{'' # key_text ''pk_value'') s) (\<lambda>s. Option.bind (read_string s) (\<lambda>(pk, s).
       Option.bind (drop_prefix ('','' @ key_text ''order_col'') s) (\<lambda>s. Option.bind (read_string s) (\<lambda>(col, s).
       Option.bind (drop_prefix ('','' @ key_text ''order_val'') s) (\<lambda>s. Option.bind (read_json_value s) (\<lambda>(v, s).
         if s = ''}'' then Some \<lparr> cur_pk_value = pk, cur_order_col = col, cur_order_val = v \<rparr> else None))))))) \<rparr>"

lemma drop_prefix_append [simp]: "drop_prefix pre (pre @ s) = Some s"
  by (simp add: drop_prefix_def starts_with_def)

lemma read_string_body_escape:
  "read_string_body (concat (map escape_char s) @ CHR 0x22 # r) = Some (s, r)"
proof (induction s)
  case Nil
  then show ?case by simp
next
  case (Cons c s)
  consider "c = CHR 0x22 \<or> c = backslash" | "c \<noteq> CHR 0x22" "c \<noteq> backslash" "(of_char c :: nat) < 32"
    | "c \<noteq> CHR 0x22" "c \<noteq> backslash" "\<not> (of_char c :: nat) < 32" by blast
  then show ?case
  proof cases
    case 1
    then show ?thesis using Cons by (auto simp: escape_char_def)
  next
    case 2
    moreover have "(of_char c :: nat) div 16 < 16" "(of_char c :: nat) mod 16 < 16" using 2(3) by auto
    ultimately show ?thesis using Cons by (simp add: escape_char_def hex_digit_val_digit)
  next
    case 3
    then show ?thesis using Cons by (simp add: escape_char_def)
  qed
qed

lemma read_string_write [simp]: "read_string (write_string s @ r) = Some (s, r)"
  by (simp add: read_string_def write_string_def read_string_body_escape)

lemma read_value_write:
  assumes "write_value v = Some t" and "cursor_value v"
  shows "read_json_value (t @ ''}'') = Some (v, ''}'')"
proof (cases v)
  case (JNumber n)
  then obtain w where w: "n = PosInt w" "t = nat_str (unat w)" using assms by (cases n) auto
  have "takeWhile is_digit (nat_str m @ ''}'') = nat_str m" "dropWhile is_digit (nat_str m @ ''}'') = ''}''" for m
    using nat_str_digits [of m] by (simp_all add: list_all_iff is_digit_def)
  then show ?thesis by (simp add: w JNumber read_json_value_def)
next
  case (JString s)
  then show ?thesis
    using assms(1) read_string_write [of s "''}''"]
    by (auto simp: read_json_value_def write_string_def starts_with_def is_digit_def)
qed (use assms in \<open>auto simp: read_json_value_def starts_with_def is_digit_def split: if_splits\<close>)

text \<open>Escaping keeps a text well-formed.\<close>

definition ascii_text :: "string \<Rightarrow> bool" where
  "ascii_text s \<longleftrightarrow> (\<forall>c \<in> set s. (of_char c :: nat) < 128)"

lemma byte_of_char: "unat (of_char c :: u8) = of_char c"
  by (simp only: of_nat_of_char [symmetric, where ?'a = u8] unat_of_nat) simp

lemma ascii_utf8: "ascii_text s \<Longrightarrow> utf8_text s"
  by (rule utf8_valid_ascii) (auto simp: ascii_text_def str_bytes_def word_less_nat_alt byte_of_char)

lemma escape_char_ascii: "(of_char c :: nat) < 128 \<Longrightarrow> ascii_text (escape_char c)"
  by (auto simp: ascii_text_def escape_char_def hex_digit_def of_char_of)

lemma escape_char_high: "128 \<le> (of_char c :: nat) \<Longrightarrow> escape_char c = [c]"
  by (auto simp: escape_char_def)

lemma utf8_text_append: "utf8_text s \<Longrightarrow> utf8_text t \<Longrightarrow> utf8_text (s @ t)"
  by (simp add: str_bytes_def utf8_valid_append)

lemma span_high:
  assumes "utf8_span a rest = (n, True)" and "0x80 \<le> a"
  shows "\<forall>b \<in> set (take (n - 1) rest). 0x80 \<le> b"
proof -
  have "\<not> utf8_width a \<le> 1" using assms by (auto simp: utf8_span_def utf8_width_def Let_def split: if_splits)
  then obtain b bs where rest: "rest = b # bs" "second_ok a b" and n: "2 \<le> n" "count_cont (n - 2) bs = n - 2"
    by (rule utf8_span_wide [OF assms(1)])
  have cont: "list_all (\<lambda>b. 0x80 \<le> b) (take (count_cont k bs) bs)" for k bs
    by (induction k bs rule: count_cont.induct) (simp_all add: is_cont_def)
  have "0x80 \<le> b"
    using rest(2) by (auto simp: second_ok_def is_cont_def word_le_nat_alt split: if_splits)
  moreover have "n - 1 = Suc (n - 2)" using n(1) by simp
  ultimately show ?thesis using cont [of "n - 2" bs] unfolding n(2) by (simp add: rest(1) list_all_iff)
qed

lemma escaped_utf8: "utf8_valid (str_bytes s) \<Longrightarrow> utf8_valid (str_bytes (concat (map escape_char s)))"
proof (induction "str_bytes s" arbitrary: s rule: utf8_valid.induct)
  case 1
  then show ?case by (simp add: str_bytes_def)
next
  case (2 a rest)
  obtain c t where s: "s = c # t" "a = of_char c" "rest = str_bytes t"
    using 2(2) by (cases s) (auto simp: str_bytes_def)
  obtain n where n: "utf8_span a rest = (n, True)" and valid: "utf8_valid (drop (n - 1) rest)"
    using 2(3) unfolding 2(2) [symmetric] by (auto split: prod.splits)
  let ?k = "n - 1"
  have drop: "drop ?k rest = str_bytes (drop ?k t)" by (simp add: s str_bytes_def drop_map)
  then have IH: "utf8_text (concat (map escape_char (drop ?k t)))"
    using 2(1) [OF n [symmetric] drop] valid drop by simp
  have head: "utf8_text (concat (map escape_char (c # take ?k t)))"
  proof (cases "a < 0x80")
    case True
    then have "n = 1" using n by (simp add: utf8_span_def utf8_width_def Let_def)
    then show ?thesis
      using True escape_char_ascii [of c] by (auto intro!: ascii_utf8 simp: s word_less_nat_alt byte_of_char)
  next
    case False
    then have "\<forall>d \<in> set (take ?k t). 128 \<le> (of_char d :: nat)"
      using span_high [OF n] unfolding linorder_not_less by (auto simp: s str_bytes_def take_map word_le_nat_alt byte_of_char)
    moreover have "128 \<le> (of_char c :: nat)" using False by (simp add: s word_less_nat_alt byte_of_char)
    ultimately have "map escape_char (c # take ?k t) = map (\<lambda>d. [d]) (c # take ?k t)"
      by (auto simp: escape_char_high)
    then have id: "concat (map escape_char (c # take ?k t)) = c # take ?k t"
      by (simp only:) (simp only: concat_map_singleton list.map_ident)
    have "utf8_span a (take ?k rest) = (n, True)" using utf8_span_ok(2) [OF n, of "[]"] by simp
    then have "utf8_valid (a # take ?k rest)" by simp
    then show ?thesis by (simp only: id) (simp add: s str_bytes_def take_map)
  qed
  have "concat (map escape_char s) =
      concat (map escape_char (c # take ?k t)) @ concat (map escape_char (drop ?k t))"
    unfolding s(1) by (simp flip: concat_append map_append)
  then show ?case using utf8_text_append [OF head IH] by simp
qed

lemma utf8_write_string: "utf8_text s \<Longrightarrow> utf8_text (write_string s)"
  using escaped_utf8 [of s] utf8_text_append ascii_utf8 [of dquote]
  by (simp add: write_string_def ascii_text_def del: append.simps)

lemma utf8_write_value: "write_value v = Some t \<Longrightarrow> cursor_value v \<Longrightarrow> utf8_text t"
proof (induction v rule: write_value.induct)
  case (3 n)
  have "ascii_text (nat_str (unat n))"
    using nat_str_digits [of "unat n"] by (auto simp: ascii_text_def list_all_iff is_digit_def)
  then show ?case using 3 by (auto intro: ascii_utf8)
next
  case (2 b)
  then show ?case by (auto intro!: ascii_utf8 simp: ascii_text_def)
qed (auto intro: utf8_write_string)

interpretation ref_json: json_text ref_json
proof
  fix d :: cursor_data
  assume utf8: "utf8_text (cur_pk_value d)" "utf8_text (cur_order_col d)" and v: "cursor_value (cur_order_val d)"
  obtain t where t: "write_value (cur_order_val d) = Some t"
    using v by (cases "cur_order_val d" rule: cursor_value.cases) auto
  let ?k1 = "CHR ''{'' # key_text ''pk_value''" and ?k2 = "'','' @ key_text ''order_col''"
    and ?k3 = "'','' @ key_text ''order_val''"
  define json where "json = ?k1 @ write_string (cur_pk_value d) @ ?k2 @ write_string (cur_order_col d) @
    ?k3 @ t @ ''}''"
  have written: "cj_to_string ref_json d = Some json" by (simp add: ref_json_def json_def t)
  have "ascii_text ?k1" "ascii_text ?k2" "ascii_text ?k3" "ascii_text ''}''"
    by (simp_all add: ascii_text_def key_text_def)
  then have "utf8_text ?k1" "utf8_text ?k2" "utf8_text ?k3" "utf8_text ''}''" by (simp_all only: ascii_utf8)
  then have "utf8_text json"
    unfolding json_def using utf8 utf8_write_value [OF t v]
    by (simp only: utf8_text_append utf8_write_string)
  moreover have "cj_from_str ref_json json = Some d"
    using drop_prefix_append [of ?k1] drop_prefix_append [of ?k2] drop_prefix_append [of ?k3]
      read_value_write [OF t v]
    by (simp add: ref_json_def json_def)
  ultimately show "\<exists>t. cj_to_string ref_json d = Some t \<and> utf8_text t \<and> cj_from_str ref_json t = Some d"
    using written by blast
qed

text \<open>
  Property C26. A cursor is read back as what it was made from: the hand-written base 64
  loses nothing, whatever the length of the text and its padding, for every primary key and
  every order value that is a text, a boolean or a natural number.
\<close>

theorem cursor_roundtrip:
  assumes "json_text J" and "utf8_text pk" and "utf8_text col" and "cursor_value v"
  shows "decode_cursor J (encode_cursor J pk col v) =
           Inr \<lparr> cur_pk_value = pk, cur_order_col = col, cur_order_val = v \<rparr>"
  using assms by (rule json_text.cursor_reads_back)

theorem cursor_roundtrip_witness:
  "decode_cursor ref_json (encode_cursor ref_json ''pk1'' ''created_at'' (JNumber (PosInt 12345))) =
     Inr \<lparr> cur_pk_value = ''pk1'', cur_order_col = ''created_at'', cur_order_val = JNumber (PosInt 12345) \<rparr>"
  by (rule cursor_roundtrip [OF ref_json.json_text_axioms]) (auto intro!: ascii_utf8 simp: ascii_text_def)

end
