(* ===== verification/Graphql.thy ===== *)
theory Graphql
  imports Pagination Sql_Text
begin

text \<open>
  The GraphQL resolvers (\<open>forge-index-api/src/graphql/filters.rs\<close> and \<open>resolver.rs\<close>): the
  SQL of filters, of single records and of pages, and the page that is returned. The
  database is an argument: a server that answers query texts. The text of a floating-point
  number is library code, an argument too.
\<close>

section \<open>Filters\<close>

fun number_str :: "(64 word \<Rightarrow> string) \<Rightarrow> json_number \<Rightarrow> string" where
  "number_str f64 (PosInt n) = nat_str (unat n)"
| "number_str f64 (NegInt n) = int_str (sint n)"
| "number_str f64 (JFloat x) = f64 x"

fun value_to_sql_literal :: "(64 word \<Rightarrow> string) \<Rightarrow> json \<Rightarrow> string option" where
  "value_to_sql_literal f64 (JString s) = Some (quote_text s)"
| "value_to_sql_literal f64 (JNumber n) = Some (number_str f64 n)"
| "value_to_sql_literal f64 (JBool b) = Some (bool_str b)"
| "value_to_sql_literal f64 JNull = Some ''NULL''"
| "value_to_sql_literal f64 _ = None"

definition comparison :: "string \<Rightarrow> string option" where
  "comparison op =
     map_of [(''eq'', ''=''), (''gt'', ''>''), (''gte'', ''>=''), (''lt'', ''<''), (''lte'', ''<='')] op"

definition member_condition :: "(64 word \<Rightarrow> string) \<Rightarrow> string \<Rightarrow> string \<Rightarrow> json \<Rightarrow> string option" where
  "member_condition f64 field sql_op v =
     (case v of
        JArray arr \<Rightarrow>
          (let vals = filter_map (value_to_sql_literal f64) arr
           in if vals = [] then None
              else Some (quote_ident field @ '' '' @ sql_op @ '' ('' @ join '', '' vals @ '')''))
      | _ \<Rightarrow> None)"

definition build_condition :: "(64 word \<Rightarrow> string) \<Rightarrow> string \<Rightarrow> string \<Rightarrow> json \<Rightarrow> string option" where
  "build_condition f64 field op v =
     (case comparison op of
        Some sql_op \<Rightarrow>
          map_option (\<lambda>sql_val. quote_ident field @ '' '' @ sql_op @ '' '' @ sql_val) (value_to_sql_literal f64 v)
      | None \<Rightarrow>
          if op = ''contains'' then
            (let raw = (case as_str v of Some s \<Rightarrow> s | None \<Rightarrow> [])
             in Some (quote_ident field @ '' ILIKE '' @ [quote_char] @ ''%'' @ escape_quotes raw @ ''%'' @ [quote_char]))
          else if op = ''in'' then member_condition f64 field ''IN'' v
          else if op = ''notIn'' then member_condition f64 field ''NOT IN'' v
          else None)"

text \<open>The entries of an object, empty for every other value; the map of the JSON library is ordered.\<close>

fun entries :: "json \<Rightarrow> (string \<times> json) list" where
  "entries (JObject fs) = fs"
| "entries _ = []"

definition filters_to_sql :: "(64 word \<Rightarrow> string) \<Rightarrow> json \<Rightarrow> string" where
  "filters_to_sql f64 flt =
     join '' AND '' (concat (map (\<lambda>(field_name, filter_obj).
       filter_map (\<lambda>(op, v). build_condition f64 field_name op v) (entries filter_obj)) (entries flt)))"

section \<open>Single records\<close>

text \<open>The server: answers to query texts, with the error's text on failure.\<close>

record graphql_pool =
  gp_fetch_optional :: "string \<Rightarrow> string \<Rightarrow> string + json option"
  gp_count :: "string \<Rightarrow> string + int"
  gp_fetch_all :: "string \<Rightarrow> string + json list"

definition col_list :: "string list \<Rightarrow> string" where
  "col_list columns = join '', '' (map quote_ident columns)"

definition doc_select :: "string list \<Rightarrow> string \<Rightarrow> string \<Rightarrow> string" where
  "doc_select columns pg_schema table =
     ''SELECT row_to_json((SELECT r FROM (SELECT '' @ col_list columns @ '') AS r)) AS doc FROM '' @
     table_path pg_schema table"

definition resolve_single ::
  "graphql_pool \<Rightarrow> string \<Rightarrow> string \<Rightarrow> string \<Rightarrow> string \<Rightarrow> string list \<Rightarrow> string + json option" where
  "resolve_single P pg_schema table pk_col pk_value columns =
     gp_fetch_optional P (doc_select columns pg_schema table @ '' WHERE '' @ quote_ident pk_col @ '' = $1 LIMIT 1'') pk_value"

section \<open>Pages\<close>

fun value_to_sql :: "(64 word \<Rightarrow> string) \<Rightarrow> json \<Rightarrow> string" where
  "value_to_sql f64 (JString s) = quote_text s"
| "value_to_sql f64 (JNumber n) = number_str f64 n"
| "value_to_sql f64 (JBool b) = bool_str b"
| "value_to_sql f64 _ = ''NULL''"

text \<open>The comparison with a cursor; a cursor that cannot be read adds no condition.\<close>

definition cursor_condition :: "(64 word \<Rightarrow> string) \<Rightarrow> string \<Rightarrow> string \<Rightarrow> string \<Rightarrow> cursor_data \<Rightarrow> string" where
  "cursor_condition f64 order_col pk_col op c =
     ''('' @ quote_ident order_col @ '', '' @ quote_ident pk_col @ '') '' @ op @ '' ('' @
     value_to_sql f64 (cur_order_val c) @ '', '' @ [quote_char] @ cur_pk_value c @ [quote_char] @ '')''"

definition cursor_part ::
  "(64 word \<Rightarrow> string) \<Rightarrow> cursor_json \<Rightarrow> string \<Rightarrow> string \<Rightarrow> string \<Rightarrow> string option \<Rightarrow> string list" where
  "cursor_part f64 J order_col pk_col op cursor =
     (case cursor of
        None \<Rightarrow> []
      | Some s \<Rightarrow> (case decode_cursor J s of
          Inr c \<Rightarrow> [cursor_condition f64 order_col pk_col op c]
        | Inl _ \<Rightarrow> []))"

definition where_clause :: "string list \<Rightarrow> string" where
  "where_clause parts = (if parts = [] then [] else '' WHERE '' @ join '' AND '' parts)"

definition count_sql :: "string \<Rightarrow> string \<Rightarrow> string \<Rightarrow> string" where
  "count_sql pg_schema table clause = ''SELECT COUNT(*) FROM '' @ table_path pg_schema table @ clause"

definition data_sql ::
  "string list \<Rightarrow> string \<Rightarrow> string \<Rightarrow> string \<Rightarrow> string \<Rightarrow> string \<Rightarrow> string \<Rightarrow> int \<Rightarrow> string" where
  "data_sql columns pg_schema table clause order_col pk_col dir fetch_limit =
     doc_select columns pg_schema table @ clause @ '' ORDER BY '' @ quote_ident order_col @ '' '' @ dir @
     '', '' @ quote_ident pk_col @ '' '' @ dir @ '' LIMIT '' @ int_str fetch_limit"

text \<open>The arguments of a list query.\<close>

record list_args =
  la_filter :: "json option"
  la_order_by :: "string option"
  la_order_direction :: "string option"
  la_limit :: "int option"
  la_after :: "string option"
  la_before :: "string option"

definition cursor_of :: "cursor_json \<Rightarrow> string \<Rightarrow> string \<Rightarrow> json \<Rightarrow> string option" where
  "cursor_of J pk_col order_col item =
     (case Option.bind (json_get pk_col item) as_str of
        None \<Rightarrow> None
      | Some pk \<Rightarrow> Some (encode_cursor J pk order_col (or_else (json_get order_col item) JNull)))"

record page =
  pg_items :: "json list"
  pg_has_next_page :: bool
  pg_has_previous_page :: bool
  pg_start_cursor :: "string option"
  pg_end_cursor :: "string option"
  pg_total_count :: int

definition effective_limit :: "int option \<Rightarrow> int" where
  "effective_limit limit = min (or_else limit 100) 1000"

text \<open>\<open>take(n as usize)\<close>: a negative number becomes a huge one.\<close>

definition take_i64 :: "int \<Rightarrow> 'a list \<Rightarrow> 'a list" where
  "take_i64 n xs = (if n < 0 then xs else take (nat n) xs)"

definition where_parts ::
  "(64 word \<Rightarrow> string) \<Rightarrow> cursor_json \<Rightarrow> string \<Rightarrow> list_args \<Rightarrow> string list" where
  "where_parts f64 J pk_col A =
     (let order_col = or_else (la_order_by A) pk_col
      in (case la_filter A of
            None \<Rightarrow> []
          | Some f \<Rightarrow> (let filter_sql = filters_to_sql f64 f in if filter_sql = [] then [] else [filter_sql])) @
         cursor_part f64 J order_col pk_col ''>'' (la_after A) @
         cursor_part f64 J order_col pk_col ''<'' (la_before A))"

definition resolve_list ::
  "(64 word \<Rightarrow> string) \<Rightarrow> cursor_json \<Rightarrow> graphql_pool \<Rightarrow> string \<Rightarrow> string \<Rightarrow> string \<Rightarrow> string list \<Rightarrow> list_args
   \<Rightarrow> string + page" where
  "resolve_list f64 J P pg_schema table pk_col columns A =
     (let order_col = or_else (la_order_by A) pk_col;
          dir = or_else (la_order_direction A) ''ASC'';
          limit = effective_limit (la_limit A);
          clause = where_clause (where_parts f64 J pk_col A)
      in bind_res (gp_count P (count_sql pg_schema table clause)) (\<lambda>total_count.
         bind_res (gp_fetch_all P (data_sql columns pg_schema table clause order_col pk_col dir (limit + 1))) (\<lambda>rows.
           (let items = take_i64 limit rows
            in Inr \<lparr> pg_items = items, pg_has_next_page = int (length rows) > limit,
                     pg_has_previous_page = la_after A \<noteq> None,
                     pg_start_cursor = (if items = [] then None else cursor_of J pk_col order_col (hd items)),
                     pg_end_cursor = (if items = [] then None else cursor_of J pk_col order_col (last items)),
                     pg_total_count = total_count \<rparr>))))"

section \<open>Literals of filters\<close>

text \<open>A filter that asks for members of an empty list selects everything.\<close>

lemma empty_in_selects_all: "filters_to_sql f64 (JObject [(f, JObject [(''in'', JArray [])])]) = []"
  by (simp add: filters_to_sql_def build_condition_def comparison_def member_condition_def)

text \<open>
  The key of a cursor is not escaped: behind its first quote, the text of a cursor that a
  client made up is read as SQL.
\<close>

lemma no_quote_escape: "quote_char \<notin> set s \<Longrightarrow> escape_quotes s = s"
  by (induction s) auto

lemma cursor_key_leaves_literal:
  assumes "cur_pk_value c = a @ [quote_char] @ b" and "quote_char \<notin> set a" and "b \<noteq> []" and "hd b \<noteq> quote_char"
  shows "\<exists>pre. cursor_condition f64 o' k op c = pre @ [quote_char] @ cur_pk_value c @ [quote_char] @ '')'' \<and>
    scan_string ([quote_char] @ cur_pk_value c @ [quote_char] @ '')'') = Some (a, b @ [quote_char] @ '')'')"
proof -
  have "scan_body (a @ quote_char # b @ [quote_char] @ '')'') = Some (a, b @ [quote_char] @ '')'')"
    using scan_body_escape [of "b @ [quote_char] @ '')''" a] assms(2-4) by (simp add: no_quote_escape)
  then show ?thesis by (simp add: cursor_condition_def scan_string_def assms(1))
qed

section \<open>A client that follows the cursors\<close>

text \<open>
  The pages a client sees that asks for the next page as long as there is one; \<open>None\<close> if a
  query fails, if a page announces another one without a cursor, or if there are more than
  \<open>n\<close> pages.
\<close>

fun read_pages :: "nat \<Rightarrow> (list_args \<Rightarrow> string + page) \<Rightarrow> list_args \<Rightarrow> json list list option" where
  "read_pages 0 query A = None"
| "read_pages (Suc n) query A =
     (case query A of
        Inl e \<Rightarrow> None
      | Inr p \<Rightarrow>
          if pg_has_next_page p then
            (case pg_end_cursor p of
               None \<Rightarrow> None
             | Some c \<Rightarrow> map_option ((#) (pg_items p)) (read_pages n query (A\<lparr>la_after := Some c\<rparr>)))
          else Some [pg_items p])"

definition list_query :: "string \<Rightarrow> string \<Rightarrow> int \<Rightarrow> list_args" where
  "list_query order_col dir limit =
     \<lparr> la_filter = None, la_order_by = Some order_col, la_order_direction = Some dir, la_limit = Some limit,
       la_after = None, la_before = None \<rparr>"

type_synonym key = "json \<times> string"

definition doc_key :: "string \<Rightarrow> string \<Rightarrow> json \<Rightarrow> key" where
  "doc_key order_col pk_col d = (the (json_get order_col d), the (Option.bind (json_get pk_col d) as_str))"

text \<open>
  A document that can be paged: its primary key is a text without quotes, its order value
  survives the cursor.
\<close>

definition pageable :: "string \<Rightarrow> string \<Rightarrow> json \<Rightarrow> bool" where
  "pageable order_col pk_col d \<longleftrightarrow>
     json_get order_col d \<noteq> None \<and> Option.bind (json_get pk_col d) as_str \<noteq> None \<and>
     cursor_value (fst (doc_key order_col pk_col d)) \<and> utf8_text (snd (doc_key order_col pk_col d)) \<and>
     quote_char \<notin> set (snd (doc_key order_col pk_col d))"

definition key_cursor :: "string \<Rightarrow> key \<Rightarrow> cursor_data" where
  "key_cursor order_col k = \<lparr> cur_pk_value = snd k, cur_order_col = order_col, cur_order_val = fst k \<rparr>"

definition after_clause :: "(64 word \<Rightarrow> string) \<Rightarrow> string \<Rightarrow> string \<Rightarrow> key \<Rightarrow> string" where
  "after_clause f64 order_col pk_col k =
     where_clause [cursor_condition f64 order_col pk_col ''>'' (key_cursor order_col k)]"

text \<open>
  What a SQL server promises of the page queries on one table, whose documents in ascending
  order of the order column and the key are \<open>docs\<close>: the comparison of row values selects
  the later rows, \<open>ORDER BY\<close> sorts and \<open>LIMIT\<close> cuts.
\<close>

locale page_server =
  fixes P :: graphql_pool and f64 :: "64 word \<Rightarrow> string" and pg_schema table pk_col order_col :: string
    and columns :: "string list" and precedes :: "key \<Rightarrow> key \<Rightarrow> bool" and docs :: "json list"
  assumes docs_pageable: "d \<in> set docs \<Longrightarrow> pageable order_col pk_col d"
    and order_col_text: "utf8_text order_col"
    and docs_sorted: "sorted_wrt (\<lambda>d e. precedes (doc_key order_col pk_col d) (doc_key order_col pk_col e) \<and>
      \<not> precedes (doc_key order_col pk_col e) (doc_key order_col pk_col d)) docs"
    and precedes_irrefl: "\<not> precedes k k"
    and counts: "\<exists>n. gp_count P (count_sql pg_schema table []) = Inr n"
    and counts_after: "d \<in> set docs \<Longrightarrow>
      \<exists>n. gp_count P (count_sql pg_schema table (after_clause f64 order_col pk_col (doc_key order_col pk_col d))) = Inr n"
    and first_page: "0 \<le> n \<Longrightarrow>
      gp_fetch_all P (data_sql columns pg_schema table [] order_col pk_col ''ASC'' n) = Inr (take (nat n) docs)"
    and first_page_desc: "0 \<le> n \<Longrightarrow>
      gp_fetch_all P (data_sql columns pg_schema table [] order_col pk_col ''DESC'' n) = Inr (take (nat n) (rev docs))"
    and next_page: "0 \<le> n \<Longrightarrow> d \<in> set docs \<Longrightarrow>
      gp_fetch_all P (data_sql columns pg_schema table (after_clause f64 order_col pk_col (doc_key order_col pk_col d))
          order_col pk_col ''ASC'' n) =
        Inr (take (nat n) (filter (\<lambda>e. precedes (doc_key order_col pk_col d) (doc_key order_col pk_col e)) docs))"
    and next_page_desc: "0 \<le> n \<Longrightarrow> d \<in> set docs \<Longrightarrow>
      gp_fetch_all P (data_sql columns pg_schema table (after_clause f64 order_col pk_col (doc_key order_col pk_col d))
          order_col pk_col ''DESC'' n) =
        Inr (take (nat n) (filter (\<lambda>e. precedes (doc_key order_col pk_col d) (doc_key order_col pk_col e)) (rev docs)))"
begin

abbreviation key_of :: "json \<Rightarrow> key" where "key_of \<equiv> doc_key order_col pk_col"

lemma filter_after:
  assumes "docs = xs @ d # ys"
  shows "filter (\<lambda>e. precedes (key_of d) (key_of e)) docs = ys"
proof -
  have "\<forall>e \<in> set xs. \<not> precedes (key_of d) (key_of e)" "\<forall>e \<in> set ys. precedes (key_of d) (key_of e)"
    using docs_sorted unfolding assms by (auto simp: sorted_wrt_append)
  then show ?thesis unfolding assms by (simp add: precedes_irrefl filter_id_conv filter_empty_conv)
qed

lemma cursor_of_doc:
  assumes "d \<in> set docs"
  shows "cursor_of J pk_col order_col d = Some (encode_cursor J (snd (key_of d)) order_col (fst (key_of d)))"
  using docs_pageable [OF assms]
  by (auto simp: pageable_def cursor_of_def doc_key_def or_else_def split: option.splits)

lemma cursor_part_doc:
  assumes "json_text J" and "d \<in> set docs"
  shows "cursor_part f64 J order_col pk_col ''>''
           (Some (encode_cursor J (snd (key_of d)) order_col (fst (key_of d)))) =
         [cursor_condition f64 order_col pk_col ''>'' (key_cursor order_col (key_of d))]"
  using json_text.cursor_reads_back [OF assms(1)] docs_pageable [OF assms(2)] order_col_text
  by (simp add: cursor_part_def pageable_def key_cursor_def)

text \<open>The page behind a document, or the first page.\<close>

definition rows_for :: "string \<Rightarrow> json option \<Rightarrow> json list" where
  "rows_for dir d =
     filter (\<lambda>e. case d of None \<Rightarrow> True | Some d \<Rightarrow> precedes (key_of d) (key_of e))
       (if dir = ''ASC'' then docs else rev docs)"

definition query_for :: "cursor_json \<Rightarrow> string \<Rightarrow> int \<Rightarrow> json option \<Rightarrow> list_args" where
  "query_for J dir limit d = (list_query order_col dir limit)\<lparr>la_after :=
     map_option (\<lambda>d. encode_cursor J (snd (key_of d)) order_col (fst (key_of d))) d\<rparr>"

lemma page_of:
  assumes J: "json_text J" and dir: "dir \<in> {''ASC'', ''DESC''}" and limit: "0 \<le> limit" "limit \<le> 1000"
    and d: "\<forall>x. d = Some x \<longrightarrow> x \<in> set docs"
  obtains p where "resolve_list f64 J P pg_schema table pk_col columns (query_for J dir limit d) = Inr p"
    and "pg_items p = take (nat limit) (rows_for dir d)"
    and "pg_has_next_page p \<longleftrightarrow> nat limit < length (rows_for dir d)"
    and "pg_end_cursor p = (if pg_items p = [] then None else cursor_of J pk_col order_col (last (pg_items p)))"
proof -
  define clause where "clause = (case d of None \<Rightarrow> [] | Some x \<Rightarrow> after_clause f64 order_col pk_col (key_of x))"
  have wc: "where_clause (where_parts f64 J pk_col (query_for J dir limit d)) = clause"
    using d cursor_part_doc [OF J]
    by (cases d) (simp_all add: where_parts_def query_for_def list_query_def or_else_def clause_def
        after_clause_def where_clause_def cursor_part_def [of _ _ _ _ _ None])
  obtain n where n: "gp_count P (count_sql pg_schema table clause) = Inr n"
    using counts counts_after d by (cases d) (auto simp: clause_def)
  have rows: "gp_fetch_all P (data_sql columns pg_schema table clause order_col pk_col dir (limit + 1)) =
      Inr (take (Suc (nat limit)) (rows_for dir d))"
    using first_page first_page_desc next_page next_page_desc d dir limit
    by (cases d) (auto simp: clause_def rows_for_def nat_add_distrib)
  have lim: "effective_limit (Some limit) = limit" using limit by (simp add: effective_limit_def or_else_def)
  have items: "take_i64 limit (take (Suc (nat limit)) xs) = take (nat limit) xs" for xs :: "json list"
    using limit by (simp add: take_i64_def min_def)
  have "(limit < int (length (take (Suc (nat limit)) (rows_for dir d)))) = (nat limit < length (rows_for dir d))"
    using limit by auto
  then show ?thesis
    using that wc n rows lim items
    by (simp add: resolve_list_def query_for_def [of J dir limit d, unfolded list_query_def]
        Let_def or_else_def del: length_take)
qed

lemma next_query:
  "(query_for J dir limit d)\<lparr>la_after := Some (encode_cursor J (snd (key_of e)) order_col (fst (key_of e)))\<rparr> =
     query_for J dir limit (Some e)"
  by (simp add: query_for_def)

lemma rows_for_suffix:
  assumes "docs = xs @ ys" and "d = (if xs = [] then None else Some (last xs))"
  shows "rows_for ''ASC'' d = ys"
proof (cases xs rule: rev_cases)
  case Nil
  then show ?thesis unfolding rows_for_def using assms by simp
next
  case (snoc as a)
  then show ?thesis unfolding rows_for_def using assms filter_after [of as a ys] by simp
qed

lemma ascending_walk:
  assumes J: "json_text J" and limit: "0 < limit" "limit \<le> 1000"
  shows "docs = xs @ ys \<Longrightarrow> d = (if xs = [] then None else Some (last xs)) \<Longrightarrow> length ys < n \<Longrightarrow>
    \<exists>ps. read_pages n (resolve_list f64 J P pg_schema table pk_col columns) (query_for J ''ASC'' limit d) = Some ps \<and>
         concat ps = ys"
proof (induction n arbitrary: xs ys d)
  case 0
  then show ?case by simp
next
  case (Suc n)
  note rows = rows_for_suffix [OF Suc.prems(1,2)]
  have "\<forall>x. d = Some x \<longrightarrow> x \<in> set docs" using Suc.prems(1,2) by auto
  then obtain p where p: "resolve_list f64 J P pg_schema table pk_col columns (query_for J ''ASC'' limit d) = Inr p"
      "pg_items p = take (nat limit) ys" "pg_has_next_page p \<longleftrightarrow> nat limit < length ys"
      "pg_end_cursor p = (if pg_items p = [] then None else cursor_of J pk_col order_col (last (pg_items p)))"
    using page_of [OF J, of "''ASC''" limit d] limit unfolding rows by auto
  show ?case
  proof (cases "nat limit < length ys")
    case False
    then show ?thesis using p by simp
  next
    case True
    have "nat limit \<noteq> 0" "ys \<noteq> []" using limit True by auto
    then have items: "pg_items p \<noteq> []" using p(2) by simp
    let ?e = "last (pg_items p)"
    have e: "?e \<in> set docs" using last_in_set [OF items] set_take_subset [of "nat limit" ys] p(2) Suc.prems(1) by auto
    have split: "docs = (xs @ pg_items p) @ drop (nat limit) ys" using Suc.prems(1) p(2) by simp
    have "length (drop (nat limit) ys) < n" using Suc.prems(3) True \<open>nat limit \<noteq> 0\<close> by simp
    then obtain ps where "read_pages n (resolve_list f64 J P pg_schema table pk_col columns)
        (query_for J ''ASC'' limit (Some ?e)) = Some ps" "concat ps = drop (nat limit) ys"
      using Suc.IH [OF split, of "Some ?e"] items by auto
    then show ?thesis
      using p True items cursor_of_doc [OF e, of J] next_query
      by (intro exI [of _ "pg_items p # ps"]) simp
  qed
qed

lemma descending_walk:
  assumes J: "json_text J" and limit: "0 < limit" "limit \<le> 1000" "nat limit < length docs"
  shows "read_pages (Suc (Suc n)) (resolve_list f64 J P pg_schema table pk_col columns) (query_for J ''DESC'' limit None) =
           Some [take (nat limit) (rev docs), take (nat limit - 1) (rev docs)]"
proof -
  let ?q = "resolve_list f64 J P pg_schema table pk_col columns" and ?items = "take (nat limit) (rev docs)"
  obtain p where p: "?q (query_for J ''DESC'' limit None) = Inr p" "pg_items p = ?items" "pg_has_next_page p"
      "pg_end_cursor p = (if pg_items p = [] then None else cursor_of J pk_col order_col (last (pg_items p)))"
    using page_of [OF J, of "''DESC''" limit None] limit by (auto simp: rows_for_def)
  have nl: "nat limit \<noteq> 0" "docs \<noteq> []" using limit by auto
  then have ne: "?items \<noteq> []" by simp
  define e where "e = last ?items"
  have e: "e \<in> set docs" using last_in_set [OF ne] set_take_subset [of "nat limit" "rev docs"] by (auto simp: e_def)
  have items: "?items = butlast ?items @ [e]" unfolding e_def by (rule append_butlast_last_id [OF ne, symmetric])
  have "rev docs = ?items @ drop (nat limit) (rev docs)" by simp
  also have "\<dots> = butlast ?items @ e # drop (nat limit) (rev docs)" by (subst items) simp
  finally have "rev (rev docs) = rev (butlast ?items @ e # drop (nat limit) (rev docs))" by (rule arg_cong)
  then have docs: "docs = rev (drop (nat limit) (rev docs)) @ e # rev (butlast ?items)"
    by (simp only: rev_rev_ident rev_append rev.simps append_assoc append.simps)
  have rows: "rows_for ''DESC'' (Some e) = take (nat limit - 1) (rev docs)"
  proof -
    have "rows_for ''DESC'' (Some e) = rev (filter (\<lambda>x. precedes (key_of e) (key_of x)) docs)"
      by (simp add: rows_for_def rev_filter)
    also have "\<dots> = butlast ?items" using filter_after [OF docs] by simp
    also have "\<dots> = take (nat limit - 1) (rev docs)" using limit(3) by (simp add: butlast_take)
    finally show ?thesis .
  qed
  obtain p2 where p2: "?q (query_for J ''DESC'' limit (Some e)) = Inr p2"
      "pg_items p2 = take (nat limit) (rows_for ''DESC'' (Some e))"
      "pg_has_next_page p2 \<longleftrightarrow> nat limit < length (rows_for ''DESC'' (Some e))"
    by (rule page_of [OF J, of "''DESC''" limit "Some e"]) (use limit e in simp_all)
  have items2: "pg_items p2 = take (nat limit - 1) (rev docs)" using p2(2) unfolding rows by simp
  have last2: "\<not> pg_has_next_page p2" unfolding p2(3) rows length_take by linarith
  have cursor: "pg_end_cursor p = Some (encode_cursor J (snd (key_of e)) order_col (fst (key_of e)))"
    using p(2,4) ne cursor_of_doc [OF e, of J] by (simp only: e_def if_False)
  have "read_pages (Suc n) ?q (query_for J ''DESC'' limit (Some e)) = Some [take (nat limit - 1) (rev docs)]"
    using p2(1) items2 last2 by simp
  then show ?thesis using p(1-3) cursor by (simp add: next_query)
qed

end

section \<open>A server that reads the queries\<close>

text \<open>
  The laws hold of a server that reads the text of a page query. Its rows are the documents
  of the table; texts are compared byte by byte, numbers by their value.
\<close>

fun str_less :: "string \<Rightarrow> string \<Rightarrow> bool" where
  "str_less s [] = False"
| "str_less [] (d # t) = True"
| "str_less (c # s) (d # t) = ((of_char c :: nat) < of_char d \<or> (c = d \<and> str_less s t))"

fun value_less :: "json \<Rightarrow> json \<Rightarrow> bool" where
  "value_less (JString s) (JString t) = str_less s t"
| "value_less (JNumber (PosInt m)) (JNumber (PosInt n)) = (m < n)"
| "value_less _ _ = False"

definition row_less :: "key \<Rightarrow> key \<Rightarrow> bool" where
  "row_less k l \<longleftrightarrow> value_less (fst k) (fst l) \<or> (fst k = fst l \<and> str_less (snd k) (snd l))"

fun literal_json :: "column_value \<Rightarrow> json option" where
  "literal_json (CV_Text s) = Some (JString s)"
| "literal_json (CV_BigNumeric s) = Some (JNumber (PosInt (of_nat (digits_val s))))"
| "literal_json _ = None"

definition read_dir :: "bool reader" where
  "read_dir s = (case expect ''ASC'' s of Some r \<Rightarrow> Some (True, r)
     | None \<Rightarrow> (case expect ''DESC'' s of Some r \<Rightarrow> Some (False, r) | None \<Rightarrow> None))"

text \<open>The comparison with the values behind the cursor, if there is one.\<close>

definition read_after :: "((string \<times> string) \<times> key) option reader" where
  "read_after s =
     (case expect '' WHERE ('' s of
        None \<Rightarrow> Some (None, s)
      | Some s \<Rightarrow>
          Option.bind (read_ident s) (\<lambda>(c1, s). Option.bind (expect '', '' s) (\<lambda>s.
          Option.bind (read_ident s) (\<lambda>(c2, s). Option.bind (expect '') > ('' s) (\<lambda>s.
          Option.bind (read_value s) (\<lambda>(v, s). Option.bind (expect '', '' s) (\<lambda>s.
          Option.bind (scan_string s) (\<lambda>(k, s). Option.bind (expect '')'' s) (\<lambda>s.
            map_option (\<lambda>j. (Some ((c1, c2), (j, k)), s)) (literal_json v))))))))))"

record page_query =
  pq_columns :: "string list"
  pq_path :: "string \<times> string"
  pq_after :: "((string \<times> string) \<times> key) option"
  pq_order :: "(string \<times> bool) \<times> (string \<times> bool)"
  pq_limit :: nat

definition read_order :: "(string \<times> bool) reader" where
  "read_order s =
     Option.bind (read_ident s) (\<lambda>(c, s). Option.bind (expect '' '' s) (\<lambda>s.
     Option.bind (read_dir s) (\<lambda>(d, s). Some ((c, d), s))))"

definition read_page_query :: "string \<Rightarrow> page_query option" where
  "read_page_query s =
     Option.bind (expect ''SELECT row_to_json((SELECT r FROM (SELECT '' s) (\<lambda>s.
     Option.bind (read_list (length s) read_ident s) (\<lambda>(cols, s).
     Option.bind (expect '') AS r)) AS doc FROM '' s) (\<lambda>s. Option.bind (read_path s) (\<lambda>(path, s).
     Option.bind (read_after s) (\<lambda>(aft, s). Option.bind (expect '' ORDER BY '' s) (\<lambda>s.
     Option.bind (read_order s) (\<lambda>(o1, s). Option.bind (expect '', '' s) (\<lambda>s.
     Option.bind (read_order s) (\<lambda>(o2, s). Option.bind (expect '' LIMIT '' s) (\<lambda>s.
       if s \<noteq> [] \<and> list_all is_digit s
       then Some \<lparr> pq_columns = cols, pq_path = path, pq_after = aft, pq_order = (o1, o2),
                   pq_limit = digits_val s \<rparr>
       else None))))))))))"

definition run_page_query ::
  "string \<times> string \<Rightarrow> string list \<Rightarrow> string \<Rightarrow> string \<Rightarrow> json list \<Rightarrow> page_query \<Rightarrow> json list option" where
  "run_page_query path columns order_col pk_col docs q =
     (if pq_path q = path \<and> pq_columns q = columns \<and> map fst [fst (pq_order q), snd (pq_order q)] = [order_col, pk_col] \<and>
         snd (fst (pq_order q)) = snd (snd (pq_order q)) \<and>
         (case pq_after q of None \<Rightarrow> True | Some (cs, _) \<Rightarrow> cs = (order_col, pk_col))
      then (let sel = filter (\<lambda>e. case pq_after q of None \<Rightarrow> True
                       | Some (_, k) \<Rightarrow> row_less k (doc_key order_col pk_col e)) docs
            in Some (take (pq_limit q) (if snd (fst (pq_order q)) then sel else rev sel)))
      else None)"

definition text_pool :: "string \<Rightarrow> string \<Rightarrow> string list \<Rightarrow> string \<Rightarrow> string \<Rightarrow> json list \<Rightarrow> graphql_pool" where
  "text_pool pg_schema table columns order_col pk_col docs = \<lparr>
     gp_fetch_optional = (\<lambda>_ _. Inl ''unsupported''),
     gp_count = (\<lambda>_. Inr (int (length docs))),
     gp_fetch_all = (\<lambda>sql. case Option.bind (read_page_query sql)
         (run_page_query (pg_schema, table) columns order_col pk_col docs) of
       Some rows \<Rightarrow> Inr rows
     | None \<Rightarrow> Inl ''syntax error'') \<rparr>"

lemma read_dir_word [simp]: "read_dir (''ASC'' @ s) = Some (True, s)" "read_dir (''DESC'' @ s) = Some (False, s)"
  by (simp_all add: read_dir_def)

lemma read_order_word:
  assumes "plain_name c" and "d \<in> {''ASC'', ''DESC''}"
  shows "read_order (quote_ident c @ '' '' @ d @ s) = Some ((c, d = ''ASC''), s)"
  using assms read_dir_word [of s] by (auto simp: read_order_def read_ident_quote)

text \<open>The order values that the server reads: texts and natural numbers.\<close>

fun readable_value :: "json \<Rightarrow> bool" where
  "readable_value (JString s) = True"
| "readable_value (JNumber (PosInt n)) = True"
| "readable_value _ = False"

lemma read_value_order:
  assumes "readable_value v"
  shows "\<exists>c. read_value (value_to_sql f64 v @ '', '' @ r) = Some (c, '', '' @ r) \<and> literal_json c = Some v"
proof (cases v)
  case (JNumber n)
  then obtain w where "n = PosInt w" using assms by (cases n) auto
  then show ?thesis
    using JNumber read_value_digits [OF nat_str_nonempty nat_str_digits, of "'', '' @ r" "unat w"] by simp
next
  case (JString s)
  then show ?thesis using read_value_text [of "'', '' @ r" s] by simp
qed (use assms in auto)

lemma read_after_clause:
  assumes "readable_value (fst k)" and "quote_char \<notin> set (snd k)" and "plain_name o'" and "plain_name c"
  shows "read_after (after_clause f64 o' c k @ '' ORDER BY '' @ r) = Some (Some ((o', c), k), '' ORDER BY '' @ r)"
proof -
  let ?key = "[quote_char] @ snd k @ [quote_char] @ '')'' @ '' ORDER BY '' @ r"
  obtain v where v: "read_value (value_to_sql f64 (fst k) @ '', '' @ ?key) = Some (v, '', '' @ ?key)"
    "literal_json v = Some (fst k)"
    using read_value_order [OF assms(1)] by blast
  have key: "scan_string ?key = Some (snd k, '')'' @ '' ORDER BY '' @ r)"
    using scan_quote_text [of "'')'' @ '' ORDER BY '' @ r" "snd k"] assms(2)
    by (simp add: quote_text_def no_quote_escape)
  have "after_clause f64 o' c k @ '' ORDER BY '' @ r =
      '' WHERE ('' @ quote_ident o' @ '', '' @ quote_ident c @ '') > ('' @ value_to_sql f64 (fst k) @ '', '' @ ?key"
    by (simp add: after_clause_def where_clause_def cursor_condition_def key_cursor_def)
  then show ?thesis
    using v key assms(3,4) expect_append read_ident_quote
    by (simp add: read_after_def del: expect.simps append.simps)
qed

lemma read_page_query_text:
  assumes "columns \<noteq> []" and "list_all plain_name columns" and "list_all plain_name [S, t, o', c]"
    and dir: "dir \<in> {''ASC'', ''DESC''}" and n: "0 \<le> n"
    and after: "\<And>r. read_after (clause @ '' ORDER BY '' @ r) = Some (aft, '' ORDER BY '' @ r)"
  shows "read_page_query (data_sql columns S t clause o' c dir n) =
    Some \<lparr> pq_columns = columns, pq_path = (S, t), pq_after = aft,
           pq_order = ((o', dir = ''ASC''), (c, dir = ''ASC'')), pq_limit = nat n \<rparr>"
proof -
  let ?l = "nat_str (nat n)"
  let ?o2 = "quote_ident c @ '' '' @ dir @ '' LIMIT '' @ ?l"
  let ?o1 = "quote_ident o' @ '' '' @ dir @ '', '' @ ?o2"
  let ?from = "'') AS r)) AS doc FROM '' @ table_path S t @ clause @ '' ORDER BY '' @ ?o1"
  have names: "plain_name S" "plain_name t" "plain_name o'" "plain_name c" using assms(3) by simp_all
  have limit: "int_str n = ?l" using n by (simp add: int_str_def)
  have sql: "data_sql columns S t clause o' c dir n =
      ''SELECT row_to_json((SELECT r FROM (SELECT '' @ join '', '' (map quote_ident columns) @ ?from"
    by (simp add: data_sql_def doc_select_def col_list_def limit)
  have cols: "read_list (length (join '', '' (map quote_ident columns) @ ?from)) read_ident
      (join '', '' (map quote_ident columns) @ ?from) = Some (columns, ?from)"
  proof -
    have "length columns \<le> length (join '', '' (map quote_ident columns) @ ?from)"
      using length_join [of "map quote_ident columns"] by simp
    then have "read_list (length (join '', '' (map quote_ident columns) @ ?from)) read_ident
        (join '', '' (map quote_ident columns) @ ?from) = Some (map (\<lambda>x. x) columns, ?from)"
      by (intro read_list_join) (use assms(1,2) in \<open>auto simp: list_all_iff read_ident_quote\<close>)
    then show ?thesis by (simp only: list.map_ident)
  qed
  note order = read_order_word [OF names(3) dir] read_order_word [OF names(4) dir]
  show ?thesis
    unfolding sql read_page_query_def
    using cols after order read_path_append [OF names(1,2)] nat_str_digits [of "nat n"]
    by (simp add: expect_append del: expect.simps append.simps)
qed

definition text_docs :: "string \<Rightarrow> string \<Rightarrow> json list \<Rightarrow> bool" where
  "text_docs order_col pk_col docs \<longleftrightarrow>
     (\<forall>d \<in> set docs. pageable order_col pk_col d \<and> readable_value (fst (doc_key order_col pk_col d))) \<and>
     sorted_wrt (\<lambda>d e. row_less (doc_key order_col pk_col d) (doc_key order_col pk_col e) \<and>
       \<not> row_less (doc_key order_col pk_col e) (doc_key order_col pk_col d)) docs"

lemma str_less_irrefl: "\<not> str_less s s"
  by (induction s) auto

lemma row_less_irrefl: "\<not> row_less k k"
proof -
  have "\<not> value_less v v" for v by (auto elim!: value_less.elims simp: str_less_irrefl)
  then show ?thesis by (simp add: row_less_def str_less_irrefl)
qed

lemma text_pool_pages:
  assumes "text_docs o' c docs" and "columns \<noteq> []" and "list_all plain_name columns"
    and "list_all plain_name [S, t, o', c]" and "utf8_text o'"
  shows "page_server (text_pool S t columns o' c docs) f64 S t c o' columns row_less docs"
proof
  have none: "read_after ([] @ '' ORDER BY '' @ r) = Some (None, '' ORDER BY '' @ r)" for r
    by (simp add: read_after_def)
  have some: "read_after (after_clause f64 o' c (doc_key o' c d) @ '' ORDER BY '' @ r) =
      Some (Some ((o', c), doc_key o' c d), '' ORDER BY '' @ r)" if "d \<in> set docs" for d r
    using assms(1,4) that by (intro read_after_clause) (auto simp: text_docs_def pageable_def)
  note query = read_page_query_text [OF assms(2,3,4)]
  show "gp_fetch_all (text_pool S t columns o' c docs) (data_sql columns S t [] o' c ''ASC'' n) = Inr (take (nat n) docs)"
    if "0 \<le> n" for n
    using query [OF _ that none, of "''ASC''"] by (simp add: text_pool_def run_page_query_def)
  show "gp_fetch_all (text_pool S t columns o' c docs) (data_sql columns S t [] o' c ''DESC'' n) = Inr (take (nat n) (rev docs))"
    if "0 \<le> n" for n
    using query [OF _ that none, of "''DESC''"] by (simp add: text_pool_def run_page_query_def)
  show "gp_fetch_all (text_pool S t columns o' c docs)
      (data_sql columns S t (after_clause f64 o' c (doc_key o' c d)) o' c ''ASC'' n) =
      Inr (take (nat n) (filter (\<lambda>e. row_less (doc_key o' c d) (doc_key o' c e)) docs))"
    if "0 \<le> n" "d \<in> set docs" for n d
    using query [OF _ that(1) some [OF that(2)], of "''ASC''"] by (simp add: text_pool_def run_page_query_def)
  show "gp_fetch_all (text_pool S t columns o' c docs)
      (data_sql columns S t (after_clause f64 o' c (doc_key o' c d)) o' c ''DESC'' n) =
      Inr (take (nat n) (filter (\<lambda>e. row_less (doc_key o' c d) (doc_key o' c e)) (rev docs)))"
    if "0 \<le> n" "d \<in> set docs" for n d
    using query [OF _ that(1) some [OF that(2)], of "''DESC''"]
    by (simp add: text_pool_def run_page_query_def rev_filter)
qed (use assms row_less_irrefl in \<open>auto simp: text_docs_def text_pool_def\<close>)

text \<open>A table of three accounts, the order column holding numbers.\<close>

definition account :: "string \<Rightarrow> u64 \<Rightarrow> json" where
  "account name n = JObject [(''id'', JString name), (''balance'', JNumber (PosInt n))]"

definition accounts :: "json list" where
  "accounts = [account ''carol'' 5, account ''alice'' 7, account ''bob'' 7]"

definition accounts_pool :: graphql_pool where
  "accounts_pool = text_pool ''public'' ''accounts'' [''id'', ''balance''] ''balance'' ''id'' accounts"

interpretation accounts: page_server accounts_pool "\<lambda>_. ''0''" "''public''" "''accounts''" "''id''" "''balance''"
  "[''id'', ''balance'']" row_less accounts
  unfolding accounts_pool_def
proof (rule text_pool_pages)
  show "text_docs ''balance'' ''id'' accounts" by code_simp
  show "utf8_text ''balance''" by code_simp
qed (simp_all add: plain_name_def)

section \<open>Following the cursors\<close>



text \<open>
  Paging in descending order is broken: the condition on the cursor still asks
  for greater rows. If the table has more rows than a page holds, the second page repeats the
  first one without its last row and announces no further page, so that a client never sees
  the rest of the table.
\<close>

lemma descending_pages_repeat:
  assumes "page_server P f64 S t pk_col order_col columns precedes docs" and "json_text J"
    and "0 < limit" and "limit \<le> 1000" and "limit < int (length docs)"
  shows "read_pages (Suc (Suc n)) (resolve_list f64 J P S t pk_col columns) (list_query order_col ''DESC'' limit) =
           Some [take (nat limit) (rev docs), take (nat limit - 1) (rev docs)]"
proof -
  have "nat limit < length docs" using assms(3,5) by linarith
  then show ?thesis
    using page_server.descending_walk [OF assms(1-4), of n]
    by (simp add: page_server.query_for_def [OF assms(1)] list_query_def del: read_pages.simps)
qed

lemma descending_pages_repeat_witness:
  "read_pages 4 (resolve_list (\<lambda>_. ''0'') ref_json accounts_pool ''public'' ''accounts'' ''id''
     [''id'', ''balance'']) (list_query ''balance'' ''DESC'' 2) =
     Some [[account ''bob'' 7, account ''alice'' 7], [account ''bob'' 7]]"
  using descending_pages_repeat [OF accounts.page_server_axioms ref_json.json_text_axioms, of 2 2]
  by (simp add: accounts_def numeral_eq_Suc)

end
