(* ===== verification/Graphql_Schema.thy ===== *)
theory Graphql_Schema
  imports Graphql
begin

text \<open>
  The GraphQL schema of a configured data schema (\<open>forge-index-api/src/graphql/types.rs\<close>
  and \<open>schema_gen.rs\<close>): the names and types of the generated objects, the conversion between
  the values of the JSON and of the GraphQL library, and the fields of the query object. The
  GraphQL library that checks the registered types and reads arguments is an argument.
\<close>

section \<open>Names and types\<close>

fun column_type_to_gql :: "column_type \<Rightarrow> string" where
  "column_type_to_gql CT_Text = ''String''"
| "column_type_to_gql CT_Boolean = ''Boolean''"
| "column_type_to_gql CT_Int = ''Int''"
| "column_type_to_gql CT_BigInt = ''String''"
| "column_type_to_gql CT_Float = ''Float''"
| "column_type_to_gql CT_Hex = ''String''"
| "column_type_to_gql CT_Address = ''String''"
| "column_type_to_gql CT_Hash = ''String''"
| "column_type_to_gql CT_Bytes = ''String''"
| "column_type_to_gql CT_Json = ''JSON''"
| "column_type_to_gql CT_Timestamp = ''String''"

fun filter_type_for_column :: "column_type \<Rightarrow> string" where
  "filter_type_for_column CT_Boolean = ''BoolFilter''"
| "filter_type_for_column CT_Int = ''IntFilter''"
| "filter_type_for_column CT_Float = ''IntFilter''"
| "filter_type_for_column _ = ''StringFilter''"

text \<open>The loops over the characters; \<open>first\<close> tells whether the index is 0.\<close>

fun camel_chars :: "bool \<Rightarrow> bool \<Rightarrow> string \<Rightarrow> string" where
  "camel_chars first capitalize_next [] = []"
| "camel_chars first capitalize_next (c # cs) =
     (if c = CHR ''_'' then camel_chars False True cs
      else if capitalize_next then ascii_upper c # camel_chars False False cs
      else if first then ascii_lower c # camel_chars False capitalize_next cs
      else c # camel_chars False capitalize_next cs)"

definition to_camel_case :: "string \<Rightarrow> string" where
  "to_camel_case s = camel_chars True False s"

fun pascal_chars :: "bool \<Rightarrow> string \<Rightarrow> string" where
  "pascal_chars capitalize_next [] = []"
| "pascal_chars capitalize_next (c # cs) =
     (if c = CHR ''_'' then pascal_chars True cs
      else if capitalize_next then ascii_upper c # pascal_chars False cs
      else c # pascal_chars capitalize_next cs)"

definition to_pascal_case :: "string \<Rightarrow> string" where
  "to_pascal_case s = pascal_chars True s"

text \<open>References to types: nullable, not null, a list of nullable elements, a full list.\<close>

datatype type_ref = Named string | Named_NN string | Named_List string | Named_NN_List_NN string

definition base_type :: "column_type \<Rightarrow> string" where
  "base_type t = (case t of CT_Boolean \<Rightarrow> ''Boolean'' | CT_Int \<Rightarrow> ''Int'' | CT_Float \<Rightarrow> ''Float'' | _ \<Rightarrow> ''String'')"

definition col_type_ref :: "column_type \<Rightarrow> bool \<Rightarrow> type_ref" where
  "col_type_ref t nullable = (if nullable then Named (base_type t) else Named_NN (base_type t))"

section \<open>Values\<close>

datatype gql_value =
    G_Null
  | G_Number json_number
  | G_String string
  | G_Boolean bool
  | G_Binary bytes
  | G_Enum string
  | G_List "gql_value list"
  | G_Object "(string \<times> gql_value) list"

text \<open>
  The numbers of both libraries are those of JSON: \<open>as_i64\<close>, \<open>as_f64\<close>, \<open>i64::into\<close> and
  \<open>from_f64\<close>, which refuses infinities and NaN. The conversion of a large integer to a
  double is an argument.
\<close>

fun as_i64 :: "json_number \<Rightarrow> int option" where
  "as_i64 (PosInt n) = (if unat n < 2 ^ 63 then Some (uint n) else None)"
| "as_i64 (NegInt i) = Some (sint i)"
| "as_i64 (JFloat x) = None"

fun as_f64 :: "(u64 \<Rightarrow> 64 word) \<Rightarrow> json_number \<Rightarrow> 64 word option" where
  "as_f64 conv (PosInt n) = Some (conv n)"
| "as_f64 conv (NegInt i) = Some (conv i)"
| "as_f64 conv (JFloat x) = Some x"

definition number_of_i64 :: "int \<Rightarrow> json_number" where
  "number_of_i64 i = (if i < 0 then NegInt (word_of_int i) else PosInt (word_of_int i))"

definition is_finite :: "64 word \<Rightarrow> bool" where
  "is_finite x \<longleftrightarrow> drop_bit 52 x AND 0x7FF \<noteq> 0x7FF"

definition from_f64 :: "64 word \<Rightarrow> json_number option" where
  "from_f64 x = (if is_finite x then Some (JFloat x) else None)"

definition json_number_to_gql :: "(u64 \<Rightarrow> 64 word) \<Rightarrow> json_number \<Rightarrow> gql_value" where
  "json_number_to_gql conv n =
     (case as_i64 n of
        Some i \<Rightarrow> G_Number (number_of_i64 i)
      | None \<Rightarrow>
          (case as_f64 conv n of
             Some f \<Rightarrow> G_Number (or_else (from_f64 f) (number_of_i64 0))
           | None \<Rightarrow> G_String []))"

fun json_to_gql_value :: "(u64 \<Rightarrow> 64 word) \<Rightarrow> json \<Rightarrow> gql_value" where
  "json_to_gql_value conv JNull = G_Null"
| "json_to_gql_value conv (JBool b) = G_Boolean b"
| "json_to_gql_value conv (JNumber n) = json_number_to_gql conv n"
| "json_to_gql_value conv (JString s) = G_String s"
| "json_to_gql_value conv (JArray xs) = G_List (map (json_to_gql_value conv) xs)"
| "json_to_gql_value conv (JObject fs) = G_Object (map (\<lambda>(k, v). (k, json_to_gql_value conv v)) fs)"

definition gql_number_to_json :: "(u64 \<Rightarrow> 64 word) \<Rightarrow> json_number \<Rightarrow> json" where
  "gql_number_to_json conv n =
     (case as_i64 n of
        Some i \<Rightarrow> JNumber (number_of_i64 i)
      | None \<Rightarrow>
          (case as_f64 conv n of
             Some f \<Rightarrow> (case from_f64 f of Some m \<Rightarrow> JNumber m | None \<Rightarrow> JNull)
           | None \<Rightarrow> JString []))"

fun gql_value_to_json :: "(u64 \<Rightarrow> 64 word) \<Rightarrow> (bytes \<Rightarrow> string) \<Rightarrow> gql_value \<Rightarrow> json" where
  "gql_value_to_json conv hex G_Null = JNull"
| "gql_value_to_json conv hex (G_Enum e) = JString e"
| "gql_value_to_json conv hex (G_String s) = JString s"
| "gql_value_to_json conv hex (G_Boolean b) = JBool b"
| "gql_value_to_json conv hex (G_Number n) = gql_number_to_json conv n"
| "gql_value_to_json conv hex (G_List xs) = JArray (map (gql_value_to_json conv hex) xs)"
| "gql_value_to_json conv hex (G_Object fs) = JObject (map (\<lambda>(k, v). (k, gql_value_to_json conv hex v)) fs)"
| "gql_value_to_json conv hex (G_Binary b) = JString (hex b)"

section \<open>The generated schema\<close>

datatype registered =
    R_Object string "(string \<times> type_ref) list"
  | R_Input string "(string \<times> type_ref) list"
  | R_Enum string "string list"

record query_field =
  qf_name :: string
  qf_type :: type_ref
  qf_args :: "(string \<times> type_ref) list"

definition shared_types :: "registered list" where
  "shared_types =
     [R_Object ''PageInfo'' [(''hasNextPage'', Named_NN ''Boolean''), (''hasPreviousPage'', Named_NN ''Boolean''),
        (''startCursor'', Named ''String''), (''endCursor'', Named ''String'')],
      R_Enum ''OrderDirection'' [''ASC'', ''DESC''],
      R_Input ''StringFilter'' [(''eq'', Named ''String''), (''contains'', Named ''String''),
        (''in'', Named_List ''String''), (''notIn'', Named_List ''String'')],
      R_Input ''IntFilter'' [(''eq'', Named ''Int''), (''gt'', Named ''Int''), (''gte'', Named ''Int''),
        (''lt'', Named ''Int''), (''lte'', Named ''Int'')],
      R_Input ''BoolFilter'' [(''eq'', Named ''Boolean'')]]"

definition table_pk :: "table_def \<Rightarrow> string" where
  "table_pk t = (case find col_primary_key (tbl_columns t) of Some c \<Rightarrow> col_name c | None \<Rightarrow> ''id'')"

definition table_types :: "table_def \<Rightarrow> registered list" where
  "table_types t =
     (let type_name = to_pascal_case (tbl_name t)
      in [R_Object type_name (map (\<lambda>c. (col_name c, col_type_ref (col_type c) (col_nullable c))) (tbl_columns t)),
          R_Object (type_name @ ''Page'') [(''items'', Named_NN_List_NN type_name),
            (''pageInfo'', Named_NN ''PageInfo''), (''totalCount'', Named_NN ''Int'')],
          R_Input (type_name @ ''Filter'') (map (\<lambda>c. (col_name c, Named (filter_type_for_column (col_type c)))) (tbl_columns t)),
          R_Enum (type_name @ ''OrderBy'') (map col_name (tbl_columns t))])"

definition single_query :: "table_def \<Rightarrow> query_field" where
  "single_query t = \<lparr> qf_name = to_camel_case (tbl_name t), qf_type = Named (to_pascal_case (tbl_name t)),
     qf_args = [(table_pk t, Named_NN ''String'')] \<rparr>"

definition page_list_query :: "table_def \<Rightarrow> query_field" where
  "page_list_query t =
     (let type_name = to_pascal_case (tbl_name t)
      in \<lparr> qf_name = to_camel_case (tbl_name t) @ ''s'', qf_type = Named_NN (type_name @ ''Page''),
           qf_args = [(''where'', Named (type_name @ ''Filter'')), (''orderBy'', Named (type_name @ ''OrderBy'')),
             (''orderDirection'', Named ''OrderDirection''), (''limit'', Named ''Int''),
             (''after'', Named ''String''), (''before'', Named ''String'')] \<rparr>)"

definition query_fields :: "schema \<Rightarrow> query_field list" where
  "query_fields s =
     concat (map (\<lambda>t. [single_query t, page_list_query t]) (sch_tables s)) @
     (if sch_tables s = [] then [\<lparr> qf_name = ''_empty'', qf_type = Named ''String'', qf_args = [] \<rparr>] else [])"

definition query_object :: "schema \<Rightarrow> registered" where
  "query_object s = R_Object ''Query'' (map (\<lambda>f. (qf_name f, qf_type f)) (query_fields s))"

text \<open>\<open>finish\<close> is the check of the GraphQL library on the registered types.\<close>

definition build_schema :: "(registered list \<Rightarrow> query_field list \<Rightarrow> string + 's) \<Rightarrow> schema \<Rightarrow> string + 's" where
  "build_schema finish s =
     (case finish (shared_types @ concat (map table_types (sch_tables s)) @ [query_object s]) (query_fields s) of
        Inl e \<Rightarrow> Inl (''Failed to build GraphQL schema: '' @ e)
      | Inr g \<Rightarrow> Inr g)"

section \<open>Fields\<close>

fun get_parent_field :: "gql_value \<Rightarrow> string \<Rightarrow> gql_value option" where
  "get_parent_field (G_Object m) field = map_of m field"
| "get_parent_field _ field = None"

text \<open>The arguments of a field and how the library reads them.\<close>

record accessor =
  va_string :: "gql_value \<Rightarrow> string option"
  va_enum_name :: "gql_value \<Rightarrow> string option"
  va_i64 :: "gql_value \<Rightarrow> int option"

datatype field_error = Missing_Argument string | Not_A_String | Resolver string

record api_env =
  ae_f64 :: "64 word \<Rightarrow> string"
  ae_conv :: "u64 \<Rightarrow> 64 word"
  ae_hex :: "bytes \<Rightarrow> string"
  ae_json :: cursor_json
  ae_pool :: graphql_pool
  ae_pg_schema :: string
  ae_access :: accessor

definition resolve_single_field ::
  "api_env \<Rightarrow> table_def \<Rightarrow> (string \<rightharpoonup> gql_value) \<Rightarrow> field_error + gql_value option" where
  "resolve_single_field E t args =
     (case args (table_pk t) of
        None \<Rightarrow> Inl (Missing_Argument (table_pk t))
      | Some v \<Rightarrow>
          (case va_string (ae_access E) v of
             None \<Rightarrow> Inl Not_A_String
           | Some pk_value \<Rightarrow>
               (case resolve_single (ae_pool E) (ae_pg_schema E) (tbl_name t) (table_pk t) pk_value
                       (map col_name (tbl_columns t)) of
                  Inl e \<Rightarrow> Inl (Resolver e)
                | Inr result \<Rightarrow> Inr (map_option (json_to_gql_value (ae_conv E)) result))))"

definition opt_string :: "string option \<Rightarrow> json" where
  "opt_string s = (case s of Some t \<Rightarrow> JString t | None \<Rightarrow> JNull)"

text \<open>The JSON of a page; the keys of a JSON object are sorted.\<close>

definition page_json :: "page \<Rightarrow> json" where
  "page_json p = JObject
     [(''items'', JArray (pg_items p)),
      (''pageInfo'', JObject [(''endCursor'', opt_string (pg_end_cursor p)), (''hasNextPage'', JBool (pg_has_next_page p)),
         (''hasPreviousPage'', JBool (pg_has_previous_page p)), (''startCursor'', opt_string (pg_start_cursor p))]),
      (''totalCount'', JNumber (number_of_i64 (pg_total_count p)))]"

definition args_of :: "api_env \<Rightarrow> (string \<rightharpoonup> gql_value) \<Rightarrow> list_args" where
  "args_of E args = (let A = ae_access E in
     \<lparr> la_filter = map_option (gql_value_to_json (ae_conv E) (ae_hex E)) (args ''where''),
       la_order_by = Option.bind (args ''orderBy'') (va_enum_name A),
       la_order_direction = Option.bind (args ''orderDirection'') (va_enum_name A),
       la_limit = Option.bind (args ''limit'') (va_i64 A),
       la_after = Option.bind (args ''after'') (va_string A),
       la_before = Option.bind (args ''before'') (va_string A) \<rparr>)"

definition resolve_list_field ::
  "api_env \<Rightarrow> table_def \<Rightarrow> (string \<rightharpoonup> gql_value) \<Rightarrow> field_error + gql_value option" where
  "resolve_list_field E t args =
     (case resolve_list (ae_f64 E) (ae_json E) (ae_pool E) (ae_pg_schema E) (tbl_name t) (table_pk t)
             (map col_name (tbl_columns t)) (args_of E args) of
        Inl e \<Rightarrow> Inl (Resolver e)
      | Inr p \<Rightarrow> Inr (Some (json_to_gql_value (ae_conv E) (page_json p))))"

section \<open>Values survive the way through both libraries\<close>

text \<open>Numbers within 64 signed bits, negative ones as such, and finite doubles.\<close>

fun plain_number :: "json_number \<Rightarrow> bool" where
  "plain_number (PosInt n) = (unat n < 2 ^ 63)"
| "plain_number (NegInt i) = (sint i < 0)"
| "plain_number (JFloat x) = is_finite x"

fun plain_numbers :: "json \<Rightarrow> bool" where
  "plain_numbers (JNumber n) = plain_number n"
| "plain_numbers (JArray xs) = list_all plain_numbers xs"
| "plain_numbers (JObject fs) = list_all (\<lambda>(k, v). plain_numbers v) fs"
| "plain_numbers _ = True"

lemma number_roundtrip: "plain_number n \<Longrightarrow> gql_value_to_json conv hex (json_number_to_gql conv n) = JNumber n"
proof (cases n)
  case (PosInt w)
  moreover have "number_of_i64 (uint w) = PosInt w" by (simp add: number_of_i64_def not_less)
  moreover assume "plain_number n"
  ultimately show ?thesis by (simp add: json_number_to_gql_def gql_number_to_json_def)
next
  case (NegInt w)
  assume "plain_number n"
  then have "number_of_i64 (sint w) = NegInt w" by (simp add: number_of_i64_def NegInt)
  then show ?thesis by (simp add: NegInt json_number_to_gql_def gql_number_to_json_def)
next
  case (JFloat x)
  assume "plain_number n"
  then show ?thesis by (simp add: JFloat json_number_to_gql_def gql_number_to_json_def from_f64_def or_else_def)
qed

lemma json_gql_roundtrip:
  "plain_numbers v \<Longrightarrow> gql_value_to_json conv hex (json_to_gql_value conv v) = v"
  by (induction conv v rule: json_to_gql_value.induct)
    (auto simp: number_roundtrip list_all_iff intro!: map_idI)

text \<open>
  The list query of a table \<open>user\<close> and the single query of a table \<open>users\<close> have one name.
\<close>

lemma query_names_collide:
  assumes "tbl_name t = name" and "tbl_name u = name @ ''s''" and "name \<noteq> []" and "last name \<noteq> CHR ''_''"
  shows "qf_name (page_list_query t) = qf_name (single_query u)"
proof -
  have "camel_chars f c (name @ ''s'') = camel_chars f c name @ ''s''" if "name \<noteq> []" "last name \<noteq> CHR ''_''" for f c name
    using that by (induction f c name rule: camel_chars.induct) (auto split: if_splits)
  then show ?thesis using assms by (simp add: page_list_query_def single_query_def to_camel_case_def Let_def)
qed

end
