(* ===== verification/Sql_Api.thy ===== *)
theory Sql_Api
  imports Sql_Validator Rate_Limiter Graphql_Schema
begin

text \<open>
  The SQL endpoint (\<open>forge-index-api/src/handlers/sql.rs\<close>, \<open>sql/executor.rs\<close>,
  \<open>sql/result.rs\<close>, \<open>response.rs\<close>): authorisation, rate limit, validation, execution in a
  transaction that is rolled back, and the response. The database connection is an argument;
  what the endpoint relies on, that a rollback undoes a transaction, is a locale.
\<close>

section \<open>Responses\<close>

record api_response =
  rs_status :: nat
  rs_retry_after :: "string option"
  rs_data :: "json option"
  rs_meta :: "json option"
  rs_error :: "(string \<times> string) option"

definition response_ok :: "json \<Rightarrow> api_response" where
  "response_ok data =
     \<lparr> rs_status = 200, rs_retry_after = None, rs_data = Some data, rs_meta = None, rs_error = None \<rparr>"

definition response_ok_with_meta :: "json \<Rightarrow> json \<Rightarrow> api_response" where
  "response_ok_with_meta data meta =
     \<lparr> rs_status = 200, rs_retry_after = None, rs_data = Some data, rs_meta = Some meta, rs_error = None \<rparr>"

definition response_error :: "nat \<Rightarrow> string \<Rightarrow> string \<Rightarrow> api_response" where
  "response_error status code message =
     \<lparr> rs_status = status, rs_retry_after = None, rs_data = None, rs_meta = None, rs_error = Some (code, message) \<rparr>"

fun api_error_response :: "api_error \<Rightarrow> api_response" where
  "api_error_response (Internal msg) = response_error 500 ''INTERNAL'' msg"
| "api_error_response (NotFound msg) = response_error 404 ''NOT_FOUND'' msg"
| "api_error_response (BadRequest msg) = response_error 400 ''BAD_REQUEST'' msg"

text \<open>The text of an error; that of a database error is library code.\<close>

fun sql_error_text :: "(sqlx_error \<Rightarrow> string) \<Rightarrow> sql_error \<Rightarrow> string" where
  "sql_error_text show (InvalidStatement msg) = msg"
| "sql_error_text show (ForbiddenKeyword kw) = ''Forbidden keyword: '' @ kw"
| "sql_error_text show (TooLong len mx) =
     ''Query too long: '' @ nat_str len @ '' chars (max '' @ nat_str mx @ '')''"
| "sql_error_text show Timeout = ''Query execution timed out''"
| "sql_error_text show (Sql_Database e) = ''Database error: '' @ show e"

section \<open>Execution\<close>

text \<open>
  A value of a returned row. \<open>try_get\<close> gives it where the requested type is that of the
  column and an error elsewhere, which the code turns into \<open>null\<close>.
\<close>

datatype pg_cell =
    C_Null | C_Bool bool | C_Int2 "16 word" | C_Int4 "32 word" | C_Int8 "64 word"
  | C_Float4 "32 word" | C_Float8 "64 word" | C_Numeric string | C_Json json | C_Bytea bytes
  | C_Text string | C_Other

record pg_column =
  pc_name :: string
  pc_type :: string

record pg_row =
  pr_columns :: "pg_column list"
  pr_cells :: "pg_cell list"

text \<open>Conversions of the standard library that the rows need: \<open>f32 as f64\<close> and hexadecimal.\<close>

record row_conv =
  rc_f32 :: "32 word \<Rightarrow> 64 word"
  rc_hex :: "bytes \<Rightarrow> string"

definition float_json :: "64 word \<Rightarrow> json" where
  "float_json x = (case from_f64 x of Some n \<Rightarrow> JNumber n | None \<Rightarrow> JNull)"

definition cell_to_json :: "row_conv \<Rightarrow> string \<Rightarrow> pg_cell \<Rightarrow> json" where
  "cell_to_json R type_name cell =
     (if type_name = ''BOOL'' then (case cell of C_Bool b \<Rightarrow> JBool b | _ \<Rightarrow> JNull)
      else if type_name \<in> {''INT2'', ''SMALLINT''} then
        (case cell of C_Int2 i \<Rightarrow> JNumber (number_of_i64 (sint i)) | _ \<Rightarrow> JNull)
      else if type_name \<in> {''INT4'', ''INT'', ''INTEGER''} then
        (case cell of C_Int4 i \<Rightarrow> JNumber (number_of_i64 (sint i)) | _ \<Rightarrow> JNull)
      else if type_name \<in> {''INT8'', ''BIGINT''} then
        (case cell of C_Int8 i \<Rightarrow> JNumber (number_of_i64 (sint i)) | _ \<Rightarrow> JNull)
      else if type_name \<in> {''FLOAT4'', ''REAL''} then (case cell of C_Float4 x \<Rightarrow> float_json (rc_f32 R x) | _ \<Rightarrow> JNull)
      else if type_name \<in> {''FLOAT8'', ''DOUBLE PRECISION''} then (case cell of C_Float8 x \<Rightarrow> float_json x | _ \<Rightarrow> JNull)
      else if type_name = ''NUMERIC'' then (case cell of C_Numeric s \<Rightarrow> JString s | _ \<Rightarrow> JNull)
      else if type_name \<in> {''JSONB'', ''JSON''} then (case cell of C_Json j \<Rightarrow> j | _ \<Rightarrow> JNull)
      else if type_name = ''BYTEA'' then (case cell of C_Bytea b \<Rightarrow> JString (''0x'' @ rc_hex R b) | _ \<Rightarrow> JNull)
      else (case cell of C_Text s \<Rightarrow> JString s | _ \<Rightarrow> JNull))"

text \<open>A later column replaces an earlier one of the same name.\<close>

fun row_entries :: "row_conv \<Rightarrow> pg_row \<Rightarrow> nat \<Rightarrow> string list \<Rightarrow> (string \<times> json) list \<Rightarrow> ((string \<times> json) list, 'e) result" where
  "row_entries R row i [] m = Inr m"
| "row_entries R row i (c # cs) m =
     (if i < length (pr_columns row) \<and> i < length (pr_cells row)
      then row_entries R row (Suc i) cs (index_insert c (cell_to_json R (pc_type (pr_columns row ! i)) (pr_cells row ! i)) m)
      else Inl (Panic ''called `Option::unwrap()` on a `None` value''))"

definition row_to_json :: "row_conv \<Rightarrow> pg_row \<Rightarrow> string list \<Rightarrow> (json, 'e) result" where
  "row_to_json R row columns = bind_res (row_entries R row 0 columns []) (\<lambda>m. Inr (JObject m))"

record sql_result =
  sr_columns :: "string list"
  sr_rows :: "json list"
  sr_row_count :: nat
  sr_execution_time_ms :: u64

text \<open>A connection: \<open>BEGIN\<close>, a statement, a query and \<open>ROLLBACK\<close>, which dropping a transaction sends too.\<close>

record 'd connection =
  cn_begin :: "('d, sqlx_error, unit) call"
  cn_execute :: "string \<Rightarrow> ('d, sqlx_error, unit) call"
  cn_fetch_all :: "string \<Rightarrow> ('d, sqlx_error, pg_row list) call"
  cn_rollback :: "('d, sqlx_error, unit) call"

definition default_timeout_ms :: u64 where "default_timeout_ms = 5000"

definition timeout_sql :: "u64 \<Rightarrow> string" where
  "timeout_sql timeout = ''SET LOCAL statement_timeout = '' @ [quote_char] @ nat_str (unat timeout) @ ''ms'' @ [quote_char]"

definition query_failure :: "(sqlx_error \<Rightarrow> string) \<Rightarrow> sqlx_error \<Rightarrow> sql_error" where
  "query_failure show e =
     (if contains_sub ''statement timeout'' (show e) \<or>
         contains_sub ''canceling statement due to statement timeout'' (show e)
      then Timeout else Sql_Database e)"

definition dropping :: "'d connection \<Rightarrow> 'a \<Rightarrow> 'd \<Rightarrow> 'a \<times> 'd" where
  "dropping C r d = (r, snd (cn_rollback C d))"

definition execute_sql ::
  "row_conv \<Rightarrow> (sqlx_error \<Rightarrow> string) \<Rightarrow> 'd connection \<Rightarrow> validated_sql \<Rightarrow> u64 option \<Rightarrow> u64
   \<Rightarrow> ('d, sql_error failure, sql_result) call" where
  "execute_sql R show C sql timeout_ms elapsed = (\<lambda>d.
     let timeout = or_else timeout_ms default_timeout_ms
     in case cn_begin C d of
          (Inl e, d) \<Rightarrow> (Inl (Err (Sql_Database e)), d)
        | (Inr _, d) \<Rightarrow>
            (case cn_execute C (timeout_sql timeout) d of
               (Inl e, d) \<Rightarrow> dropping C (Inl (Err (Sql_Database e))) d
             | (Inr _, d) \<Rightarrow>
                 (case cn_fetch_all C (vs_sanitised sql) d of
                    (Inl e, d) \<Rightarrow> dropping C (Inl (Err (query_failure show e))) d
                  | (Inr rows, d) \<Rightarrow>
                      (let d = snd (cn_rollback C d)
                       in case rows of
                            [] \<Rightarrow> (Inr \<lparr> sr_columns = [], sr_rows = [], sr_row_count = 0, sr_execution_time_ms = elapsed \<rparr>, d)
                          | row # _ \<Rightarrow>
                              (let columns = map pc_name (pr_columns row)
                               in (bind_res (map_res (\<lambda>row. row_to_json R row columns) rows) (\<lambda>json_rows.
                                     Inr \<lparr> sr_columns = columns, sr_rows = json_rows, sr_row_count = length json_rows,
                                           sr_execution_time_ms = elapsed \<rparr>), d))))))"

section \<open>The handler\<close>

record ('ip, 'd) sql_state =
  st_rounding :: rounding
  st_conv :: row_conv
  st_show :: "sqlx_error \<Rightarrow> string"
  st_connection :: "'d connection"
  st_localhost :: 'ip
  st_pg_schema :: string
  st_api_key :: "string option"
  st_prod_mode :: bool

record sql_request =
  rq_query :: string
  rq_timeout_ms :: "u64 option"

text \<open>What a request brings along: the address, the header, the body and the clock readings.\<close>

record 'ip incoming =
  in_ip :: "'ip option"
  in_authorization :: "string option"
  in_request :: sql_request
  in_now :: nat
  in_elapsed :: u64

definition authorised :: "('ip, 'd) sql_state \<Rightarrow> string option \<Rightarrow> bool" where
  "authorised S header \<longleftrightarrow>
     (if st_prod_mode S then
        (case st_api_key S of
           None \<Rightarrow> True
         | Some expected_key \<Rightarrow> Option.bind header (strip_prefix ''Bearer '') = Some expected_key)
      else True)"

definition rate_limited :: api_response where
  "rate_limited = (response_error 429 ''RATE_LIMITED'' ''Too many requests. Max 10 requests per second.'')
     \<lparr>rs_retry_after := Some ''1''\<rparr>"

fun validation_code :: "sql_error \<Rightarrow> nat \<times> string" where
  "validation_code (InvalidStatement _) = (400, ''INVALID_SQL'')"
| "validation_code (ForbiddenKeyword _) = (400, ''FORBIDDEN_KEYWORD'')"
| "validation_code (TooLong _ _) = (400, ''QUERY_TOO_LONG'')"
| "validation_code Timeout = (408, ''TIMEOUT'')"
| "validation_code (Sql_Database _) = (500, ''DATABASE_ERROR'')"

definition result_response :: "sql_result \<Rightarrow> api_response" where
  "result_response r = response_ok_with_meta
     (JObject [(''columns'', JArray (map JString (sr_columns r))), (''rows'', JArray (sr_rows r))])
     (JObject [(''execution_time_ms'', JNumber (PosInt (sr_execution_time_ms r))),
               (''row_count'', JNumber (PosInt (of_nat (sr_row_count r))))])"

definition sql_handler ::
  "('ip, 'd) sql_state \<Rightarrow> 'ip incoming \<Rightarrow> 'ip sql_rate_limiter \<times> 'd
   \<Rightarrow> (api_response, sql_error) result \<times> ('ip sql_rate_limiter \<times> 'd)" where
  "sql_handler S q = (\<lambda>(L, d).
     if \<not> authorised S (in_authorization q) then
       (Inr (response_error 401 ''UNAUTHORIZED'' ''Invalid or missing Authorization header''), (L, d))
     else
       (case limiter_try_acquire (st_rounding S) (in_now q) (or_else (in_ip q) (st_localhost S)) L of
          (False, L) \<Rightarrow> (Inr rate_limited, (L, d))
        | (True, L) \<Rightarrow>
            (case validate_sql (rq_query (in_request q)) (st_pg_schema S) of
               Inl e \<Rightarrow> (case validation_code e of (status, code) \<Rightarrow>
                 (Inr (response_error status code (sql_error_text (st_show S) e)), (L, d)))
             | Inr validated \<Rightarrow>
                 (case execute_sql (st_conv S) (st_show S) (st_connection S) validated
                         (rq_timeout_ms (in_request q)) (in_elapsed q) d of
                    (Inr result, d) \<Rightarrow> (Inr (result_response result), (L, d))
                  | (Inl (Err Timeout), d) \<Rightarrow>
                      (Inr (response_error 408 ''TIMEOUT'' ''Query execution timed out''), (L, d))
                  | (Inl (Err e), d) \<Rightarrow>
                      (Inr (response_error 500 ''DATABASE_ERROR'' (sql_error_text (st_show S) e)), (L, d))
                  | (Inl (Panic m), d) \<Rightarrow> (Inl (Panic m), (L, d))))))"

section \<open>The endpoint only reads\<close>

lemma digit_not_semicolon: "CHR '';'' \<notin> set (nat_str n)"
  using nat_str_digits [of n] by (auto simp: list_all_iff is_digit_def)

text \<open>
  What a database promises of a transaction: \<open>content\<close> is what other sessions see of the
  tables, and \<open>inside v\<close> holds in a transaction that began on the content \<open>v\<close>. Only a text
  that is one \<open>SELECT\<close>, or one \<open>SET LOCAL\<close>, is promised to stay inside; a text with a
  further statement, or another one, such as \<open>COMMIT\<close>, may end the transaction. What is not undone by a
  rollback, such as the value of a sequence, is not part of the content.
\<close>

definition single_select :: "string \<Rightarrow> bool" where
  "single_select sql \<longleftrightarrow> upper (take 6 sql) = ''SELECT'' \<and> CHR '';'' \<notin> set sql"

definition set_local :: "string \<Rightarrow> bool" where
  "set_local sql \<longleftrightarrow> take 10 sql = ''SET LOCAL '' \<and> CHR '';'' \<notin> set sql"

lemma timeout_local: "set_local (timeout_sql t)"
  using digit_not_semicolon by (simp add: set_local_def timeout_sql_def)

locale transactional =
  fixes C :: "'d connection" and content :: "'d \<Rightarrow> 'v" and inside :: "'v \<Rightarrow> 'd \<Rightarrow> bool"
  assumes begin_ok: "cn_begin C d = (Inr (), d') \<Longrightarrow> inside (content d) d'"
    and begin_fails: "cn_begin C d = (Inl e, d') \<Longrightarrow> content d' = content d"
    and execute_inside: "inside v d \<Longrightarrow> set_local sql \<Longrightarrow> inside v (snd (cn_execute C sql d))"
    and fetch_inside: "inside v d \<Longrightarrow> single_select sql \<Longrightarrow> inside v (snd (cn_fetch_all C sql d))"
    and rollback: "inside v d \<Longrightarrow> content (snd (cn_rollback C d)) = v"
begin

lemma execute_sql_content:
  assumes "single_select (vs_sanitised sql)"
  shows "content (snd (execute_sql R show C sql timeout_ms elapsed d)) = content d"
proof (cases "cn_begin C d")
  case (Pair r d1)
  show ?thesis
  proof (cases r)
    case (Inl e)
    then show ?thesis using Pair begin_fails by (simp add: execute_sql_def Let_def)
  next
    case (Inr u)
    then have in1: "inside (content d) d1" using Pair begin_ok by simp
    let ?t = "timeout_sql (or_else timeout_ms default_timeout_ms)"
    have in2: "inside (content d) (snd (cn_execute C ?t d1))"
      using in1 timeout_local by (rule execute_inside)
    have in3: "inside (content d) (snd (cn_fetch_all C (vs_sanitised sql) (snd (cn_execute C ?t d1))))"
      using in2 assms by (rule fetch_inside)
    show ?thesis
      using Pair Inr rollback [OF in2] rollback [OF in3]
      by (auto simp: execute_sql_def Let_def dropping_def split: prod.splits sum.splits list.splits)
  qed
qed

end

text \<open>
  A database with one session: the committed content, the working copy of a transaction and
  the texts it was sent. A text changes the working copy by an arbitrary function, and commits
  it if one of its statements is \<open>COMMIT\<close>.
\<close>

record 'v session =
  ss_committed :: 'v
  ss_working :: "'v option"
  ss_sent :: "string list"

fun statements :: "string \<Rightarrow> string list" where
  "statements [] = [[]]"
| "statements (c # s) =
     (case statements s of [] \<Rightarrow> [[c]] | p # ps \<Rightarrow> if c = CHR '';'' then [] # p # ps else (c # p) # ps)"

definition commits :: "string \<Rightarrow> bool" where
  "commits sql \<longleftrightarrow> (\<exists>s \<in> set (statements sql). upper (take 6 (trim_start s)) = ''COMMIT'')"

definition ran :: "string \<Rightarrow> 'v \<Rightarrow> 'v session \<Rightarrow> 'v session" where
  "ran sql w s =
     (if commits sql then s\<lparr>ss_committed := w, ss_working := None, ss_sent := ss_sent s @ [sql]\<rparr>
      else s\<lparr>ss_working := Some w, ss_sent := ss_sent s @ [sql]\<rparr>)"

definition session_connection ::
  "(string \<Rightarrow> 'v \<Rightarrow> sqlx_error + 'v) \<Rightarrow> (string \<Rightarrow> 'v \<Rightarrow> sqlx_error + pg_row list \<times> 'v) \<Rightarrow> 'v session connection" where
  "session_connection run query = \<lparr>
     cn_begin = (\<lambda>s. (Inr (), s\<lparr>ss_working := Some (ss_committed s)\<rparr>)),
     cn_execute = (\<lambda>sql s. case ss_working s of
        None \<Rightarrow> (Inl Sqlx_Database, s)
      | Some w \<Rightarrow> (case run sql w of
          Inl e \<Rightarrow> (Inl e, s\<lparr>ss_sent := ss_sent s @ [sql]\<rparr>)
        | Inr w' \<Rightarrow> (Inr (), ran sql w' s))),
     cn_fetch_all = (\<lambda>sql s. case ss_working s of
        None \<Rightarrow> (Inl Sqlx_Database, s)
      | Some w \<Rightarrow> (case query sql w of
          Inl e \<Rightarrow> (Inl e, s\<lparr>ss_sent := ss_sent s @ [sql]\<rparr>)
        | Inr (rows, w') \<Rightarrow> (Inr rows, ran sql w' s))),
     cn_rollback = (\<lambda>s. (Inr (), s\<lparr>ss_working := None\<rparr>)) \<rparr>"

lemma one_statement: "CHR '';'' \<notin> set s \<Longrightarrow> statements s = [s]"
  by (induction s) auto

lemma not_commits:
  assumes "single_select sql \<or> set_local sql"
  shows "\<not> commits sql"
proof -
  have one: "statements sql = [sql]" using assms one_statement by (auto simp: single_select_def set_local_def)
  obtain c s where sql: "sql = c # s" using assms by (cases sql) (auto simp: single_select_def set_local_def)
  have "ascii_upper c = CHR ''S''" using assms by (auto simp: sql single_select_def set_local_def ascii_upper_def)
  moreover from this have "\<not> is_whitespace c"
    using of_char_ascii_upper [of c] by (auto simp: is_whitespace_def Let_def)
  moreover have "commits sql \<longleftrightarrow> upper (take 6 (trim_start sql)) = ''COMMIT''" by (simp add: commits_def one)
  ultimately show ?thesis by (simp add: trim_start_def sql)
qed

interpretation session: transactional "session_connection run query" ss_committed "\<lambda>v s. ss_committed s = v"
  for run query
  by unfold_locales
    (auto simp: session_connection_def ran_def not_commits split: option.splits sum.splits prod.splits)

text \<open>
  Property C31. The SQL endpoint leaves the tables alone, and runs only what it checked:
  whatever a client sends, the tables hold the same after the request, even if the query calls
  functions that write to them, because what passes the validation is one SELECT, which cannot
  leave the transaction that is rolled back; and the database is not contacted at all unless
  the client is authorised, within its rate and the query has passed the validation. In
  production mode with a key, a request without the key leaves even the rate limiter alone.
  The schema name holds no semicolon. Effects that no rollback undoes, such as \<open>nextval\<close> on a
  sequence, are not covered.
\<close>

theorem sql_endpoint_only_reads:
  assumes "transactional (st_connection S) content inside" and "CHR '';'' \<notin> set (st_pg_schema S)"
    and "sql_handler S q (L, d) = (r, (L', d'))"
  shows "content d' = content d \<and>
    (d' \<noteq> d \<longrightarrow> authorised S (in_authorization q) \<and>
       fst (limiter_try_acquire (st_rounding S) (in_now q) (or_else (in_ip q) (st_localhost S)) L) \<and>
       (\<exists>v. validate_sql (rq_query (in_request q)) (st_pg_schema S) = Inr v)) \<and>
    (st_prod_mode S \<and> st_api_key S \<noteq> None \<and> Option.bind (in_authorization q) (strip_prefix ''Bearer '') \<noteq> st_api_key S
       \<longrightarrow> (L', d') = (L, d) \<and> (\<exists>p. r = Inr p \<and> rs_status p = 401))"
proof -
  obtain ok L1 where lim: "limiter_try_acquire (st_rounding S) (in_now q) (or_else (in_ip q) (st_localhost S)) L = (ok, L1)"
    by (metis prod.exhaust)
  show ?thesis
  proof (cases "authorised S (in_authorization q) \<and> ok \<and> (\<exists>v. validate_sql (rq_query (in_request q)) (st_pg_schema S) = Inr v)")
    case False
    then have "d' = d" using assms(3) lim
      by (cases "validate_sql (rq_query (in_request q)) (st_pg_schema S)"; cases ok)
        (auto simp: sql_handler_def split: if_splits prod.splits)
    moreover have "L' = L \<and> (\<exists>p. r = Inr p \<and> rs_status p = 401)" if "\<not> authorised S (in_authorization q)"
      using assms(3) that by (auto simp: sql_handler_def response_error_def)
    ultimately show ?thesis by (auto simp: authorised_def split: option.splits)
  next
    case True
    then obtain v where v: "validate_sql (rq_query (in_request q)) (st_pg_schema S) = Inr v" by blast
    obtain res d1 where run: "execute_sql (st_conv S) (st_show S) (st_connection S) v (rq_timeout_ms (in_request q))
        (in_elapsed q) d = (res, d1)" by (metis prod.exhaust)
    have "d' = d1"
      using assms(3) True lim v run
      by (cases res) (auto simp: sql_handler_def split: failure.splits sql_error.splits)
    moreover have "content d1 = content d"
      using transactional.execute_sql_content [OF assms(1), of v "st_conv S" "st_show S" "rq_timeout_ms (in_request q)"
          "in_elapsed q" d] validated_select [OF v assms(2)] run by (simp add: single_select_def)
    ultimately show ?thesis using True lim v by (auto simp: authorised_def split: option.splits if_splits)
  qed
qed

text \<open>A query that calls a function which writes to a table: the change is rolled back.\<close>

definition counting_state :: "(nat, nat session) sql_state" where
  "counting_state = \<lparr> st_rounding = round53, st_conv = \<lparr> rc_f32 = ucast, rc_hex = hex_encode_ref \<rparr>, st_show = (\<lambda>_. []),
     st_connection = session_connection (\<lambda>_ w. Inr w) (\<lambda>_ w. Inr ([], w + 1)),
     st_localhost = 1, st_pg_schema = ''public'', st_api_key = Some ''secret'', st_prod_mode = True \<rparr>"

definition counting_request :: "string \<Rightarrow> nat incoming" where
  "counting_request key = \<lparr> in_ip = Some 2, in_authorization = Some (''Bearer '' @ key),
     in_request = \<lparr> rq_query = ''SELECT bump(c)'', rq_timeout_ms = None \<rparr>, in_now = 0, in_elapsed = 0 \<rparr>"

definition counting_db :: "nat session" where
  "counting_db = \<lparr> ss_committed = 41, ss_working = None, ss_sent = [] \<rparr>"

theorem sql_endpoint_only_reads_witness:
  "ss_committed (snd (snd (sql_handler counting_state (counting_request ''secret'') (new_limiter 10, counting_db)))) = 41 \<and>
   fst (sql_handler counting_state (counting_request ''guess'') (new_limiter 10, counting_db)) =
     Inr (response_error 401 ''UNAUTHORIZED'' ''Invalid or missing Authorization header'')"
proof
  obtain r L' d' where run: "sql_handler counting_state (counting_request ''secret'') (new_limiter 10, counting_db) = (r, (L', d'))"
    by (metis prod.exhaust)
  have "transactional (st_connection counting_state) ss_committed (\<lambda>v s. ss_committed s = v)"
    by (simp add: counting_state_def session.transactional_axioms)
  from sql_endpoint_only_reads [OF this _ run] have "ss_committed d' = 41"
    by (simp add: counting_db_def counting_state_def)
  then show "ss_committed (snd (snd (sql_handler counting_state (counting_request ''secret'') (new_limiter 10, counting_db)))) = 41"
    by (simp add: run)
  show "fst (sql_handler counting_state (counting_request ''guess'') (new_limiter 10, counting_db)) =
      Inr (response_error 401 ''UNAUTHORIZED'' ''Invalid or missing Authorization header'')"
    by (simp add: sql_handler_def authorised_def counting_state_def counting_request_def strip_prefix_def starts_with_def)
qed

text \<open>
  The validation is needed: the same database, sent a text that the validation refuses, commits
  the change.
\<close>

lemma unchecked_text_commits:
  "ss_committed (snd (execute_sql R show (session_connection (\<lambda>_ w. Inr w) (\<lambda>_ w. Inr ([], w + 1)))
     \<lparr> vs_original = ''SELECT bump(c); COMMIT'', vs_sanitised = ''SELECT bump(c); COMMIT'', vs_table_names = [] \<rparr> None 0 counting_db)) = 42"
proof -
  have "commits ''SELECT bump(c); COMMIT''" by code_simp
  moreover have "\<not> commits (timeout_sql t)" for t using not_commits timeout_local by blast
  ultimately show ?thesis
    by (simp add: execute_sql_def session_connection_def ran_def counting_db_def Let_def)
qed

text \<open>A client may switch the time limit off: to the database, zero means no limit.\<close>

lemma zero_timeout_sent:
  "timeout_sql (or_else (Some 0) default_timeout_ms) =
     ''SET LOCAL statement_timeout = '' @ [quote_char] @ ''0ms'' @ [quote_char]"
  by code_simp

text \<open>A value of a type that has no branch of its own, such as a timestamp, is shown as null.\<close>

lemma other_types_null: "cell_to_json R ''TIMESTAMPTZ'' C_Other = JNull"
  by (simp add: cell_to_json_def)

end
