(* ===== verification/Cli.thy ===== *)
theory Cli
  imports Std_Strings
begin

text \<open>
  The command line (\<open>forge-index-cli\<close>): the manager of the child process
  (\<open>process.rs\<close>), the file watcher (\<open>watcher.rs\<close>) and the commands \<open>dev\<close>, \<open>start\<close> and
  \<open>migrate\<close>. The operating system is a set of running processes; the outcomes of builds,
  of starting a process and of the notifications are inputs of the model. The reload loop
  is shown never to lose track of a process it started.
\<close>

section \<open>Processes\<close>

record os_state =
  os_alive :: "nat set"
  os_next :: nat

definition os_ok :: "os_state \<Rightarrow> bool" where
  "os_ok s \<longleftrightarrow> (\<forall>p \<in> os_alive s. p < os_next s)"

text \<open>\<open>spawn\<close> gives a new process, or fails with the given error.\<close>

definition os_spawn :: "string option \<Rightarrow> os_state \<Rightarrow> (string + nat) \<times> os_state" where
  "os_spawn failure s =
     (case failure of
        Some e \<Rightarrow> (Inl e, s)
      | None \<Rightarrow> (Inr (os_next s), s\<lparr>os_alive := insert (os_next s) (os_alive s), os_next := os_next s + 1\<rparr>))"

definition os_kill :: "nat \<Rightarrow> os_state \<Rightarrow> os_state" where
  "os_kill p s = s\<lparr>os_alive := os_alive s - {p}\<rparr>"

record process_manager =
  pm_child :: "nat option"
  pm_binary_path :: string
  pm_env_vars :: "string \<rightharpoonup> string"

definition pm_new :: "string \<Rightarrow> (string \<rightharpoonup> string) \<Rightarrow> process_manager" where
  "pm_new binary_path env_vars = \<lparr> pm_child = None, pm_binary_path = binary_path, pm_env_vars = env_vars \<rparr>"

definition pm_start :: "string option \<Rightarrow> (process_manager \<times> os_state, string, unit) call" where
  "pm_start failure = (\<lambda>(pm, os).
     case os_spawn failure os of
       (Inl e, os) \<Rightarrow> (Inl (''Failed to start '' @ pm_binary_path pm @ '': '' @ e), (pm, os))
     | (Inr child, os) \<Rightarrow> (Inr (), (pm\<lparr>pm_child := Some child\<rparr>, os)))"

definition pm_kill :: "(process_manager \<times> os_state, string, unit) call" where
  "pm_kill = (\<lambda>(pm, os).
     case pm_child pm of
       Some child \<Rightarrow> (Inr (), (pm\<lparr>pm_child := None\<rparr>, os_kill child os))
     | None \<Rightarrow> (Inr (), (pm, os)))"

definition pm_restart :: "string option \<Rightarrow> (process_manager \<times> os_state, string, unit) call" where
  "pm_restart failure = seq pm_kill (\<lambda>_. pm_start failure)"

definition pm_is_running :: "process_manager \<times> os_state \<Rightarrow> bool" where
  "pm_is_running = (\<lambda>(pm, os). case pm_child pm of Some child \<Rightarrow> child \<in> os_alive os | None \<Rightarrow> False)"

text \<open>\<open>wait\<close> returns when the child has ended; \<open>status\<close> is what the system reports then.\<close>

definition pm_wait :: "(string + int option) \<Rightarrow> (process_manager \<times> os_state, string, int) call" where
  "pm_wait status = (\<lambda>(pm, os).
     case pm_child pm of
       Some child \<Rightarrow>
         (case status of
            Inl e \<Rightarrow> (Inl e, (pm, os))
          | Inr code \<Rightarrow> (Inr (case code of Some c \<Rightarrow> c | None \<Rightarrow> 1), (pm\<lparr>pm_child := None\<rparr>, os_kill child os)))
     | None \<Rightarrow> (Inr 0, (pm, os)))"

definition pm_drop :: "process_manager \<times> os_state \<Rightarrow> os_state" where
  "pm_drop s = snd (snd (pm_kill s))"

section \<open>Paths\<close>

fun split_on :: "char \<Rightarrow> string \<Rightarrow> string list" where
  "split_on sep [] = [[]]"
| "split_on sep (c # cs) =
     (if c = sep then [] # split_on sep cs
      else (case split_on sep cs of p # ps \<Rightarrow> (c # p) # ps | [] \<Rightarrow> [[c]]))"

text \<open>\<open>Path::file_name\<close> and \<open>file_stem\<close> on Unix: the last normal component.\<close>

definition file_name :: "string \<Rightarrow> string option" where
  "file_name path =
     (let parts = filter (\<lambda>p. p \<noteq> [] \<and> p \<noteq> ''.'') (split_on (CHR ''/'') path)
      in if parts = [] \<or> last parts = ''..'' then None else Some (last parts))"

definition file_stem :: "string \<Rightarrow> string option" where
  "file_stem path =
     map_option (\<lambda>name. case rsplit_once (CHR ''.'') name of
         Some (before, _) \<Rightarrow> if before = [] then name else before
       | None \<Rightarrow> name) (file_name path)"

section \<open>The file watcher\<close>

datatype event_kind = Any | AnyContinuous

record debounced_event =
  dv_path :: string
  dv_kind :: event_kind

text \<open>What the channel delivers; at the end of the list the sender is gone.\<close>

type_synonym notification = "string + debounced_event list"

definition should_ignore :: "string \<Rightarrow> bool" where
  "should_ignore path \<longleftrightarrow>
     contains_sub ''/target/'' path \<or> contains_sub ([CHR 0x5C] @ ''target'' @ [CHR 0x5C]) path \<or>
     ends_with ''.lock'' path \<or>
     (case file_name path of Some name \<Rightarrow> starts_with ''.'' name | None \<Rightarrow> False)"

definition is_change :: "debounced_event \<Rightarrow> bool" where
  "is_change e \<longleftrightarrow> dv_kind e = Any \<and> \<not> should_ignore (dv_path e)"

fun wait_for_change :: "notification list \<Rightarrow> string option \<times> notification list" where
  "wait_for_change [] = (None, [])"
| "wait_for_change (Inl e # rx) = (None, rx)"
| "wait_for_change (Inr evs # rx) =
     (case find is_change evs of
        Some e \<Rightarrow> (Some (dv_path e), rx)
      | None \<Rightarrow> wait_for_change rx)"

text \<open>\<open>try_recv\<close> on the pending notifications.\<close>

fun changed_paths :: "notification list \<Rightarrow> string list \<times> notification list" where
  "changed_paths (Inr evs # rx) =
     (let (paths, rest) = changed_paths rx in (map dv_path (filter is_change evs) @ paths, rest))"
| "changed_paths (Inl e # rx) = ([], rx)"
| "changed_paths [] = ([], [])"

section \<open>Finding the binary\<close>

text \<open>\<open>str::lines\<close>.\<close>

definition lines :: "string \<Rightarrow> string list" where
  "lines s =
     (let ps = split_on (CHR 10) s
      in map (\<lambda>l. if l \<noteq> [] \<and> last l = CHR 13 then butlast l else l) (butlast ps) @
         (if last ps = [] then [] else [last ps]))"

text \<open>The file \<open>Cargo.toml\<close>: absent, not readable, or its text.\<close>

type_synonym cargo_toml = "(string + string) option"

definition binary_name :: "string \<Rightarrow> string option" where
  "binary_name content =
     map_option (\<lambda>line. trim_matches (\<lambda>c. c = CHR 0x22) (trim (drop 7 line)))
       (find (starts_with ''name = '') (lines content))"

definition find_in :: "string \<Rightarrow> cargo_toml \<Rightarrow> string \<Rightarrow> string + string" where
  "find_in dir cargo entry =
     (let fallback = Inr (dir @ (case file_stem entry of Some s \<Rightarrow> s | None \<Rightarrow> ''forge-indexer''))
      in case cargo of
           Some (Inl e) \<Rightarrow> Inl e
         | Some (Inr content) \<Rightarrow> (case binary_name content of Some n \<Rightarrow> Inr (dir @ n) | None \<Rightarrow> fallback)
         | None \<Rightarrow> fallback)"

definition find_binary :: "cargo_toml \<Rightarrow> string \<Rightarrow> string + string" where
  "find_binary = find_in ''target/debug/''"

definition find_release_binary :: "cargo_toml \<Rightarrow> string \<Rightarrow> string + string" where
  "find_release_binary = find_in ''target/release/''"

section \<open>The reload loop\<close>

definition dev_env :: "16 word \<Rightarrow> string option \<Rightarrow> (string \<rightharpoonup> string)" where
  "dev_env port pg_schema =
     (let env = [''FORGE_ENV'' \<mapsto> ''dev'', ''FORGE_PORT'' \<mapsto> nat_str (unat port)]
      in case pg_schema of Some s \<Rightarrow> env(''FORGE_SCHEMA'' \<mapsto> s) | None \<Rightarrow> env)"

text \<open>
  What happens around the program: the outcome of the \<open>n\<close>-th build and of starting the process
  after it, whether the binary exists after the first build, and the notifications.
\<close>

record dev_world =
  dw_cargo :: cargo_toml
  dw_build :: "nat \<Rightarrow> bool"
  dw_spawn :: "nat \<Rightarrow> string option"
  dw_binary_exists :: bool
  dw_watch_error :: "string option"
  dw_events :: "notification list"

text \<open>The body of the loop: the old manager is dropped when the new one takes its place.\<close>

definition on_change :: "dev_world \<Rightarrow> nat \<Rightarrow> process_manager \<times> os_state \<Rightarrow> process_manager \<times> os_state" where
  "on_change W n s =
     (let s = snd (pm_kill s)
      in if dw_build W n then
           (let os = pm_drop s
            in snd (pm_start (dw_spawn W n) (pm_new (pm_binary_path (fst s)) (pm_env_vars (fst s)), os)))
         else s)"

lemma wait_shorter: "wait_for_change rx = (Some path, rx') \<Longrightarrow> length rx' < length rx"
  by (induction rx rule: wait_for_change.induct) (auto split: option.splits)

function dev_loop :: "dev_world \<Rightarrow> nat \<Rightarrow> notification list \<Rightarrow> process_manager \<times> os_state \<Rightarrow> process_manager \<times> os_state" where
  "dev_loop W n rx s =
     (case wait_for_change rx of
        (Some path, rx') \<Rightarrow> dev_loop W (Suc n) rx' (on_change W n s)
      | (None, rx') \<Rightarrow> s)"
  by pat_completeness auto
termination
  by (relation "measure (\<lambda>(W, n, rx, s). length rx)") (auto dest: wait_shorter [OF sym])

declare dev_loop.simps [simp del]

text \<open>The state in which the loop begins.\<close>

definition dev_start :: "dev_world \<Rightarrow> string \<Rightarrow> (string \<rightharpoonup> string) \<Rightarrow> os_state \<Rightarrow> process_manager \<times> os_state" where
  "dev_start W path env os =
     (let s = (pm_new path env, os) in if dw_binary_exists W then snd (pm_start (dw_spawn W 0) s) else s)"

definition dev_run :: "dev_world \<Rightarrow> string \<Rightarrow> 16 word \<Rightarrow> string option \<Rightarrow> os_state \<Rightarrow> (string + unit) \<times> os_state" where
  "dev_run W entry port pg_schema os =
     (case find_binary (dw_cargo W) entry of
        Inl e \<Rightarrow> (Inl e, os)
      | Inr binary_path \<Rightarrow>
          (let s = dev_start W binary_path (dev_env port pg_schema) os
           in case dw_watch_error W of
                Some e \<Rightarrow> (Inl e, pm_drop s)
              | None \<Rightarrow> (Inr (), pm_drop (snd (pm_kill (dev_loop W 1 (dw_events W) s))))))"

section \<open>Starting in production and migrating\<close>

datatype start_end = Start_Error string | Exit int

definition start_env :: "16 word \<Rightarrow> string option \<Rightarrow> (string \<rightharpoonup> string)" where
  "start_env port pg_schema =
     (let env = [''FORGE_ENV'' \<mapsto> ''prod'', ''FORGE_PORT'' \<mapsto> nat_str (unat port)]
      in case pg_schema of Some s \<Rightarrow> env(''FORGE_SCHEMA'' \<mapsto> s) | None \<Rightarrow> env)"

text \<open>\<open>build\<close> is the status of the release build, \<open>run\<close> the exit code of the program that is run.\<close>

definition start_run ::
  "(string + bool) \<Rightarrow> cargo_toml \<Rightarrow> (string \<Rightarrow> (string \<rightharpoonup> string) \<Rightarrow> string + int option)
   \<Rightarrow> string \<Rightarrow> 16 word \<Rightarrow> string option \<Rightarrow> start_end" where
  "start_run build cargo run entry port pg_schema =
     (case build of
        Inl e \<Rightarrow> Start_Error e
      | Inr False \<Rightarrow> Start_Error ''Release build failed''
      | Inr True \<Rightarrow>
          (case find_release_binary cargo entry of
             Inl e \<Rightarrow> Start_Error e
           | Inr path \<Rightarrow>
               (case run path (start_env port pg_schema) of
                  Inl e \<Rightarrow> Start_Error (''Failed to run '' @ path @ '': '' @ e)
                | Inr code \<Rightarrow> Exit (case code of Some c \<Rightarrow> c | None \<Rightarrow> 1))))"

text \<open>The statements that create the tables of the response cache.\<close>

definition MIGRATIONS :: "string list" where
  "MIGRATIONS = [
     ''CREATE SCHEMA IF NOT EXISTS ponder_sync'',
     join [CHR 10] [
       ''CREATE TABLE IF NOT EXISTS ponder_sync.logs ('',
       ''  chain_id        BIGINT      NOT NULL,'',
       ''  from_block      BIGINT      NOT NULL,'',
       ''  to_block        BIGINT      NOT NULL,'',
       ''  address         TEXT[]      NOT NULL,'',
       ''  topics          TEXT[]      NOT NULL,'',
       ''  log_index       INT         NOT NULL,'',
       ''  block_number    BIGINT      NOT NULL,'',
       ''  block_hash      TEXT        NOT NULL,'',
       ''  tx_hash         TEXT        NOT NULL,'',
       ''  tx_index        INT         NOT NULL,'',
       ''  log_address     TEXT        NOT NULL,'',
       ''  log_topics      TEXT[]      NOT NULL,'',
       ''  data            BYTEA       NOT NULL,'',
       ''  removed         BOOLEAN     NOT NULL DEFAULT false,'',
       ''  PRIMARY KEY (chain_id, block_number, log_index)'',
       '')''],
     join [CHR 10] [
       ''CREATE TABLE IF NOT EXISTS ponder_sync.blocks ('',
       ''  chain_id        BIGINT      NOT NULL,'',
       ''  block_number    BIGINT      NOT NULL,'',
       ''  block_hash      TEXT        NOT NULL,'',
       ''  parent_hash     TEXT        NOT NULL,'',
       ''  timestamp       BIGINT      NOT NULL,'',
       ''  miner           TEXT        NOT NULL,'',
       ''  gas_limit       BIGINT      NOT NULL,'',
       ''  gas_used        BIGINT      NOT NULL,'',
       ''  base_fee        NUMERIC,'',
       ''  raw             JSONB       NOT NULL,'',
       ''  PRIMARY KEY (chain_id, block_number)'',
       '')''],
     join [CHR 10] [
       ''CREATE TABLE IF NOT EXISTS ponder_sync.transactions ('',
       ''  chain_id        BIGINT      NOT NULL,'',
       ''  tx_hash         TEXT        NOT NULL,'',
       ''  block_number    BIGINT      NOT NULL,'',
       ''  raw             JSONB       NOT NULL,'',
       ''  PRIMARY KEY (chain_id, tx_hash)'',
       '')''],
     join [CHR 10] [
       ''CREATE TABLE IF NOT EXISTS ponder_sync.eth_calls ('',
       ''  chain_id        BIGINT      NOT NULL,'',
       ''  call_key        TEXT        NOT NULL,'',
       ''  result          BYTEA       NOT NULL,'',
       ''  block_number    BIGINT      NOT NULL,'',
       ''  PRIMARY KEY (chain_id, call_key)'',
       '')''],
     join [CHR 10] [
       ''CREATE TABLE IF NOT EXISTS ponder_sync.checkpoints ('',
       ''  chain_id              BIGINT  NOT NULL,'',
       ''  contract_address      TEXT    NOT NULL,'',
       ''  last_indexed_block    BIGINT  NOT NULL,'',
       ''  PRIMARY KEY (chain_id, contract_address)'',
       '')''],
     join [CHR 10] [
       ''CREATE INDEX IF NOT EXISTS idx_logs_chain_block'',
       ''  ON ponder_sync.logs (chain_id, block_number)'']]"

definition store_setup :: "(string \<Rightarrow> ('d, 'e, unit) call) \<Rightarrow> ('d, 'e, unit) call" where
  "store_setup execute = for_each execute MIGRATIONS"

definition migrate_url :: "string option \<Rightarrow> string option \<Rightarrow> string option" where
  "migrate_url database_url env_url = (case database_url of Some u \<Rightarrow> Some u | None \<Rightarrow> env_url)"

definition migrate_run ::
  "(string \<Rightarrow> string + 'pool) \<Rightarrow> ('pool \<Rightarrow> string \<Rightarrow> ('d, string, unit) call) \<Rightarrow> string option \<Rightarrow> string option
   \<Rightarrow> ('d, string, unit) call" where
  "migrate_run connect execute env_url database_url =
     (case migrate_url database_url env_url of
        None \<Rightarrow> throw ''No database URL provided. Use --database-url or set DATABASE_URL env var.''
      | Some url \<Rightarrow> (case connect url of Inl e \<Rightarrow> throw e | Inr pool \<Rightarrow> store_setup (execute pool)))"

section \<open>No process is lost\<close>

text \<open>
  The states of the reload loop: changes arrive one after another, and the child may end at
  any time by itself. The number counts the builds.
\<close>

inductive dev_reachable :: "dev_world \<Rightarrow> process_manager \<times> os_state \<Rightarrow> nat \<Rightarrow> process_manager \<times> os_state \<Rightarrow> bool"
  for W s0 where
  started: "dev_reachable W s0 1 s0"
| change: "dev_reachable W s0 n s \<Longrightarrow> dev_reachable W s0 (Suc n) (on_change W n s)"
| child_exits: "dev_reachable W s0 n (pm, os) \<Longrightarrow> pm_child pm = Some p \<Longrightarrow> dev_reachable W s0 n (pm, os_kill p os)"

text \<open>Of the processes that run, only the child of the manager was started here.\<close>

definition tracked :: "nat set \<Rightarrow> process_manager \<times> os_state \<Rightarrow> bool" where
  "tracked base = (\<lambda>(pm, os).
     base \<subseteq> os_alive os \<and> os_alive os \<subseteq> base \<union> set_option (pm_child pm) \<and>
     set_option (pm_child pm) \<inter> base = {} \<and> (\<forall>p \<in> base \<union> os_alive os. p < os_next os))"

lemma tracked_new: "os_ok os \<Longrightarrow> tracked (os_alive os) (pm_new path env, os)"
  by (auto simp: tracked_def pm_new_def os_ok_def)

lemma tracked_start: "tracked base (pm, os) \<Longrightarrow> pm_child pm = None \<Longrightarrow> tracked base (snd (pm_start failure (pm, os)))"
  by (auto simp: tracked_def pm_start_def os_spawn_def less_Suc_eq split: option.splits)

lemma tracked_exit: "tracked base (pm, os) \<Longrightarrow> pm_child pm = Some p \<Longrightarrow> tracked base (pm, os_kill p os)"
  by (auto simp: tracked_def os_kill_def)

lemma killed:
  assumes "tracked base s" and "snd (pm_kill s) = s'"
  shows "tracked base s' \<and> pm_child (fst s') = None \<and> os_alive (snd s') = base"
  using assms by (cases s) (auto simp: tracked_def pm_kill_def os_kill_def split: option.splits)

lemma dropped: "tracked base s \<Longrightarrow> os_alive (pm_drop s) = base"
  using killed by (auto simp: pm_drop_def)

lemma on_change_tracked:
  assumes "tracked base s"
  shows "tracked base (on_change W n s) \<and> (\<not> dw_build W n \<longrightarrow> os_alive (snd (on_change W n s)) = base)"
proof -
  obtain pm os where k: "snd (pm_kill s) = (pm, os)" by (cases "snd (pm_kill s)")
  have t: "tracked base (pm, os)" "pm_child pm = None" "os_alive os = base" using killed [OF assms k] by auto
  have "pm_drop (pm, os) = os" using t(2) by (simp add: pm_drop_def pm_kill_def)
  moreover have "tracked base (pm_new (pm_binary_path pm) (pm_env_vars pm), os)"
    using t by (auto simp: tracked_def pm_new_def)
  ultimately show ?thesis
    using t tracked_start [of base "pm_new (pm_binary_path pm) (pm_env_vars pm)" os]
    by (simp add: on_change_def k Let_def pm_new_def)
qed

lemma reachable_tracked:
  assumes "dev_reachable W s0 n s" and "tracked base s0"
  shows "tracked base s \<and> (1 < n \<and> \<not> dw_build W (n - 1) \<longrightarrow> os_alive (snd s) = base)"
  using assms
proof (induction rule: dev_reachable.induct)
  case started
  then show ?case by simp
next
  case (change n s)
  then show ?case using on_change_tracked [of base s W n] by simp
next
  case (child_exits n pm os p)
  then have "tracked base (pm, os)" by simp
  then show ?case
    using child_exits tracked_exit [of base pm os p] by (auto simp: tracked_def os_kill_def)
qed

lemma dev_loop_reachable: "dev_reachable W s0 n s \<Longrightarrow> \<exists>m. dev_reachable W s0 m (dev_loop W n rx s)"
proof (induction W n rx s rule: dev_loop.induct)
  case (1 W n rx s)
  have "dev_reachable W s0 (Suc n) (on_change W n s)" using 1(2) by (rule dev_reachable.change)
  then show ?case using 1 by (subst dev_loop.simps) (auto split: prod.splits option.splits)
qed

text \<open>A reload that builds and starts leaves a running process.\<close>

lemma reload_runs: "dw_build W n \<Longrightarrow> dw_spawn W n = None \<Longrightarrow> pm_is_running (on_change W n s)"
  by (auto simp: on_change_def pm_start_def os_spawn_def pm_is_running_def Let_def split: prod.splits)

lemma dev_start_tracked: "os_ok os \<Longrightarrow> tracked (os_alive os) (dev_start W path env os)"
  using tracked_start [OF tracked_new, of os path env "dw_spawn W 0"] tracked_new [of os path env]
  by (simp add: dev_start_def pm_new_def Let_def)


text \<open>A session with a change that builds, one that is ignored and one that does not build.\<close>

definition demo_dev_world :: dev_world where
  "demo_dev_world = \<lparr> dw_cargo = None, dw_build = (\<lambda>n. n < 2), dw_spawn = (\<lambda>_. None), dw_binary_exists = True,
     dw_watch_error = None,
     dw_events = map (\<lambda>p. Inr [\<lparr> dv_path = p, dv_kind = Any \<rparr>]) [''src/main.rs'', ''src/.swp'', ''src/lib.rs''] \<rparr>"


section \<open>Weak points\<close>

text \<open>
  \<open>start\<close> on a manager that has a child replaces it without killing it: the first process
  runs on and nothing refers to it any more. (The reload loop always kills first.)
\<close>

lemma start_twice_leaks:
  assumes "pm_child pm = Some p" and "p \<in> os_alive os" and "os_ok os"
    and "pm_start None (pm, os) = (r, pm', os')"
  shows "p \<in> os_alive os' \<and> pm_child pm' \<noteq> Some p"
  using assms by (auto simp: pm_start_def os_spawn_def os_ok_def)

text \<open>
  The first process is started whenever the binary exists, although the comment says that it
  is started if the build was successful: after a failed build the old binary runs.
\<close>

lemma stale_binary_started:
  assumes "dw_binary_exists W" and "dw_spawn W 0 = None"
  shows "pm_is_running (dev_start W path env os)"
  using assms by (simp add: dev_start_def Let_def pm_start_def os_spawn_def pm_is_running_def pm_new_def)

text \<open>
  Every change that is reported is of a path that is not ignored, and no notification about
  such a path is skipped.
\<close>

lemma wait_for_change_first:
  "wait_for_change rx = (Some path, rx') \<longleftrightarrow>
     (\<exists>ignored evs e. rx = map Inr ignored @ Inr evs # rx' \<and> (\<forall>es \<in> set ignored. \<forall>e \<in> set es. \<not> is_change e) \<and>
        find is_change evs = Some e \<and> dv_path e = path)"
proof (induction rx rule: wait_for_change.induct)
  case 1
  then show ?case by simp
next
  case (2 e rx)
  then show ?case by (auto simp: Cons_eq_append_conv Cons_eq_map_conv)
next
  case (3 evs rx)
  show ?case
  proof (cases "find is_change evs")
    case None
    then have none: "\<forall>e \<in> set evs. \<not> is_change e" by (simp add: find_None_iff)
    have "wait_for_change (Inr evs # rx) = (Some path, rx') \<longleftrightarrow> wait_for_change rx = (Some path, rx')"
      using None by simp
    also have "\<dots> \<longleftrightarrow> (\<exists>ignored evs' e. Inr evs # rx = map Inr (evs # ignored) @ Inr evs' # rx' \<and>
        (\<forall>es \<in> set (evs # ignored). \<forall>e \<in> set es. \<not> is_change e) \<and> find is_change evs' = Some e \<and> dv_path e = path)"
      using 3 [OF None] none by simp
    also have "\<dots> \<longleftrightarrow> (\<exists>ignored evs' e. Inr evs # rx = map Inr ignored @ Inr evs' # rx' \<and>
        (\<forall>es \<in> set ignored. \<forall>e \<in> set es. \<not> is_change e) \<and> find is_change evs' = Some e \<and> dv_path e = path)"
      using None by (auto simp: Cons_eq_append_conv Cons_eq_map_conv)
    finally show ?thesis .
  next
    case (Some e)
    then have "\<exists>e \<in> set evs. is_change e" by (metis find_Some_iff nth_mem)
    with Some show ?thesis by (auto simp: Cons_eq_append_conv)
  qed
qed

section \<open>Migrations\<close>

text \<open>
  Every migration is conditional on the object not existing, so that on a database that
  skips such statements when the object exists, migrating again changes nothing.
\<close>

lemma migrations_conditional: "list_all (contains_sub '' IF NOT EXISTS ponder_sync'') (butlast MIGRATIONS)"
  "contains_sub '' IF NOT EXISTS '' (last MIGRATIONS)"
  by (simp_all add: MIGRATIONS_def contains_sub_def starts_with_def)

text \<open>
  An abstract database: the objects that exist, of which each statement creates one unless it
  is there; and a migration that was done once can be done again, with the same result.
\<close>

definition create_missing :: "(string \<Rightarrow> 'o) \<Rightarrow> string \<Rightarrow> ('o set, 'e, unit) call" where
  "create_missing object stmt objs = (Inr (), insert (object stmt) objs)"

lemma store_setup_objects: "store_setup (create_missing object) objs = (Inr (), object ` set MIGRATIONS \<union> objs)"
proof -
  have "for_each (create_missing object) stmts objs = (Inr (), object ` set stmts \<union> objs)" for stmts objs
    by (induction stmts arbitrary: objs) (auto simp: ret_def seq_def create_missing_def)
  then show ?thesis by (simp add: store_setup_def)
qed

lemma store_setup_idempotent:
  "seq (store_setup (create_missing object)) (\<lambda>_. store_setup (create_missing object)) objs =
     store_setup (create_missing object) objs"
  by (simp add: seq_def store_setup_objects Un_assoc [symmetric])

text \<open>An address given on the command line wins over the environment; without both nothing is done.\<close>

lemma migrate_url_choice:
  "migrate_run connect execute env_url (Some url) = migrate_run connect execute other (Some url)"
  "migrate_run connect execute None None d =
     (Inl ''No database URL provided. Use --database-url or set DATABASE_URL env var.'', d)"
  by (simp_all add: migrate_run_def migrate_url_def throw_def)

end
