(* ===== verification/Telemetry.thy ===== *)
theory Telemetry
  imports Rate_Limiter
begin

text \<open>
  The metrics of the indexer (\<open>forge-index-telemetry/src/metrics.rs\<close>, the helpers of
  \<open>forge-index-api/src/handlers/metrics.rs\<close>) and the choice of the log output
  (\<open>logging.rs\<close>). The recorder is a state with counters, gauges and histograms by name and
  labels; numbers of type \<open>f64\<close> are real numbers, with the rounding of casts an argument.
\<close>

type_synonym metric = "string \<times> (string \<times> string) list"

record recorder =
  m_counters :: "metric \<Rightarrow> nat"
  m_gauges :: "metric \<rightharpoonup> real"
  m_histograms :: "metric \<Rightarrow> real list"

definition increment :: "metric \<Rightarrow> recorder \<Rightarrow> recorder" where
  "increment k m = m\<lparr>m_counters := (m_counters m)(k := m_counters m k + 1)\<rparr>"

definition set_gauge :: "metric \<Rightarrow> real \<Rightarrow> recorder \<Rightarrow> recorder" where
  "set_gauge k v m = m\<lparr>m_gauges := (m_gauges m)(k \<mapsto> v)\<rparr>"

definition observe :: "metric \<Rightarrow> real \<Rightarrow> recorder \<Rightarrow> recorder" where
  "observe k v m = m\<lparr>m_histograms := (m_histograms m)(k := m_histograms m k @ [v])\<rparr>"

definition chain_label :: "u64 \<Rightarrow> string \<times> string" where
  "chain_label chain_id = (''chain_id'', nat_str (unat chain_id))"

section \<open>The helpers of the telemetry crate\<close>

definition record_block_processed :: "u64 \<Rightarrow> recorder \<Rightarrow> recorder" where
  "record_block_processed chain_id = increment (''forge_blocks_processed_total'', [chain_label chain_id])"

definition record_event_indexed :: "u64 \<Rightarrow> string \<Rightarrow> string \<Rightarrow> recorder \<Rightarrow> recorder" where
  "record_event_indexed chain_id contract event =
     increment (''forge_events_indexed_total'', [chain_label chain_id, (''contract'', contract), (''event'', event)])"

definition record_rpc_request :: "rounding \<Rightarrow> u64 \<Rightarrow> string \<Rightarrow> bool \<Rightarrow> nat \<Rightarrow> recorder \<Rightarrow> recorder" where
  "record_rpc_request rnd chain_id method success duration m =
     (let status = (if success then ''success'' else ''error'');
          m = increment (''forge_rpc_requests_total'', [chain_label chain_id, (''method'', method), (''status'', status)]) m
      in observe (''forge_rpc_request_duration_seconds'', [chain_label chain_id, (''method'', method)])
           (as_secs_f64 rnd duration) m)"

definition set_indexer_lag :: "rounding \<Rightarrow> u64 \<Rightarrow> u64 \<Rightarrow> recorder \<Rightarrow> recorder" where
  "set_indexer_lag rnd chain_id lag_blocks =
     set_gauge (''forge_indexer_lag_blocks'', [chain_label chain_id]) (rnd (real (unat lag_blocks)))"

definition set_buffer_size :: "rounding \<Rightarrow> string \<Rightarrow> nat \<Rightarrow> recorder \<Rightarrow> recorder" where
  "set_buffer_size rnd table n = set_gauge (''forge_write_buffer_size'', [(''table'', table)]) (rnd (real n))"

definition record_db_flush :: "rounding \<Rightarrow> nat \<Rightarrow> recorder \<Rightarrow> recorder" where
  "record_db_flush rnd duration = observe (''forge_db_flush_duration_seconds'', []) (as_secs_f64 rnd duration)"

definition set_backfill_progress :: "u64 \<Rightarrow> real \<Rightarrow> recorder \<Rightarrow> recorder" where
  "set_backfill_progress chain_id progress = set_gauge (''forge_backfill_progress'', [chain_label chain_id]) progress"

definition http_labels :: "string \<Rightarrow> string \<Rightarrow> nat \<Rightarrow> (string \<times> string) list" where
  "http_labels method path status = [(''method'', method), (''path'', path), (''status'', nat_str status)]"

definition record_http_request :: "rounding \<Rightarrow> string \<Rightarrow> string \<Rightarrow> nat \<Rightarrow> nat \<Rightarrow> recorder \<Rightarrow> recorder" where
  "record_http_request rnd method path status duration =
     observe (''forge_http_request_duration_seconds'', http_labels method path status) (as_secs_f64 rnd duration)"

section \<open>The helpers of the API crate\<close>

definition api_record_rpc_request :: "u64 \<Rightarrow> string \<Rightarrow> bool \<Rightarrow> recorder \<Rightarrow> recorder" where
  "api_record_rpc_request chain_id method success =
     increment (''forge_rpc_requests_total'', [chain_label chain_id, (''method'', method),
       (''status'', if success then ''success'' else ''error'')])"

definition api_record_rpc_duration :: "u64 \<Rightarrow> string \<Rightarrow> real \<Rightarrow> recorder \<Rightarrow> recorder" where
  "api_record_rpc_duration chain_id method duration_secs =
     observe (''forge_rpc_request_duration_seconds'', [chain_label chain_id, (''method'', method)]) duration_secs"

definition update_lag :: "rounding \<Rightarrow> u64 \<Rightarrow> u64 \<Rightarrow> recorder \<Rightarrow> recorder" where
  "update_lag rnd chain_id lag = set_gauge (''forge_indexer_lag_blocks'', [chain_label chain_id]) (rnd (real (unat lag)))"

definition update_buffer_size :: "rounding \<Rightarrow> string \<Rightarrow> u64 \<Rightarrow> recorder \<Rightarrow> recorder" where
  "update_buffer_size rnd table n =
     set_gauge (''forge_write_buffer_size'', [(''table'', table)]) (rnd (real (unat n)))"

definition record_flush_duration :: "real \<Rightarrow> recorder \<Rightarrow> recorder" where
  "record_flush_duration duration_secs = observe (''forge_db_flush_duration_seconds'', []) duration_secs"

definition update_backfill_progress :: "u64 \<Rightarrow> real \<Rightarrow> recorder \<Rightarrow> recorder" where
  "update_backfill_progress chain_id progress = set_gauge (''forge_backfill_progress'', [chain_label chain_id]) progress"

definition api_record_http_request :: "string \<Rightarrow> string \<Rightarrow> nat \<Rightarrow> real \<Rightarrow> recorder \<Rightarrow> recorder" where
  "api_record_http_request method path status duration_secs =
     observe (''forge_http_request_duration_seconds'', http_labels method path status) duration_secs"

text \<open>
  The two crates write the same metrics: a request recorded by one helper of the telemetry
  crate is one recorded by the two helpers of the API crate, and the gauges agree.
\<close>

lemma helpers_agree:
  "record_rpc_request rnd c method ok d =
     api_record_rpc_duration c method (as_secs_f64 rnd d) \<circ> api_record_rpc_request c method ok"
  "set_indexer_lag rnd c lag = update_lag rnd c lag"
  "set_buffer_size rnd table (unat n) = update_buffer_size rnd table n"
  "record_db_flush rnd d = record_flush_duration (as_secs_f64 rnd d)"
  "record_http_request rnd method path status d = api_record_http_request method path status (as_secs_f64 rnd d)"
  by (auto simp: record_rpc_request_def api_record_rpc_request_def api_record_rpc_duration_def set_indexer_lag_def
      update_lag_def set_buffer_size_def update_buffer_size_def record_db_flush_def record_flush_duration_def
      record_http_request_def api_record_http_request_def Let_def)

text \<open>Labels tell chains apart: a block of one chain never counts for another.\<close>

lemma block_counter:
  "m_counters (record_block_processed c m) (''forge_blocks_processed_total'', [chain_label c']) =
     m_counters m (''forge_blocks_processed_total'', [chain_label c']) + (if c = c' then 1 else 0)"
proof -
  have "nat_str (unat c) = nat_str (unat c') \<longleftrightarrow> c = c'" by (metis digits_val_nat_str unsigned_word_eqI)
  then show ?thesis by (auto simp: record_block_processed_def increment_def chain_label_def)
qed

lemma blocks_counted:
  "m_counters ((record_block_processed c ^^ n) m) (''forge_blocks_processed_total'', [chain_label c']) =
     m_counters m (''forge_blocks_processed_total'', [chain_label c']) + (if c = c' then n else 0)"
  by (induction n) (simp_all add: block_counter)

section \<open>Log output\<close>

datatype log_mode = Dev | Prod

definition log_mode_of :: "(string \<rightharpoonup> string) \<Rightarrow> log_mode" where
  "log_mode_of env =
     (case env ''FORGE_ENV'' of Some v \<Rightarrow> if v = ''prod'' \<or> v = ''production'' then Prod else Dev | None \<Rightarrow> Dev)"

text \<open>The filter; \<open>valid\<close> tells whether the library accepts a text.\<close>

definition log_filter_text :: "(string \<Rightarrow> bool) \<Rightarrow> (string \<rightharpoonup> string) \<Rightarrow> string \<Rightarrow> string" where
  "log_filter_text valid env level =
     (let suffix = '',h2=warn,hyper=warn,tower_http=warn'';
          wanted = (case env ''FORGE_LOG_LEVEL'' of Some l \<Rightarrow> l | None \<Rightarrow> level) @ suffix
      in if valid wanted then wanted else ''info'' @ suffix)"

end
