(* ===== verification/Api_Server.thy ===== *)
theory Api_Server
  imports Sql_Api App Cli Telemetry
begin

text \<open>
  The HTTP server (\<open>forge-index-api/src/server.rs\<close>, \<open>handlers/health.rs\<close>, \<open>ready.rs\<close>,
  \<open>metrics.rs\<close>, \<open>schema_info.rs\<close>, \<open>graphql/handler.rs\<close>, \<open>response.rs\<close>): its routes and
  handlers on top of the SQL endpoint and the GraphQL schema, composed with the runner, which
  signals readiness, and the command line, which sets the environment.
\<close>

section \<open>Requests and responses\<close>

datatype http_method = GET | HEAD | POST | OTHER_METHOD

datatype http_body = B_Json json | B_Text string string | B_Html | B_Empty

record http_response =
  hr_status :: nat
  hr_retry_after :: "string option"
  hr_body :: http_body

definition json_response :: "nat \<Rightarrow> json \<Rightarrow> http_response" where
  "json_response status j = \<lparr> hr_status = status, hr_retry_after = None, hr_body = B_Json j \<rparr>"

text \<open>The envelope: fields that are absent are not written.\<close>

definition api_json :: "api_response \<Rightarrow> json" where
  "api_json r = JObject
     ((case rs_data r of Some d \<Rightarrow> [(''data'', d)] | None \<Rightarrow> []) @
      (case rs_meta r of Some m \<Rightarrow> [(''meta'', m)] | None \<Rightarrow> []) @
      (case rs_error r of
         Some (code, message) \<Rightarrow> [(''error'', JObject [(''code'', JString code), (''message'', JString message)])]
       | None \<Rightarrow> []))"

definition into_response :: "api_response \<Rightarrow> http_response" where
  "into_response r = \<lparr> hr_status = rs_status r, hr_retry_after = rs_retry_after r, hr_body = B_Json (api_json r) \<rparr>"

section \<open>Small handlers\<close>

definition health :: "u64 \<Rightarrow> http_response" where
  "health timestamp = json_response 200
     (JObject [(''status'', JString ''ok''), (''timestamp'', JNumber (PosInt timestamp))])"

definition ready :: "bool \<Rightarrow> http_response" where
  "ready is_ready =
     (if is_ready then json_response 200 (JObject [(''status'', JString ''ready'')])
      else json_response 503 (JObject [(''status'', JString ''syncing''),
             (''message'', JString ''Historical backfill in progress'')]))"

definition metrics_handler :: "string \<Rightarrow> http_response" where
  "metrics_handler rendered =
     \<lparr> hr_status = 200, hr_retry_after = None, hr_body = B_Text ''text/plain; charset=utf-8'' rendered \<rparr>"

section \<open>The schema endpoint\<close>

text \<open>
  The answers of the catalogue to the three queries: the tables of a schema without the
  internal ones, the columns of a table, and its estimated number of rows as the code casts it.
\<close>

record column_info =
  ci_column_name :: string
  ci_data_type :: string
  ci_is_nullable :: string
  ci_is_pk :: bool

record 'd catalogue =
  ct_tables :: "string \<Rightarrow> ('d, sqlx_error, string list) call"
  ct_columns :: "string \<Rightarrow> string \<Rightarrow> ('d, sqlx_error, column_info list) call"
  ct_row_count :: "string \<Rightarrow> string \<Rightarrow> ('d, sqlx_error, u64 option) call"

definition column_json :: "column_info \<Rightarrow> json" where
  "column_json c = JObject [(''name'', JString (ci_column_name c)), (''nullable'', JBool (ci_is_nullable c = ''YES'')),
     (''primary_key'', JBool (ci_is_pk c)), (''type'', JString (ci_data_type c))]"

definition i64_number :: "u64 \<Rightarrow> json_number" where
  "i64_number n = (if 0 \<le> sint n then PosInt n else NegInt n)"

definition table_json :: "string \<Rightarrow> column_info list \<Rightarrow> u64 \<Rightarrow> json" where
  "table_json name columns rows = JObject [(''columns'', JArray (map column_json columns)),
     (''name'', JString name), (''row_count'', JNumber (i64_number rows))]"

fun fetch_tables :: "'d catalogue \<Rightarrow> string \<Rightarrow> string list \<Rightarrow> ('d, sqlx_error, json list) call" where
  "fetch_tables K pg_schema [] = ret []"
| "fetch_tables K pg_schema (t # ts) =
     seq (ct_columns K pg_schema t) (\<lambda>columns.
     seq (ct_row_count K pg_schema t) (\<lambda>row_count.
     seq (fetch_tables K pg_schema ts) (\<lambda>tables.
       ret (table_json t columns (or_else row_count 0) # tables))))"

definition fetch_schema_info :: "'d catalogue \<Rightarrow> string \<Rightarrow> ('d, sqlx_error, json list) call" where
  "fetch_schema_info K pg_schema = seq (ct_tables K pg_schema) (fetch_tables K pg_schema)"

definition schema_info_handler :: "'d catalogue \<Rightarrow> (sqlx_error \<Rightarrow> string) \<Rightarrow> string \<Rightarrow> 'd \<Rightarrow> http_response \<times> 'd" where
  "schema_info_handler K show pg_schema d =
     (case fetch_schema_info K pg_schema d of
        (Inr tables, d) \<Rightarrow> (into_response (response_ok (JObject [(''tables'', JArray tables)])), d)
      | (Inl e, d) \<Rightarrow> (into_response (response_error 500 ''DATABASE_ERROR'' (show e)), d))"

section \<open>The GraphQL endpoint\<close>

record gql_request =
  gr_query :: string
  gr_variables :: "(string \<times> json) list option"
  gr_operation_name :: "string option"

record gql_response =
  gp_errors :: bool
  gp_json :: json

definition gql_request_of :: "json \<Rightarrow> gql_request" where
  "gql_request_of request = \<lparr>
     gr_query = (case Option.bind (json_get ''query'' request) as_str of Some q \<Rightarrow> q | None \<Rightarrow> []),
     gr_variables = (case json_get ''variables'' request of Some (JObject vars) \<Rightarrow> Some vars | _ \<Rightarrow> None),
     gr_operation_name = Option.bind (json_get ''operationName'' request) as_str \<rparr>"

definition graphql_handler :: "(gql_request \<Rightarrow> 'd \<Rightarrow> gql_response \<times> 'd) \<Rightarrow> json \<Rightarrow> 'd \<Rightarrow> http_response \<times> 'd" where
  "graphql_handler execute request d =
     (case execute (gql_request_of request) d of (response, d) \<Rightarrow>
        (json_response (if gp_errors response then 400 else 200) (gp_json response), d))"

section \<open>The server\<close>

text \<open>What a pool gives access to: a connection for queries, the catalogue, and the GraphQL engine.\<close>

record ('ip, 'd, 's) db_pool =
  pl_sql :: "('ip, 'd) sql_state"
  pl_catalogue :: "'d catalogue"
  pl_finish :: "registered list \<Rightarrow> query_field list \<Rightarrow> string + 's"
  pl_execute :: "'s \<Rightarrow> gql_request \<Rightarrow> 'd \<Rightarrow> gql_response \<times> 'd"

record ('ip, 'd, 's) api_server =
  sv_port :: "16 word"
  sv_db_pool :: "('ip, 'd, 's) db_pool option"
  sv_pg_schema :: string
  sv_data_schema :: "schema option"

definition new_server :: "16 word \<Rightarrow> ('ip, 'd, 's) api_server" where
  "new_server port = \<lparr> sv_port = port, sv_db_pool = None, sv_pg_schema = ''public'', sv_data_schema = None \<rparr>"

definition with_db ::
  "('ip, 'd, 's) db_pool \<Rightarrow> string \<Rightarrow> ('ip, 'd, 's) api_server \<Rightarrow> ('ip, 'd, 's) api_server" where
  "with_db pool pg_schema S = S\<lparr>sv_db_pool := Some pool, sv_pg_schema := pg_schema\<rparr>"

definition with_schema :: "schema \<Rightarrow> ('ip, 'd, 's) api_server \<Rightarrow> ('ip, 'd, 's) api_server" where
  "with_schema s S = S\<lparr>sv_data_schema := Some s\<rparr>"

datatype ('ip, 'd, 's) endpoint =
    E_Health
  | E_Ready
  | E_Metrics
  | E_Sql "('ip, 'd) sql_state"
  | E_Schema "'d catalogue" "sqlx_error \<Rightarrow> string" string
  | E_Playground
  | E_Graphql "gql_request \<Rightarrow> 'd \<Rightarrow> gql_response \<times> 'd"

type_synonym ('ip, 'd, 's) router = "((string \<times> http_method) \<times> ('ip, 'd, 's) endpoint) list"

definition is_prod :: "(string \<rightharpoonup> string) \<Rightarrow> bool" where
  "is_prod env \<longleftrightarrow> env ''FORGE_ENV'' = Some ''prod''"

definition db_routes :: "(string \<rightharpoonup> string) \<Rightarrow> ('ip, 'd, 's) db_pool \<Rightarrow> string \<Rightarrow> ('ip, 'd, 's) router" where
  "db_routes env pool pg_schema =
     [((''/sql'', POST), E_Sql ((pl_sql pool)\<lparr>st_pg_schema := pg_schema, st_api_key := env ''FORGE_API_KEY'',
        st_prod_mode := is_prod env\<rparr>)),
      ((''/schema'', GET), E_Schema (pl_catalogue pool) (st_show (pl_sql pool)) pg_schema)]"

definition graphql_routes :: "('ip, 'd, 's) db_pool \<Rightarrow> schema option \<Rightarrow> ('ip, 'd, 's) router" where
  "graphql_routes pool data_schema =
     (case data_schema of
        None \<Rightarrow> []
      | Some s \<Rightarrow>
          (case build_schema (pl_finish pool) s of
             Inl e \<Rightarrow> []
           | Inr g \<Rightarrow> [((''/graphql'', GET), E_Playground), ((''/graphql'', POST), E_Graphql (pl_execute pool g))]))"

definition router :: "(string \<rightharpoonup> string) \<Rightarrow> ('ip, 'd, 's) api_server \<Rightarrow> ('ip, 'd, 's) router" where
  "router env S =
     [((''/health'', GET), E_Health), ((''/ready'', GET), E_Ready), ((''/metrics'', GET), E_Metrics)] @
     (case sv_db_pool S of
        None \<Rightarrow> []
      | Some pool \<Rightarrow> db_routes env pool (sv_pg_schema S) @ graphql_routes pool (sv_data_schema S))"

text \<open>
  A request, with the clock, the rendered metrics, the state of the readiness signal and the
  results of the extractors of the framework; a body that an extractor refuses is answered by
  the framework.
\<close>

record 'ip http_request =
  rq_method :: http_method
  rq_path :: string
  rq_json :: "nat + json"
  rq_sql :: "nat + 'ip incoming"
  rq_clock :: u64
  rq_metrics :: string
  rq_ready :: bool

definition empty_response :: "nat \<Rightarrow> http_response" where
  "empty_response status = \<lparr> hr_status = status, hr_retry_after = None, hr_body = B_Empty \<rparr>"

fun run_endpoint ::
  "('ip, 'd, 's) endpoint \<Rightarrow> 'ip http_request \<Rightarrow> 'ip sql_rate_limiter \<times> 'd
   \<Rightarrow> (http_response, sql_error) result \<times> ('ip sql_rate_limiter \<times> 'd)" where
  "run_endpoint E_Health q st = (Inr (health (rq_clock q)), st)"
| "run_endpoint E_Ready q st = (Inr (ready (rq_ready q)), st)"
| "run_endpoint E_Metrics q st = (Inr (metrics_handler (rq_metrics q)), st)"
| "run_endpoint (E_Sql S) q st =
     (case rq_sql q of
        Inl status \<Rightarrow> (Inr (empty_response status), st)
      | Inr incoming \<Rightarrow>
          (case sql_handler S incoming st of (r, st) \<Rightarrow> (bind_res r (\<lambda>p. Inr (into_response p)), st)))"
| "run_endpoint (E_Schema K show pg_schema) q st =
     (case schema_info_handler K show pg_schema (snd st) of (r, d) \<Rightarrow> (Inr r, (fst st, d)))"
| "run_endpoint E_Playground q st = (Inr \<lparr> hr_status = 200, hr_retry_after = None, hr_body = B_Html \<rparr>, st)"
| "run_endpoint (E_Graphql execute) q st =
     (case rq_json q of
        Inl status \<Rightarrow> (Inr (empty_response status), st)
      | Inr request \<Rightarrow> (case graphql_handler execute request (snd st) of (r, d) \<Rightarrow> (Inr r, (fst st, d))))"

text \<open>The router of the framework: a route for \<open>GET\<close> answers \<open>HEAD\<close> too.\<close>

definition lookup_route :: "('ip, 'd, 's) router \<Rightarrow> string \<Rightarrow> http_method \<Rightarrow> ('ip, 'd, 's) endpoint option" where
  "lookup_route rs path m = map_of rs (path, if m = HEAD then GET else m)"

definition serve ::
  "('ip, 'd, 's) router \<Rightarrow> 'ip http_request \<Rightarrow> 'ip sql_rate_limiter \<times> 'd
   \<Rightarrow> (http_response, sql_error) result \<times> ('ip sql_rate_limiter \<times> 'd)" where
  "serve rs q st =
     (case lookup_route rs (rq_path q) (rq_method q) of
        Some e \<Rightarrow> run_endpoint e q st
      | None \<Rightarrow> (Inr (empty_response (if rq_path q \<in> fst ` fst ` set rs then 405 else 404)), st))"

text \<open>The port of the runner, and its server.\<close>

definition forge_port :: "(string \<rightharpoonup> string) \<Rightarrow> 16 word" where
  "forge_port env =
     (case Option.bind (env ''FORGE_PORT'') (parse_nat 16) of Some p \<Rightarrow> of_nat p | None \<Rightarrow> 42069)"

definition runner_server ::
  "(string \<rightharpoonup> string) \<Rightarrow> ('ip, 'd, 's) db_pool \<Rightarrow> string \<Rightarrow> schema \<Rightarrow> ('ip, 'd, 's) api_server" where
  "runner_server env pool pg_schema s = with_schema s (with_db pool pg_schema (new_server (forge_port env)))"

section \<open>Routes\<close>

lemma router_routes:
  "lookup_route (router env S) ''/ready'' GET = Some E_Ready"
  "lookup_route (router env S) ''/ready'' HEAD = Some E_Ready"
  "sv_db_pool S = Some pool \<Longrightarrow> lookup_route (router env S) ''/sql'' POST =
     Some (E_Sql ((pl_sql pool)\<lparr>st_pg_schema := sv_pg_schema S, st_api_key := env ''FORGE_API_KEY'',
        st_prod_mode := is_prod env\<rparr>))"
  by (simp_all add: lookup_route_def router_def db_routes_def)

text \<open>Without a pool the server has only the three routes that need none.\<close>

lemma routes_without_db:
  assumes "sv_db_pool S = None" and "rq_path q \<notin> {''/health'', ''/ready'', ''/metrics''}"
  shows "serve (router env S) q st = (Inr (empty_response 404), st)"
  using assms by (auto simp: serve_def router_def lookup_route_def)

text \<open>The GraphQL endpoint exists when there are a pool and a schema that can be built.\<close>

lemma graphql_route:
  "lookup_route (router env S) ''/graphql'' POST \<noteq> None \<longleftrightarrow>
     (\<exists>pool s g. sv_db_pool S = Some pool \<and> sv_data_schema S = Some s \<and> build_schema (pl_finish pool) s = Inr g)"
  by (cases "sv_db_pool S"; cases "sv_data_schema S")
    (auto simp: lookup_route_def router_def db_routes_def graphql_routes_def eq_commute [of "Inr _"] split: sum.splits)

section \<open>Readiness\<close>

text \<open>
  The moments of a run: before it, after the start-up, between two chains or where a chain
  failed, when the signal was sent, and after the run returned. While a chain is worked on,
  neither signal changes.
\<close>

inductive moment ::
  "('m, 'p, 'j, 'd) app_lib \<Rightarrow> 'd runner \<Rightarrow> ('m, 'p, 'j, 'd) app_state \<Rightarrow> ('m, 'p, 'j, 'd) app_state \<Rightarrow> bool"
  for A R s where
  before: "moment A R s s"
| started: "launch A R s = (x, t) \<Longrightarrow> moment A R s t"
| working: "launch A R s = (Inr (dm, clients, st), s1) \<Longrightarrow>
    backfill_chains A R clients st (take n (al_chain_order A (snd st))) s1 = Some (x, t) \<Longrightarrow> moment A R s t"
| waiting: "launch A R s = (Inr (dm, clients, st), s1) \<Longrightarrow>
    backfill_chains A R clients st (al_chain_order A (snd st)) s1 = Some (Inr (), t) \<Longrightarrow>
    moment A R s (t\<lparr>ap_ready := True\<rparr>)"
| over: "app_run A R s = Some (r, t) \<Longrightarrow> moment A R s t"

text \<open>
  A request at such a moment: it is answered only while the task of the server exists, whose
  port is taken to be bound, and the handler sees the ready signal of that moment.
\<close>

definition ask ::
  "(string \<rightharpoonup> string) \<Rightarrow> ('ip, 'c, 's) api_server \<Rightarrow> 'ip http_request \<Rightarrow> ('m, 'p, 'j, 'd) app_state
   \<Rightarrow> 'ip sql_rate_limiter \<times> 'c \<Rightarrow> ((http_response, sql_error) result \<times> ('ip sql_rate_limiter \<times> 'c)) option" where
  "ask env S q t st = (if ap_serving t then Some (serve (router env S) (q\<lparr>rq_ready := ap_ready t\<rparr>) st) else None)"

lemma moment_ready:
  assumes "lists_chains A" and "\<not> ap_ready s" and "\<not> ap_serving s" and "moment A R s t" and "ap_ready t"
  shows "backfill_complete A R s"
  using assms(4,5)
proof cases
  case before
  then show ?thesis using assms(2) \<open>ap_ready t\<close> by simp
next
  case (started x)
  have "ap_ready t = ap_ready s"
  proof (cases x)
    case (Inl e)
    then show ?thesis using started launch_fails(2) by blast
  next
    case (Inr b)
    then show ?thesis using started launch_wires(3) by (cases b) blast
  qed
  then show ?thesis using assms(2,5) by simp
next
  case (working dm clients st s1 n x)
  then show ?thesis using assms(2,5) launch_wires(3) backfill_chains_signals by metis
next
  case (waiting dm clients st s1 u)
  then show ?thesis using backfill_complete_iff [OF assms(1)] by blast
next
  case (over r)
  then show ?thesis using app_run_signals(1) [OF assms(1-3)] assms(5) by blast
qed

lemma ready_status: "hr_status (ready b) = (if b then 200 else 503)"
  by (simp add: ready_def json_response_def)

lemma ask_ready:
  assumes "rq_path q = ''/ready''" and "rq_method q \<in> {GET, HEAD}"
  shows "ask env S q t st = (if ap_serving t then Some (Inr (ready (ap_ready t)), st) else None)"
proof -
  have "lookup_route (router env S) (rq_path q) (rq_method q) = Some E_Ready"
    using assms router_routes(1,2) by auto
  then show ?thesis by (simp add: ask_def serve_def)
qed


text \<open>A run with one contract on one chain of seven blocks, on a database that accepts every statement.\<close>

definition quiet_meta :: "string option meta_server" where
  "quiet_meta = \<lparr> ms_execute = (\<lambda>_ m. (Inr (), m)), ms_execute_bind = (\<lambda>_ v _. (Inr (), Some v)),
     ms_fetch_one = (\<lambda>_ m. case m of Some v \<Rightarrow> MA_Found v | None \<Rightarrow> MA_RowNotFound), ms_unlock = (\<lambda>_ m. (Inr (), m)) \<rparr>"

definition quiet_env :: "(unit, alloy_log list) client_env" where
  "quiet_env = \<lparr> e_codec = ref_codec, e_sha256 = (\<lambda>b. b), e_fail = no_fail, e_provider = demo_provider, e_chain_id = 1,
     e_json_logs = \<lparr> to_json = Inr, of_json = Inr \<rparr>, e_json_block = no_json, e_json_alloy_tx = no_json,
     e_json_tx = no_json, e_json_null = [] \<rparr>"

definition quiet_app :: "(string option, unit, alloy_log list, unit) app_lib" where
  "quiet_app = \<lparr> al_wiring = demo_wiring quiet_env, al_manager = demo_manager_lib, al_meta = quiet_meta,
     al_connect = (\<lambda>_ _. Inr ()), al_cache_setup = ret (), al_show_db = (\<lambda>_. []), al_show_sync = (\<lambda>_. []),
     al_renderer = plain_renderer, al_exec = (\<lambda>_ d. (Inr (), d)), al_keys = (\<lambda>_. []), al_fail = no_fail,
     al_chain_order = (\<lambda>m. sorted_list_of_set (dom m)) \<rparr>"

definition quiet_config :: config where
  "quiet_config = cb_config (cb_set_database (db_postgres ''pg'')
     (cb_contract ''Token'' (\<lambda>k. k\<lparr>cc_chain_names := [''mainnet''], cc_start_block := 3\<rparr>)
       (cb_chain ''mainnet'' (\<lambda>ch. ch\<lparr>ch_chain_id := 1, ch_rpc_http := ''http://localhost'', ch_max_block_range := Some 8\<rparr>)
         new_config_builder)))"

definition quiet_runner :: "unit runner" where
  "quiet_runner = \<lparr> ru_config = quiet_config, ru_schema = \<lparr> sch_tables = [] \<rparr>, ru_registry = new_registry,
     ru_db_handlers = Map.empty, ru_build_id = [] \<rparr>"

definition quiet_state :: "(string option, unit, alloy_log list, unit) app_state" where
  "quiet_state = \<lparr> ap_meta = None, ap_sync = \<lparr> ss_client = \<lparr> cs_net = (), cs_db = empty_cache, cs_hits = 0, cs_misses = 0 \<rparr>,
     ss_buffer = new_buffer [] \<lparr> sch_tables = [] \<rparr>,
     ss_db = (), ss_progress = Map.empty \<rparr>, ap_nets = Map.empty, ap_ready = False, ap_serving = False \<rparr>"

definition quiet_contract :: contract_config where
  "quiet_contract = hd (cfg_contracts quiet_config)"

definition quiet_clients :: "u64 \<rightharpoonup> (unit, alloy_log list) client_env" where
  "quiet_clients = [1 \<mapsto> quiet_env]"

definition quiet_worker :: "(unit, alloy_log list) backfill_worker" where
  "quiet_worker = new_worker quiet_env (new_decoder \<lparr> abi_events = [], abi_functions = [] \<rparr>) quiet_contract 1 []"

definition quiet_wired :: "(unit, alloy_log list) wiring" where
  "quiet_wired = ([(1, ''Token'') \<mapsto> quiet_worker], [1 \<mapsto> [quiet_contract]])"

lemmas quiet_config_defs =
  quiet_config_def cb_config_def cb_set_database_def db_postgres_def cb_contract_def cb_chain_def new_config_builder_def

lemma quiet_wire: "wire (al_wiring quiet_app) (ru_config quiet_runner) = Inr (quiet_clients, quiet_wired)"
  by (simp add: wire_def quiet_app_def quiet_runner_def demo_wiring_def quiet_config_defs build_clients_def build_client_def
      wire_contract_def wire_chain_def chain_id_by_name_def quiet_clients_def quiet_wired_def quiet_worker_def quiet_contract_def)

lemma quiet_fields: "cc_name quiet_contract = ''Token''" "cc_start_block quiet_contract = 3"
  by (simp_all add: quiet_contract_def quiet_config_defs)

definition quiet_plan :: backfill_plan where
  "quiet_plan = \<lparr> bp_contract_name = ''Token'', bp_chain_id = 1, bp_ranges = [\<lparr> br_from = 3, br_to = 7 \<rparr>], bp_total_blocks = 5 \<rparr>"

lemma quiet_plan: "plan quiet_contract 1 7 None 8 = Some (Inr quiet_plan)"
proof -
  have "chunk_end 8 7 3 = (Inr 7 :: (u64, sync_error) result)" by (simp add: chunk_end_def add_u_def sub_u_def)
  then have "plan_loop 8 7 3 [] = Some (Inr [\<lparr> br_from = 3, br_to = 7 \<rparr>])"
    by (simp add: plan_loop.simps [of 8 7 3] plan_loop.simps [of 8 7 8] add_u_def)
  then show ?thesis by (simp add: plan_def quiet_fields quiet_plan_def add_u_def sub_u_def)
qed

lemma quiet_fetch:
  assumes "c_logs (cs_db c) = []"
  shows "fst (fetch_range quiet_worker r c) = Inr []"
  using assms
  by (simp add: fetch_range_def quiet_worker_def new_worker_def cached_get_logs_def quiet_env_def store_get_logs_def
    stmt_def seq_def ret_def Let_def client_get_logs_def with_retry_def demo_provider_def transport_def map_err_def
    lift_res_def to_json_or_def of_json_or_def record_miss_def)

lemma quiet_range:
  assumes "c_logs (cs_db (ss_client s)) = []"
  shows "fst (run_range (app_coordinator quiet_app quiet_runner quiet_wired) 1 [quiet_plan] 0 s) = Inr ()"
proof -
  obtain c where "fetch_range quiet_worker \<lparr> br_from = 3, br_to = 7 \<rparr> (ss_client s) = (Inr [], c)"
    using quiet_fetch [OF assms] by (metis prod.collapse)
  moreover have "(range_len \<lparr> br_from = 3, br_to = 7 \<rparr> :: (u64, sync_error) result) = Inr 5"
    by (simp add: range_len_def sub_u_def add_u_def)
  moreover have "(add_u 7 1 :: (u64, sync_error) result) = Inr 8" by (simp add: add_u_def)
  ultimately show ?thesis
    by (auto simp: run_range_def quiet_plan_def plan_range_def app_coordinator_def quiet_app_def quiet_wired_def
        seq_def ret_def on_buffer_def flush_all_def map_err_def lift_res_def blocks_in_range_def
        write_checkpoint_def Let_def on_cache_def on_client_def split: prod.splits sum.splits)
qed
lemma quiet_start: "\<exists>dm m. start_up quiet_app quiet_runner ''public'' None = (Inr (dm, quiet_clients, quiet_wired), m)"
proof -
  have "cfg_database (ru_config quiet_runner) = Postgres ''pg'' ''public'' 10"
    by (simp add: quiet_runner_def quiet_config_defs)
  moreover have "setup_handlers (ru_registry quiet_runner) ks = Setup_Done" for ks
    by (induction ks) (simp_all add: quiet_runner_def new_registry_def get_setup_def)
  ultimately show ?thesis
    by (simp add: start_up_def quiet_wire seq_def map_err_def lift_res_def manager_new_def manager_setup_def migrate_def
        check_build_id_def ret_def Let_def)
      (simp add: quiet_app_def quiet_runner_def quiet_meta_def to_create_sql_def ret_def seq_def map_err_def Let_def)
qed

lemma quiet_chain:
  assumes "c_logs (cs_db (ss_client (ap_sync s))) = []" and "c_checkpoints (cs_db (ss_client (ap_sync s))) = Map.empty"
    and "ap_nets s = Map.empty"
  shows "\<exists>t. chain_indexed quiet_app quiet_runner quiet_clients quiet_wired 1 s t"
proof -
  let ?C = "app_coordinator quiet_app quiet_runner quiet_wired" let ?y = "ap_sync s"
  have load: "load_net 1 s = ?y" using assms(3) by (simp add: load_net_def)
  have block: "on_client (cached_get_block_number quiet_env) ?y = (Inr 7, ?y)"
    by (simp add: on_client_def cached_get_block_number_def client_get_block_number_def quiet_env_def demo_provider_def
        with_retry_def transport_def map_err_def)
  have fail: "co_fail ?C = no_fail" and chunk: "co_chunk_sizes ?C 1 = Some 8" and ks: "co_chain_contracts ?C 1 = Some [quiet_contract]"
    by (simp_all add: app_coordinator_def quiet_app_def quiet_wired_def chunk_sizes_def quiet_runner_def quiet_config_defs)
  have plans: "make_plans ?C 1 7 [quiet_contract] (cs_db (ss_client ?y)) =
      Some (Inr [quiet_plan], (cs_db (ss_client ?y))\<lparr>c_clock := Suc (c_clock (cs_db (ss_client ?y)))\<rparr>)"
    using assms(2) by (simp add: get_checkpoint_def fail chunk quiet_plan Let_def)
  have total: "sum_blocks [quiet_plan] = Inr 5" and idx: "max_ranges [quiet_plan] = 1"
    by (simp_all add: sum_blocks_def quiet_plan_def add_u_def max_ranges_def)
  let ?s = "?y\<lparr>ss_client := (ss_client ?y)\<lparr>cs_db := (cs_db (ss_client ?y))\<lparr>c_clock := Suc (c_clock (cs_db (ss_client ?y)))\<rparr>\<rparr>,
      ss_progress := init_chain 1 5 (ss_progress ?y)\<rparr>"
  have "fst (run_range ?C 1 [quiet_plan] 0 ?s) = Inr ()" using assms(1) by (intro quiet_range) simp
  then obtain y' where "run_range ?C 1 [quiet_plan] 0 ?s = (Inr (), y')" by (metis prod.collapse)
  then have "run_chain ?C 1 7 ?y = Some (Inr (), y')"
    by (simp add: run_chain_def ks plans total idx Let_def seq_def ret_def del: make_plans.simps)
  with load block show ?thesis by (auto simp: chain_indexed_iff quiet_clients_def)
qed


section \<open>Keys\<close>

lemma start_env_prod: "is_prod (inherited ++ start_env port pg_schema)"
  by (auto simp: is_prod_def start_env_def Let_def map_add_def split: option.splits)

lemma start_env_keeps: "(inherited ++ start_env port pg_schema) ''FORGE_API_KEY'' = inherited ''FORGE_API_KEY''"
  by (auto simp: start_env_def Let_def map_add_def split: option.splits)

text \<open>
  Property C39. Under \<open>forge start\<close>, with a key in the environment, no request reaches the
  SQL endpoint without that key: the answer is 401, and neither the database nor the state of
  the rate limiter changes, whatever the query, the address of the client and the server.
\<close>

theorem start_requires_key:
  assumes "env = inherited ++ start_env port pg_schema" and "inherited ''FORGE_API_KEY'' = Some key"
    and "sv_db_pool S = Some pool" and "rq_path q = ''/sql''" and "rq_method q = POST" and "rq_sql q = Inr incoming"
    and "Option.bind (in_authorization incoming) (strip_prefix ''Bearer '') \<noteq> Some key"
  shows "\<exists>p. serve (router env S) q st = (Inr p, st) \<and> hr_status p = 401"
  using assms start_env_prod [of inherited port pg_schema] start_env_keeps [of inherited port pg_schema]
    router_routes(3) [OF assms(3), of env]
  by (cases st) (simp add: serve_def sql_handler_def authorised_def into_response_def response_error_def)

text \<open>A server on the counting database, and a client that guesses the key.\<close>

definition demo_pool :: "(nat, nat session, unit) db_pool" where
  "demo_pool = \<lparr> pl_sql = counting_state, pl_catalogue = \<lparr> ct_tables = (\<lambda>_. ret []), ct_columns = (\<lambda>_ _. ret []),
     ct_row_count = (\<lambda>_ _. ret None) \<rparr>, pl_finish = (\<lambda>_ _. Inr ()),
     pl_execute = (\<lambda>_ _ d. (\<lparr> gp_errors = False, gp_json = JNull \<rparr>, d)) \<rparr>"

theorem start_requires_key_witness:
  "\<exists>p. serve (router ([''FORGE_API_KEY'' \<mapsto> ''secret''] ++ start_env 80 None)
           (runner_server Map.empty demo_pool ''public'' \<lparr> sch_tables = [] \<rparr>))
         \<lparr> rq_method = POST, rq_path = ''/sql'', rq_json = Inl 400, rq_sql = Inr (counting_request ''guess''), rq_clock = 0,
           rq_metrics = [], rq_ready = True \<rparr> (new_limiter 10, counting_db) = (Inr p, (new_limiter 10, counting_db)) \<and>
       hr_status p = 401"
  by (rule start_requires_key [where key = "''secret''" and pool = demo_pool and incoming = "counting_request ''guess''", OF refl])
    (simp_all add: runner_server_def with_schema_def with_db_def counting_request_def strip_prefix_def
      Std_Strings.starts_with_def)

text \<open>
  The runner treats \<open>production\<close> like \<open>prod\<close>; the server does not, and checks no key then.
\<close>

lemma production_unauthenticated:
  assumes "env ''FORGE_ENV'' = Some ''production''"
  shows "authorised ((pl_sql pool)\<lparr>st_pg_schema := w, st_api_key := env ''FORGE_API_KEY'', st_prod_mode := is_prod env\<rparr>) header"
  using assms by (simp add: authorised_def is_prod_def)

text \<open>
  The compose file sets the key to the empty text where none is given: the key is then not
  absent, no warning is written, and an empty bearer token is accepted.
\<close>

lemma empty_key_accepted:
  assumes "env ''FORGE_API_KEY'' = Some []"
  shows "authorised ((pl_sql pool)\<lparr>st_pg_schema := w, st_api_key := env ''FORGE_API_KEY'', st_prod_mode := is_prod env\<rparr>)
     (Some ''Bearer '')"
  using assms by (simp add: authorised_def strip_prefix_def Std_Strings.starts_with_def)

lemma production_split:
  assumes "env ''FORGE_ENV'' = Some ''production''"
  shows "log_mode_of env = Prod" and "\<not> is_prod env"
  using assms by (simp_all add: log_mode_of_def is_prod_def)

section \<open>Request tracing\<close>

datatype log_level = L_Info | L_Warn | L_Error

definition status_level :: "nat \<Rightarrow> log_level" where
  "status_level status = (if status \<ge> 500 then L_Error else if status \<ge> 400 then L_Warn else L_Info)"

text \<open>
  The middleware around a handler: the latency and the text of the method are inputs. A
  handler that panics leaves neither an observation nor a log line.
\<close>

definition request_tracing ::
  "('ip http_request \<Rightarrow> 's \<Rightarrow> (http_response, 'e) result \<times> 's) \<Rightarrow> (http_method \<Rightarrow> string) \<Rightarrow> real
   \<Rightarrow> 'ip http_request \<Rightarrow> 's \<times> recorder \<times> (log_level \<times> string \<times> string \<times> nat) list
   \<Rightarrow> (http_response, 'e) result \<times> 's \<times> recorder \<times> (log_level \<times> string \<times> string \<times> nat) list" where
  "request_tracing handler method_text latency q = (\<lambda>(st, m, lg).
     case handler q st of
       (Inl f, st) \<Rightarrow> (Inl f, st, m, lg)
     | (Inr p, st) \<Rightarrow>
         (let method = method_text (rq_method q); status = hr_status p
          in (Inr p, st, api_record_http_request method (rq_path q) status latency m,
              lg @ [(status_level status, method, rq_path q, status)])))"

text \<open>Tracing changes no answer and no state, and records one observation for each answer.\<close>

lemma tracing_transparent:
  assumes "request_tracing handler method_text latency q (st, m, lg) = (r, st', m', lg')"
  shows "handler q st = (r, st')" and "length lg' = length lg + (case r of Inr _ \<Rightarrow> 1 | Inl _ \<Rightarrow> 0)"
    and "r = Inr p \<Longrightarrow> last lg' = (status_level (hr_status p), method_text (rq_method q), rq_path q, hr_status p)"
  using assms by (auto simp: request_tracing_def Let_def split: prod.splits sum.splits)

end
