(* ===== verification/Receipts.thy ===== *)
theory Receipts
  imports Rpc_Cache Config Rate_Limiter
begin

text \<open>
  The remaining calls of the RPC client (\<open>forge-index-rpc/src/client.rs\<close>,
  \<open>transport.rs\<close>): receipts of transactions, the subscription to new blocks, and how a
  client is built from the configuration of a chain; and what the cache-through client adds to
  them (\<open>cached_client.rs\<close>). Compared are the logs of a receipt with
  the logs that \<open>get_logs\<close> returns for the same transaction.
\<close>

section \<open>Receipts\<close>

record alloy_receipt =
  ar_transaction_hash :: bytes
  ar_transaction_index :: "u64 option"
  ar_block_hash :: "bytes option"
  ar_block_number :: "u64 option"
  ar_from :: bytes
  ar_to :: "bytes option"
  ar_gas_used :: u128
  ar_status :: bool
  ar_logs :: "alloy_log list"
  ar_contract_address :: "bytes option"

record transaction_receipt =
  rc_transaction_hash :: hash32
  rc_block_number :: u64
  rc_block_hash :: hash32
  rc_from :: address
  rc_to :: "address option"
  rc_gas_used :: u64
  rc_status :: bool
  rc_logs :: "log list"
  rc_contract_address :: "address option"

text \<open>A log of a receipt is numbered by its position in the receipt.\<close>

definition receipt_log :: "(bytes \<Rightarrow> string) \<Rightarrow> u64 \<Rightarrow> alloy_receipt \<Rightarrow> nat \<Rightarrow> alloy_log \<Rightarrow> log" where
  "receipt_log encode chain_id r i l =
     (let block_hash = hash_or_zero (ar_block_hash r)
      in \<lparr> log_id = hash32_to_string encode block_hash @ ''-'' @ nat_str i,
           log_chain_id = chain_id,
           log_address = Address (al_address l),
           log_topics = map Hash32 (al_topics l),
           log_data = al_data l,
           log_block_number = unwrap_or_0 (ar_block_number r),
           log_block_hash = block_hash,
           log_transaction_hash = Hash32 (ar_transaction_hash r),
           log_index = of_nat i,
           log_transaction_index = ucast (unwrap_or_0 (ar_transaction_index r)),
           log_removed = False \<rparr>)"

definition receipt_from_alloy :: "(bytes \<Rightarrow> string) \<Rightarrow> u64 \<Rightarrow> alloy_receipt \<Rightarrow> transaction_receipt" where
  "receipt_from_alloy encode chain_id r =
     \<lparr> rc_transaction_hash = Hash32 (ar_transaction_hash r),
       rc_block_number = unwrap_or_0 (ar_block_number r),
       rc_block_hash = hash_or_zero (ar_block_hash r),
       rc_from = Address (ar_from r),
       rc_to = map_option Address (ar_to r),
       rc_gas_used = ucast (ar_gas_used r),
       rc_status = ar_status r,
       rc_logs = map2 (receipt_log encode chain_id r) [0..<length (ar_logs r)] (ar_logs r),
       rc_contract_address = map_option Address (ar_contract_address r) \<rparr>"

definition client_get_transaction_receipt ::
  "(bytes \<Rightarrow> string) \<Rightarrow> (bytes \<Rightarrow> ('p, string, alloy_receipt option) call) \<Rightarrow> u64 \<Rightarrow> hash32
   \<Rightarrow> ('p, rpc_error failure, transaction_receipt) call" where
  "client_get_transaction_receipt encode get_receipt chain_id h =
     seq (with_retry ''eth_getTransactionReceipt''
           (seq (transport (get_receipt (hash_bytes h)))
             (\<lambda>r. lift_res (ok_or (decode_err ''eth_getTransactionReceipt'' ''receipt not found'') r))))
         (\<lambda>r. ret (receipt_from_alloy encode chain_id r))"

section \<open>Subscriptions\<close>

text \<open>The stream of headers is the list of those it delivers.\<close>

definition client_subscribe_new_heads ::
  "bool \<Rightarrow> u64 \<Rightarrow> ('p, string, alloy_header list) call \<Rightarrow> ('p, rpc_error failure, block list) call" where
  "client_subscribe_new_heads has_ws chain_id subscribe_blocks =
     (if \<not> has_ws then throw (Err (NoWebSocket chain_id))
      else seq (transport subscribe_blocks) (\<lambda>headers. ret (map (\<lambda>h. block_from_alloy h chain_id) headers)))"

section \<open>Building a client\<close>

record rpc_client =
  rk_url :: string
  rk_chain_id :: u64
  rk_max_rps :: u32
  rk_has_ws :: bool

definition build_http_provider :: "(string \<Rightarrow> string option) \<Rightarrow> string \<Rightarrow> rpc_error + string" where
  "build_http_provider parse_url url = (case parse_url url of Some e \<Rightarrow> Inl (Transport e) | None \<Rightarrow> Inr url)"

definition build_from_config :: "(string \<Rightarrow> string option) \<Rightarrow> chain_config \<Rightarrow> rpc_error + rpc_client" where
  "build_from_config parse_url c =
     bind_res (build_http_provider parse_url (ch_rpc_http c)) (\<lambda>provider.
       Inr \<lparr> rk_url = provider, rk_chain_id = ch_chain_id c, rk_max_rps = or_else (ch_max_rps c) 25,
             rk_has_ws = (ch_rpc_ws c \<noteq> None) \<rparr>)"

section \<open>The two numberings of logs\<close>

text \<open>
  A receipt as a node sends it: its logs carry its own hashes and numbers, and their indices
  count on from that of the first, which is the number of logs before it in the block.
\<close>

definition consistent_receipt :: "alloy_receipt \<Rightarrow> nat \<Rightarrow> bool" where
  "consistent_receipt r first \<longleftrightarrow>
     (\<forall>i < length (ar_logs r).
        let l = ar_logs r ! i
        in al_block_hash l = ar_block_hash r \<and> al_block_number l = ar_block_number r \<and>
           al_transaction_hash l = Some (ar_transaction_hash r) \<and>
           al_transaction_index l = ar_transaction_index r \<and> al_log_index l = Some (of_nat (first + i))) \<and>
     first + length (ar_logs r) \<le> 2 ^ 32"

lemma receipt_log_fields:
  assumes "consistent_receipt r first" and "i < length (ar_logs r)"
  shows "receipt_log encode c r i (ar_logs r ! i) =
    (log_from_alloy encode (ar_logs r ! i) c)
      \<lparr>log_id := make_log_id encode (hash_or_zero (ar_block_hash r)) (of_nat i), log_index := of_nat i\<rparr>"
proof -
  have "i < 2 ^ 32" using assms by (simp add: consistent_receipt_def)
  then have "unat (of_nat i :: u32) = i" by (simp add: unat_of_nat take_bit_nat_eq_self)
  then show ?thesis
    using assms by (auto simp: consistent_receipt_def Let_def receipt_log_def log_from_alloy_def make_log_id_def
        hash_or_zero_def)
qed

lemma log_index_of_consistent:
  assumes "consistent_receipt r first" and "i < length (ar_logs r)"
  shows "unat (log_index (log_from_alloy encode (ar_logs r ! i) c)) = first + i"
proof -
  have "al_log_index (ar_logs r ! i) = Some (of_nat (first + i))" "first + i < 2 ^ 32"
    using assms by (simp_all add: consistent_receipt_def Let_def)
  moreover from this have "unat (of_nat (first + i) :: u64) = first + i"
    by (simp add: unat_of_nat take_bit_nat_eq_self del: of_nat_add)
  ultimately show ?thesis
    by (simp add: log_from_alloy_def Let_def unwrap_or_0_def unsigned_ucast_eq take_bit_nat_eq_self del: of_nat_add)
qed

text \<open>
  The logs of a receipt are the logs that \<open>get_logs\<close> returns for the same transaction exactly
  when the transaction is the first in its block to emit any: otherwise every log gets another
  index and another identifier.
\<close>

lemma receipt_logs_agree_iff:
  assumes "consistent_receipt r first" and "ar_logs r \<noteq> []"
  shows "rc_logs (receipt_from_alloy encode c r) = map (\<lambda>l. log_from_alloy encode l c) (ar_logs r) \<longleftrightarrow> first = 0"
proof
  assume eq: "rc_logs (receipt_from_alloy encode c r) = map (\<lambda>l. log_from_alloy encode l c) (ar_logs r)"
  have 0: "0 < length (ar_logs r)" using assms(2) by simp
  have "receipt_log encode c r 0 (ar_logs r ! 0) = log_from_alloy encode (ar_logs r ! 0) c"
    using arg_cong [OF eq, of "\<lambda>xs. xs ! 0"] 0 by (simp add: receipt_from_alloy_def)
  then have "log_index (receipt_log encode c r 0 (ar_logs r ! 0)) = log_index (log_from_alloy encode (ar_logs r ! 0) c)"
    by simp
  then show "first = 0"
    using log_index_of_consistent [OF assms(1) 0, of encode c] by (simp add: receipt_log_def Let_def)
next
  assume first: "first = 0"
  have "receipt_log encode c r i (ar_logs r ! i) = log_from_alloy encode (ar_logs r ! i) c"
    if i: "i < length (ar_logs r)" for i
  proof -
    let ?l = "log_from_alloy encode (ar_logs r ! i) c"
    have "log_index ?l = of_nat i"
      using log_index_of_consistent [OF assms(1) i, of encode c] first by (metis add_0 of_nat_unat ucast_id)
    moreover have "log_id ?l = make_log_id encode (hash_or_zero (ar_block_hash r)) (log_index ?l)"
      using assms(1) i by (simp add: log_from_alloy_def Let_def consistent_receipt_def)
    ultimately show ?thesis using receipt_log_fields [OF assms(1) i, of encode c] by simp
  qed
  then show "rc_logs (receipt_from_alloy encode c r) = map (\<lambda>l. log_from_alloy encode l c) (ar_logs r)"
    by (auto simp: receipt_from_alloy_def intro!: nth_equalityI)
qed

text \<open>Two transactions of one block: their first logs get one identifier.\<close>

lemma receipt_ids_collide:
  assumes "ar_block_hash r = ar_block_hash r'" and "ar_logs r \<noteq> []" and "ar_logs r' \<noteq> []"
  shows "log_id (hd (rc_logs (receipt_from_alloy encode c r))) = log_id (hd (rc_logs (receipt_from_alloy encode c r')))"
  using assms by (cases "ar_logs r"; cases "ar_logs r'")
    (simp_all add: receipt_from_alloy_def receipt_log_def Let_def upt_rec [of 0])

text \<open>A call that succeeds returns the conversion of a receipt that the provider returned.\<close>

lemma client_get_transaction_receipt_Inr:
  assumes "client_get_transaction_receipt encode get_receipt c h s = (Inr r, t)"
  shows "\<exists>a s'. get_receipt (hash_bytes h) s' = (Inr (Some a), t) \<and> r = receipt_from_alloy encode c a"
proof -
  obtain a s1 where a: "with_retry ''eth_getTransactionReceipt''
      (seq (transport (get_receipt (hash_bytes h)))
        (\<lambda>r. lift_res (ok_or (decode_err ''eth_getTransactionReceipt'' ''receipt not found'') r))) s = (Inr a, s1)"
    "r = receipt_from_alloy encode c a" "t = s1"
    using assms by (auto simp: client_get_transaction_receipt_def seq_Inr_iff ret_def)
  from with_retry_Inr [OF a(1)] show ?thesis using a(2,3) by (auto simp: seq_Inr_iff)
qed

text \<open>
  The address of the WebSocket endpoint is never used: a client built from a configuration
  with one differs only in the flag that allows subscriptions, which then go to the HTTP
  endpoint.
\<close>

lemma websocket_address_unused:
  "build_from_config parse_url (c\<lparr>ch_rpc_ws := Some ws\<rparr>) =
     bind_res (build_from_config parse_url (c\<lparr>ch_rpc_ws := None\<rparr>)) (\<lambda>k. Inr (k\<lparr>rk_has_ws := True\<rparr>))"
  by (cases "parse_url (ch_rpc_http c)") (simp_all add: build_from_config_def build_http_provider_def)

section \<open>The cache-through client\<close>

definition cached_new :: "'p \<Rightarrow> 'j cache_db \<Rightarrow> ('p, 'j) client_state" where
  "cached_new net db = \<lparr> cs_net = net, cs_db = db, cs_hits = 0, cs_misses = 0 \<rparr>"

text \<open>Receipts and subscriptions pass through.\<close>

definition cached_get_transaction_receipt ::
  "('p, 'j) client_env \<Rightarrow> (bytes \<Rightarrow> ('p, string, alloy_receipt option) call) \<Rightarrow> hash32
   \<Rightarrow> (('p, 'j) client_state, rpc_error failure, transaction_receipt) call" where
  "cached_get_transaction_receipt E get_receipt h = (\<lambda>s.
     case client_get_transaction_receipt (tc_encode (e_codec E)) get_receipt (e_chain_id E) h (cs_net s) of
       (r, net) \<Rightarrow> (r, s\<lparr>cs_net := net\<rparr>))"

definition cached_subscribe_new_heads ::
  "('p, 'j) client_env \<Rightarrow> bool \<Rightarrow> ('p, string, alloy_header list) call
   \<Rightarrow> (('p, 'j) client_state, rpc_error failure, block list) call" where
  "cached_subscribe_new_heads E has_ws subscribe_blocks = (\<lambda>s.
     case client_subscribe_new_heads has_ws (e_chain_id E) subscribe_blocks (cs_net s) of
       (r, net) \<Rightarrow> (r, s\<lparr>cs_net := net\<rparr>))"

record cache_stats =
  st_hits :: u64
  st_misses :: u64
  st_hit_rate :: real

definition stats :: "rounding \<Rightarrow> ('p, 'j) client_state \<Rightarrow> (cache_stats, 'e) result" where
  "stats rnd s =
     bind_res (add_u (cs_hits s) (cs_misses s)) (\<lambda>total.
       Inr \<lparr> st_hits = cs_hits s, st_misses = cs_misses s,
             st_hit_rate = (if total = 0 then 0 else rnd (rnd (real (unat (cs_hits s))) / rnd (real (unat total)))) \<rparr>)"

text \<open>The calls of the client, and how many of them look into the cache.\<close>

datatype cached_call =
    Call_Logs log_filter
  | Call_Block_By_Number u64
  | Call_Block_By_Hash hash32
  | Call_Transaction hash32
  | Call_Block_Number
  | Call_Eth address bytes u64

fun after_call :: "('p, 'j) client_env \<Rightarrow> cached_call \<Rightarrow> ('p, 'j) client_state \<Rightarrow> ('p, 'j) client_state" where
  "after_call E (Call_Logs f) s = snd (cached_get_logs E f s)"
| "after_call E (Call_Block_By_Number n) s = snd (cached_get_block_by_number E n s)"
| "after_call E (Call_Block_By_Hash h) s = snd (cached_get_block_by_hash E h s)"
| "after_call E (Call_Transaction h) s = snd (cached_get_transaction E h s)"
| "after_call E Call_Block_Number s = snd (cached_get_block_number E s)"
| "after_call E (Call_Eth to data block) s = snd (cached_eth_call E to data block s)"

fun looks_up :: "cached_call \<Rightarrow> bool" where
  "looks_up (Call_Block_By_Hash h) = False"
| "looks_up Call_Block_Number = False"
| "looks_up _ = True"

lemma call_counts_once:
  "(cs_hits (after_call E c s), cs_misses (after_call E c s)) \<in>
     (if looks_up c then {(cs_hits s + 1, cs_misses s), (cs_hits s, cs_misses s + 1)} else {(cs_hits s, cs_misses s)})"
  by (cases c)
    (auto simp: cached_get_logs_def cached_get_block_by_number_def cached_get_block_by_hash_def
      cached_get_transaction_def cached_get_block_number_def cached_eth_call_def record_hit_def record_miss_def Let_def
      split: prod.splits sum.splits option.splits)

lemma unat_count: "unat (x :: u64) + 1 < 2 ^ 64 \<Longrightarrow> unat (x + 1) = unat x + 1"
  using unat_add_lem [of x 1] by simp

lemma calls_count:
  assumes "unat (cs_hits s) + unat (cs_misses s) + length (filter looks_up cs) < 2 ^ 64"
  shows "unat (cs_hits (fold (after_call E) cs s)) + unat (cs_misses (fold (after_call E) cs s)) =
    unat (cs_hits s) + unat (cs_misses s) + length (filter looks_up cs)"
  using assms
proof (induction cs arbitrary: s)
  case (Cons c cs)
  have "unat (cs_hits (after_call E c s)) + unat (cs_misses (after_call E c s)) =
      unat (cs_hits s) + unat (cs_misses s) + of_bool (looks_up c)"
    using call_counts_once [of E c s] Cons.prems by (auto simp: unat_count split: if_splits)
  then show ?case using Cons.IH [of "after_call E c s"] Cons.prems by (auto split: if_splits)
qed simp

text \<open>
  The statistics count every look-up once, as a hit or as a miss, whatever fails: after any
  calls of a new client they add up to the number of calls that look into the cache, and
  \<open>stats\<close> does not overflow while that number is below \<open>2 ^ 64\<close>.
\<close>

lemma stats_count_lookups:
  assumes "length (filter looks_up cs) < 2 ^ 64"
  shows "\<exists>t. (stats rnd (fold (after_call E) cs (cached_new net db)) :: (cache_stats, 'e) result) = Inr t \<and>
    unat (st_hits t) + unat (st_misses t) = length (filter looks_up cs)"
  using calls_count [of "cached_new net db" cs E] assms by (simp add: stats_def cached_new_def add_u_def)

end
