(* ===== verification/Progress.thy ===== *)
theory Progress
  imports Backfill Telemetry
begin

text \<open>
  Progress reports of the backfill (\<open>sync/backfill/progress.rs\<close>) and what the coordinator
  feeds into them. Numbers of type \<open>f32\<close> and \<open>f64\<close> are real numbers with the rounding of
  every operation an argument, as in \<open>Rate_Limiter\<close>.
\<close>

section \<open>Reports\<close>

definition percent_complete :: "rounding \<Rightarrow> chain_progress \<Rightarrow> real" where
  "percent_complete rnd32 p =
     (let total = cp_total_blocks p
      in if total = 0 then 100
         else rnd32 (rnd32 (rnd32 (real (unat (cp_processed_blocks p))) / rnd32 (real (unat total))) * 100))"

text \<open>\<open>elapsed\<close> is the time since the start of the backfill in nanoseconds.\<close>

definition blocks_per_second :: "rounding \<Rightarrow> nat \<Rightarrow> chain_progress \<Rightarrow> real" where
  "blocks_per_second rnd elapsed p =
     (let secs = as_secs_f64 rnd elapsed
      in if secs < 0.001 then 0 else rnd (rnd (real (unat (cp_processed_blocks p))) / secs))"

definition eta_seconds :: "rounding \<Rightarrow> nat \<Rightarrow> chain_progress \<Rightarrow> real option" where
  "eta_seconds rnd elapsed p =
     (let bps = blocks_per_second rnd elapsed p
      in if bps < 0.001 then None
         else Some (rnd (rnd (rnd (real (unat (cp_total_blocks p))) - rnd (real (unat (cp_processed_blocks p)))) / bps)))"

definition get_chain :: "(u64 \<rightharpoonup> chain_progress) \<Rightarrow> u64 \<Rightarrow> chain_progress option" where
  "get_chain m chain_id = m chain_id"

text \<open>A cast from \<open>f64\<close> to \<open>u64\<close> truncates, and saturates at zero and at the maximum.\<close>

definition f64_as_u64 :: "real \<Rightarrow> nat" where
  "f64_as_u64 x = min (nat \<lfloor>x\<rfloor>) (2 ^ 64 - 1)"

definition eta_text :: "rounding \<Rightarrow> nat \<Rightarrow> chain_progress \<Rightarrow> string" where
  "eta_text rnd elapsed p =
     (case eta_seconds rnd elapsed p of
        Some secs \<Rightarrow>
          if secs > 60 then nat_str (f64_as_u64 secs div 60) @ ''m '' @ nat_str (f64_as_u64 secs mod 60) @ ''s''
          else nat_str (f64_as_u64 secs) @ ''s''
      | None \<Rightarrow> ''unknown'')"

section \<open>Who changes the progress\<close>

named_theorems keeps_intros "calls that leave the progress as it is"

definition keeps_progress :: "(('p, 'j, 'd) sync_state, 'e, 'a) call \<Rightarrow> bool" where
  "keeps_progress m \<longleftrightarrow> (\<forall>s. ss_progress (snd (m s)) = ss_progress s)"

lemma keeps_basic [keeps_intros]:
  "keeps_progress (ret x)" "keeps_progress (lift_res r)" "keeps_progress (on_client m')" "keeps_progress (on_buffer m'')"
  by (simp_all add: keeps_progress_def ret_def on_client_def on_buffer_def split: prod.splits)

lemma keeps_map_err [keeps_intros]: "keeps_progress m \<Longrightarrow> keeps_progress (map_err f m)"
  by (simp add: keeps_progress_def)

lemma keeps_seq [keeps_intros]: "keeps_progress m \<Longrightarrow> (\<And>x. keeps_progress (f x)) \<Longrightarrow> keeps_progress (seq m f)"
  by (auto simp: keeps_progress_def seq_def split: prod.splits sum.splits) (metis snd_conv)+

lemma keeps_for_each [keeps_intros]: "(\<And>x. keeps_progress (f x)) \<Longrightarrow> keeps_progress (for_each f xs)"
  by (induction xs) (simp_all add: keeps_intros)

lemma keeps_handle_event [keeps_intros]: "keeps_progress (handle_event C e)"
  by (auto simp: handle_event_def Let_def intro: keeps_intros split: option.splits)

lemma keeps_fetch_all [keeps_intros]: "keeps_progress (fetch_all C c idx ps)"
  by (induction ps) (auto intro!: keeps_intros split: option.splits)

lemma keeps_on_cache [keeps_intros]: "keeps_progress (\<lambda>s. (Inr (), snd (on_cache m s)))"
  by (auto simp: keeps_progress_def on_cache_def on_client_def split: prod.splits)

lemma keeps_write_checkpoint [keeps_intros]: "keeps_progress (write_checkpoint C c idx p)"
  by (auto simp: write_checkpoint_def intro!: keeps_intros split: option.splits)

lemma keepsD: "keeps_progress m \<Longrightarrow> m s = (r, s') \<Longrightarrow> ss_progress s' = ss_progress s"
  by (metis keeps_progress_def snd_conv)

text \<open>A chunk adds the length of its longest range, and nothing else.\<close>

lemma run_range_progress:
  assumes "run_range C c plans idx s = (Inr u, s')"
  shows "\<exists>blocks k. blocks_in_range idx plans = Inr blocks \<and> ss_progress s' = record_chain c blocks k (ss_progress s)"
proof -
  obtain ev s1 s2 s3 s4 blocks n where steps:
    "fetch_all C c idx plans s = (Inr ev, s1)"
    "for_each (handle_event C) (sort_key event_key ev) s1 = (Inr (), s2)"
    "map_err (lift_err Sync_Database) (on_buffer (flush_all (co_renderer C) (co_exec C) (co_keys C))) s2 = (Inr n, s3)"
    "blocks_in_range idx plans = Inr blocks"
    "for_each (write_checkpoint C c idx) plans s3 = (Inr (), s4)"
    "s' = s4\<lparr>ss_progress := record_chain c blocks (of_nat (length (sort_key event_key ev))) (ss_progress s4)\<rparr>"
    using assms by (auto simp: run_range_def Let_def seq_Inr_iff)
  have "ss_progress s1 = ss_progress s" "ss_progress s2 = ss_progress s1"
    "ss_progress s3 = ss_progress s2" "ss_progress s4 = ss_progress s3"
    using steps(1-3,5) by (auto elim!: keepsD [rotated] intro: keeps_intros)
  then have "ss_progress s' = record_chain c blocks (of_nat (length (sort_key event_key ev))) (ss_progress s)"
    using steps(6) by simp
  with steps(4) show ?thesis by blast
qed

section \<open>Processed blocks never exceed the total\<close>

definition range_size :: "nat \<Rightarrow> backfill_plan \<Rightarrow> nat" where
  "range_size i p = (case plan_range i p of Some r \<Rightarrow> length (range_blocks r) | None \<Rightarrow> 0)"

lemma range_len_blocks: "range_len r = (Inr n :: (u64, 'e) result) \<Longrightarrow> unat n = length (range_blocks r)"
proof (cases "br_from r \<le> br_to r")
  case True
  then have le: "unat (br_from r) \<le> unat (br_to r)" by (simp add: word_le_nat_alt)
  assume "range_len r = (Inr n :: (u64, 'e) result)"
  then have "(add_u (br_to r - br_from r) 1 :: (u64, 'e) result) = Inr n" using True by (simp add: range_len_def sub_u_ok)
  then have "unat n = unat (br_to r - br_from r) + 1" by (simp add: add_u_Inr_iff)
  then show ?thesis using le True by (simp add: range_blocks_def unat_sub)
next
  case False
  then have "unat (br_to r) + 1 \<le> unat (br_from r)" by (simp add: word_le_nat_alt)
  moreover assume "range_len r = (Inr n :: (u64, 'e) result)"
  ultimately show ?thesis using False by (simp add: range_len_def range_blocks_def)
qed

lemma fold_max_sum: "unat (fold max ls (a :: u64)) \<le> unat a + sum_list (map unat ls)"
proof (induction ls arbitrary: a)
  case (Cons x ls)
  have "unat (max x a) \<le> unat x + unat a" by (simp add: max_def)
  then show ?case using Cons [of "max x a"] by simp
qed simp

lemma blocks_in_range_size:
  assumes "blocks_in_range i ps = Inr b"
  shows "unat b \<le> sum_list (map (range_size i) ps)" and "ps = [p] \<Longrightarrow> unat b = range_size i p"
proof -
  obtain ls where ls: "map_res range_len (filter_map (plan_range i) ps) = (Inr ls :: (u64 list, sync_error) result)"
    "b = fold max ls 0" using assms by (auto simp: blocks_in_range_def result_simps)
  have sum: "map_res range_len (filter_map (plan_range i) ps) = (Inr ls :: (u64 list, sync_error) result) \<Longrightarrow>
      sum_list (map unat ls) = sum_list (map (range_size i) ps)" for ls
  proof (induction ps arbitrary: ls)
    case (Cons p ps)
    then show ?case
      by (auto simp: range_size_def result_simps range_len_blocks split: option.splits)
  qed simp
  show "unat b \<le> sum_list (map (range_size i) ps)" using fold_max_sum [of ls 0] sum [OF ls(1)] ls(2) by simp
  show "unat b = range_size i p" if "ps = [p]"
    using ls that by (cases "plan_range i p") (auto simp: range_size_def result_simps range_len_blocks)
qed

lemma plan_sizes:
  assumes "length (bp_ranges p) \<le> n"
  shows "sum_list (map (\<lambda>i. range_size i p) [0..<n]) = length (concat (map range_blocks (bp_ranges p)))"
proof -
  let ?rs = "bp_ranges p"
  have "map (\<lambda>i. range_size i p) [0..<length ?rs] = map (length \<circ> range_blocks) ?rs"
    by (auto simp: range_size_def plan_range_def intro!: nth_equalityI)
  moreover have "sum_list (map (\<lambda>i. range_size i p) [length ?rs..<n]) = 0"
    by (simp add: range_size_def plan_range_def)
  moreover have "[0..<n] = [0..<length ?rs] @ [length ?rs..<n]" using upt_add_eq_append [of 0 "length ?rs" "n - length ?rs"] assms by simp
  ultimately show ?thesis by (simp add: length_concat)
qed

lemma sum_list_swap:
  "sum_list (map (\<lambda>i. sum_list (map (f i) ps)) xs) = sum_list (map (\<lambda>p. sum_list (map (\<lambda>i. f i p) xs)) ps :: nat list)"
  by (induction xs) (simp_all add: sum_list_addf)

lemma fold_add_u: "fold_res add_u a xs = (Inr t :: (u64, 'e) result) \<Longrightarrow> unat t = unat a + sum_list (map unat xs)"
proof (induction xs arbitrary: a)
  case (Cons x xs)
  then obtain b where "unat b = unat a + unat x" "fold_res add_u b xs = (Inr t :: (u64, 'e) result)"
    by (auto simp: result_simps add_u_Inr_iff)
  then show ?case using Cons.IH [of b] by simp
qed simp

lemma list_all2_set2: "list_all2 P xs ys \<Longrightarrow> \<forall>y \<in> set ys. \<exists>x \<in> set xs. P x y"
  by (induction rule: list_all2_induct) auto

lemma unat_sum_list: "sum_list (map unat (bs :: u64 list)) < 2 ^ 64 \<Longrightarrow> unat (sum_list bs) = sum_list (map unat bs)"
  by (induction bs) (simp_all add: unat_word_ariths)

lemma run_ranges_progress:
  assumes "for_each (run_range C c ps) xs s = (Inr (), s')" and "ss_progress s c = Some p"
  shows "\<exists>p' bs. ss_progress s' c = Some p' \<and> cp_total_blocks p' = cp_total_blocks p \<and>
    list_all2 (\<lambda>i b. blocks_in_range i ps = Inr b) xs bs \<and> cp_processed_blocks p' = cp_processed_blocks p + sum_list bs"
  using assms
proof (induction xs arbitrary: s p)
  case Nil
  then show ?case by (simp add: ret_def)
next
  case (Cons x xs)
  obtain s1 where s1: "run_range C c ps x s = (Inr (), s1)" "for_each (run_range C c ps) xs s1 = (Inr (), s')"
    using Cons.prems(1) by (auto simp: seq_Inr_iff)
  obtain b k where b: "blocks_in_range x ps = Inr b" "ss_progress s1 = record_chain c b k (ss_progress s)"
    using run_range_progress [OF s1(1)] by blast
  then have "ss_progress s1 c = Some (progress_record b k p)" using Cons.prems(2) by (simp add: record_chain_def)
  from Cons.IH [OF s1(2) this] obtain p' bs where
    "ss_progress s' c = Some p'" "cp_total_blocks p' = cp_total_blocks p"
    "list_all2 (\<lambda>i b. blocks_in_range i ps = Inr b) xs bs" "cp_processed_blocks p' = cp_processed_blocks p + b + sum_list bs"
    by (auto simp: progress_record_def)
  with b(1) show ?case by (intro exI [of _ p'] exI [of _ "b # bs"]) (simp add: add.assoc)
qed

text \<open>The blocks that the ranges count, against the sum of the plans.\<close>

lemma counted_blocks:
  assumes plans: "\<And>q. q \<in> set ps \<Longrightarrow> unat (bp_total_blocks q) = length (concat (map range_blocks (bp_ranges q)))"
    and total: "sum_blocks ps = Inr sum_total"
    and bs: "list_all2 (\<lambda>i b. blocks_in_range i ps = Inr b) [0..<max_ranges ps] bs"
  shows "sum_list bs \<le> sum_total" and "length ps = 1 \<Longrightarrow> sum_list bs = sum_total"
proof -
  have sizes: "sum_list (map (\<lambda>i. range_size i q) [0..<max_ranges ps]) = unat (bp_total_blocks q)" if "q \<in> set ps" for q
    using plan_sizes [OF max_ranges_ge [OF that]] plans [OF that] by simp
  have "unat sum_total = sum_list (map (\<lambda>q. unat (bp_total_blocks q)) ps)"
    using fold_add_u [of 0 "map bp_total_blocks ps" sum_total] total by (simp add: sum_blocks_def o_def)
  also have "\<dots> = sum_list (map (\<lambda>i. sum_list (map (range_size i) ps)) [0..<max_ranges ps])"
    unfolding sum_list_swap [of range_size] by (rule arg_cong [of _ _ sum_list]) (simp add: sizes)
  finally have tot: "unat sum_total = sum_list (map (\<lambda>i. sum_list (map (range_size i) ps)) [0..<max_ranges ps])" .
  have le: "sum_list (map unat bs) \<le> unat sum_total"
    unfolding tot using bs
    by (induction rule: list_all2_induct) (auto dest: blocks_in_range_size(1))
  then have sum: "unat (sum_list bs) = sum_list (map unat bs)"
    using unsigned_less [of sum_total, where ?'a = nat] by (intro unat_sum_list) simp
  show "sum_list bs \<le> sum_total" using le sum by (simp add: word_le_nat_alt)
  show "sum_list bs = sum_total" if one: "length ps = 1"
  proof -
    obtain q where q: "ps = [q]" using one by (metis One_nat_def length_0_conv length_Suc_conv)
    have "sum_list (map unat bs) = sum_list (map (\<lambda>i. range_size i q) [0..<max_ranges ps])"
      using bs by (induction rule: list_all2_induct) (auto dest: blocks_in_range_size(2) [OF _ q])
    then have "unat (sum_list bs) = unat sum_total" using sum tot q by simp
    then show ?thesis by (rule unsigned_word_eqI)
  qed
qed

text \<open>
  Property C37. After a chain was indexed without an error, the progress that is reported for
  it counts at most as many blocks as the total that was announced, and, with one contract on
  the chain, exactly as many, whatever the chunks are and wherever earlier runs had stopped.
\<close>

theorem backfill_progress_bounded:
  assumes "co_fail C = no_fail" and "co_chain_contracts C c = Some ks" and "ks \<noteq> []"
    and "0 < chunk_of C c" and "unat current + unat (chunk_of C c) < 2 ^ 64"
    and "run_chain C c current s = Some (Inr (), s')"
  shows "\<exists>p. get_chain (ss_progress s') c = Some p \<and> cp_processed_blocks p \<le> cp_total_blocks p \<and>
    (length ks = 1 \<longrightarrow> cp_processed_blocks p = cp_total_blocks p)"
proof -
  let ?cp = "\<lambda>k. checkpoints s (c, cc_name k)"
  obtain ps db' where ps: "make_plans C c current ks (cs_db (ss_client s)) = Some (Inr ps, db')"
    and all: "list_all2 (\<lambda>k p. plan k c current (?cp k) (chunk_of C c) = Some (Inr p)) ks ps"
    using make_plans_ok [OF assms(1,4,5), of ks "cs_db (ss_client s)"] by blast
  obtain total where total: "sum_blocks ps = Inr total"
    using assms(2,3,6) ps by (auto simp: run_chain_def Let_def result_simps split: sum.splits)
  let ?s = "s\<lparr>ss_client := (ss_client s)\<lparr>cs_db := db'\<rparr>, ss_progress := init_chain c total (ss_progress s)\<rparr>"
  have run: "for_each (run_range C c ps) [0..<max_ranges ps] ?s = (Inr (), s')"
    using assms(2,3,6) ps total by (simp add: run_chain_def Let_def)
  have "ss_progress ?s c = Some (new_progress total)" by (simp add: init_chain_def)
  from run_ranges_progress [OF run this] obtain p bs where
    p: "ss_progress s' c = Some p" "cp_total_blocks p = total" "cp_processed_blocks p = sum_list bs"
    and bs: "list_all2 (\<lambda>i b. blocks_in_range i ps = Inr b) [0..<max_ranges ps] bs"
    by (auto simp: new_progress_def)
  have "unat (bp_total_blocks q) = length (concat (map range_blocks (bp_ranges q)))" if q: "q \<in> set ps" for q
  proof -
    obtain k where k: "plan k c current (?cp k) (chunk_of C c) = Some (Inr q)"
      using bspec [OF list_all2_set2 [OF all] q] by (elim bexE) simp
    show ?thesis using plan_ok [OF assms(4,5), of k c "?cp k"] k by auto
  qed
  note counted = counted_blocks [OF this total bs]
  show ?thesis using p counted list_all2_lengthD [OF all] by (auto simp: get_chain_def)
qed

lemma demo_ranges_run:
  assumes "i < 2"
  shows "\<exists>s'. run_range demo_coordinator 1 [demo_plan] i s = (Inr (), s')"
proof -
  have "(range_len \<lparr> br_from = 3, br_to = 6 \<rparr> :: (u64, sync_error) result) = Inr 4"
    "(range_len \<lparr> br_from = 7, br_to = 9 \<rparr> :: (u64, sync_error) result) = Inr 3"
    by (simp_all add: range_len_def sub_u_def add_u_def)
  moreover have "(add_u 6 1 :: (u64, sync_error) result) = Inr 7" "(add_u 9 1 :: (u64, sync_error) result) = Inr 10"
    by (simp_all add: add_u_def)
  moreover have "i = 0 \<or> i = 1" using assms by auto
  ultimately show ?thesis
    by (auto simp: run_range_def demo_plan_def plan_range_def demo_coordinator_def seq_def ret_def
        on_buffer_def flush_all_def map_err_def lift_res_def blocks_in_range_def write_checkpoint_def Let_def
        on_cache_def on_client_def split_def)
qed

lemma demo_plan_made: "plan demo_contract 1 9 None 4 = Some (Inr demo_plan)"
  by (simp add: plan_def plan_loop.simps chunk_end_def add_u_def sub_u_def demo_contract_def demo_plan_def)

lemma demo_chain_runs: "\<exists>s'. run_chain demo_coordinator 1 9 demo_sync_state = Some (Inr (), s')"
proof -
  have ks: "co_chain_contracts demo_coordinator 1 = Some [demo_contract]" by (simp add: demo_coordinator_def)
  obtain db where plans: "make_plans demo_coordinator 1 9 [demo_contract] (cs_db (ss_client demo_sync_state)) =
      Some (Inr [demo_plan], db)"
    using demo_plan_made
    by (simp add: get_checkpoint_def demo_coordinator_def demo_sync_state_def demo_state_def empty_cache_def Let_def)
  have "sum_blocks [demo_plan] = Inr 7" "max_ranges [demo_plan] = 2"
    by (simp_all add: sum_blocks_def max_ranges_def demo_plan_def add_u_def)
  moreover define s0 where "s0 = demo_sync_state\<lparr>ss_client := (ss_client demo_sync_state)\<lparr>cs_db := db\<rparr>,
         ss_progress := init_chain 1 7 (ss_progress demo_sync_state)\<rparr>"
  ultimately have run: "run_chain demo_coordinator 1 9 demo_sync_state =
      Some (for_each (run_range demo_coordinator 1 [demo_plan]) [0, 1] s0)"
    using ks plans by (simp add: run_chain_def Let_def upt_rec del: make_plans.simps)
  obtain s1 where "run_range demo_coordinator 1 [demo_plan] 0 s0 = (Inr (), s1)" using demo_ranges_run [of 0 s0] by auto
  moreover obtain s2 where "run_range demo_coordinator 1 [demo_plan] 1 s1 = (Inr (), s2)" using demo_ranges_run [of 1 s1] by auto
  ultimately show ?thesis using run by (simp add: seq_def ret_def)
qed

theorem backfill_progress_bounded_witness:
  "\<exists>s' p. run_chain demo_coordinator 1 9 demo_sync_state = Some (Inr (), s') \<and>
     get_chain (ss_progress s') 1 = Some p \<and> cp_processed_blocks p = cp_total_blocks p"
proof -
  obtain s' where run: "run_chain demo_coordinator 1 9 demo_sync_state = Some (Inr (), s')" using demo_chain_runs by blast
  have "chunk_of demo_coordinator 1 = 4" by (simp add: chunk_of_def demo_coordinator_def)
  with backfill_progress_bounded [OF _ _ _ _ _ run, of "[demo_contract]"] run show ?thesis
    by (auto simp: demo_coordinator_def)
qed

text \<open>
  With several contracts the total adds up the blocks of all of them, while a chunk counts
  once, so that the share of a finished chain stays below 100 percent: for two contracts that
  start at the same block it ends at one half.
\<close>

lemma two_contracts_half:
  "sum_blocks [demo_plan, demo_plan\<lparr>bp_contract_name := ''Other''\<rparr>] = Inr 14"
  "blocks_in_range 0 [demo_plan, demo_plan\<lparr>bp_contract_name := ''Other''\<rparr>] = Inr 4"
  "blocks_in_range 1 [demo_plan, demo_plan\<lparr>bp_contract_name := ''Other''\<rparr>] = Inr 3"
  "max_ranges [demo_plan, demo_plan\<lparr>bp_contract_name := ''Other''\<rparr>] = 2"
  by (simp_all add: sum_blocks_def demo_plan_def blocks_in_range_def plan_range_def max_ranges_def
      range_len_def add_u_def sub_u_def)

section \<open>Percentages\<close>

text \<open>A finished chain shows exactly 100 percent, whatever the rounding, if it keeps 1 and 100.\<close>

lemma percent_of_finished:
  assumes "cp_processed_blocks p = cp_total_blocks p" and "rnd32 1 = 1" and "rnd32 100 = 100"
    and "\<And>n :: nat. 0 < n \<Longrightarrow> rnd32 (real n) \<noteq> 0"
  shows "percent_complete rnd32 p = 100"
proof (cases "cp_total_blocks p = 0")
  case False
  then have "0 < unat (cp_total_blocks p)" by (simp add: unat_gt_0 word_neq_0_conv)
  then have "rnd32 (real (unat (cp_total_blocks p))) \<noteq> 0" by (rule assms(4))
  then show ?thesis using False assms(1-3) by (simp add: percent_complete_def Let_def)
qed (simp add: percent_complete_def)

section \<open>The report of all chains\<close>

text \<open>
  \<open>log_status\<close> walks over the chains in the order of the map and sets their gauges; the lines
  it logs are left out.
\<close>

definition log_status :: "rounding \<Rightarrow> (u64 \<times> chain_progress) list \<Rightarrow> recorder \<Rightarrow> recorder" where
  "log_status rnd32 entries m = fold (\<lambda>(chain_id, p). set_backfill_progress chain_id (percent_complete rnd32 p)) entries m"

lemma progress_gauge:
  "m_gauges (set_backfill_progress c x m) (''forge_backfill_progress'', [chain_label d]) =
     (if c = d then Some x else m_gauges m (''forge_backfill_progress'', [chain_label d]))"
  by (auto simp: set_backfill_progress_def set_gauge_def chain_label_def nat_str_inj dest: unsigned_word_eqI)

text \<open>Afterwards the gauge of every chain shows its own percentage.\<close>

lemma log_status_gauges:
  assumes "distinct (map fst entries)"
  shows "m_gauges (log_status rnd32 entries m) (''forge_backfill_progress'', [chain_label c]) =
    (case map_of entries c of Some p \<Rightarrow> Some (percent_complete rnd32 p)
     | None \<Rightarrow> m_gauges m (''forge_backfill_progress'', [chain_label c]))"
  using assms
proof (induction entries arbitrary: m)
  case (Cons e es)
  obtain d p where e: "e = (d, p)" by (cases e)
  have "map_of es d = None" using Cons.prems e by (simp add: map_of_eq_None_iff)
  then show ?case
    using Cons.IH [of "set_backfill_progress d (percent_complete rnd32 p) m"] Cons.prems e
    by (auto simp: log_status_def progress_gauge split: option.splits)
qed (simp add: log_status_def)

end
