(* ===== verification/Erc20_Backfill.thy ===== *)
theory Erc20_Backfill
  imports Erc20
begin

text \<open>
  The backfill of the ERC-20 indexer from end to end: the indexer is an application in the
  sense of \<open>Backfill_View\<close>, and the tables of its database are described in terms of the
  transfers and approvals of the chain alone.
\<close>

section \<open>Approvals\<close>

definition approval_inputs :: "abi_param list" where
  "approval_inputs = [AbiParam ''owner'' T_Address True, AbiParam ''spender'' T_Address True,
                      AbiParam ''value'' (T_Uint 256) False]"

record approval =
  ap_owner :: bytes
  ap_spender :: bytes
  ap_value :: nat

definition approval_args :: "approval \<Rightarrow> arg list" where
  "approval_args a = zip approval_inputs [V_Address (ap_owner a), V_Address (ap_spender a), V_Uint (ap_value a)]"

definition encodes_approval :: "hash32 \<Rightarrow> approval \<Rightarrow> log \<Rightarrow> bool" where
  "encodes_approval sel a l \<longleftrightarrow>
     length (ap_owner a) = 20 \<and> length (ap_spender a) = 20 \<and> ap_value a < 2 ^ 256 \<and>
     log_topics l = sel # arg_topics (approval_args a) \<and> log_data l = abi_encode (arg_values (approval_args a))"

definition approval_decoded :: "approval \<Rightarrow> log \<Rightarrow> decoded_event" where
  "approval_decoded a l = \<lparr> de_name = ''Approval'', de_contract_name = ''ERC20'',
     de_params = [(''owner'', D_Address (Address (ap_owner a))), (''spender'', D_Address (Address (ap_spender a))),
                  (''value'', D_Uint256 (nat_str (ap_value a)))], de_raw_log = l \<rparr>"

definition knows_approval :: "log_decoder \<Rightarrow> hash32 \<Rightarrow> bool" where
  "knows_approval dec sel \<longleftrightarrow>
     (case dec sel of Some ev \<Rightarrow> ev_name ev = ''Approval'' \<and> ev_inputs ev = approval_inputs | None \<Rightarrow> False)"

lemma decode_approval:
  assumes "knows_approval dec sel" and "encodes_approval sel a l"
  shows "decode dec l ''ERC20'' = Inr (approval_decoded a l)"
proof -
  obtain ev where ev: "dec sel = Some ev" "ev_name ev = ''Approval''" "ev_inputs ev = approval_inputs"
    using assms(1) by (auto simp: knows_approval_def split: option.splits)
  note args = approval_args_def approval_inputs_def
  have "length (log_data l) < 2 ^ 64"
    using assms(2) by (simp add: encodes_approval_def args arg_values_def abi_encode_def)
  then have "decode dec l ''ERC20'' = Inr \<lparr> de_name = ev_name ev, de_contract_name = ''ERC20'',
      de_params = map (\<lambda>(p, v). (param_name p, expected (param_type p) v)) (approval_args a), de_raw_log = l \<rparr>"
    using assms(2) ev
    by (intro decode_encoded_log [of dec sel ev]) (simp_all add: encodes_approval_def args arg_ok_def)
  then show ?thesis using ev(2) by (simp add: approval_decoded_def args)
qed

section \<open>The indexer as an application\<close>

definition erc20_tables :: "string list" where
  "erc20_tables = [''accounts'', ''transfer_events'', ''approval_events'', ''token_stats'']"

text \<open>The three parameters of an event and the rows that its handler adds to a table.\<close>

definition erc20_params :: "indexer_lib \<Rightarrow> decoded_event \<Rightarrow> (string \<times> string \<times> string) option" where
  "erc20_params L e =
     (let x = (if de_name e = ''Transfer'' then ''from'' else ''owner'');
          y = (if de_name e = ''Transfer'' then ''to'' else ''spender'')
      in case (extract_address L e x, extract_address L e y, extract_uint256 L e ''value'') of
           (Inr a, Inr b, Inr v) \<Rightarrow> Some (a, b, v)
         | _ \<Rightarrow> None)"

definition erc20_known :: "indexer_lib \<Rightarrow> decoded_event \<Rightarrow> bool" where
  "erc20_known L e \<longleftrightarrow> de_contract_name e = ''ERC20'' \<and> de_name e \<in> {''Transfer'', ''Approval''} \<and> erc20_params L e \<noteq> None"

definition erc20_rows :: "indexer_lib \<Rightarrow> decoded_event \<Rightarrow> string \<Rightarrow> row list" where
  "erc20_rows L e table =
     (case erc20_params L e of
        None \<Rightarrow> []
      | Some (x, y, v) \<Rightarrow>
          if de_name e = ''Transfer'' then
            (if table = ''accounts'' then [account_row x, account_row y]
             else if table = ''transfer_events'' then [transfer_row L e x y v]
             else if table = ''token_stats'' then [stats_row] else [])
          else (if table = ''accounts'' then [account_row x]
             else if table = ''approval_events'' then [approval_row L e x y v] else []))"

lemma erc20_calls_append:
  assumes "erc20_known L e" and "dom (wb_buffers b) \<subseteq> set erc20_tables"
    and "\<forall>t. length (buffered b t) + 2 \<le> wb_max_size b"
  shows "\<exists>b'. (if de_name e = ''Transfer'' then transfer_call L e b else approval_call L e b) = (Inr (), b') \<and>
    appends (set erc20_tables) (erc20_rows L e) b b'"
proof -
  have room: "length (buffered b t) < wb_max_size b" "Suc (length (buffered b t)) < wb_max_size b" for t
    using assms(3) [rule_format, of t] by simp_all
  have dom: "dom (wb_buffers (set_rows t rows b)) = insert t (dom (wb_buffers b))" for t rows b
    by (auto simp: set_rows_def)
  note defs = seq_def lift_res_def ctx_insert_ok room appends_def same_tables_def dom erc20_tables_def erc20_rows_def
  show ?thesis
  proof (cases "de_name e = ''Transfer''")
    case True
    then obtain x y v where p: "extract_address L e ''from'' = Inr x" "extract_address L e ''to'' = Inr y"
      "extract_uint256 L e ''value'' = Inr v" "erc20_params L e = Some (x, y, v)"
      using assms(1) by (auto simp: erc20_known_def erc20_params_def split: sum.splits)
    show ?thesis using True p assms(2) by (auto simp: transfer_call_def defs)
  next
    case False
    then obtain x y v where p: "extract_address L e ''owner'' = Inr x" "extract_address L e ''spender'' = Inr y"
      "extract_uint256 L e ''value'' = Inr v" "erc20_params L e = Some (x, y, v)"
      using assms(1) by (auto simp: erc20_known_def erc20_params_def split: sum.splits)
    show ?thesis using False p assms(2) by (auto simp: approval_call_def defs)
  qed
qed

text \<open>A coordinator of the indexer.\<close>

definition runs_erc20 :: "indexer_lib \<Rightarrow> ('p, 'j, 'd) coordinator \<Rightarrow> bool" where
  "runs_erc20 L C \<longleftrightarrow>
     co_db_handlers C ''ERC20:Transfer'' = Some (handle_transfer L) \<and>
     co_db_handlers C ''ERC20:Approval'' = Some (handle_approval L) \<and>
     (\<forall>m. dom m \<subseteq> set erc20_tables \<longrightarrow> distinct (co_keys C m) \<and> set (co_keys C m) = dom m)"

lemma erc20_application:
  assumes "runs_erc20 L C"
  shows "backfill_app C (set erc20_tables) (erc20_known L) (erc20_rows L) 2"
proof
  show "t \<in> set erc20_tables \<Longrightarrow> plain_name t" for t by (auto simp: erc20_tables_def plain_name_def)
  show "dom m \<subseteq> set erc20_tables \<Longrightarrow> distinct (co_keys C m) \<and> set (co_keys C m) = dom m" for m
    using assms by (simp add: runs_erc20_def)
  show "length (erc20_rows L e t) \<le> 2" for e t by (simp add: erc20_rows_def split: option.splits prod.splits)
  show "\<exists>b'. handle_event C e s = (Inr (), s\<lparr>ss_buffer := b'\<rparr>) \<and> appends (set erc20_tables) (erc20_rows L e) (ss_buffer s) b'"
    if e: "erc20_known L e" and room: "dom (wb_buffers (ss_buffer s)) \<subseteq> set erc20_tables"
      "\<forall>t. length (buffered (ss_buffer s) t) + 2 \<le> wb_max_size (ss_buffer s)" for e s
  proof -
    obtain b' where b': "(if de_name e = ''Transfer'' then transfer_call L e (ss_buffer s) else approval_call L e (ss_buffer s)) = (Inr (), b')"
      "appends (set erc20_tables) (erc20_rows L e) (ss_buffer s) b'"
      using erc20_calls_append [OF e room] by blast
    have "handle_event C e s = (Inr (), s\<lparr>ss_buffer := b'\<rparr>)"
      using e assms b'(1)
      by (auto simp: erc20_known_def handle_event_def handler_key_def runs_erc20_def on_buffer_def handle_transfer_def
          handle_approval_def as_handler_def outcome_result_def)
    then show ?thesis using b'(2) by blast
  qed
qed

definition erc20_wired :: "indexer_lib \<Rightarrow> ('p, 'j, 'd) coordinator \<Rightarrow> ('p, 'j, 'd) coordinator" where
  "erc20_wired L C = C\<lparr>
     co_db_handlers := [''ERC20:Transfer'' \<mapsto> handle_transfer L, ''ERC20:Approval'' \<mapsto> handle_approval L],
     co_keys := (\<lambda>m. filter (\<lambda>t. m t \<noteq> None) erc20_tables)\<rparr>"

lemma erc20_wired_runs: "runs_erc20 L (erc20_wired L C)"
proof -
  have "distinct erc20_tables" by (simp add: erc20_tables_def)
  then show ?thesis by (auto simp: runs_erc20_def erc20_wired_def)
qed

interpretation erc20_app: backfill_app "erc20_wired L C" "set erc20_tables" "erc20_known L" "erc20_rows L" 2
  for L C
  by (rule erc20_application [OF erc20_wired_runs])

section \<open>The history of the token\<close>

datatype erc20_event = Transfer_Of transfer | Approval_Of approval

type_synonym erc20_history = "(erc20_event \<times> log) list"

fun event_decoded :: "erc20_event \<times> log \<Rightarrow> decoded_event" where
  "event_decoded (Transfer_Of t, l) = transfer_decoded t l"
| "event_decoded (Approval_Of a, l) = approval_decoded a l"

fun encodes_event :: "hash32 \<Rightarrow> hash32 \<Rightarrow> erc20_event \<times> log \<Rightarrow> bool" where
  "encodes_event st sa (Transfer_Of t, l) = encodes_transfer st t l"
| "encodes_event st sa (Approval_Of a, l) = encodes_approval sa a l"

definition in_blocks :: "u64 \<Rightarrow> u64 \<Rightarrow> erc20_event \<times> log \<Rightarrow> bool" where
  "in_blocks a b x \<longleftrightarrow> a \<le> log_block_number (snd x) \<and> log_block_number (snd x) \<le> b"

definition window_logs :: "erc20_history \<Rightarrow> block_range \<Rightarrow> log list" where
  "window_logs hist r = map snd (filter (in_blocks (br_from r) (br_to r)) hist)"

lemma decode_history:
  assumes "knows_transfer dec st" and "knows_approval dec sa" and "list_all (encodes_event st sa) xs"
  shows "decode_logs dec ''ERC20'' (map snd xs) = Inr (map event_decoded xs)"
  using assms(3)
proof (induction xs)
  case (Cons x xs)
  have "decode dec (snd x) ''ERC20'' = Inr (event_decoded x)"
    using Cons.prems decode_transfer [OF assms(1)] decode_approval [OF assms(2)] by (cases x rule: event_decoded.cases) auto
  then show ?case using Cons by simp
qed simp

lemma event_decoded_known: "erc20_known L (event_decoded x)"
  by (cases x rule: event_decoded.cases)
    (simp_all add: erc20_known_def erc20_params_def transfer_params extract_address_def extract_uint256_def event_param_def
      decoded_get_def approval_decoded_def, simp_all add: transfer_decoded_def)

text \<open>The transfers in a history, and the row of one of its entries in the table of transfers.\<close>

fun transfer_in :: "erc20_event \<times> log \<Rightarrow> transfer option" where
  "transfer_in (Transfer_Of t, l) = Some t"
| "transfer_in (Approval_Of a, l) = None"

lemma transfer_event_rows:
  "erc20_rows L (event_decoded x) ''transfer_events'' =
     (case transfer_in x of Some t \<Rightarrow> [stored_row L t (snd x)] | None \<Rightarrow> [])"
proof (cases x rule: event_decoded.cases)
  case (1 t l)
  have "erc20_params L (transfer_decoded t l) = Some (address_to_string (ix_codec L) (Address (tr_from t)),
      address_to_string (ix_codec L) (Address (tr_to t)), nat_str (tr_value t))"
    using transfer_params [of L t l] by (simp add: erc20_params_def transfer_decoded_def [of t l])
  then show ?thesis by (simp add: 1 erc20_rows_def) (simp add: transfer_decoded_def)
next
  case (2 a l)
  then show ?thesis by (auto simp: erc20_rows_def approval_decoded_def split: option.splits)
qed

lemma range_history:
  assumes "knows_transfer (bw_decoder W) st" and "knows_approval (bw_decoder W) sa" and "cc_name (bw_contract W) = ''ERC20''"
    and "list_all (encodes_event st sa) hist"
  shows "\<exists>xs. range_events W (window_logs hist) r = map event_decoded xs \<and>
    mset xs = mset (filter (in_blocks (br_from r) (br_to r)) hist)"
proof -
  let ?xs = "filter (in_blocks (br_from r) (br_to r)) hist"
  have "list_all (encodes_event st sa) ?xs" using assms(4) by (auto simp: list_all_iff)
  then have "range_events W (window_logs hist) r = sort_key event_key (map event_decoded ?xs)"
    using decode_history [OF assms(1,2)] assms(3) by (simp add: range_events_def window_logs_def)
  also have "\<dots> = map event_decoded (sort_key (\<lambda>x. event_key (event_decoded x)) ?xs)" by (rule sort_key_map)
  finally show ?thesis by (intro exI conjI) (assumption, simp)
qed

section \<open>The tables after a backfill\<close>

text \<open>Inserts alone: the first row with a key stays, unless there was one before.\<close>

lemma fold_inserts:
  assumes "list_all is_insert rows"
  shows "fold (apply_row cols pk) rows st k =
    (case st k of Some m \<Rightarrow> Some m
     | None \<Rightarrow> map_option (row_content cols) (find (\<lambda>r. row_key pk r = k) rows))"
  using assms
proof (induction rows arbitrary: st)
  case (Cons r rows)
  then show ?case by (auto simp: apply_row_cases insert_effect_def split: option.splits)
qed (simp split: option.splits)

lemma erc20_row_inserts:
  "is_insert (account_row x)" "is_insert (transfer_row L e x y v)" "is_insert (approval_row L e x y v)" "is_insert stats_row"
  by (simp_all add: account_row_def transfer_row_def approval_row_def stats_row_def row_simps)

lemma erc20_rows_insert:
  assumes "r \<in> set (erc20_rows L e t)"
  shows "is_insert r"
proof (cases "erc20_params L e")
  case (Some p)
  then show ?thesis using assms by (cases p) (auto simp: erc20_rows_def erc20_row_inserts split: if_splits)
qed (use assms in \<open>simp add: erc20_rows_def\<close>)

text \<open>The hypotheses on the world: the contract, its worker, the provider and the state of the cache.\<close>

record erc20_world =
  ew_history :: erc20_history
  ew_transfer_selector :: hash32
  ew_approval_selector :: hash32

definition place :: "erc20_event \<times> log \<Rightarrow> hash32 \<times> u32" where
  "place x = (log_transaction_hash (snd x), log_index (snd x))"

definition good_history :: "erc20_world \<Rightarrow> bool" where
  "good_history H \<longleftrightarrow>
     list_all (encodes_event (ew_transfer_selector H) (ew_approval_selector H)) (ew_history H) \<and>
     list_all (\<lambda>x. wf_hash32 (log_transaction_hash (snd x))) (ew_history H) \<and> distinct (map place (ew_history H))"

definition erc20_worker :: "erc20_world \<Rightarrow> ('p, 'j) backfill_worker \<Rightarrow> bool" where
  "erc20_worker H W \<longleftrightarrow>
     knows_transfer (bw_decoder W) (ew_transfer_selector H) \<and> knows_approval (bw_decoder W) (ew_approval_selector H) \<and>
     cc_name (bw_contract W) = ''ERC20'' \<and> serves W (window_logs (ew_history H))"

text \<open>
  The same from the logs of the whole chain: the contract has one address, the worker asks for
  its two events, the provider is truthful, and the history consists of the logs of that address
  whose first topic is one of the two selectors.
\<close>

definition concerns :: "erc20_world \<Rightarrow> address \<Rightarrow> alloy_log \<Rightarrow> bool" where
  "concerns H a l \<longleftrightarrow>
     al_block_number l \<noteq> None \<and> al_address l = addr_bytes a \<and> al_topics l \<noteq> [] \<and>
     (hd (al_topics l) = hash_bytes (ew_transfer_selector H) \<or> hd (al_topics l) = hash_bytes (ew_approval_selector H))"

definition watches :: "erc20_world \<Rightarrow> address \<Rightarrow> alloy_log list \<Rightarrow> ('p, 'j) backfill_worker \<Rightarrow> bool" where
  "watches H a chain W \<longleftrightarrow>
     knows_transfer (bw_decoder W) (ew_transfer_selector H) \<and> knows_approval (bw_decoder W) (ew_approval_selector H) \<and>
     cc_name (bw_contract W) = ''ERC20'' \<and> bw_addresses W = [a] \<and>
     set (bw_selectors W) = {ew_transfer_selector H, ew_approval_selector H} \<and>
     (\<forall>x j. to_json (e_json_logs (bw_env W)) x = Inr j \<longrightarrow> of_json (e_json_logs (bw_env W)) j = Inr x) \<and>
     truthful (e_provider (bw_env W)) chain \<and>
     map snd (ew_history H) =
       map (\<lambda>l. log_from_alloy (tc_encode (e_codec (bw_env W))) l (e_chain_id (bw_env W))) (filter (concerns H a) chain)"

lemma watches_worker:
  assumes "watches H a chain W"
  shows "erc20_worker H W"
proof -
  let ?conv = "\<lambda>l. log_from_alloy (tc_encode (e_codec (bw_env W))) l (e_chain_id (bw_env W))"
  let ?in = "\<lambda>r l. br_from r \<le> log_block_number l \<and> log_block_number l \<le> br_to r"
  have one: "bw_addresses W \<noteq> []" "bw_selectors W \<noteq> []"
    using assms by (auto simp: watches_def)
  have sel: "hash_bytes ` set (bw_selectors W) = {hash_bytes (ew_transfer_selector H), hash_bytes (ew_approval_selector H)}"
    using assms by (simp add: watches_def)
  have number: "log_block_number (?conv l) = n" if "al_block_number l = Some n" for l n
    using that by (simp add: log_from_alloy_def Let_def unwrap_or_0_def)
  have admits: "admits (to_alloy_filter (worker_filter W r)) l \<longleftrightarrow> ?in r (?conv l) \<and> concerns H a l" for r l
    using assms number unfolding admits_worker_filter [OF one] sel
    by (cases "al_block_number l") (auto simp: watches_def concerns_def)
  have "map ?conv (filter (admits (to_alloy_filter (worker_filter W r))) chain) = window_logs (ew_history H) r" for r
  proof -
    have "window_logs (ew_history H) r = filter (?in r) (map snd (ew_history H))"
      by (simp add: window_logs_def in_blocks_def [abs_def] filter_map comp_def)
    also have "\<dots> = map ?conv (filter (\<lambda>l. ?in r (?conv l) \<and> concerns H a l) chain)"
      using assms by (simp add: watches_def filter_map comp_def conj_commute)
    also have "\<dots> = map ?conv (filter (admits (to_alloy_filter (worker_filter W r))) chain)"
      by (simp only: admits cong: filter_cong)
    finally show ?thesis ..
  qed
  moreover have "als = filter (admits f) chain" if "p_get_logs (e_provider (bw_env W)) f n = (Inr als, n')" for f als n n'
    using assms that unfolding watches_def truthful_def by blast
  ultimately have "serves W (window_logs (ew_history H))" using assms by (simp add: serves_def watches_def) blast
  then show ?thesis using assms by (simp add: erc20_worker_def watches_def)
qed

definition ready_to_run :: "('p, 'j, 'd) coordinator \<Rightarrow> u64 \<Rightarrow> contract_config \<Rightarrow> u64 \<Rightarrow> bool" where
  "ready_to_run C c k current \<longleftrightarrow>
     co_fail C = no_fail \<and> co_chain_contracts C c = Some [k] \<and> cc_name k = ''ERC20'' \<and>
     0 < chunk_of C c \<and> unat current + unat (chunk_of C c) < 2 ^ 64"

text \<open>The ranges of a run that starts in this state: none is cached and none has too many logs.\<close>

definition fresh_ranges ::
  "('p, 'j, 'd) coordinator \<Rightarrow> u64 \<Rightarrow> contract_config \<Rightarrow> u64 \<Rightarrow> erc20_world \<Rightarrow> ('p, 'j) backfill_worker
   \<Rightarrow> ('p, 'j, 'd) sync_state \<Rightarrow> bool" where
  "fresh_ranges C c k current H W s \<longleftrightarrow>
     (\<exists>p. plan k c current (checkpoints s (c, cc_name k)) (chunk_of C c) = Some (Inr p) \<and>
       uncached W (bp_ranges p) (cs_db (ss_client s)) \<and>
       (\<forall>r \<in> set (bp_ranges p). length (window_logs (ew_history H) r) \<le> 5000))"

definition indexed :: "erc20_world \<Rightarrow> u64 \<Rightarrow> u64 \<Rightarrow> erc20_history" where
  "indexed H start current = filter (in_blocks start current) (ew_history H)"

lemma new_buffer_clean: "clean tables (new_buffer pg S)"
proof -
  have "wb_buffers (foldl add_table b ts) = wb_buffers b" for b ts
    by (induction ts arbitrary: b) (auto simp: add_table_def Let_def split: option.splits)
  then show ?thesis by (simp add: clean_def new_buffer_def buffered_def)
qed

lemma ranges_cover:
  assumes "plan k c current cp chunk = Some (Inr p)" and "0 < chunk" and "unat current + unat chunk < 2 ^ 64"
    and "start = (case cp of Some b \<Rightarrow> b | None \<Rightarrow> cc_start_block k)"
  shows "(\<exists>r \<in> set (bp_ranges p). in_blocks (br_from r) (br_to r) x) \<longleftrightarrow> in_blocks start current x"
proof -
  let ?n = "unat (log_block_number (snd x))"
  have mem: "in_blocks (br_from r) (br_to r) x \<longleftrightarrow> ?n \<in> set (range_blocks r)" for r
    by (auto simp: in_blocks_def range_blocks_def word_le_nat_alt)
  have "(\<exists>r \<in> set (bp_ranges p). ?n \<in> set (range_blocks r)) \<longleftrightarrow> ?n \<in> set (concat (map range_blocks (bp_ranges p)))"
    by simp
  also have "\<dots> \<longleftrightarrow> ?n \<in> set [unat start..<unat current + 1]"
    unfolding plan_bounds(1) [OF assms(1-3)] assms(4) ..
  also have "\<dots> \<longleftrightarrow> in_blocks start current x" by (auto simp: in_blocks_def word_le_nat_alt)
  finally show ?thesis by (simp only: mem)
qed

lemma fold_ranges:
  fixes C :: "('p, 'j, 'd) coordinator" and W :: "('p, 'j) backfill_worker"
  assumes app: "backfill_app C tables known rows_of width" and "\<And>e r. r \<in> set (rows_of e t) \<Longrightarrow> is_insert r"
  shows "fold (backfill_app.range_effect rows_of W chain t cols pk) rs st =
    fold (apply_row cols pk) (concat (map (\<lambda>r. concat (map (\<lambda>e. rows_of e t) (range_events W chain r))) rs)) st"
proof (induction rs arbitrary: st)
  case (Cons r rs)
  have "list_all is_insert (concat (map (\<lambda>e. rows_of e t) (range_events W chain r)))"
    using assms(2) by (auto simp: list_all_iff)
  then show ?case using Cons by (simp add: backfill_app.range_effect_def [OF app] flush_order_inserts)
qed simp

lemma range_history_set:
  assumes "erc20_worker H W" and "good_history H"
  shows "set (range_events W (window_logs (ew_history H)) r) =
    event_decoded ` {x \<in> set (ew_history H). in_blocks (br_from r) (br_to r) x}"
proof -
  let ?in = "filter (in_blocks (br_from r) (br_to r)) (ew_history H)"
  obtain xs where xs: "range_events W (window_logs (ew_history H)) r = map event_decoded xs" "mset xs = mset ?in"
    using range_history [of W "ew_transfer_selector H" "ew_approval_selector H" "ew_history H" r] assms
    by (auto simp: erc20_worker_def good_history_def)
  show ?thesis using mset_eq_setD [OF xs(2)] by (simp add: xs(1))
qed

lemma range_history_length:
  assumes "erc20_worker H W" and "good_history H"
  shows "length (range_events W (window_logs (ew_history H)) r) = length (window_logs (ew_history H) r)"
proof -
  let ?in = "filter (in_blocks (br_from r) (br_to r)) (ew_history H)"
  obtain xs where xs: "range_events W (window_logs (ew_history H)) r = map event_decoded xs" "mset xs = mset ?in"
    using range_history [of W "ew_transfer_selector H" "ew_approval_selector H" "ew_history H" r] assms
    by (auto simp: erc20_worker_def good_history_def)
  show ?thesis using mset_eq_length [OF xs(2)] by (simp add: xs(1) window_logs_def)
qed

lemma erc20_chain_table:
  assumes app: "runs_erc20 L C" "ready_to_run C c k current" and worker: "co_workers C (c, ''ERC20'') = Some W" "erc20_worker H W"
    and history: "good_history H" and fresh: "fresh_ranges C c k current H W s"
    and buffer: "ss_buffer s = new_buffer pg erc20_schema"
    and table: "table_ok pg t cols pk" "wb_table_columns (ss_buffer s) t = Some cols" "wb_pk_columns (ss_buffer s) t = Some pk"
    and server: "sql_tables (co_exec C) view storable (co_renderer C) pg t cols pk"
    and storable: "\<forall>x \<in> set (ew_history H). list_all storable (erc20_rows L (event_decoded x) t)"
    and run: "run_chain C c current s = Some (Inr (), s')"
  obtains rows where "\<And>key. view (ss_db s') key = (case view (ss_db s) key of Some m \<Rightarrow> Some m
      | None \<Rightarrow> map_option (row_content cols) (find (\<lambda>r. row_key pk r = key) rows))"
    and "set rows = (\<Union>x \<in> set (indexed H (next_start c k s) current). set (erc20_rows L (event_decoded x) t))"
proof -
  note ready = app(2) [unfolded ready_to_run_def]
  obtain p where plan: "plan k c current (checkpoints s (c, cc_name k)) (chunk_of C c) = Some (Inr p)"
    and cache: "uncached W (bp_ranges p) (cs_db (ss_client s))"
    and few: "\<forall>r \<in> set (bp_ranges p). length (window_logs (ew_history H) r) \<le> 5000"
    using fresh by (auto simp: fresh_ranges_def)
  let ?chain = "window_logs (ew_history H)"
  let ?rows = "concat (map (\<lambda>r. concat (map (\<lambda>e. erc20_rows L e t) (range_events W ?chain r))) (bp_ranges p))"
  note events = range_history_set [OF worker(2) history] and len = range_history_length [OF worker(2) history]
  have fits: "\<forall>r \<in> set (bp_ranges p). backfill_app.range_fits (erc20_known L) 2 W ?chain (wb_max_size (ss_buffer s)) r \<and>
      list_all storable (concat (map (\<lambda>e. erc20_rows L e t) (range_events W ?chain r)))"
    using few storable event_decoded_known events len
    by (auto simp: backfill_app.range_fits_def [OF erc20_application [OF app(1)]] list_all_iff buffer)
  have view: "view (ss_db s') = fold (apply_row cols pk) ?rows (view (ss_db s))"
    using backfill_app.chain_view(1) [OF erc20_application [OF app(1)], of view storable s t cols pk c k current p W ?chain s']
      server table ready plan worker fits cache run buffer new_buffer_clean erc20_buffer(5)
    by (simp add: fold_ranges [OF erc20_application [OF app(1)] erc20_rows_insert] erc20_worker_def)
  have "list_all is_insert ?rows" using erc20_rows_insert by (auto simp: list_all_iff)
  note final = fold_inserts [OF this, of cols pk "view (ss_db s)"]
  have "set ?rows = (\<Union>x \<in> {x \<in> set (ew_history H). \<exists>r \<in> set (bp_ranges p). in_blocks (br_from r) (br_to r) x}.
      set (erc20_rows L (event_decoded x) t))"
    using events by auto
  also have "\<dots> = (\<Union>x \<in> set (indexed H (next_start c k s) current). set (erc20_rows L (event_decoded x) t))"
    using ranges_cover [OF plan, of "next_start c k s"] ready by (simp add: indexed_def next_start_def)
  finally show thesis using final by (intro that [of ?rows]) (simp_all add: view)
qed

lemma find_only:
  assumes "r \<in> set rows" and "P r" and "\<And>r'. r' \<in> set rows \<Longrightarrow> P r' \<Longrightarrow> r' = r"
  shows "find P rows = Some r"
proof (cases "find P rows")
  case None
  then show ?thesis using assms(1,2) by (auto simp: find_None_iff)
next
  case (Some r')
  then have "r' \<in> set rows" "P r'" by (auto simp: find_Some_iff)
  then show ?thesis using assms(3) Some by blast
qed

lemma run_chain_returns:
  assumes "ready_to_run C c k current"
  shows "run_chain C c current s \<noteq> None"
proof -
  obtain ps db where "make_plans C c current [k] (cs_db (ss_client s)) = Some (Inr ps, db)"
    using make_plans_ok [of C c current "[k]" "cs_db (ss_client s)"] assms unfolding ready_to_run_def by blast
  then show ?thesis using assms by (simp add: run_chain_def ready_to_run_def Let_def del: make_plans.simps split: sum.splits)
qed

lemma transfer_rows_in:
  "r \<in> (\<Union>x \<in> set xs. set (erc20_rows L (event_decoded x) ''transfer_events'')) \<longleftrightarrow>
     (\<exists>x t. x \<in> set xs \<and> transfer_in x = Some t \<and> r = stored_row L t (snd x))"
  unfolding transfer_event_rows by (force split: option.splits)

lemma same_transfer:
  assumes "codec_ok (ix_codec L)" and "good_history H" and "x \<in> set (ew_history H)" and "y \<in> set (ew_history H)"
    and "transfer_key L (snd x) = transfer_key L (snd y)"
  shows "x = y"
proof -
  have "event_id L (transfer_decoded undefined (snd x)) = event_id L (transfer_decoded undefined (snd y))"
    using assms(5) by (simp add: transfer_key_def event_id_def transfer_decoded_def)
  then have "place x = place y"
    using event_id_inj [OF assms(1)] assms(2-4) by (simp add: place_def good_history_def list_all_iff)
  then show ?thesis using assms(2-4) by (auto simp: good_history_def distinct_map inj_on_def)
qed

lemma erc20_transfers_after_run:
  assumes app: "runs_erc20 L C" "ready_to_run C c k current"
    and worker: "co_workers C (c, ''ERC20'') = Some W" "erc20_worker H W"
    and history: "good_history H" "codec_ok (ix_codec L)" and fresh: "fresh_ranges C c k current H W s"
    and buffer: "ss_buffer s = new_buffer pg erc20_schema" "plain_name pg"
    and server: "sql_tables (co_exec C) view storable (co_renderer C) pg ''transfer_events'' transfer_columns ''id''"
    and storable: "\<forall>x t. x \<in> set (ew_history H) \<longrightarrow> transfer_in x = Some t \<longrightarrow> storable (stored_row L t (snd x))"
    and inside: "xs = indexed H (next_start c k s) current"
    and new: "\<forall>x \<in> set xs. view (ss_db s) (transfer_key L (snd x)) = None"
    and run: "run_chain C c current s = Some (Inr (), s')"
  shows "x \<in> set xs \<Longrightarrow> transfer_in x = Some t \<Longrightarrow>
      \<exists>m. view (ss_db s') (transfer_key L (snd x)) = Some m \<and> records_transfer L t (snd x) m"
    and "(\<And>x t. x \<in> set xs \<Longrightarrow> transfer_in x = Some t \<Longrightarrow> key \<noteq> transfer_key L (snd x)) \<Longrightarrow>
      view (ss_db s') key = view (ss_db s) key"
proof -
  have storable': "\<forall>x \<in> set (ew_history H). list_all storable (erc20_rows L (event_decoded x) ''transfer_events'')"
    using storable by (auto simp: transfer_event_rows split: option.splits)
  obtain rows where view: "\<And>key. view (ss_db s') key = (case view (ss_db s) key of Some m \<Rightarrow> Some m
      | None \<Rightarrow> map_option (row_content transfer_columns) (find (\<lambda>r. row_key ''id'' r = key) rows))"
    and set_rows: "set rows = (\<Union>x \<in> set xs. set (erc20_rows L (event_decoded x) ''transfer_events''))"
    unfolding inside
    by (rule erc20_chain_table [OF app worker history(1) fresh buffer(1) erc20_tables_ok(1) [OF buffer(2)] _ _ server storable' run])
      (simp_all add: buffer(1) erc20_buffer)
  have rows: "r \<in> set rows \<longleftrightarrow> (\<exists>x t. x \<in> set xs \<and> transfer_in x = Some t \<and> r = stored_row L t (snd x))" for r
    unfolding set_rows by (rule transfer_rows_in)
  show "\<exists>m. view (ss_db s') (transfer_key L (snd x)) = Some m \<and> records_transfer L t (snd x) m"
    if x: "x \<in> set xs" "transfer_in x = Some t"
  proof -
    have "find (\<lambda>r. row_key ''id'' r = transfer_key L (snd x)) rows = Some (stored_row L t (snd x))"
    proof (rule find_only)
      fix r assume r: "r \<in> set rows" "row_key ''id'' r = transfer_key L (snd x)"
      obtain y u where y: "y \<in> set xs" "transfer_in y = Some u" "r = stored_row L u (snd y)" using rows r(1) by blast
      have "transfer_key L (snd y) = transfer_key L (snd x)" using r(2) stored_row_props(2) [of L u "snd y"] y(3) by simp
      then have "y = x" using same_transfer [OF history(2,1), of y x] y(1) x(1) by (simp add: inside indexed_def)
      then show "r = stored_row L t (snd x)" using y x(2) by simp
    next
      show "stored_row L t (snd x) \<in> set rows" using rows x by blast
    qed (rule stored_row_props(2))
    then show ?thesis using new x(1) stored_row_props(3) [of L t "snd x"] by (simp add: view)
  qed
  show "view (ss_db s') key = view (ss_db s) key"
    if "\<And>x t. x \<in> set xs \<Longrightarrow> transfer_in x = Some t \<Longrightarrow> key \<noteq> transfer_key L (snd x)"
  proof -
    have "find (\<lambda>r. row_key ''id'' r = key) rows = None" using rows that stored_row_props(2) by (force simp: find_None_iff)
    then show ?thesis by (simp add: view split: option.splits)
  qed
qed


section \<open>A database for the indexer\<close>

definition erc20_shapes :: "string \<rightharpoonup> table_shape" where
  "erc20_shapes = [
     ''accounts'' \<mapsto> \<lparr> sh_columns = account_columns, sh_pk = ''address'',
        sh_kind = (\<lambda>c. if c = ''approval_count'' then K_Int else K_Text) \<rparr>,
     ''transfer_events'' \<mapsto> \<lparr> sh_columns = transfer_columns, sh_pk = ''id'', sh_kind = transfer_kind \<rparr>,
     ''approval_events'' \<mapsto> \<lparr> sh_columns = [''id'', ''owner'', ''spender'', ''value'', ''block_number'', ''tx_hash''],
        sh_pk = ''id'', sh_kind = transfer_kind \<rparr>,
     ''token_stats'' \<mapsto> \<lparr> sh_columns = [''id'', ''total_transfers'', ''total_approvals'', ''unique_holders''],
        sh_pk = ''id'', sh_kind = (\<lambda>c. if c = ''id'' then K_Text else K_BigInt) \<rparr>]"

lemma erc20_shapes_buffer:
  assumes "erc20_shapes t = Some sh"
  shows "wb_table_columns (new_buffer pg erc20_schema) t = Some (sh_columns sh)"
    and "plain_name pg \<Longrightarrow> table_ok pg t (sh_columns sh) (sh_pk sh)"
  using assms
  by (auto simp: erc20_shapes_def new_buffer_def schema_simps add_table_def pk_of_table_def transfer_columns_def
      account_columns_def table_ok_def plain_name_def split: if_splits)

text \<open>Rows that the table of this name can hold.\<close>

definition holds_rows :: "string \<Rightarrow> row list \<Rightarrow> bool" where
  "holds_rows t rows \<longleftrightarrow> rows = [] \<or>
     (case erc20_shapes t of None \<Rightarrow> False | Some sh \<Rightarrow> list_all (typed_storable (sh_kind sh) (sh_pk sh)) rows)"

lemma erc20_row_storable:
  "holds_rows ''accounts'' [account_row x]" "holds_rows ''token_stats'' [stats_row]"
  "0 \<le> sint (log_block_number (de_raw_log e)) \<Longrightarrow> list_all is_digit v \<Longrightarrow> v \<noteq> [] \<Longrightarrow> holds_rows ''transfer_events'' [transfer_row L e x y v]"
  "0 \<le> sint (log_block_number (de_raw_log e)) \<Longrightarrow> list_all is_digit v \<Longrightarrow> v \<noteq> [] \<Longrightarrow> holds_rows ''approval_events'' [approval_row L e x y v]"
  by (simp_all add: holds_rows_def erc20_shapes_def typed_storable_def account_row_def stats_row_def transfer_row_def
      approval_row_def row_simps transfer_kind_def is_digit_def)

lemma holds_rows_append: "holds_rows t (xs @ ys) \<longleftrightarrow> holds_rows t xs \<and> holds_rows t ys"
  by (auto simp: holds_rows_def split: option.splits)

lemma holds_rows_Cons: "holds_rows t (x # xs) \<longleftrightarrow> holds_rows t [x] \<and> holds_rows t xs"
  using holds_rows_append [of t "[x]" xs] by simp

lemma erc20_params_decoded:
  "\<exists>x y v. erc20_params L (event_decoded e) = Some (x, y, v) \<and> list_all is_digit v \<and> v \<noteq> []"
  by (cases e rule: event_decoded.cases)
    (simp_all add: erc20_params_def transfer_params extract_address_def extract_uint256_def event_param_def
      decoded_get_def approval_decoded_def nat_str_digits, simp_all add: transfer_decoded_def nat_str_digits)

lemma de_raw_log_decoded [simp]: "de_raw_log (event_decoded e) = snd e"
  by (cases e rule: event_decoded.cases) (simp_all add: transfer_decoded_def approval_decoded_def)

lemma erc20_rows_held:
  assumes "0 \<le> sint (log_block_number (snd e))"
  shows "holds_rows t (erc20_rows L (event_decoded e) t)"
proof -
  obtain x y v where "erc20_params L (event_decoded e) = Some (x, y, v)" "list_all is_digit v" "v \<noteq> []"
    using erc20_params_decoded by blast
  then show ?thesis using assms erc20_row_storable
    by (auto simp: erc20_rows_def holds_rows_Cons [of _ _ "[_]"] holds_rows_def [of _ "[]"])
qed

lemma erc20_server_takes:
  assumes "holds_rows t rows" and "list_all is_insert rows" and "plain_name pg"
  shows "takes R (tables_exec pg erc20_shapes) (new_buffer pg erc20_schema) t rows"
proof (cases "rows = []")
  case False
  then obtain sh where sh: "erc20_shapes t = Some sh" "list_all (typed_storable (sh_kind sh) (sh_pk sh)) rows"
    using assms(1) by (auto simp: holds_rows_def split: option.splits)
  note ok = erc20_shapes_buffer(2) [OF sh(1) assms(3)]
  have "\<exists>d'. tables_exec pg erc20_shapes (insert_sql R pg t (sh_columns sh) rows) d = (Inr (), d')" for d
  proof -
    obtain x where "text_exec pg t (sh_columns sh) (sh_pk sh) (insert_sql R pg t (sh_columns sh) rows) (d t) = (Inr (), x)"
      using typed_insert_accepted [OF ok False sh(2)] by blast
    then show ?thesis
      using tables_exec_accepts [OF assms(3) _ table_statementI(1), of t erc20_shapes sh R _ rows d x] ok sh(1)
      by (auto simp: table_ok_def)
  qed
  then show ?thesis using assms(2) erc20_shapes_buffer(1) [OF sh(1)] erc20_buffer(5) by (auto simp: takes_def)
qed (simp add: takes_def)

section \<open>A backfill that succeeds\<close>

lemma range_history_known:
  assumes "erc20_worker H W" and "good_history H"
  shows "list_all (erc20_known L) (range_events W (window_logs (ew_history H)) r)"
  using range_history_set [OF assms] event_decoded_known by (auto simp: list_all_iff)

lemma range_decodes:
  assumes "erc20_worker H W" and "good_history H"
  shows "\<exists>es. decode_logs (bw_decoder W) (cc_name (bw_contract W)) (window_logs (ew_history H) r) = Inr es"
  using decode_history [of "bw_decoder W" "ew_transfer_selector H" "ew_approval_selector H"
      "filter (in_blocks (br_from r) (br_to r)) (ew_history H)"] assms
  by (auto simp: erc20_worker_def good_history_def window_logs_def list_all_iff)

lemma range_rows_held:
  assumes "erc20_worker H W" and "good_history H" and "\<forall>x \<in> set (ew_history H). 0 \<le> sint (log_block_number (snd x))"
  shows "holds_rows t (concat (map (\<lambda>e. erc20_rows L e t) (range_events W (window_logs (ew_history H)) r))) \<and>
    list_all is_insert (concat (map (\<lambda>e. erc20_rows L e t) (range_events W (window_logs (ew_history H)) r)))"
proof
  have "holds_rows t (concat (map (\<lambda>e. erc20_rows L e t) es))" if "\<forall>e \<in> set es. holds_rows t (erc20_rows L e t)" for es
    using that by (induction es) (simp_all add: holds_rows_append, simp add: holds_rows_def)
  then show "holds_rows t (concat (map (\<lambda>e. erc20_rows L e t) (range_events W (window_logs (ew_history H)) r)))"
    using range_history_set [OF assms(1,2)] assms(3) erc20_rows_held by auto
  show "list_all is_insert (concat (map (\<lambda>e. erc20_rows L e t) (range_events W (window_logs (ew_history H)) r)))"
    using erc20_rows_insert by (auto simp: list_all_iff)
qed

lemma erc20_run_succeeds:
  assumes app: "runs_erc20 L C" "ready_to_run C c k current"
    and worker: "co_workers C (c, ''ERC20'') = Some W" "erc20_worker H W" "answers W (window_logs (ew_history H))"
    and history: "good_history H" "\<forall>x \<in> set (ew_history H). 0 \<le> sint (log_block_number (snd x))"
    and fresh: "fresh_ranges C c k current H W s" and buffer: "ss_buffer s = new_buffer pg erc20_schema"
    and database: "\<And>t rows. holds_rows t rows \<Longrightarrow> list_all is_insert rows \<Longrightarrow>
      takes (co_renderer C) (co_exec C) (new_buffer pg erc20_schema) t rows"
  shows "\<exists>s'. run_chain C c current s = Some (Inr (), s') \<and> clean (set erc20_tables) (ss_buffer s')"
proof -
  note ready = app(2) [unfolded ready_to_run_def]
  obtain p where plan: "plan k c current (checkpoints s (c, cc_name k)) (chunk_of C c) = Some (Inr p)"
    and cache: "uncached W (bp_ranges p) (cs_db (ss_client s))"
    and few: "\<forall>r \<in> set (bp_ranges p). length (window_logs (ew_history H) r) \<le> 5000"
    using fresh by (auto simp: fresh_ranges_def)
  let ?chain = "window_logs (ew_history H)"
  have "backfill_app.range_healthy C (erc20_known L) (erc20_rows L) 2 W ?chain (ss_buffer s) r" if "r \<in> set (bp_ranges p)" for r
    using range_rows_held [OF worker(2) history] range_decodes [OF worker(2) history(1)] database few that
      range_history_length [OF worker(2) history(1)] range_history_known [OF worker(2) history(1)] buffer
    by (simp add: backfill_app.range_healthy_def [OF erc20_application [OF app(1)]]
        backfill_app.range_fits_def [OF erc20_application [OF app(1)]])
  then show ?thesis
    using backfill_app.chain_succeeds [OF erc20_application [OF app(1)], of c k current s p W ?chain] ready plan worker cache
      buffer new_buffer_clean by (simp add: erc20_worker_def)
qed

text \<open>
  Property C2. With a provider that answers and a database that takes rows that fit its columns,
  the backfill of the ERC-20 indexer succeeds on every history of transfers and approvals whose
  ranges fit the buffer: no log of the chain makes the decoder, a handler or a statement fail. The
  buffer is empty afterwards.
\<close>

theorem erc20_backfill_succeeds:
  assumes app: "runs_erc20 L C" "ready_to_run C c k current"
    and worker: "co_workers C (c, ''ERC20'') = Some W" "erc20_worker H W" "answers W (window_logs (ew_history H))"
    and history: "good_history H" "\<forall>x \<in> set (ew_history H). 0 \<le> sint (log_block_number (snd x))"
    and fresh: "fresh_ranges C c k current H W s" and buffer: "ss_buffer s = new_buffer pg erc20_schema"
    and database: "\<And>t rows. holds_rows t rows \<Longrightarrow> list_all is_insert rows \<Longrightarrow>
      takes (co_renderer C) (co_exec C) (new_buffer pg erc20_schema) t rows"
  shows "\<exists>s'. run_chain C c current s = Some (Inr (), s') \<and> clean (set erc20_tables) (ss_buffer s')"
  using assms by (rule erc20_run_succeeds)

section \<open>A world with one transfer\<close>

definition sample_transfer :: transfer where
  "sample_transfer = \<lparr> tr_from = replicate 20 1, tr_to = replicate 20 2, tr_value = 5 \<rparr>"

definition sample_alloy_log :: alloy_log where
  "sample_alloy_log = \<lparr> al_address = replicate 20 0,
     al_topics = replicate 32 1 # map hash_bytes (arg_topics (transfer_args sample_transfer)),
     al_data = abi_encode (arg_values (transfer_args sample_transfer)), al_block_hash = None,
     al_block_number = Some 7, al_transaction_hash = None, al_transaction_index = None, al_log_index = Some 3 \<rparr>"

definition sample_log :: log where
  "sample_log = log_from_alloy (tc_encode ref_codec) sample_alloy_log 1"

definition sample_world :: erc20_world where
  "sample_world = \<lparr> ew_history = [(Transfer_Of sample_transfer, sample_log)],
     ew_transfer_selector = Hash32 (replicate 32 1), ew_approval_selector = Hash32 (replicate 32 2) \<rparr>"

text \<open>The chain has a log of another contract too.\<close>

definition sample_chain :: "alloy_log list" where
  "sample_chain = [sample_alloy_log, sample_alloy_log\<lparr>al_address := replicate 20 9\<rparr>]"

definition sample_provider :: "unit provider" where
  "sample_provider = \<lparr>
     p_get_logs = (\<lambda>f s. (Inr (filter (admits f) sample_chain), s)),
     p_get_block_by_number = (\<lambda>_ s. (Inl [], s)), p_get_block_by_hash = (\<lambda>_ s. (Inl [], s)),
     p_get_transaction_by_hash = (\<lambda>_ s. (Inl [], s)), p_get_block_number = (\<lambda>s. (Inl [], s)),
     p_call = (\<lambda>_ _ _ s. (Inl [], s)) \<rparr>"

definition sample_env :: "(unit, alloy_log list) client_env" where
  "sample_env = \<lparr> e_codec = ref_codec, e_sha256 = (\<lambda>b. b), e_fail = no_fail, e_provider = sample_provider,
     e_chain_id = 1, e_json_logs = \<lparr> to_json = Inr, of_json = Inr \<rparr>, e_json_block = no_json,
     e_json_alloy_tx = no_json, e_json_tx = no_json, e_json_null = [] \<rparr>"

definition sample_decoder :: log_decoder where
  "sample_decoder = [Hash32 (replicate 32 1) \<mapsto> transfer_event,
     Hash32 (replicate 32 2) \<mapsto> \<lparr> ev_name = ''Approval'', ev_signature = ''Approval(address,address,uint256)'',
       ev_selector = Hash32 (replicate 32 2), ev_inputs = approval_inputs \<rparr>]"

definition sample_contract :: contract_config where
  "sample_contract = demo_contract\<lparr>cc_name := ''ERC20'', cc_start_block := 5\<rparr>"

definition sample_worker :: "(unit, alloy_log list) backfill_worker" where
  "sample_worker = \<lparr> bw_env = sample_env, bw_decoder = sample_decoder, bw_contract = sample_contract,
     bw_chain_id = 1, bw_selectors = [Hash32 (replicate 32 1), Hash32 (replicate 32 2)],
     bw_addresses = [Address (replicate 20 0)] \<rparr>"

definition sample_coordinator :: "(unit, alloy_log list, string \<Rightarrow> table_state) coordinator" where
  "sample_coordinator = erc20_wired demo_lib \<lparr> co_workers = [(1, ''ERC20'') \<mapsto> sample_worker], co_registry = Map.empty,
     co_db_handlers = Map.empty, co_renderer = plain_renderer, co_exec = tables_exec ''public'' erc20_shapes,
     co_keys = (\<lambda>_. []), co_fail = no_fail, co_chain_contracts = [1 \<mapsto> [sample_contract]], co_chunk_sizes = [1 \<mapsto> 3] \<rparr>"

definition sample_sync :: "(unit, alloy_log list, string \<Rightarrow> table_state) sync_state" where
  "sample_sync = \<lparr> ss_client = \<lparr> cs_net = (), cs_db = empty_cache, cs_hits = 0, cs_misses = 0 \<rparr>,
     ss_buffer = new_buffer ''public'' erc20_schema, ss_db = (\<lambda>_. Map.empty), ss_progress = Map.empty \<rparr>"

lemma sample_log_fields [simp]:
  "log_block_number sample_log = 7" "log_transaction_hash sample_log = zero_hash32"
  by (simp_all add: sample_log_def log_from_alloy_def sample_alloy_log_def Let_def hash_or_zero_def unwrap_or_0_def)

lemma sample_history: "good_history sample_world" "\<forall>x \<in> set (ew_history sample_world). 0 \<le> sint (log_block_number (snd x))"
proof -
  have "encodes_transfer (Hash32 (replicate 32 1)) sample_transfer sample_log"
    by (simp add: encodes_transfer_def sample_log_def log_from_alloy_def sample_alloy_log_def Let_def comp_def)
      (simp add: sample_transfer_def)
  then show "good_history sample_world" by (simp add: good_history_def sample_world_def wf_hash32_def zero_hash32_def)
qed (simp add: sample_world_def)

lemma sample_logs:
  "window_logs (ew_history sample_world) r = (if br_from r \<le> 7 \<and> 7 \<le> br_to r then [sample_log] else [])"
  by (simp add: window_logs_def sample_world_def in_blocks_def)

lemma sample_provider_logs:
  "p_get_logs sample_provider (to_alloy_filter (worker_filter sample_worker r)) n =
     (Inr (if br_from r \<le> 7 \<and> 7 \<le> br_to r then [sample_alloy_log] else []), n)"
proof -
  have "bw_addresses sample_worker \<noteq> []" "bw_selectors sample_worker \<noteq> []" by (simp_all add: sample_worker_def)
  note admits = admits_worker_filter [OF this]
  have "filter (admits (to_alloy_filter (worker_filter sample_worker r))) sample_chain =
      (if br_from r \<le> 7 \<and> 7 \<le> br_to r then [sample_alloy_log] else [])"
    by (simp add: sample_chain_def admits) (simp add: sample_alloy_log_def sample_worker_def)
  then show ?thesis by (simp add: sample_provider_def)
qed

lemma sample_worker_env: "bw_env sample_worker = sample_env"
  by (simp add: sample_worker_def)

lemma sample_answers: "answers sample_worker (window_logs (ew_history sample_world))"
proof -
  have "client_get_logs (tc_encode ref_codec) \<lparr> to_json = Inr, of_json = Inr \<rparr> sample_provider 1 (worker_filter sample_worker r) n =
      (Inr (window_logs (ew_history sample_world) r), n)" for r n
    by (simp add: client_get_logs_def with_retry_def seq_def transport_def map_err_def sample_provider_logs lift_res_def
        to_json_or_def of_json_or_def ret_def sample_logs sample_log_def)
  then show ?thesis by (simp add: answers_def sample_worker_env sample_env_def)
qed

lemma sample_watches: "watches sample_world (Address (replicate 20 0)) sample_chain sample_worker"
proof -
  have "truthful sample_provider sample_chain" by (simp add: truthful_def sample_provider_def)
  moreover have "map snd (ew_history sample_world) =
      map (\<lambda>l. log_from_alloy (tc_encode ref_codec) l 1) (filter (concerns sample_world (Address (replicate 20 0))) sample_chain)"
    by (simp add: sample_world_def sample_chain_def concerns_def sample_log_def) (simp add: sample_alloy_log_def)
  moreover have "Hash32 (replicate 32 1) \<noteq> Hash32 (replicate 32 2)" by simp
  ultimately show ?thesis
    by (simp add: watches_def sample_worker_env)
      (simp add: sample_worker_def sample_env_def sample_decoder_def sample_world_def sample_contract_def
        knows_transfer_def knows_approval_def transfer_event_def)
qed

lemmas sample_worker_ok = watches_worker [OF sample_watches]

lemma sample_chunk: "chunk_of sample_coordinator 1 = 3"
  by (simp add: chunk_of_def sample_coordinator_def erc20_wired_def)

lemma sample_ready: "runs_erc20 demo_lib sample_coordinator" "ready_to_run sample_coordinator 1 sample_contract 9"
  "co_workers sample_coordinator (1, ''ERC20'') = Some sample_worker" "co_renderer sample_coordinator = plain_renderer"
  "co_exec sample_coordinator = tables_exec ''public'' erc20_shapes"
  using sample_chunk
  by (simp_all add: ready_to_run_def sample_coordinator_def erc20_wired_runs)
    (simp_all add: erc20_wired_def sample_contract_def)

lemma sample_fresh: "fresh_ranges sample_coordinator 1 sample_contract 9 sample_world sample_worker sample_sync"
proof -
  obtain p where "plan sample_contract 1 9 (checkpoints sample_sync (1, cc_name sample_contract)) (chunk_of sample_coordinator 1) =
      Some (Inr p)"
    using plan_ok [of "chunk_of sample_coordinator 1" 9 sample_contract 1 "checkpoints sample_sync (1, cc_name sample_contract)"]
    by (auto simp: sample_chunk)
  then show ?thesis by (auto simp: fresh_ranges_def uncached_def sample_sync_def empty_cache_def sample_logs)
qed

lemma sample_buffer: "ss_buffer sample_sync = new_buffer ''public'' erc20_schema" "plain_name ''public''"
  by (simp_all add: sample_sync_def plain_name_def)

lemma sample_run: "\<exists>s'. run_chain sample_coordinator 1 9 sample_sync = Some (Inr (), s')"
  using erc20_run_succeeds [OF sample_ready(1-3) sample_worker_ok sample_answers sample_history sample_fresh sample_buffer(1)]
    erc20_server_takes [OF _ _ sample_buffer(2)] sample_ready(4,5) by auto

theorem erc20_backfill_succeeds_witness:
  "\<exists>s'. run_chain sample_coordinator 1 9 sample_sync = Some (Inr (), s') \<and> clean (set erc20_tables) (ss_buffer s')"
  using erc20_server_takes [OF _ _ sample_buffer(2)] sample_ready(4,5)
  by (intro erc20_backfill_succeeds [OF sample_ready(1-3) sample_worker_ok sample_answers sample_history sample_fresh sample_buffer(1)])
    simp



end
