(* ===== verification/Filter_Semantics.thy ===== *)
theory Filter_Semantics
  imports Graphql
begin

text \<open>
  What the database makes of a GraphQL filter (\<open>forge-index-api/src/graphql/filters.rs\<close>). The
  clause that \<open>filters_to_sql\<close> writes is read back by the grammar of SQL conditions, evaluated
  on a row with the three truth values of SQL, and compared with a specification of the filter
  that does not mention SQL. Clauses mean what their filters say, whatever the values are;
  the exceptions are null values, empty lists and the wildcards of \<open>contains\<close>.
\<close>

section \<open>Reading a condition\<close>

datatype literal = L_Text string | L_Num string | L_Bool bool | L_Null

datatype condition =
    Compare string string literal
  | ILike string string
  | Member string bool "literal list"

text \<open>Characters of a token that is not quoted.\<close>

definition bare_char :: "char \<Rightarrow> bool" where
  "bare_char c \<longleftrightarrow> c \<notin> set '' ,()'' \<and> c \<noteq> quote_char \<and> c \<noteq> CHR 0x22"

definition number_token :: "string \<Rightarrow> bool" where
  "number_token s \<longleftrightarrow> s \<noteq> [] \<and> list_all bare_char s \<and> (is_digit (hd s) \<or> hd s = CHR ''-'')"

definition bare_literal :: "string \<Rightarrow> literal option" where
  "bare_literal w =
     (if w = ''NULL'' then Some L_Null
      else if w = ''true'' then Some (L_Bool True)
      else if w = ''false'' then Some (L_Bool False)
      else if number_token w then Some (L_Num w) else None)"

definition read_literal :: "literal reader" where
  "read_literal s =
     (case scan_string s of
        Some (t, r) \<Rightarrow> Some (L_Text t, r)
      | None \<Rightarrow> map_option (\<lambda>l. (l, dropWhile bare_char s)) (bare_literal (takeWhile bare_char s)))"

definition sql_ops :: "string list" where
  "sql_ops = [''='', ''>'', ''>='', ''<'', ''<='']"

definition read_op :: "string reader" where
  "read_op s =
     (let w = takeWhile bare_char s in if w \<in> set sql_ops then Some (w, dropWhile bare_char s) else None)"

definition read_condition :: "condition reader" where
  "read_condition s =
     Option.bind (read_ident s) (\<lambda>(c, s).
       case expect '' ILIKE '' s of
         Some s \<Rightarrow> map_option (\<lambda>(p, s). (ILike c p, s)) (scan_string s)
       | None \<Rightarrow> (case expect '' NOT IN '' s of
         Some s \<Rightarrow> map_option (\<lambda>(vs, s). (Member c False vs, s)) (read_tuple (length s) read_literal s)
       | None \<Rightarrow> (case expect '' IN '' s of
         Some s \<Rightarrow> map_option (\<lambda>(vs, s). (Member c True vs, s)) (read_tuple (length s) read_literal s)
       | None \<Rightarrow>
         Option.bind (expect '' '' s) (\<lambda>s. Option.bind (read_op s) (\<lambda>(op, s).
         Option.bind (expect '' '' s) (\<lambda>s. map_option (\<lambda>(v, s). (Compare c op v, s)) (read_literal s)))))))"

text \<open>A conjunction of at most \<open>n\<close> conditions, up to the end of the text.\<close>

fun read_conj :: "nat \<Rightarrow> string \<Rightarrow> condition list option" where
  "read_conj 0 s = None"
| "read_conj (Suc n) s =
     (case read_condition s of
        None \<Rightarrow> None
      | Some (c, r) \<Rightarrow>
          if r = [] then Some [c]
          else Option.bind (expect '' AND '' r) (\<lambda>r. map_option ((#) c) (read_conj n r)))"

definition read_where :: "string \<Rightarrow> condition list option" where
  "read_where s = (if s = [] then Some [] else read_conj (Suc (length s)) s)"

section \<open>The conditions a filter states\<close>

fun json_literal :: "(64 word \<Rightarrow> string) \<Rightarrow> json \<Rightarrow> literal option" where
  "json_literal f64 (JString s) = Some (L_Text s)"
| "json_literal f64 (JNumber n) = Some (L_Num (number_str f64 n))"
| "json_literal f64 (JBool b) = Some (L_Bool b)"
| "json_literal f64 JNull = Some L_Null"
| "json_literal f64 _ = None"

definition stated_member :: "(64 word \<Rightarrow> string) \<Rightarrow> string \<Rightarrow> bool \<Rightarrow> json \<Rightarrow> condition option" where
  "stated_member f64 field pos v =
     (case v of
        JArray arr \<Rightarrow>
          (let vals = filter_map (json_literal f64) arr in if vals = [] then None else Some (Member field pos vals))
      | _ \<Rightarrow> None)"

definition stated_condition :: "(64 word \<Rightarrow> string) \<Rightarrow> string \<Rightarrow> string \<Rightarrow> json \<Rightarrow> condition option" where
  "stated_condition f64 field op v =
     (case comparison op of
        Some sql_op \<Rightarrow> map_option (Compare field sql_op) (json_literal f64 v)
      | None \<Rightarrow>
          if op = ''contains'' then Some (ILike field (''%'' @ or_else (as_str v) [] @ ''%''))
          else if op = ''in'' then stated_member f64 field True v
          else if op = ''notIn'' then stated_member f64 field False v
          else None)"

definition stated_conditions :: "(64 word \<Rightarrow> string) \<Rightarrow> json \<Rightarrow> condition list" where
  "stated_conditions f64 flt =
     concat (map (\<lambda>(field_name, filter_obj).
       filter_map (\<lambda>(op, v). stated_condition f64 field_name op v) (entries filter_obj)) (entries flt))"

section \<open>A clause is read back\<close>

text \<open>Behind a literal or a condition: nothing, or a character that ends a token.\<close>

fun token_end :: "string \<Rightarrow> bool" where
  "token_end [] = True"
| "token_end (c # cs) = (c \<noteq> quote_char \<and> \<not> bare_char c)"

lemma token_end_hd: "token_end r \<Longrightarrow> r \<noteq> [] \<longrightarrow> hd r \<noteq> quote_char"
  by (cases r) auto

lemma bare_token:
  assumes "list_all bare_char w" and "token_end r"
  shows "takeWhile bare_char (w @ r) = w" and "dropWhile bare_char (w @ r) = r"
  using assms by (cases r; induction w; simp)+

lemma scan_string_no_quote: "s = [] \<or> hd s \<noteq> quote_char \<Longrightarrow> scan_string s = None"
  by (cases s) (auto simp: scan_string_def)

lemma read_bare:
  assumes "list_all bare_char w" and "w \<noteq> []" and "token_end r" and "bare_literal w = Some l"
  shows "read_literal (w @ r) = Some (l, r)"
proof -
  have "hd (w @ r) \<noteq> quote_char" using assms(1,2) by (cases w) (auto simp: bare_char_def)
  then show ?thesis
    using bare_token [OF assms(1,3)] assms(2,4) scan_string_no_quote [of "w @ r"] by (simp add: read_literal_def)
qed

lemma read_text_literal: "token_end r \<Longrightarrow> read_literal (quote_text s @ r) = Some (L_Text s, r)"
  using scan_quote_text [OF token_end_hd, of r s] by (simp add: read_literal_def)

lemma digits_bare: "list_all is_digit s \<Longrightarrow> list_all bare_char s"
  by (auto simp: list_all_iff is_digit_def bare_char_def)

lemma nat_str_token: "number_token (nat_str n)" "number_token (int_str i)"
  using digits_bare [OF nat_str_digits] hd_nat_str_digit
  by (auto simp: number_token_def int_str_def bare_char_def)

lemma number_str_token: "(\<And>x. number_token (f64 x)) \<Longrightarrow> number_token (number_str f64 n)"
  by (cases n) (simp_all add: nat_str_token)

lemma number_bare: "number_token w \<Longrightarrow> bare_literal w = Some (L_Num w)"
  by (auto simp: bare_literal_def number_token_def is_digit_def)

lemma read_number: "number_token w \<Longrightarrow> token_end r \<Longrightarrow> read_literal (w @ r) = Some (L_Num w, r)"
  by (rule read_bare) (simp_all add: number_bare number_token_def)

lemma read_json_literal:
  assumes "value_to_sql_literal f64 v = Some t" and "\<And>x. number_token (f64 x)" and "token_end r"
  shows "\<exists>l. json_literal f64 v = Some l \<and> read_literal (t @ r) = Some (l, r)"
proof (cases v)
  case (JBool b)
  have "list_all bare_char (bool_str b)" by (simp add: bool_str_def bare_char_def)
  then show ?thesis
    using assms JBool read_bare [of "bool_str b" r "L_Bool b"] by (cases b) (auto simp: bare_literal_def bool_str_def)
next
  case JNull
  have "list_all bare_char ''NULL''" by (simp add: bare_char_def)
  then show ?thesis using assms JNull read_bare [of "''NULL''" r L_Null] by (auto simp: bare_literal_def)
next
  case (JNumber n)
  then show ?thesis using assms read_number [OF number_str_token] by auto
qed (use assms read_text_literal in auto)

lemma literal_None_iff: "value_to_sql_literal f64 v = None \<longleftrightarrow> json_literal f64 v = None"
  by (cases v) auto

lemma read_literals:
  assumes "\<And>x. number_token (f64 x)" and "filter_map (value_to_sql_literal f64) arr \<noteq> []" and "token_end r"
  shows "read_tuple (length (''('' @ join '', '' (filter_map (value_to_sql_literal f64) arr) @ '')'' @ r)) read_literal
      (''('' @ join '', '' (filter_map (value_to_sql_literal f64) arr) @ '')'' @ r) =
    Some (filter_map (json_literal f64) arr, r)"
proof -
  define xs where "xs = filter (\<lambda>v. value_to_sql_literal f64 v \<noteq> None) arr"
  have vals: "filter_map (value_to_sql_literal f64) arr = map (the \<circ> value_to_sql_literal f64) xs"
    "filter_map (json_literal f64) arr = map (the \<circ> json_literal f64) xs"
    by (simp_all add: xs_def filter_map_conv literal_None_iff)
  let ?t = "join '', '' (map (the \<circ> value_to_sql_literal f64) xs)"
  have "read_literal ((the \<circ> value_to_sql_literal f64) v @ rest) = Some ((the \<circ> json_literal f64) v, rest)"
    if "v \<in> set xs" "token_end rest" for v rest
    using read_json_literal [OF _ assms(1) that(2)] that(1) by (fastforce simp: xs_def)
  then have "read_list n read_literal (?t @ '')'' @ r) = Some (map (the \<circ> json_literal f64) xs, '')'' @ r)"
    if "length xs \<le> n" for n
    using assms(2) that by (intro read_list_until [where E = token_end]) (auto simp: vals bare_char_def)
  then have "read_list (length (''('' @ ?t @ '')'' @ r)) read_literal (?t @ '')'' @ r) =
      Some (map (the \<circ> json_literal f64) xs, '')'' @ r)"
    using length_join [of "map (the \<circ> value_to_sql_literal f64) xs"] by (simp del: read_list.simps)
  then show ?thesis by (simp add: vals read_tuple_def del: read_list.simps)
qed

lemma read_compare:
  assumes "plain_name f" and "sql_op \<in> set sql_ops" and "read_literal (t @ r) = Some (l, r)"
  shows "read_condition (quote_ident f @ '' '' @ sql_op @ '' '' @ t @ r) = Some (Compare f sql_op l, r)"
proof -
  have op: "list_all bare_char sql_op" "sql_op \<noteq> []" "hd sql_op \<in> set ''=<>''"
    using assms(2) by (auto simp: sql_ops_def bare_char_def)
  then obtain c cs where c: "sql_op = c # cs" "c \<in> set ''=<>''" by (cases sql_op) auto
  have "read_op (sql_op @ '' '' @ t @ r) = Some (sql_op, '' '' @ t @ r)"
    using bare_token [OF op(1), of "'' '' @ t @ r"] assms(2) by (simp add: read_op_def bare_char_def Let_def)
  moreover have "expect '' ILIKE '' ('' '' @ sql_op @ u) = None" "expect '' NOT IN '' ('' '' @ sql_op @ u) = None"
    "expect '' IN '' ('' '' @ sql_op @ u) = None" for u
    using c by auto
  ultimately show ?thesis
    using assms(3) read_ident_quote [OF assms(1)] by (simp add: read_condition_def)
qed

lemma read_member:
  assumes "\<And>x. number_token (f64 x)" and "plain_name f" and "token_end r"
    and "member_condition f64 f (if pos then ''IN'' else ''NOT IN'') v = Some t"
  shows "\<exists>c. stated_member f64 f pos v = Some c \<and> read_condition (t @ r) = Some (c, r)"
proof -
  obtain arr where v: "v = JArray arr" and ne: "filter_map (value_to_sql_literal f64) arr \<noteq> []"
    using assms(4) by (auto simp: member_condition_def Let_def split: json.splits if_splits)
  let ?t = "''('' @ join '', '' (filter_map (value_to_sql_literal f64) arr) @ '')'' @ r"
  have t: "t @ r = quote_ident f @ (if pos then '' IN '' else '' NOT IN '') @ ?t"
    using assms(4) v ne by (auto simp: member_condition_def Let_def)
  have "filter_map (json_literal f64) arr \<noteq> []"
    using ne by (simp add: filter_map_conv literal_None_iff)
  then have "stated_member f64 f pos v = Some (Member f pos (filter_map (json_literal f64) arr))"
    by (simp add: v stated_member_def Let_def)
  moreover have "read_condition (t @ r) = Some (Member f pos (filter_map (json_literal f64) arr), r)"
    unfolding t using read_ident_quote [OF assms(2)] read_literals [OF assms(1) ne assms(3)]
    by (simp add: read_condition_def)
  ultimately show ?thesis by blast
qed

lemma escape_quotes_append: "escape_quotes (s @ t) = escape_quotes s @ escape_quotes t"
  by (induction s) auto

lemma read_built:
  assumes "\<And>x. number_token (f64 x)" and "plain_name f" and "build_condition f64 f op v = Some t" and "token_end r"
  shows "\<exists>c. stated_condition f64 f op v = Some c \<and> read_condition (t @ r) = Some (c, r)"
proof (cases "comparison op")
  case (Some sql_op)
  then have "sql_op \<in> set sql_ops" by (auto simp: comparison_def sql_ops_def split: if_splits)
  moreover obtain w where w: "value_to_sql_literal f64 v = Some w" "t = quote_ident f @ '' '' @ sql_op @ '' '' @ w"
    using assms(3) Some by (auto simp: build_condition_def)
  moreover obtain l where "json_literal f64 v = Some l" "read_literal (w @ r) = Some (l, r)"
    using read_json_literal [OF w(1) assms(1,4)] by blast
  ultimately show ?thesis using Some read_compare [OF assms(2)] by (simp add: stated_condition_def)
next
  case None
  then consider (contains) "op = ''contains''" | (list) pos where "op = (if pos then ''in'' else ''notIn'')"
      "member_condition f64 f (if pos then ''IN'' else ''NOT IN'') v = Some t"
    using assms(3) by (force simp: build_condition_def split: if_splits)
  then show ?thesis
  proof cases
    case contains
    have t: "t = quote_ident f @ '' ILIKE '' @ quote_text (''%'' @ or_else (as_str v) [] @ ''%'')"
      using assms(3) None contains escape_quotes_append
      by (auto simp: build_condition_def quote_text_def or_else_def split: option.splits)
    show ?thesis
      unfolding t using None contains read_ident_quote [OF assms(2)] scan_quote_text [OF token_end_hd [OF assms(4)]]
      by (simp add: stated_condition_def read_condition_def)
  next
    case list
    then show ?thesis using read_member [OF assms(1,2,4) list(2)] None
      by (auto simp: stated_condition_def split: if_splits)
  qed
qed

abbreviation reads :: "string \<Rightarrow> condition \<Rightarrow> bool" where
  "reads t c \<equiv> \<forall>r. token_end r \<longrightarrow> read_condition (t @ r) = Some (c, r)"

lemma read_conj_join:
  assumes "list_all2 reads ts cs" and "ts \<noteq> []" and "length ts \<le> n"
  shows "read_conj n (join '' AND '' ts) = Some cs"
  using assms
proof (induction ts cs arbitrary: n rule: list_all2_induct)
  case (Cons t ts c cs)
  obtain m where n: "n = Suc m" using Cons.prems(2) by (cases n) auto
  show ?case
  proof (cases "ts = []")
    case True
    then show ?thesis using Cons.hyps by (force simp: n dest: spec [of _ "[]"])
  next
    case False
    then have j: "join '' AND '' (t # ts) = t @ '' AND '' @ join '' AND '' ts" by (cases ts) auto
    have "read_condition (t @ '' AND '' @ join '' AND '' ts) = Some (c, '' AND '' @ join '' AND '' ts)"
      using Cons.hyps(1) by (simp add: bare_char_def)
    moreover have "read_conj m (join '' AND '' ts) = Some cs"
      using Cons.prems n False by (intro Cons.IH) auto
    ultimately show ?thesis by (simp add: n j)
  qed
qed simp

lemma reads_not_Nil: "reads t c \<Longrightarrow> t \<noteq> []"
  by (auto dest: spec [of _ "[]"] simp: read_condition_def read_ident_def)

lemma length_conj: "length ts \<le> Suc (length (join '' AND '' ts))"
  by (induction "'' AND ''" ts rule: join.induct) auto

lemma read_where_join:
  assumes "list_all2 reads ts cs"
  shows "read_where (join '' AND '' ts) = Some cs"
proof (cases ts)
  case Nil
  then show ?thesis using assms by (simp add: read_where_def)
next
  case (Cons t ts')
  then have "t \<noteq> []" using assms reads_not_Nil by (auto simp: list_all2_Cons1)
  then have "join '' AND '' ts \<noteq> []" using Cons by (cases ts') auto
  then show ?thesis
    using read_conj_join [OF assms _ length_conj] Cons by (simp add: read_where_def)
qed

definition plain_fields :: "json \<Rightarrow> bool" where
  "plain_fields flt \<longleftrightarrow> (\<forall>(f, _) \<in> set (entries flt). plain_name f)"

lemma stated_member_None: "member_condition f64 f w v = None \<Longrightarrow> stated_member f64 f pos v = None"
  by (cases v) (simp_all add: member_condition_def stated_member_def Let_def filter_map_conv literal_None_iff
      split: if_splits)

lemma stated_None:
  assumes "build_condition f64 f op v = None"
  shows "stated_condition f64 f op v = None"
proof (cases "comparison op")
  case None
  then show ?thesis using assms
    by (simp add: build_condition_def stated_condition_def stated_member_None Let_def split: if_splits)
qed (use assms in \<open>simp add: build_condition_def stated_condition_def literal_None_iff\<close>)

lemma reads_entries:
  assumes "\<And>x. number_token (f64 x)" and "plain_name f"
  shows "list_all2 reads (filter_map (\<lambda>(op, v). build_condition f64 f op v) ops)
    (filter_map (\<lambda>(op, v). stated_condition f64 f op v) ops)"
proof (induction ops)
  case (Cons e ops)
  obtain op v where e: "e = (op, v)" by (cases e)
  show ?case
  proof (cases "build_condition f64 f op v")
    case None
    then show ?thesis using Cons stated_None [OF None] by (simp add: e)
  next
    case (Some t)
    then obtain c where c: "stated_condition f64 f op v = Some c"
      using read_built [OF assms Some, of "[]"] by auto
    have "reads t c" using read_built [OF assms Some] c by auto
    then show ?thesis using Cons Some c by (simp add: e)
  qed
qed simp

lemma list_all2_concat: "list_all2 (list_all2 P) xss yss \<Longrightarrow> list_all2 P (concat xss) (concat yss)"
  by (induction xss yss rule: list_all2_induct) (auto intro: list_all2_appendI)

lemma read_filter_clause:
  assumes "\<And>x. number_token (f64 x)" and "plain_fields flt"
  shows "read_where (filters_to_sql f64 flt) = Some (stated_conditions f64 flt)"
  unfolding filters_to_sql_def stated_conditions_def
proof (intro read_where_join list_all2_concat)
  show "list_all2 (list_all2 reads)
      (map (\<lambda>(f, obj). filter_map (\<lambda>(op, v). build_condition f64 f op v) (entries obj)) (entries flt))
      (map (\<lambda>(f, obj). filter_map (\<lambda>(op, v). stated_condition f64 f op v) (entries obj)) (entries flt))"
    unfolding list_all2_map1 list_all2_map2
    by (rule list_all2_same [THEN iffD2]) (use assms(2) reads_entries [OF assms(1)] in \<open>auto simp: plain_fields_def\<close>)
qed

section \<open>Evaluating conditions\<close>

text \<open>
  Values of a column by type, and the comparison of two values of one type; a comparison of
  different types is an error of the query. A quoted literal has no type of its own: next to a
  numeric column it is read as a number, which is an error if it is none.
\<close>

datatype sql_value = V_Text string | V_Int int | V_Bool bool

fun sql_less :: "sql_value \<Rightarrow> sql_value \<Rightarrow> bool option" where
  "sql_less (V_Text s) (V_Text t) = Some (str_less s t)"
| "sql_less (V_Int i) (V_Int j) = Some (i < j)"
| "sql_less (V_Bool a) (V_Bool b) = Some (\<not> a \<and> b)"
| "sql_less _ _ = None"

definition sql_compare :: "string \<Rightarrow> sql_value \<Rightarrow> sql_value \<Rightarrow> bool option" where
  "sql_compare op a b =
     Option.bind (sql_less a b) (\<lambda>lt. Option.bind (sql_less b a) (\<lambda>gt.
       map_of [(''='', a = b), (''>'', gt), (''>='', gt \<or> a = b), (''<'', lt), (''<='', lt \<or> a = b)] op))"

definition parse_sql_int :: "string \<Rightarrow> int option" where
  "parse_sql_int s =
     (let t = (case s of c # cs \<Rightarrow> if c = CHR ''-'' then cs else s | [] \<Rightarrow> s)
      in if t \<noteq> [] \<and> list_all is_digit t
         then Some (if hd s = CHR ''-'' then - int (digits_val t) else int (digits_val t)) else None)"

text \<open>The value of a literal and of a cell: \<open>Some None\<close> is \<open>NULL\<close>.\<close>

fun literal_value :: "literal \<Rightarrow> sql_value option option" where
  "literal_value (L_Text s) = Some (Some (V_Text s))"
| "literal_value (L_Num s) = map_option (\<lambda>i. Some (V_Int i)) (parse_sql_int s)"
| "literal_value (L_Bool b) = Some (Some (V_Bool b))"
| "literal_value L_Null = Some None"

fun cell_value :: "json \<Rightarrow> sql_value option option" where
  "cell_value (JString s) = Some (Some (V_Text s))"
| "cell_value (JNumber (PosInt n)) = Some (Some (V_Int (uint n)))"
| "cell_value (JNumber (NegInt n)) = Some (Some (V_Int (sint n)))"
| "cell_value (JBool b) = Some (Some (V_Bool b))"
| "cell_value JNull = Some None"
| "cell_value _ = None"

fun literal_for :: "sql_value option \<Rightarrow> literal \<Rightarrow> sql_value option option" where
  "literal_for (Some (V_Int i)) (L_Text s) = map_option (\<lambda>j. Some (V_Int j)) (parse_sql_int s)"
| "literal_for _ l = literal_value l"

text \<open>\<open>LIKE\<close>: a percent sign stands for any text, an underscore for any character.\<close>

fun like :: "string \<Rightarrow> string \<Rightarrow> bool" where
  "like [] t = (t = [])"
| "like (p # ps) t =
     (if p = CHR ''%'' then list_ex (\<lambda>k. like ps (drop k t)) [0..<Suc (length t)]
      else if p = CHR 0x5C then
        (case ps of [] \<Rightarrow> False | q # qs \<Rightarrow> (case t of [] \<Rightarrow> False | c # cs \<Rightarrow> q = c \<and> like qs cs))
      else (case t of [] \<Rightarrow> False | c # cs \<Rightarrow> (p = CHR ''_'' \<or> p = c) \<and> like ps cs))"

text \<open>
  The truth value of a condition on a row, \<open>None\<close> for an error of the query and
  \<open>Some None\<close> for the truth value unknown.
\<close>

definition compare_cell :: "string \<Rightarrow> sql_value option \<Rightarrow> sql_value option \<Rightarrow> bool option option" where
  "compare_cell op x y =
     (case (x, y) of (Some a, Some b) \<Rightarrow> map_option Some (sql_compare op a b) | _ \<Rightarrow> Some None)"

definition sql_or :: "bool option \<Rightarrow> bool option \<Rightarrow> bool option" where
  "sql_or a b = (if a = Some True \<or> b = Some True then Some True else if a = None \<or> b = None then None else Some False)"

fun member_value :: "sql_value option \<Rightarrow> literal list \<Rightarrow> bool option option" where
  "member_value x [] = Some (Some False)"
| "member_value x (l # ls) =
     Option.bind (literal_for x l) (\<lambda>y. Option.bind (compare_cell ''='' x y) (\<lambda>a.
       map_option (sql_or a) (member_value x ls)))"

definition eval_condition :: "json \<Rightarrow> condition \<Rightarrow> bool option option" where
  "eval_condition doc c =
     (case c of
        Compare f op l \<Rightarrow>
          Option.bind (json_get f doc) (\<lambda>j. Option.bind (cell_value j) (\<lambda>x.
            Option.bind (literal_for x l) (compare_cell op x)))
      | ILike f p \<Rightarrow>
          Option.bind (json_get f doc) (\<lambda>j. Option.bind (cell_value j) (\<lambda>x.
            case x of None \<Rightarrow> Some None
            | Some (V_Text t) \<Rightarrow> Some (Some (like (lower p) (lower t)))
            | Some _ \<Rightarrow> None))
      | Member f pos ls \<Rightarrow>
          Option.bind (json_get f doc) (\<lambda>j. Option.bind (cell_value j) (\<lambda>x.
            map_option (map_option (\<lambda>b. b = pos)) (member_value x ls))))"

text \<open>Whether \<open>WHERE\<close> with this clause selects the row: every condition is true.\<close>

fun all_true :: "bool option option list \<Rightarrow> bool option" where
  "all_true [] = Some True"
| "all_true (x # xs) = Option.bind x (\<lambda>a. map_option (\<lambda>b. a = Some True \<and> b) (all_true xs))"

definition where_selects :: "string \<Rightarrow> json \<Rightarrow> bool option" where
  "where_selects clause doc = Option.bind (read_where clause) (\<lambda>cs. all_true (map (eval_condition doc) cs))"

section \<open>What a filter means\<close>

text \<open>The specification, on the values of the filter and of the row.\<close>

fun number_int :: "json_number \<Rightarrow> int" where
  "number_int (PosInt n) = uint n"
| "number_int (NegInt n) = sint n"
| "number_int (JFloat x) = 0"

text \<open>
  A number of the row and a text of the filter are compared as numbers: the columns of big
  integers and of timestamps have the filters of texts.
\<close>

fun json_less :: "json \<Rightarrow> json \<Rightarrow> bool" where
  "json_less (JString s) (JString t) = str_less s t"
| "json_less (JNumber (PosInt m)) (JNumber (PosInt n)) = (m < n)"
| "json_less (JNumber (NegInt m)) (JNumber (NegInt n)) = (sint m < sint n)"
| "json_less (JNumber (NegInt m)) (JNumber (PosInt n)) = True"
| "json_less (JNumber m) (JString s) = (case parse_sql_int s of Some i \<Rightarrow> number_int m < i | None \<Rightarrow> False)"
| "json_less (JString s) (JNumber n) = (case parse_sql_int s of Some i \<Rightarrow> i < number_int n | None \<Rightarrow> False)"
| "json_less (JBool a) (JBool b) = (\<not> a \<and> b)"
| "json_less _ _ = False"

fun json_same :: "json \<Rightarrow> json \<Rightarrow> bool" where
  "json_same (JNumber m) (JString s) = (parse_sql_int s = Some (number_int m))"
| "json_same cell v = (cell = v)"

definition contains_text :: "json \<Rightarrow> json \<Rightarrow> bool" where
  "contains_text v cell =
     (case (v, cell) of (JString s, JString t) \<Rightarrow> contains_sub (lower s) (lower t) | _ \<Rightarrow> False)"

definition matches_op :: "json \<Rightarrow> string \<Rightarrow> json \<Rightarrow> bool" where
  "matches_op cell op v =
     (cell \<noteq> JNull \<and>
      (if op = ''eq'' then json_same cell v
       else if op = ''gt'' then json_less v cell
       else if op = ''gte'' then json_less v cell \<or> json_same cell v
       else if op = ''lt'' then json_less cell v
       else if op = ''lte'' then json_less cell v \<or> json_same cell v
       else if op = ''contains'' then contains_text v cell
       else if op = ''in'' then (case v of JArray vs \<Rightarrow> list_ex (json_same cell) vs | _ \<Rightarrow> False)
       else (case v of JArray vs \<Rightarrow> \<not> list_ex (json_same cell) vs | _ \<Rightarrow> False)))"

definition matches :: "json \<Rightarrow> json \<Rightarrow> bool" where
  "matches flt doc =
     list_all (\<lambda>(f, ops). list_all (\<lambda>(op, v). matches_op (or_else (json_get f doc) JNull) op v) (entries ops)) (entries flt)"

text \<open>
  The filters that are covered: texts for a column of texts; 64-bit integers, or texts that write
  an integer, for a column of numbers; booleans for a column of booleans; with \<open>contains\<close> a
  text without wildcards on a column of texts; lists that are not empty; and no null in the filter. The
  schema admits more, among it null, empty lists and wildcards, which do not mean what
  they say, and fractional numbers. The JSON library keeps negative integers apart.
\<close>

fun integer_number :: "json_number \<Rightarrow> bool" where
  "integer_number (PosInt n) = True"
| "integer_number (NegInt n) = (sint n < 0)"
| "integer_number (JFloat x) = False"

fun same_type :: "json \<Rightarrow> json \<Rightarrow> bool" where
  "same_type (JString s) (JString t) = True"
| "same_type (JNumber m) (JNumber n) = (integer_number m \<and> integer_number n)"
| "same_type (JNumber m) (JString s) = (integer_number m \<and> parse_sql_int s \<noteq> None)"
| "same_type (JBool a) (JBool b) = True"
| "same_type JNull (JString t) = True"
| "same_type JNull (JNumber n) = integer_number n"
| "same_type JNull (JBool b) = True"
| "same_type _ _ = False"

definition wildcard :: "char \<Rightarrow> bool" where
  "wildcard c \<longleftrightarrow> c \<in> {CHR ''%'', CHR ''_'', CHR 0x5C}"

definition op_typed :: "json \<Rightarrow> string \<times> json \<Rightarrow> bool" where
  "op_typed cell e =
     (case e of (op, v) \<Rightarrow>
        if comparison op \<noteq> None then same_type cell v
        else if op = ''contains'' then
          (case (cell, v) of (JNumber _, _) \<Rightarrow> False
           | (_, JString s) \<Rightarrow> same_type cell v \<and> list_all (\<lambda>c. \<not> wildcard c) s | _ \<Rightarrow> False)
        else if op \<in> {''in'', ''notIn''} then
          (case v of JArray vs \<Rightarrow> vs \<noteq> [] \<and> list_all (same_type cell) vs | _ \<Rightarrow> False)
        else False)"

definition filter_typed :: "json \<Rightarrow> json \<Rightarrow> bool" where
  "filter_typed flt doc =
     list_all (\<lambda>(f, ops). plain_name f \<and>
       (case json_get f doc of None \<Rightarrow> False | Some cell \<Rightarrow> list_all (op_typed cell) (entries ops))) (entries flt)"

section \<open>A filter selects what it means\<close>

lemma parse_sql_nat: "parse_sql_int (nat_str n) = Some (int n)"
proof -
  obtain c cs where s: "nat_str n = c # cs" by (cases "nat_str n") auto
  then have "c \<noteq> CHR ''-''" using hd_nat_str_digit [of n] by (auto simp: is_digit_def)
  then show ?thesis using s nat_str_digits [of n] digits_val_nat_str [of n] by (simp add: parse_sql_int_def Let_def)
qed

lemma parse_sql_int_str: "parse_sql_int (int_str i) = Some i"
proof (cases "i < 0")
  case True
  then show ?thesis using nat_str_digits [of "nat (- i)"] by (simp add: int_str_def parse_sql_int_def Let_def)
qed (use parse_sql_nat [of "nat i"] in \<open>simp add: int_str_def\<close>)

lemma number_order:
  assumes "integer_number m" and "integer_number n"
  shows "json_less (JNumber m) (JNumber n) \<longleftrightarrow> number_int m < number_int n"
    and "number_int m = number_int n \<longleftrightarrow> m = n"
    and "cell_value (JNumber m) = Some (Some (V_Int (number_int m)))"
proof -
  have mixed: "sint j < uint i \<and> \<not> uint i < sint j \<and> uint i \<noteq> sint j \<and> sint j \<noteq> uint i"
    if "sint j < 0" for i j :: "64 word"
    using that uint_ge_0 [of i] by linarith
  have inj: "sint i = sint j \<longleftrightarrow> i = j" for i j :: "64 word" by (auto intro: signed_word_eqI)
  show "json_less (JNumber m) (JNumber n) \<longleftrightarrow> number_int m < number_int n"
    using assms by (cases m; cases n) (auto simp: word_less_def mixed)
  show "number_int m = number_int n \<longleftrightarrow> m = n"
    using assms by (cases m; cases n) (auto simp: mixed inj intro: unsigned_word_eqI)
  show "cell_value (JNumber m) = Some (Some (V_Int (number_int m)))" using assms by (cases m) auto
qed

text \<open>
  A value of the filter as the database sees it next to a cell: of the type of the cell, and
  in the same order to it as in the specification.
\<close>

lemma typed_compare:
  assumes "same_type cell v" and "cell \<noteq> JNull"
  obtains a l b where "cell_value cell = Some (Some a)" and "json_literal f64 v = Some l"
    and "literal_for (Some a) l = Some (Some b)"
    and "sql_less a b = Some (json_less cell v)" and "sql_less b a = Some (json_less v cell)" and "a = b \<longleftrightarrow> json_same cell v"
proof -
  consider s t where "cell = JString s" "v = JString t" | p q where "cell = JBool p" "v = JBool q"
    | m n where "cell = JNumber m" "v = JNumber n" "integer_number m" "integer_number n"
    | m s i where "cell = JNumber m" "v = JString s" "integer_number m" "parse_sql_int s = Some i"
    using assms by (cases "(cell, v)" rule: same_type.cases) auto
  then show thesis
  proof cases
    case (3 m n)
    have "literal_for (Some (V_Int (number_int m))) (L_Num (number_str f64 n)) = Some (Some (V_Int (number_int n)))"
      using 3 parse_sql_nat parse_sql_int_str by (cases n) auto
    then show thesis
      using 3 that [of "V_Int (number_int m)" "L_Num (number_str f64 n)" "V_Int (number_int n)"]
        number_order [of m n] number_order [of n m] by simp
  next
    case (4 m s i)
    then show thesis
      using that [of "V_Int (number_int m)" "L_Text s" "V_Int i"] number_order(3) [of m m] by (cases m) auto
  qed (use that in auto)
qed

lemma typed_null:
  assumes "same_type JNull v"
  obtains l b where "json_literal f64 v = Some l" and "literal_for None l = Some (Some b)"
proof (cases v)
  case (JNumber n)
  then have "integer_number n" using assms by simp
  then show thesis using that JNumber parse_sql_nat parse_sql_int_str by (cases n) auto
qed (use assms that in auto)

lemma typed_literal:
  assumes "same_type cell v"
  shows "\<exists>l. json_literal f64 v = Some l"
proof (cases "cell = JNull")
  case True
  then show ?thesis using assms typed_null [of v f64] by metis
next
  case False
  show ?thesis by (rule typed_compare [OF assms False, of f64]) blast
qed

lemma typed_cell:
  assumes "same_type cell v"
  shows "\<exists>x. cell_value cell = Some x \<and> (x = None \<longleftrightarrow> cell = JNull)"
proof (cases "cell = JNull")
  case False
  obtain a where "cell_value cell = Some (Some a)" by (rule typed_compare [OF assms False])
  then show ?thesis using False by simp
qed simp

lemma typed_condition:
  assumes "same_type cell v" and "comparison op = Some sop" and "json_get f doc = Some cell"
    and "json_literal f64 v = Some l"
  shows "\<exists>r. eval_condition doc (Compare f sop l) = Some r \<and> (r = Some True \<longleftrightarrow> matches_op cell op v)"
proof (cases "cell = JNull")
  case True
  then obtain b where "literal_for None l = Some (Some b)" using typed_null [of v f64] assms(1,4) by (metis option.inject)
  then show ?thesis using True assms(3) by (simp add: eval_condition_def compare_cell_def matches_op_def)
next
  case False
  then obtain a b where "cell_value cell = Some (Some a)" "literal_for (Some a) l = Some (Some b)"
    "sql_less a b = Some (json_less cell v)" "sql_less b a = Some (json_less v cell)" "a = b \<longleftrightarrow> json_same cell v"
    using typed_compare [OF assms(1), of f64] assms(4) by (metis option.inject)
  then show ?thesis using assms(2,3) False
    by (auto simp: eval_condition_def compare_cell_def matches_op_def sql_compare_def comparison_def split: if_splits)
qed

lemma member_typed:
  assumes "list_all (same_type cell) vs" and "cell_value cell = Some x"
  shows "member_value x (filter_map (json_literal f64) vs) =
    Some (if x = None \<and> vs \<noteq> [] then None else Some (list_ex (json_same cell) vs))"
  using assms(1)
proof (induction vs)
  case (Cons v vs)
  have t: "same_type cell v" using Cons.prems by simp
  show ?case
  proof (cases "cell = JNull")
    case True
    then obtain l b where l: "json_literal f64 v = Some l" "literal_for None l = Some (Some b)"
      using typed_null [of v f64] t by metis
    have "x = None" using assms(2) True by simp
    then show ?thesis using Cons l by (auto simp: compare_cell_def sql_or_def)
  next
    case False
    then obtain a l b where "x = Some a" "json_literal f64 v = Some l" "literal_for (Some a) l = Some (Some b)"
      "sql_less a b = Some (json_less cell v)" "sql_less b a = Some (json_less v cell)" "a = b \<longleftrightarrow> json_same cell v"
      using typed_compare [OF t, of f64] assms(2) by (metis option.inject)
    then show ?thesis using Cons by (auto simp: compare_cell_def sql_or_def sql_compare_def)
  qed
qed simp

lemma like_prefix: "list_all (\<lambda>c. \<not> wildcard c) s \<Longrightarrow> like (s @ ''%'') t \<longleftrightarrow> Std_Strings.starts_with s t"
proof (induction s arbitrary: t)
  case Nil
  have "list_ex (\<lambda>k. drop k t = []) [0..<Suc (length t)]" by (simp add: list_ex_iff)
  then show ?case by (simp add: Std_Strings.starts_with_def del: upt_Suc)
next
  case (Cons c s)
  then show ?case by (cases t) (auto simp: wildcard_def Std_Strings.starts_with_def)
qed

lemma ex_le_Suc: "(\<exists>k \<le> length (c # t). P k) \<longleftrightarrow> P 0 \<or> (\<exists>k \<le> length t. P (Suc k))"
  by (auto simp: less_Suc_eq_le [symmetric] less_Suc_eq_0_disj)

lemma contains_sub_iff: "contains_sub s t \<longleftrightarrow> (\<exists>k \<le> length t. Std_Strings.starts_with s (drop k t))"
proof (induction t)
  case (Cons c t)
  have "(\<exists>k \<le> length (c # t). Std_Strings.starts_with s (drop k (c # t))) \<longleftrightarrow>
      Std_Strings.starts_with s (c # t) \<or> (\<exists>k \<le> length t. Std_Strings.starts_with s (drop k t))"
    unfolding ex_le_Suc by simp
  then show ?case using Cons by (auto simp: contains_sub_def)
qed (auto simp: contains_sub_def Std_Strings.starts_with_def)

lemma like_contains: "list_all (\<lambda>c. \<not> wildcard c) s \<Longrightarrow> like (''%'' @ s @ ''%'') t \<longleftrightarrow> contains_sub s t"
  using like_prefix [of s] by (auto simp: contains_sub_iff list_ex_iff less_Suc_eq_le simp del: upt_Suc)

lemma wildcard_lower: "wildcard (ascii_lower c) \<Longrightarrow> wildcard c"
  unfolding wildcard_def char_eq_nat_iff insert_iff of_char_ascii_lower by (auto simp: Let_def split: if_splits)

lemma lower_no_wildcard: "list_all (\<lambda>c. \<not> wildcard c) s \<Longrightarrow> list_all (\<lambda>c. \<not> wildcard c) (lower s)"
  by (auto simp: lower_def list_all_iff dest: wildcard_lower)

lemma eval_contains:
  assumes "same_type cell (JString s)" and "\<And>n. cell \<noteq> JNumber n" and "list_all (\<lambda>c. \<not> wildcard c) s"
    and "json_get f doc = Some cell"
  shows "\<exists>r. eval_condition doc (ILike f (''%'' @ s @ ''%'')) = Some r \<and>
    (r = Some True \<longleftrightarrow> cell \<noteq> JNull \<and> contains_text (JString s) cell)"
proof -
  have "lower (''%'' @ s @ ''%'') = ''%'' @ lower s @ ''%''"
    by (simp add: lower_def ascii_lower_def)
  then have "like (lower (''%'' @ s @ ''%'')) (lower t) \<longleftrightarrow> contains_sub (lower s) (lower t)" for t
    using like_contains [OF lower_no_wildcard [OF assms(3)]] by simp
  then show ?thesis using assms(1,2,4) by (cases cell) (auto simp: eval_condition_def contains_text_def simp del: like.simps)
qed

lemma eval_member:
  assumes "list_all (same_type cell) vs" and "vs \<noteq> []" and "json_get f doc = Some cell"
  shows "\<exists>r. stated_member f64 f pos (JArray vs) = Some (Member f pos (filter_map (json_literal f64) vs)) \<and>
    eval_condition doc (Member f pos (filter_map (json_literal f64) vs)) = Some r \<and>
    (r = Some True \<longleftrightarrow> cell \<noteq> JNull \<and> (list_ex (json_same cell) vs \<longleftrightarrow> pos))"
proof -
  obtain v where v: "v \<in> set vs" using assms(2) by (cases vs) auto
  then have t: "same_type cell v" using assms(1) by (simp add: list_all_iff)
  have "json_literal f64 v \<noteq> None" using typed_literal [OF t] by auto
  then have ne: "filter_map (json_literal f64) vs \<noteq> []"
    using v by (auto simp: filter_map_conv filter_empty_conv)
  obtain x where x: "cell_value cell = Some x" "x = None \<longleftrightarrow> cell = JNull"
    using typed_cell [OF t] by blast
  show ?thesis
    using member_typed [OF assms(1) x(1)] x ne assms(2,3)
    by (cases x) (auto simp: eval_condition_def stated_member_def Let_def)
qed

lemma eval_stated:
  assumes "op_typed cell (op, v)" and "json_get f doc = Some cell"
  shows "\<exists>c r. stated_condition f64 f op v = Some c \<and> eval_condition doc c = Some r \<and>
    (r = Some True \<longleftrightarrow> matches_op cell op v)"
proof (cases "comparison op")
  case (Some sop)
  then have t: "same_type cell v" using assms(1) by (simp add: op_typed_def)
  obtain l where "json_literal f64 v = Some l" using typed_literal [OF t] by blast
  then show ?thesis using typed_condition [OF t Some assms(2)] Some by (simp add: stated_condition_def)
next
  case None
  then consider (contains) s where "op = ''contains''" "v = JString s" "same_type cell v" "\<And>n. cell \<noteq> JNumber n"
      "list_all (\<lambda>c. \<not> wildcard c) s"
    | (list) vs where "op \<in> {''in'', ''notIn''}" "v = JArray vs" "vs \<noteq> []" "list_all (same_type cell) vs"
    using assms(1) by (auto simp: op_typed_def split: if_splits json.splits)
  then show ?thesis
  proof cases
    case contains
    then show ?thesis using eval_contains [of cell s f doc] None assms(2)
      by (simp add: stated_condition_def or_else_def matches_op_def)
  next
    case list
    then show ?thesis using eval_member [OF list(4,3) assms(2), of f64 "op = ''in''"] None
      by (auto simp: stated_condition_def matches_op_def)
  qed
qed

lemma all_true_append:
  "all_true (xs @ ys) = Option.bind (all_true xs) (\<lambda>a. map_option (\<lambda>b. a \<and> b) (all_true ys))"
  by (induction xs; cases "all_true ys") (auto split: Option.bind_split)

lemma eval_ops:
  assumes "list_all (op_typed cell) ops" and "json_get f doc = Some cell"
  shows "all_true (map (eval_condition doc) (filter_map (\<lambda>(op, v). stated_condition f64 f op v) ops)) =
    Some (list_all (\<lambda>(op, v). matches_op cell op v) ops)"
  using assms(1)
proof (induction ops)
  case (Cons e ops)
  obtain op v where e: "e = (op, v)" by (cases e)
  obtain c r where "stated_condition f64 f op v = Some c" "eval_condition doc c = Some r" "r = Some True \<longleftrightarrow> matches_op cell op v"
    using eval_stated [of cell op v f doc f64] Cons.prems assms(2) by (auto simp: e)
  then show ?case using Cons by (simp add: e)
qed simp

lemma eval_filter:
  assumes "filter_typed (JObject fs) doc"
  shows "all_true (map (eval_condition doc) (stated_conditions f64 (JObject fs))) = Some (matches (JObject fs) doc)"
  using assms
proof (induction fs)
  case (Cons e fs)
  obtain f ops where e: "e = (f, ops)" by (cases e)
  obtain cell where cell: "json_get f doc = Some cell" "list_all (op_typed cell) (entries ops)"
    using Cons.prems by (auto simp: e filter_typed_def split: option.splits)
  have "filter_typed (JObject fs) doc" using Cons.prems by (simp add: filter_typed_def)
  then show ?case
    using Cons.IH eval_ops [OF cell(2,1), of f64] cell(1)
    by (simp add: e stated_conditions_def matches_def all_true_append or_else_def)
qed (simp add: stated_conditions_def matches_def)

text \<open>
  Property C28. The clause that \<open>filters_to_sql\<close> writes is one conjunction of exactly the
  conditions that the filter states: whatever characters its texts hold, none of them leaves
  its literal, adds a condition or ends the clause. The names of the fields come from the
  schema and hold no double quotes, and the library writes a floating-point number as one
  token.
\<close>

theorem filter_clause_roundtrip:
  assumes "\<And>x. number_token (f64 x)" and "plain_fields flt"
  shows "read_where (filters_to_sql f64 flt) = Some (stated_conditions f64 flt)"
  using assms by (rule read_filter_clause)

definition sample_filter :: json where
  "sample_filter = JObject [
     (''name'', JObject [(''eq'', JString ([CHR ''x'', quote_char] @ '' OR 1=1'')), (''contains'', JString ''Ann'')]),
     (''age'', JObject [(''gte'', JNumber (PosInt 18)), (''in'', JArray [JNumber (PosInt 18), JNumber (PosInt 20)])])]"

theorem filter_clause_roundtrip_witness:
  "read_where (filters_to_sql (\<lambda>_. ''0'') sample_filter) =
     Some [Compare ''name'' ''='' (L_Text ([CHR ''x'', quote_char] @ '' OR 1=1'')), ILike ''name'' ''%Ann%'',
           Compare ''age'' ''>='' (L_Num ''18''), Member ''age'' True [L_Num ''18'', L_Num ''20'']]"
proof -
  have "number_token ''0''" by (simp add: number_token_def bare_char_def is_digit_def)
  moreover have "plain_fields sample_filter" by (simp add: plain_fields_def sample_filter_def plain_name_def)
  moreover have "stated_conditions (\<lambda>_. ''0'') sample_filter =
     [Compare ''name'' ''='' (L_Text ([CHR ''x'', quote_char] @ '' OR 1=1'')), ILike ''name'' ''%Ann%'',
      Compare ''age'' ''>='' (L_Num ''18''), Member ''age'' True [L_Num ''18'', L_Num ''20'']]"
    by code_simp
  ultimately show ?thesis using filter_clause_roundtrip [of "\<lambda>_. ''0''" sample_filter] by simp
qed


definition sample_doc :: "string \<Rightarrow> u64 \<Rightarrow> json" where
  "sample_doc n a = JObject [(''name'', JString n), (''age'', JNumber (PosInt a))]"


section \<open>Filters that do not mean what they say\<close>

text \<open>A filter for the value null selects no row, also none without a value.\<close>

lemma eq_null_selects_nothing:
  assumes "plain_name f" and "json_get f doc = Some cell" and "cell_value cell = Some x"
  shows "where_selects (filters_to_sql f64 (JObject [(f, JObject [(''eq'', JNull)])])) doc = Some False"
proof -
  have "filters_to_sql f64 (JObject [(f, JObject [(''eq'', JNull)])]) =
      filters_to_sql (\<lambda>_. ''0'') (JObject [(f, JObject [(''eq'', JNull)])])"
    by (simp add: filters_to_sql_def build_condition_def comparison_def)
  moreover have "number_token ''0''" by (simp add: number_token_def bare_char_def is_digit_def)
  ultimately show ?thesis
    using read_filter_clause [of "\<lambda>_. ''0''" "JObject [(f, JObject [(''eq'', JNull)])]"] assms
    by (simp add: where_selects_def plain_fields_def stated_conditions_def stated_condition_def comparison_def
        eval_condition_def compare_cell_def split: option.splits)
qed

text \<open>The wildcards of \<open>LIKE\<close> are not escaped: a text need not contain what a filter asks for.\<close>

lemma contains_wildcard:
  "where_selects (filters_to_sql f64 (JObject [(''name'', JObject [(''contains'', JString ''a_c'')])])) (sample_doc ''abc'' 1) =
     Some True"
  "\<not> contains_text (JString ''a_c'') (JString ''abc'')"
  by code_simp+

end
