(* ===== verification/Concurrent_Buffer.thy ===== *)
theory Concurrent_Buffer
  imports Write_Buffer
begin

text \<open>
  The write buffer with several tasks (\<open>forge-index-db/src/buffer.rs\<close>): handlers append rows
  while flushes are under way. The rows of a table are guarded by a lock that is held for an
  append and for the moment in which a flush takes all rows, not while its statements are
  sent; the statements of two flushes interleave, and so do appends. \<open>groups\<close> and \<open>send_group\<close> cut
  \<open>flush_rows\<close> into its statements, and a step relation interleaves them.
\<close>

section \<open>The statements of a flush\<close>

text \<open>Rows that go into one statement each: all inserts, every update that sets a column, all deletes.\<close>

definition groups :: "renderer \<Rightarrow> string list \<Rightarrow> string \<Rightarrow> row list \<Rightarrow> row list list" where
  "groups R cols pk rows =
     (if filter is_insert rows = [] then [] else [filter is_insert rows]) @
     map (\<lambda>r. [r]) (filter (\<lambda>r. update_sets R cols pk r \<noteq> []) (filter is_update rows)) @
     (if delete_keys R pk (filter is_delete rows) = [] then [] else [filter is_delete rows])"

definition statement_of :: "renderer \<Rightarrow> string \<Rightarrow> string \<Rightarrow> string list \<Rightarrow> string \<Rightarrow> row list \<Rightarrow> string" where
  "statement_of R S t cols pk g =
     (if is_insert (hd g) then insert_sql R S t cols g
      else if is_update (hd g) then update_sql R S t cols pk (hd g)
      else delete_sql R S t pk g)"

definition send_group :: "renderer \<Rightarrow> 'd execute \<Rightarrow> string \<Rightarrow> string \<Rightarrow> string list \<Rightarrow> string \<Rightarrow> row list \<Rightarrow> ('d, db_error failure, unit) call" where
  "send_group R exec S t cols pk g = execute_flush exec t (statement_of R S t cols pk g)"

lemma for_each_append: "for_each f (xs @ ys) s = seq (for_each f xs) (\<lambda>_. for_each f ys) s"
  by (induction xs arbitrary: s) (auto simp: seq_def ret_def split: prod.splits sum.splits)

lemma for_each_skip: "for_each (\<lambda>x. if P x then ret () else f x) xs s = for_each f (filter (\<lambda>x. \<not> P x) xs) s"
  by (induction xs arbitrary: s) (auto simp: seq_def ret_def split: prod.splits sum.splits)

lemma for_each_map: "for_each f (map g xs) s = for_each (\<lambda>x. f (g x)) xs s"
  by (induction xs arbitrary: s) (auto simp: seq_def split: prod.splits sum.splits)

lemma for_each_cong: "(\<And>x s. x \<in> set xs \<Longrightarrow> f x s = g x s) \<Longrightarrow> for_each f xs s = for_each g xs s"
  by (induction xs arbitrary: s) (auto simp: seq_def split: prod.splits sum.splits)

text \<open>One flush alone sends its groups one after the other.\<close>

lemma flush_rows_groups:
  assumes "wb_table_columns b t = Some cols" and "wb_pk_columns b t = Some pk"
  shows "flush_rows R exec b t rows d = for_each (send_group R exec (wb_pg_schema b) t cols pk) (groups R cols pk rows) d"
proof -
  let ?S = "wb_pg_schema b"
  let ?i = "filter is_insert rows" and ?u = "filter is_update rows" and ?x = "filter is_delete rows"
  have i: "flush_inserts R exec ?S t cols ?i d = for_each (send_group R exec ?S t cols pk) (if ?i = [] then [] else [?i]) d" for d
  proof (cases "?i = []")
    case False
    then have "is_insert (hd ?i)" using hd_in_set [OF False] by auto
    then show ?thesis using False
      by (simp add: flush_inserts_def send_group_def statement_of_def seq_def ret_def split: prod.splits sum.splits)
  qed (simp add: flush_inserts_def)
  have x: "flush_deletes R exec ?S t pk ?x d =
      for_each (send_group R exec ?S t cols pk) (if delete_keys R pk ?x = [] then [] else [?x]) d" for d
  proof (cases "delete_keys R pk ?x = []")
    case False
    then have "?x \<noteq> []" by (auto simp: delete_keys_def)
    then have "\<not> is_insert (hd ?x)" "\<not> is_update (hd ?x)"
      using hd_in_set [OF \<open>?x \<noteq> []\<close>] by (auto simp: is_insert_def is_update_def is_delete_def)
    then show ?thesis using False
      by (simp add: flush_deletes_def send_group_def statement_of_def seq_def ret_def split: prod.splits sum.splits)
  qed (simp add: flush_deletes_def)
  have u: "flush_updates R exec ?S t cols pk ?u d = for_each (send_group R exec ?S t cols pk)
      (map (\<lambda>r. [r]) (filter (\<lambda>r. update_sets R cols pk r \<noteq> []) ?u)) d" for d
    unfolding flush_updates_def for_each_skip for_each_map
    by (rule for_each_cong) (simp add: send_group_def statement_of_def is_insert_def)
  show ?thesis
    unfolding flush_rows_def groups_def for_each_append
    by (simp add: assms Let_def seq_def i u x cong: prod.case_cong sum.case_cong)
qed

section \<open>Interleavings\<close>

datatype buffer_call = Call_Insert row | Call_Update row column_value | Call_Delete string column_value

fun run_call :: "string \<Rightarrow> buffer_call \<Rightarrow> (write_buffer, db_error failure, unit) call" where
  "run_call t (Call_Insert r) = buffer_insert t r"
| "run_call t (Call_Update r v) = buffer_update t r v"
| "run_call t (Call_Delete c v) = buffer_delete t c v"

text \<open>
  The buffer, the database and the statements that each flush has still to send. The last three
  fields are for the proofs: the rows that handlers issued, those whose statement succeeded or
  that need none, and those that a failing flush gave up, each in the order of time.
\<close>

record 'd flush_state =
  fs_buffer :: write_buffer
  fs_db :: 'd
  fs_tasks :: "row list list list"
  fs_issued :: "row list"
  fs_written :: "row list"
  fs_lost :: "row list"

text \<open>Rows of a flush that are in no statement.\<close>

definition skipped :: "renderer \<Rightarrow> string list \<Rightarrow> string \<Rightarrow> row list \<Rightarrow> row list" where
  "skipped R cols pk rows =
     filter (\<lambda>r. update_sets R cols pk r = []) (filter is_update rows) @
     (if delete_keys R pk (filter is_delete rows) = [] then filter is_delete rows else [])"

inductive flush_step ::
  "renderer \<Rightarrow> 'd execute \<Rightarrow> string \<Rightarrow> string list \<Rightarrow> string \<Rightarrow> 'd flush_state \<Rightarrow> 'd flush_state \<Rightarrow> bool"
  for R exec t cols pk where
  issue: "run_call t call (fs_buffer s) = (Inr (), b) \<Longrightarrow>
    flush_step R exec t cols pk s (s\<lparr>fs_buffer := b, fs_issued := fs_issued s @ [last (buffered b t)]\<rparr>)"
| refuse: "run_call t call (fs_buffer s) = (Inl e, b) \<Longrightarrow> flush_step R exec t cols pk s (s\<lparr>fs_buffer := b\<rparr>)"
| take: "wb_buffers (fs_buffer s) t = Some rows \<Longrightarrow>
    flush_step R exec t cols pk s (s\<lparr>fs_buffer := set_rows t [] (fs_buffer s),
      fs_tasks := fs_tasks s @ [groups R cols pk rows], fs_written := fs_written s @ skipped R cols pk rows\<rparr>)"
| written: "i < length (fs_tasks s) \<Longrightarrow> fs_tasks s ! i = g # gs \<Longrightarrow>
    send_group R exec (wb_pg_schema (fs_buffer s)) t cols pk g (fs_db s) = (Inr (), d) \<Longrightarrow>
    flush_step R exec t cols pk s
      (s\<lparr>fs_db := d, fs_tasks := (fs_tasks s)[i := gs], fs_written := fs_written s @ g\<rparr>)"
| failed: "i < length (fs_tasks s) \<Longrightarrow> fs_tasks s ! i = g # gs \<Longrightarrow>
    send_group R exec (wb_pg_schema (fs_buffer s)) t cols pk g (fs_db s) = (Inl e, d) \<Longrightarrow>
    flush_step R exec t cols pk s
      (s\<lparr>fs_db := d, fs_tasks := (fs_tasks s)[i := []], fs_lost := fs_lost s @ concat (g # gs)\<rparr>)"

inductive_cases flush_stepE: "flush_step R exec t cols pk s s'"

definition flush_start :: "write_buffer \<Rightarrow> 'd \<Rightarrow> 'd flush_state" where
  "flush_start b d = \<lparr> fs_buffer = b, fs_db = d, fs_tasks = [], fs_issued = [], fs_written = [], fs_lost = [] \<rparr>"

abbreviation in_flight :: "'d flush_state \<Rightarrow> row list" where
  "in_flight s \<equiv> concat (concat (fs_tasks s))"

section \<open>No row is lost or sent twice\<close>

lemma mset_groups: "mset (concat (groups R cols pk rows)) + mset (skipped R cols pk rows) = mset rows"
proof -
  let ?u = "filter is_update rows" and ?x = "filter is_delete rows"
  have parts: "mset (filter (\<lambda>x. \<not> P x) xs) + mset (filter P xs) = mset xs" for P and xs :: "row list"
    by (induction xs) auto
  have one: "concat (map (\<lambda>r. [r]) xs) = xs" for xs :: "row list" by (induction xs) auto
  have "mset (concat (groups R cols pk rows)) + mset (skipped R cols pk rows) =
      mset (filter is_insert rows) + mset ?u + mset ?x"
    using parts [of "\<lambda>r. update_sets R cols pk r = []" ?u]
    by (auto simp: groups_def skipped_def one ac_simps simp del: filter_filter mset_filter)
  then show ?thesis using mset_flush_order [of rows] by (simp add: flush_order_def ac_simps)
qed

lemma run_call_issue:
  assumes "run_call t call b = (Inr (), b')"
  shows "buffered b' t = buffered b t @ [last (buffered b' t)]" and "wb_pg_schema b' = wb_pg_schema b"
  using assms by (cases call; auto simp: buffer_insert_def buffer_update_def buffer_delete_def Let_def split: if_splits)+

lemma run_call_refuse:
  assumes "run_call t call b = (Inl e, b')"
  shows "buffered b' t = buffered b t" and "wb_pg_schema b' = wb_pg_schema b"
  using assms by (cases call; auto simp: buffer_insert_def buffer_update_def buffer_delete_def Let_def split: if_splits)+

lemma mset_concat_update:
  assumes "i < length xss" and "xss ! i = g # gs"
  shows "mset (concat (concat xss)) = mset g + mset (concat (concat (xss[i := gs])))"
    and "mset (concat (concat xss)) = mset (concat (g # gs)) + mset (concat (concat (xss[i := []])))"
proof -
  have split: "xss = take i xss @ (g # gs) # drop (Suc i) xss" using assms by (metis id_take_nth_drop)
  have upd: "xss[i := ys] = take i xss @ ys # drop (Suc i) xss" for ys using assms(1) by (rule upd_conv_take_nth_drop)
  show "mset (concat (concat xss)) = mset g + mset (concat (concat (xss[i := gs])))"
    by (subst split) (simp add: upd ac_simps)
  show "mset (concat (concat xss)) = mset (concat (g # gs)) + mset (concat (concat (xss[i := []])))"
    by (subst split) (simp add: upd ac_simps)
qed

definition conserved :: "string \<Rightarrow> 'd flush_state \<Rightarrow> bool" where
  "conserved t s \<longleftrightarrow>
     mset (fs_issued s) = mset (fs_written s) + mset (in_flight s) + mset (fs_lost s) + mset (buffered (fs_buffer s) t)"

lemma conserved_written:
  assumes "conserved t s"
  shows "set (fs_written s) \<subseteq> set (fs_issued s)"
  using arg_cong [OF assms [unfolded conserved_def], of set_mset] by auto

lemma conserved_step: "flush_step R exec t cols pk s s' \<Longrightarrow> conserved t s \<Longrightarrow> conserved t s'"
proof (induction rule: flush_step.induct)
  case (issue call s b)
  have "mset (buffered b t) = add_mset (last (buffered b t)) (mset (buffered (fs_buffer s) t))"
    using arg_cong [OF run_call_issue(1) [OF issue(1)], of mset] by simp
  then show ?case using issue(2) by (simp add: conserved_def)
next
  case (refuse call s e b)
  then show ?case using run_call_refuse [OF refuse(1)] by (simp add: conserved_def)
next
  case (take s rows)
  then show ?case using mset_groups [of R cols pk rows] by (simp add: conserved_def buffered_def set_rows_def ac_simps)
next
  case (written i s g gs d)
  then show ?case using mset_concat_update(1) [OF written(1,2)] by (simp add: conserved_def ac_simps)
next
  case (failed i s g gs e d)
  then show ?case using mset_concat_update(2) [OF failed(1,2)] by (simp add: conserved_def ac_simps)
qed

section \<open>What the database holds\<close>

text \<open>Groups that one statement can write.\<close>

definition one_statement :: "renderer \<Rightarrow> string list \<Rightarrow> string \<Rightarrow> row list \<Rightarrow> bool" where
  "one_statement R cols pk g \<longleftrightarrow>
     g \<noteq> [] \<and> (list_all is_insert g \<or> list_all is_delete g \<or> (\<exists>r. g = [r] \<and> is_update r \<and> update_sets R cols pk r \<noteq> []))"

lemma groups_one_statement: "list_all (one_statement R cols pk) (groups R cols pk rows)"
  by (auto simp: groups_def one_statement_def list_all_iff delete_keys_def)

context sql_table
begin

lemma send_view:
  assumes "table_ok pg_schema table cols pk" and "one_statement R cols pk g" and "list_all storable g"
    and "send_group R exec pg_schema table cols pk g d = (Inr (), d')"
  shows "view d' = fold (apply_row cols pk) g (view d)"
proof -
  have hd: "hd g \<in> set g" using assms(2) by (simp add: one_statement_def)
  consider (i) "list_all is_insert g" | (x) "list_all is_delete g" | (u) r where "g = [r]" "is_update r" "update_sets R cols pk r \<noteq> []"
    using assms(2) by (auto simp: one_statement_def)
  then show ?thesis
  proof cases
    case i
    then have "is_insert (hd g)" using hd by (auto simp: list_all_iff)
    then show ?thesis using insert_law [OF assms(1) _ assms(3)] assms(2,4) i
      by (simp add: send_group_def statement_of_def one_statement_def fold_apply_row)
  next
    case x
    then have "\<not> is_insert (hd g)" "\<not> is_update (hd g)"
      using hd by (auto simp: list_all_iff is_insert_def is_update_def is_delete_def)
    then show ?thesis using delete_law [OF assms(1) _ assms(3)] assms(2,4) x
      by (simp add: send_group_def statement_of_def one_statement_def fold_apply_row)
  next
    case u
    then have "\<not> is_insert r" by (simp add: is_insert_def)
    then show ?thesis using update_law [OF assms(1) _ u(3)] assms(3,4) u
      by (simp add: send_group_def statement_of_def apply_row_cases)
  qed
qed

lemma skipped_view:
  assumes "list_all storable (skipped R cols pk rows)"
  shows "fold (apply_row cols pk) (skipped R cols pk rows) st = st"
proof -
  have "apply_row cols pk r st = st" if "r \<in> set (skipped R cols pk rows)" for r st
  proof -
    have "storable r" using assms that by (simp add: list_all_iff)
    then have "row_get r pk \<noteq> None" using storable_key [of r] by (auto simp: row_key_def value_or_null_def split: option.splits)
    then have "is_update r" "update_sets R cols pk r = []"
      using that by (auto simp: skipped_def delete_keys_def filter_map_conv filter_empty_conv split: if_splits)
    then show ?thesis by (simp add: apply_row_cases update_sets_Nil)
  qed
  moreover have "fold f xs st = st" if "\<And>x st. x \<in> set xs \<Longrightarrow> f x st = st" for f :: "row \<Rightarrow> table_state \<Rightarrow> table_state" and xs st
    using that by (induction xs arbitrary: st) auto
  ultimately show ?thesis by blast
qed

text \<open>
  As long as no statement failed, the table is the one before with the written rows applied, in
  the order in which they were written.
\<close>

definition table_view_inv :: "table_state \<Rightarrow> 'd flush_state \<Rightarrow> bool" where
  "table_view_inv st s \<longleftrightarrow>
     wb_pg_schema (fs_buffer s) = pg_schema \<and> conserved table s \<and>
     list_all (list_all (one_statement R cols pk)) (fs_tasks s) \<and>
     (fs_lost s = [] \<longrightarrow> list_all storable (fs_issued s) \<longrightarrow> view (fs_db s) = fold (apply_row cols pk) (fs_written s) st)"

lemma view_step:
  assumes ok: "table_ok pg_schema table cols pk" and "flush_step R exec table cols pk s s'" and "table_view_inv st s"
  shows "table_view_inv st s'"
proof -
  have cons: "conserved table s'" using conserved_step [OF assms(2)] assms(3) by (simp add: table_view_inv_def)
  note inv = assms(3) [unfolded table_view_inv_def]
  from assms(2) show ?thesis
  proof (cases rule: flush_step.cases)
    case (issue call b)
    then show ?thesis using inv cons run_call_issue(2) by (auto simp: table_view_inv_def)
  next
    case (refuse call e b)
    then show ?thesis using inv cons run_call_refuse(2) by (auto simp: table_view_inv_def)
  next
    case (take rows)
    have "list_all storable (skipped R cols pk rows)" if "list_all storable (fs_issued s')"
      using that conserved_written [OF cons] take(1) by (auto simp: list_all_iff)
    then show ?thesis using inv cons take groups_one_statement by (auto simp: table_view_inv_def skipped_view)
  next
    case (written i g gs d)
    have "fs_tasks s ! i \<in> set (fs_tasks s)" using written(2) by simp
    then have "one_statement R cols pk g" "list_all (one_statement R cols pk) gs"
      using inv written(3) by (auto simp: list_all_iff)
    moreover have "list_all storable g" if "list_all storable (fs_issued s')"
      using that conserved_written [OF cons] written(1) by (auto simp: list_all_iff)
    moreover have "list_all (list_all (one_statement R cols pk)) ((fs_tasks s)[i := gs])"
      using inv calculation(2) by (auto simp: list_all_iff dest!: set_update_subset_insert [THEN subsetD])
    ultimately show ?thesis
      using inv cons written send_view [OF ok, of g "fs_db s" d] by (auto simp: table_view_inv_def)
  next
    case (failed i g gs e d)
    have "fs_tasks s ! i \<in> set (fs_tasks s)" using failed(2) by simp
    then have "g \<noteq> []" using inv failed(3) by (auto simp: list_all_iff one_statement_def)
    moreover have "list_all (list_all (one_statement R cols pk)) ((fs_tasks s)[i := []])"
      using inv by (auto simp: list_all_iff dest!: set_update_subset_insert [THEN subsetD])
    ultimately show ?thesis using inv cons failed by (simp add: table_view_inv_def)
  qed
qed

end

section \<open>Schedules\<close>

text \<open>An executable form of the steps: what is done next, and by which flush.\<close>

datatype flush_move = M_Call buffer_call | M_Take | M_Send nat

definition flush_move ::
  "renderer \<Rightarrow> 'd execute \<Rightarrow> string \<Rightarrow> string list \<Rightarrow> string \<Rightarrow> flush_move \<Rightarrow> 'd flush_state \<Rightarrow> 'd flush_state option" where
  "flush_move R exec t cols pk m s =
     (case m of
        M_Call call \<Rightarrow>
          (case run_call t call (fs_buffer s) of
             (Inr _, b) \<Rightarrow> Some (s\<lparr>fs_buffer := b, fs_issued := fs_issued s @ [last (buffered b t)]\<rparr>)
           | (Inl _, b) \<Rightarrow> Some (s\<lparr>fs_buffer := b\<rparr>))
      | M_Take \<Rightarrow>
          map_option (\<lambda>rows. s\<lparr>fs_buffer := set_rows t [] (fs_buffer s), fs_tasks := fs_tasks s @ [groups R cols pk rows],
              fs_written := fs_written s @ skipped R cols pk rows\<rparr>) (wb_buffers (fs_buffer s) t)
      | M_Send i \<Rightarrow>
          (if i < length (fs_tasks s) then
             (case fs_tasks s ! i of
                [] \<Rightarrow> None
              | g # gs \<Rightarrow>
                  (case send_group R exec (wb_pg_schema (fs_buffer s)) t cols pk g (fs_db s) of
                     (Inr _, d) \<Rightarrow> Some (s\<lparr>fs_db := d, fs_tasks := (fs_tasks s)[i := gs], fs_written := fs_written s @ g\<rparr>)
                   | (Inl _, d) \<Rightarrow>
                       Some (s\<lparr>fs_db := d, fs_tasks := (fs_tasks s)[i := []], fs_lost := fs_lost s @ concat (g # gs)\<rparr>)))
           else None))"

fun flush_moves ::
  "renderer \<Rightarrow> 'd execute \<Rightarrow> string \<Rightarrow> string list \<Rightarrow> string \<Rightarrow> flush_move list \<Rightarrow> 'd flush_state \<Rightarrow> 'd flush_state option" where
  "flush_moves R exec t cols pk [] s = Some s"
| "flush_moves R exec t cols pk (m # ms) s =
     Option.bind (flush_move R exec t cols pk m s) (flush_moves R exec t cols pk ms)"

lemma flush_step_iff: "flush_step R exec t cols pk s s' \<longleftrightarrow> (\<exists>m. flush_move R exec t cols pk m s = Some s')"
proof
  assume "flush_step R exec t cols pk s s'"
  then show "\<exists>m. flush_move R exec t cols pk m s = Some s'"
  proof (cases rule: flush_step.cases)
    case (issue call b)
    then show ?thesis by (intro exI [of _ "M_Call call"]) (simp add: flush_move_def)
  next
    case (refuse call e b)
    then show ?thesis by (intro exI [of _ "M_Call call"]) (simp add: flush_move_def)
  next
    case (take rows)
    then show ?thesis by (intro exI [of _ M_Take]) (simp add: flush_move_def)
  next
    case (written i g gs d)
    then show ?thesis by (intro exI [of _ "M_Send i"]) (simp add: flush_move_def)
  next
    case (failed i g gs e d)
    then show ?thesis by (intro exI [of _ "M_Send i"]) (simp add: flush_move_def)
  qed
next
  assume "\<exists>m. flush_move R exec t cols pk m s = Some s'"
  then obtain m where m: "flush_move R exec t cols pk m s = Some s'" by blast
  show "flush_step R exec t cols pk s s'"
  proof (cases m)
    case (M_Call call)
    then show ?thesis using m
      by (auto simp: flush_move_def intro: flush_step.issue flush_step.refuse split: prod.splits sum.splits)
  next
    case M_Take
    then show ?thesis using m by (auto simp: flush_move_def intro: flush_step.take)
  next
    case (M_Send i)
    then show ?thesis using m
      by (auto simp: flush_move_def simp del: concat.simps intro: flush_step.written flush_step.failed
          split: if_splits list.splits prod.splits sum.splits)
  qed
qed

lemma flush_moves_reach:
  "flush_moves R exec t cols pk ms s = Some s' \<Longrightarrow> (flush_step R exec t cols pk)\<^sup>*\<^sup>* s s'"
proof (induction ms arbitrary: s)
  case (Cons m ms)
  then obtain s1 where m: "flush_move R exec t cols pk m s = Some s1" and ms: "flush_moves R exec t cols pk ms s1 = Some s'"
    by (auto simp: Option.bind_eq_Some_conv)
  have "flush_step R exec t cols pk s s1" unfolding flush_step_iff by (rule exI, rule m)
  then show ?case using Cons.IH [OF ms] by (rule converse_rtranclp_into_rtranclp)
qed simp

section \<open>Concurrent flushes\<close>

lemma flush_reach_inv:
  assumes "sql_table exec view storable R (wb_pg_schema b) t cols pk" and "table_ok (wb_pg_schema b) t cols pk"
    and "buffered b t = []" and "(flush_step R exec t cols pk)\<^sup>*\<^sup>* (flush_start b d) s"
  shows "sql_table.table_view_inv view storable R (wb_pg_schema b) t cols pk (view d) s"
  using assms(4)
proof (induction rule: rtranclp_induct)
  case base
  then show ?case using assms(3) by (simp add: sql_table.table_view_inv_def [OF assms(1)] flush_start_def conserved_def)
next
  case (step s s')
  show ?case using sql_table.view_step [OF assms(1,2) step(2,3)] .
qed

text \<open>
  Property C16. Handlers and flushes that run at the same time, in every interleaving: each row
  that was issued is in exactly one place, written, in a statement that a flush has still to send,
  given up by a flush that failed, or in the buffer. When nothing failed, nothing is under way and
  no two rows have the same key, the table is as if the operations had been performed one by one
  in the order in which they were issued, whatever the order in which their statements reached
  the database.
\<close>

theorem concurrent_flush_sound:
  assumes "sql_table exec view storable R (wb_pg_schema b) t cols pk" and "table_ok (wb_pg_schema b) t cols pk"
    and "buffered b t = []" and "(flush_step R exec t cols pk)\<^sup>*\<^sup>* (flush_start b d) s"
  shows "mset (fs_issued s) = mset (fs_written s) + mset (in_flight s) + mset (fs_lost s) + mset (buffered (fs_buffer s) t) \<and>
    (fs_lost s = [] \<and> in_flight s = [] \<and> buffered (fs_buffer s) t = [] \<and> list_all storable (fs_issued s) \<and>
     distinct (map (row_key pk) (fs_issued s)) \<longrightarrow>
       view (fs_db s) = fold (apply_row cols pk) (fs_issued s) (view d))"
proof -
  note inv = flush_reach_inv [OF assms, unfolded sql_table.table_view_inv_def [OF assms(1)] conserved_def]
  then show ?thesis using fold_apply_permuted [of pk "fs_issued s" "fs_written s" cols "view d"] by auto
qed

definition small_buffer :: write_buffer where
  "small_buffer = \<lparr> wb_buffers = [''token'' \<mapsto> []], wb_max_size = 2, wb_pg_schema = ''public'',
     wb_table_columns = [''token'' \<mapsto> [''id'', ''owner'']], wb_pk_columns = [''token'' \<mapsto> ''id''],
     wb_total_flushed = 0 \<rparr>"

definition two_inserts :: "flush_move list" where
  "two_inserts = [M_Call (Call_Insert (owner_row ''1'' ''ann'')), M_Take,
     M_Call (Call_Insert (owner_row ''2'' ''bob'')), M_Take, M_Send 1, M_Send 0]"

abbreviation token_moves :: "flush_move list \<Rightarrow> table_state \<Rightarrow> table_state flush_state option" where
  "token_moves ms d \<equiv> flush_moves plain_renderer token_exec ''token'' [''id'', ''owner''] ''id'' ms (flush_start small_buffer d)"

theorem concurrent_flush_sound_witness:
  "\<exists>s. token_moves two_inserts Map.empty = Some s \<and> fs_issued s = [owner_row ''1'' ''ann'', owner_row ''2'' ''bob''] \<and>
     fs_written s = [owner_row ''2'' ''bob'', owner_row ''1'' ''ann''] \<and>
     fs_db s = fold (apply_row [''id'', ''owner''] ''id'') (fs_issued s) Map.empty"
proof -
  have "map_option (\<lambda>s. (fs_issued s, fs_written s, fs_lost s, in_flight s, buffered (fs_buffer s) ''token''))
      (token_moves two_inserts Map.empty) =
      Some ([owner_row ''1'' ''ann'', owner_row ''2'' ''bob''], [owner_row ''2'' ''bob'', owner_row ''1'' ''ann''], [], [], [])"
    by code_simp
  then obtain s where s: "token_moves two_inserts Map.empty = Some s"
    "fs_issued s = [owner_row ''1'' ''ann'', owner_row ''2'' ''bob'']"
    "fs_written s = [owner_row ''2'' ''bob'', owner_row ''1'' ''ann'']" "fs_lost s = []" "in_flight s = []"
    "buffered (fs_buffer s) ''token'' = []" by auto
  have b: "wb_pg_schema small_buffer = ''public''" "buffered small_buffer ''token'' = []"
    by (simp_all add: small_buffer_def buffered_def)
  have "distinct (map (row_key ''id'') (fs_issued s))" by (simp add: s owner_defs)
  then have "fs_db s = fold (apply_row [''id'', ''owner''] ''id'') (fs_issued s) Map.empty"
    using concurrent_flush_sound [of token_exec "\<lambda>st. st" "text_storable ''id''" plain_renderer small_buffer "''token''"
        "[''id'', ''owner'']" "''id''" Map.empty s] flush_moves_reach [OF s(1)] s b owner_storable
      text_server.sql_table_axioms token_table_ok by auto
  then show ?thesis using s by blast
qed

text \<open>
  With one key twice the order is lost: of two updates that two flushes took one after the
  other, the first one stays in the table when its flush is the slower one.
\<close>

lemma stale_update_wins:
  "map_option (\<lambda>s. (fs_lost s, in_flight s, map_option (\<lambda>m. m ''owner'') (fs_db s (CV_Text ''1''))))
     (token_moves [M_Call (Call_Update (owner_row ''1'' ''ann'') CV_Null), M_Take,
        M_Call (Call_Update (owner_row ''1'' ''bob'') CV_Null), M_Take, M_Send 1, M_Send 0]
        [CV_Text ''1'' \<mapsto> (\<lambda>_. CV_Null)]) =
   Some ([], [], Some (CV_Text ''ann''))"
  by code_simp

text \<open>
  A flush does not wait for rows that another flush has taken: it returns at once, and what its
  caller does next, such as writing a checkpoint, comes before the rows are in the database.
\<close>

lemma flush_after_take_returns:
  assumes "flush_move R exec t cols pk M_Take s = Some s'"
  shows "flush_table R exec t (fs_buffer s', fs_db s') = (Inr 0, set_rows t [] (fs_buffer s'), fs_db s')"
  using assms by (auto simp: flush_move_def flush_table_def set_rows_def)

lemma flush_after_take_returns_witness:
  "map_option (\<lambda>s. (in_flight s, fst (flush_table plain_renderer token_exec ''token'' (fs_buffer s, fs_db s)), fs_db s (CV_Text ''1'') = None))
     (token_moves [M_Call (Call_Insert (owner_row ''1'' ''ann'')), M_Take] Map.empty) =
   Some ([owner_row ''1'' ''ann''], Inr 0, True)"
  by code_simp

end
