(* ===== verification/Shutdown.thy ===== *)
theory Shutdown
  imports Api_Server Cli Codegen
begin

text \<open>
  How a running indexer ends (\<open>forge-index/src/shutdown.rs\<close>, the wait of \<open>runner.rs\<close> and
  \<open>forge-index-api/src/server.rs\<close>): the runner and the server it spawns listen to signals of the
  operating system, each from a moment of its own. The entry point of the command line
  (\<open>forge-index-cli/src/main.rs\<close>) is here too.
\<close>

section \<open>Signals\<close>

datatype os_signal = SIGINT | SIGTERM

fun signal_name :: "os_signal \<Rightarrow> string" where
  "signal_name SIGINT = ''SIGINT''"
| "signal_name SIGTERM = ''SIGTERM''"

text \<open>
  The registrations of the process, kept by library code. \<open>sl_install\<close> registers a listener
  for a signal, or fails; \<open>sl_caught\<close> tells whether a signal goes to listeners, instead of ending
  the process at once. \<open>sl_orphan\<close> is what the web framework makes of a server whose future for
  the shutdown panics.
\<close>

datatype server_phase = Spawned | Listening | Closed

record 'g signal_lib =
  sl_install :: "os_signal \<Rightarrow> 'g \<Rightarrow> bool \<times> 'g"
  sl_caught :: "os_signal \<Rightarrow> 'g \<Rightarrow> bool"
  sl_orphan :: server_phase

definition install_or :: "'g signal_lib \<Rightarrow> (os_signal \<Rightarrow> string) \<Rightarrow> os_signal \<Rightarrow> ('g, string, unit) call" where
  "install_or G msg sig g = (case sl_install G sig g of (ok, g) \<Rightarrow> (if ok then Inr () else Inl (msg sig), g))"

text \<open>
  The first poll of \<open>tokio::select!\<close> over both listeners; \<open>int_first\<close> is the order in which the
  macro polls them. A listener that cannot be installed panics with the message of \<open>expect\<close>.
\<close>

definition listen :: "'g signal_lib \<Rightarrow> (os_signal \<Rightarrow> string) \<Rightarrow> bool \<Rightarrow> ('g, string, unit) call" where
  "listen G msg int_first =
     (if int_first then seq (install_or G msg SIGINT) (\<lambda>_. install_or G msg SIGTERM)
      else seq (install_or G msg SIGTERM) (\<lambda>_. install_or G msg SIGINT))"

fun runner_message :: "os_signal \<Rightarrow> string" where
  "runner_message SIGINT = ''failed to install Ctrl+C handler''"
| "runner_message SIGTERM = ''failed to install SIGTERM handler''"

fun server_message :: "os_signal \<Rightarrow> string" where
  "server_message SIGINT = ''failed to install Ctrl+C handler''"
| "server_message SIGTERM = ''failed to install signal handler''"

section \<open>The server\<close>

definition bind_address :: "16 word \<Rightarrow> string" where
  "bind_address port = ''0.0.0.0:'' @ nat_str (unat port)"

text \<open>
  \<open>ApiServer::run\<close>, with the outcomes of binding the address and of serving until the shutdown
  as arguments.
\<close>

definition server_run :: "(string \<Rightarrow> string + 'l) \<Rightarrow> ('l \<Rightarrow> string + unit) \<Rightarrow> 16 word \<Rightarrow> api_error + unit" where
  "server_run bind accept port =
     (let addr = bind_address port
      in case bind addr of
           Inl e \<Rightarrow> Inl (Internal (''Failed to bind to '' @ addr @ '': '' @ e))
         | Inr listener \<Rightarrow>
             (case accept listener of
                Inl e \<Rightarrow> Inl (Internal (''Server error: '' @ e))
              | Inr _ \<Rightarrow> Inr ()))"

section \<open>The process\<close>

text \<open>
  The runner indexes the past, waits for a signal and leaves. It leaves with the name of the
  signal that it got, with an error of the backfill, with a panic, or because a signal that
  nobody listens to ends the process.
\<close>

datatype exit = Signalled string | Failed | Panicked string | Killed os_signal

datatype runner_phase = Indexing | Awaiting | Left exit

record 'g process =
  pc_signals :: 'g
  pc_server :: server_phase
  pc_runner :: runner_phase

datatype process_event = Server_Starts bool bool | Backfill_Ends bool bool | Deliver os_signal

text \<open>
  The server starts when its task is first run: it binds its address, or not, and listens. The
  backfill ends, with success or not; then the runner listens. A signal reaches everyone who
  listens at that time.
\<close>

definition server_starts :: "'g signal_lib \<Rightarrow> bool \<Rightarrow> bool \<Rightarrow> 'g process \<Rightarrow> 'g process" where
  "server_starts G bound int_first p =
     (if pc_server p \<noteq> Spawned then p
      else if \<not> bound then p\<lparr>pc_server := Closed\<rparr>
      else (case listen G server_message int_first (pc_signals p) of
              (Inr _, g) \<Rightarrow> p\<lparr>pc_signals := g, pc_server := Listening\<rparr>
            | (Inl _, g) \<Rightarrow> p\<lparr>pc_signals := g, pc_server := sl_orphan G\<rparr>))"

definition backfill_ends :: "'g signal_lib \<Rightarrow> bool \<Rightarrow> bool \<Rightarrow> 'g process \<Rightarrow> 'g process" where
  "backfill_ends G ok int_first p =
     (if pc_runner p \<noteq> Indexing then p
      else if \<not> ok then p\<lparr>pc_runner := Left Failed\<rparr>
      else (case listen G runner_message int_first (pc_signals p) of
              (Inr _, g) \<Rightarrow> p\<lparr>pc_signals := g, pc_runner := Awaiting\<rparr>
            | (Inl m, g) \<Rightarrow> p\<lparr>pc_signals := g, pc_runner := Left (Panicked m)\<rparr>))"

definition deliver :: "'g signal_lib \<Rightarrow> os_signal \<Rightarrow> 'g process \<Rightarrow> 'g process" where
  "deliver G sig p =
     (if \<not> sl_caught G sig (pc_signals p) then p\<lparr>pc_server := Closed, pc_runner := Left (Killed sig)\<rparr>
      else p\<lparr>pc_server := (if pc_server p = Listening then Closed else pc_server p),
             pc_runner := (if pc_runner p = Awaiting then Left (Signalled (signal_name sig)) else pc_runner p)\<rparr>)"

fun on_event :: "'g signal_lib \<Rightarrow> process_event \<Rightarrow> 'g process \<Rightarrow> 'g process" where
  "on_event G (Server_Starts bound int_first) p = server_starts G bound int_first p"
| "on_event G (Backfill_Ends ok int_first) p = backfill_ends G ok int_first p"
| "on_event G (Deliver sig) p = deliver G sig p"

text \<open>A process that has left takes no more events.\<close>

fun process_run :: "'g signal_lib \<Rightarrow> process_event list \<Rightarrow> 'g process \<Rightarrow> 'g process" where
  "process_run G [] p = p"
| "process_run G (e # es) p =
     (case pc_runner p of Left _ \<Rightarrow> p | _ \<Rightarrow> process_run G es (on_event G e p))"

definition process_start :: "'g \<Rightarrow> 'g process" where
  "process_start g = \<lparr> pc_signals = g, pc_server = Spawned, pc_runner = Indexing \<rparr>"

text \<open>What the runner does when it leaves: only after a signal it flushes and gives its lock back.\<close>

definition leave ::
  "('m, 'p, 'j, 'd) app_lib \<Rightarrow> database_manager \<Rightarrow> exit \<Rightarrow> ('m, 'p, 'j, 'd) app_state \<Rightarrow> ('m, 'p, 'j, 'd) app_state" where
  "leave A dm x s = (case x of Signalled _ \<Rightarrow> snd (shut_down A dm s) | _ \<Rightarrow> s)"

section \<open>Which signal ends the run\<close>

text \<open>
  What the signal library documents: a listener that was installed replaces the default action
  of its signal, for the rest of the process.
\<close>

locale signal_laws =
  fixes G :: "'g signal_lib"
  assumes caught_installed: "sl_install G sig g = (True, g') \<Longrightarrow> sl_caught G sig g'"
    and caught_kept: "sl_caught G sig g \<Longrightarrow> sl_caught G sig (snd (sl_install G sig' g))"
begin

lemma listen_caught:
  assumes "listen G msg f g = (Inr (), g')"
  shows "sl_caught G sig g'"
proof -
  have kept: "sl_caught G a g2" if "sl_install G a g = (True, g1)" "sl_install G b g1 = (True, g2)" for a b g1 g2
    using caught_kept [OF caught_installed [OF that(1)], of b] that(2) by simp
  show ?thesis
    using assms kept caught_installed
    by (cases sig) (auto simp: listen_def install_or_def seq_def split: if_splits prod.splits)
qed

lemma listen_keeps:
  assumes "sl_caught G sig g" shows "sl_caught G sig (snd (listen G msg f g))"
  using assms caught_kept
  by (auto simp: listen_def install_or_def seq_def split: prod.splits sum.splits if_splits) (metis snd_conv)+

text \<open>A process whose server or runner listens survives every signal from then on.\<close>

lemma deliver_caught:
  assumes "\<forall>sig. sl_caught G sig (pc_signals p)" and "pc_runner p = Indexing"
  shows "pc_runner (process_run G (map Deliver sigs @ es) p) = pc_runner (process_run G es (fold (deliver G) sigs p)) \<and>
    pc_runner (fold (deliver G) sigs p) = Indexing \<and> pc_signals (fold (deliver G) sigs p) = pc_signals p"
  using assms
proof (induction sigs arbitrary: p)
  case (Cons sig sigs)
  have "pc_signals (deliver G sig p) = pc_signals p" "pc_runner (deliver G sig p) = Indexing"
    using Cons.prems by (simp_all add: deliver_def)
  then show ?case using Cons.IH [of "deliver G sig p"] Cons.prems by simp
qed simp

end

text \<open>Registrations as a set of signals.\<close>

definition set_signals :: "os_signal set signal_lib" where
  "set_signals = \<lparr> sl_install = (\<lambda>sig g. (True, insert sig g)), sl_caught = (\<lambda>sig g. sig \<in> g), sl_orphan = Closed \<rparr>"

interpretation set_signals: signal_laws set_signals
  by unfold_locales (auto simp: set_signals_def)

text \<open>
  Signals during the backfill are lost: once the server listens, the runner goes on whatever
  signals arrive, and when its backfill is done it waits for another one.
\<close>

lemma backfill_outlives_signals:
  assumes "signal_laws G" and up: "listen G server_message f g = (Inr (), g1)"
    and ok: "listen G runner_message f' g1 = (Inr (), g2)"
  shows "pc_runner (process_run G (Server_Starts True f # map Deliver sigs @ [Backfill_Ends True f']) (process_start g)) = Awaiting"
proof -
  let ?p = "\<lparr> pc_signals = g1, pc_server = Listening, pc_runner = Indexing \<rparr>"
  have "\<forall>sig. sl_caught G sig (pc_signals ?p)" using signal_laws.listen_caught [OF assms(1) up] by simp
  from signal_laws.deliver_caught [OF assms(1) this, of sigs "[Backfill_Ends True f']"]
  show ?thesis using up ok
    by (simp add: process_start_def server_starts_def backfill_ends_def)
qed

lemma backfill_outlives_signals_witness:
  "pc_runner (process_run set_signals
     (Server_Starts True True # map Deliver [SIGINT, SIGTERM, SIGINT] @ [Backfill_Ends True True]) (process_start {})) = Awaiting"
  by (rule backfill_outlives_signals [OF set_signals.signal_laws_axioms])
    (simp_all add: listen_def install_or_def seq_def set_signals_def)

text \<open>Without a listening server the first signal ends the process, and its lock stays.\<close>

lemma early_signal_kills:
  assumes "\<not> sl_caught G sig g"
  shows "pc_runner (process_run G [Server_Starts False f, Deliver sig] (process_start g)) = Left (Killed sig)"
    and "leave A dm (Killed sig) s = s"
  using assms by (simp_all add: process_start_def server_starts_def deliver_def leave_def)

text \<open>A run that has ended orderly has got its signal after its backfill had succeeded.\<close>

lemma runner_awaits:
  assumes "pc_runner (process_run G es p) = Awaiting" and "pc_runner p \<noteq> Awaiting"
  shows "\<exists>f. Backfill_Ends True f \<in> set es"
  using assms
proof (induction es arbitrary: p)
  case (Cons e es)
  show ?case
  proof (cases "pc_runner (on_event G e p) = Awaiting")
    case True
    then show ?thesis using Cons.prems
      by (cases e) (auto simp: server_starts_def backfill_ends_def deliver_def split: if_splits prod.splits sum.splits)
  next
    case False
    then show ?thesis using Cons by (auto split: runner_phase.splits)
  qed
qed simp

lemma orderly_end:
  assumes "pc_runner (process_run G es (process_start g)) = Left (Signalled n)"
  shows "\<exists>pre sig post f. es = pre @ Deliver sig # post \<and> n = signal_name sig \<and> Backfill_Ends True f \<in> set pre"
proof -
  have "\<exists>pre sig post. es = pre @ Deliver sig # post \<and> n = signal_name sig \<and> pc_runner (process_run G pre p) = Awaiting"
    if "pc_runner (process_run G es p) = Left (Signalled n)" "pc_runner p \<noteq> Left (Signalled n)" for p es
    using that
  proof (induction es arbitrary: p)
    case (Cons e es)
    have go: "\<forall>x. pc_runner p \<noteq> Left x" using Cons.prems by (auto split: runner_phase.splits)
    show ?case
    proof (cases "pc_runner (on_event G e p) = Left (Signalled n)")
      case True
      then obtain sig where "e = Deliver sig" "n = signal_name sig" "pc_runner p = Awaiting" using go
        by (cases e) (auto simp: server_starts_def backfill_ends_def deliver_def split: if_splits prod.splits sum.splits)
      then show ?thesis by (intro exI [of _ "[]"]) simp
    next
      case False
      have run: "process_run G (e # xs) p = process_run G xs (on_event G e p)" for xs
        using go by (simp split: runner_phase.splits)
      obtain pre sig post where "es = pre @ Deliver sig # post" "n = signal_name sig"
        "pc_runner (process_run G pre (on_event G e p)) = Awaiting"
        using Cons.IH [OF _ False] Cons.prems(1) unfolding run by blast
      then show ?thesis by (intro exI [of _ "e # pre"]) (simp add: run del: process_run.simps(2))
    qed
  qed simp
  from this [OF assms] obtain pre sig post where es: "es = pre @ Deliver sig # post" "n = signal_name sig"
    and "pc_runner (process_run G pre (process_start g)) = Awaiting" by (auto simp: process_start_def)
  then show ?thesis using runner_awaits [of G pre "process_start g"] es by (fastforce simp: process_start_def)
qed

section \<open>The command line\<close>

datatype commands =
    Dev string "16 word" "string option"
  | Start string "16 word" "string option"
  | Codegen_Of string string string
  | Migrate "string option"

text \<open>The world of the commands: what the tools and libraries answer that each of them calls.\<close>

record ('pool, 'd) forge_world =
  fw_dev :: dev_world
  fw_build :: "string + bool"
  fw_cargo :: cargo_toml
  fw_program :: "string \<Rightarrow> (string \<rightharpoonup> string) \<Rightarrow> string + int option"
  fw_codegen :: codegen_lib
  fw_connect :: "string \<Rightarrow> string + 'pool"
  fw_execute :: "'pool \<Rightarrow> string \<Rightarrow> ('d, string, unit) call"
  fw_database_url :: "string option"

record 'd forge_state =
  fg_os :: os_state
  fg_files :: "string \<rightharpoonup> string"
  fg_db :: 'd

datatype main_end = Main_Ok | Main_Error string | Main_Panic string | Main_Exit int

definition main_of :: "string + unit \<Rightarrow> main_end" where
  "main_of r = (case r of Inl e \<Rightarrow> Main_Error e | Inr _ \<Rightarrow> Main_Ok)"

definition main_of_result :: "(unit, string) result \<Rightarrow> main_end" where
  "main_of_result r = (case r of Inl (Err e) \<Rightarrow> Main_Error e | Inl (Panic m) \<Rightarrow> Main_Panic m | Inr _ \<Rightarrow> Main_Ok)"

definition forge_main :: "('pool, 'd) forge_world \<Rightarrow> commands \<Rightarrow> 'd forge_state \<Rightarrow> main_end \<times> 'd forge_state" where
  "forge_main W cmd s =
     (case cmd of
        Dev entry port pg_schema \<Rightarrow>
          (case dev_run (fw_dev W) entry port pg_schema (fg_os s) of (r, os) \<Rightarrow> (main_of r, s\<lparr>fg_os := os\<rparr>))
      | Start entry port pg_schema \<Rightarrow>
          (case start_run (fw_build W) (fw_cargo W) (fw_program W) entry port pg_schema of
             Start_Error e \<Rightarrow> (Main_Error e, s)
           | Exit c \<Rightarrow> (Main_Exit c, s))
      | Codegen_Of abi output name \<Rightarrow>
          (case codegen_run (fw_codegen W) abi output name (fg_files s) of (r, fs) \<Rightarrow> (main_of_result r, s\<lparr>fg_files := fs\<rparr>))
      | Migrate database_url \<Rightarrow>
          (case migrate_run (fw_connect W) (fw_execute W) (fw_database_url W) database_url (fg_db s) of
             (r, d) \<Rightarrow> (main_of r, s\<lparr>fg_db := d\<rparr>)))"

text \<open>Each command leaves alone what belongs to the others.\<close>

lemma codegen_fails_clean: "codegen_run G abi dir name files = (Inl f, files') \<Longrightarrow> files' = files"
  using codegen_run_effect [where G = G and abi_path = abi and dir = dir and name = name and files = files] by simp

lemma forge_main_frame:
  assumes "forge_main W cmd s = (r, s')"
  shows "fg_os s' \<noteq> fg_os s \<Longrightarrow> \<exists>e p x. cmd = Dev e p x"
    and "fg_files s' \<noteq> fg_files s \<Longrightarrow> \<exists>a out n. cmd = Codegen_Of a out n \<and> r = Main_Ok"
    and "fg_db s' \<noteq> fg_db s \<Longrightarrow> \<exists>u. cmd = Migrate u"
  using assms
  by (auto dest: codegen_fails_clean simp: forge_main_def main_of_result_def split: commands.splits start_end.splits prod.splits sum.splits failure.splits)

end
