(* ===== verification/Spec2Isabelle.thy ===== *)
theory Spec2Isabelle
  imports Realtime Shared_Requests Backoff Example_Apps Codegen Api_Server Receipts Progress
    Erc20_Backfill Filter_Semantics Concurrent_Buffer Shutdown
begin

text \<open>
  A verification development of forge-index, an indexer for EVM chains written in Rust.

  \<^bold>\<open>The program.\<close> A user declares chains, contracts and a schema
  (\<open>forge-index-config\<close>) and registers handlers for events. The runner (\<open>forge-index\<close>)
  prepares a PostgreSQL database (\<open>forge-index-db\<close>) and lets the sync engine
  (\<open>forge-index-sync\<close>) fetch the logs of every contract, first the past in ranges of blocks
  and then new blocks as they arrive. Logs come from an RPC client with retries, a rate limit,
  deduplication and a cache in the database (\<open>forge-index-rpc\<close>); they are decoded by the
  contract's ABI (\<open>forge-index-core/src/abi\<close>) and handed to the handlers, whose writes are
  collected in a buffer and flushed in batches. A window of recent block hashes reveals
  reorganisations, and shadow tables are to undo what was written. Clients read the result
  by GraphQL or by restricted SQL over HTTP (\<open>forge-index-api\<close>). A command line
  (\<open>forge-index-cli\<close>) builds, starts and reloads an application and generates Rust types from
  an ABI; three indexers under \<open>examples\<close> use the whole.

  \<^bold>\<open>Theories and sources.\<close> Paths are below \<open>src/crates\<close> unless they start with \<open>examples\<close>.

  \<^item> \<open>Prelude\<close>, \<open>Utf8\<close>, \<open>Std_Strings\<close>: machine integers, results, calls that pass a state on,
    loops, and what the code uses of Rust's strings.
  \<^item> \<open>Core_Types\<close>: addresses, hashes, logs, blocks, transactions (\<open>forge-index-core/src/types\<close>).
  \<^item> \<open>Errors\<close>: the error types of the crates.
  \<^item> \<open>Rpc_Client\<close>: retry policy, filters and calls (\<open>forge-index-rpc/src/retry.rs\<close>, \<open>types.rs\<close>,
    \<open>client.rs\<close>). \<open>Backoff\<close>: the delays between attempts. \<open>Receipts\<close>: receipts, the
    subscription to new heads, the construction of clients and the statistics of the cache
    (\<open>client.rs\<close>, \<open>transport.rs\<close>, \<open>cached_client.rs\<close>). \<open>Rpc_Cache\<close>: the tables and operations of the cache and the client that uses
    it (\<open>cache/store.rs\<close>, \<open>cached_client.rs\<close>). \<open>Dedup\<close>: the sharing of concurrent requests
    (\<open>dedup.rs\<close>). \<open>Shared_Requests\<close>: the keys and requests of the client that are shared
    (\<open>client.rs\<close>, \<open>types.rs\<close>). \<open>Rate_Limiter\<close>: token buckets (\<open>rate_limiter.rs\<close> and the limiter of
    \<open>forge-index-api/src/handlers/sql.rs\<close>).
  \<^item> \<open>Abi_Types\<close>, \<open>Abi_Decoder\<close>, \<open>Abi_Roundtrip\<close>, \<open>Abi_Typing\<close>: the types, the parser and the
    log decoder (\<open>forge-index-core/src/abi\<close>), an encoder by the Solidity specification with the
    round trip, and the typing of decoded values.
  \<^item> \<open>Config\<close>: schema and configuration with their builders and the validation
    (\<open>forge-index-config\<close>). \<open>Build_Id\<close>: the fingerprint of an application
    (\<open>forge-index-telemetry/src/build_id.rs\<close>).
  \<^item> \<open>Rows\<close>, \<open>Sql_Text\<close>, \<open>Write_Buffer\<close>, \<open>Reorg_Store\<close>: rows and their SQL, a reader of the
    generated statements, the write buffer with the contexts of handlers and the shadow tables
    (\<open>forge-index-db/src/row.rs\<close>, \<open>query.rs\<close>, \<open>buffer.rs\<close>, \<open>context.rs\<close>, \<open>reorg.rs\<close>).
    \<open>Concurrent_Buffer\<close>: flushes that interleave with each other and with handlers
    (\<open>buffer.rs\<close>). \<open>Typed_Server\<close>, \<open>Sql_Tables\<close>: servers with text and integer columns, with one
    table and with several, for the interface of the buffer.
  \<^item> \<open>Chain_State\<close>, \<open>Reorg_Detector\<close>: the window of recent hashes and the search for the fork
    (\<open>forge-index-sync/src/reorg\<close>). \<open>Backfill\<close>: planner, workers and coordinator
    (\<open>forge-index-sync/src/backfill\<close>). \<open>Backfill_View\<close>: what a backfill leaves in the tables of an
    application. \<open>Progress\<close>: its percentages, rates and estimates
    (\<open>backfill/progress.rs\<close>). \<open>Realtime\<close>: subscription, reorganisation handler and the
    loop over new blocks (\<open>forge-index-sync/src/realtime\<close>, \<open>reorg/handler.rs\<close>).
  \<^item> \<open>Sql_Validator\<close>, \<open>Sql_Api\<close>: the checks of a SQL query and the endpoint that runs it
    (\<open>forge-index-api/src/sql\<close>, \<open>handlers/sql.rs\<close>, \<open>response.rs\<close>). \<open>Pagination\<close>, \<open>Graphql\<close>,
    \<open>Graphql_Schema\<close>: cursors, filters, resolvers and the generated schema
    (\<open>forge-index-api/src/graphql\<close>). \<open>Filter_Semantics\<close>: a reader of the clauses of filters and
    their meaning (\<open>graphql/filters.rs\<close>). \<open>Api_Server\<close>: the routes, the handlers behind them and the
    tracing of requests (\<open>forge-index-api/src/server.rs\<close>, \<open>handlers\<close>, \<open>graphql/handler.rs\<close>,
    \<open>middleware/tracing.rs\<close>). \<open>Telemetry\<close>: the metrics and the log mode
    (\<open>forge-index-telemetry\<close>, \<open>forge-index-api/src/handlers/metrics.rs\<close>).
  \<^item> \<open>Cli\<close>: child processes, file watcher, the commands \<open>dev\<close>, \<open>start\<close> and \<open>migrate\<close>.
    \<open>Codegen\<close>: the code generator (\<open>forge-index-cli\<close>).
  \<^item> \<open>Shutdown\<close>: the signals that end an indexer and its server (\<open>forge-index/src/shutdown.rs\<close>,
    \<open>runner.rs\<close>, \<open>forge-index-api/src/server.rs\<close>), and the choice of a command
    (\<open>forge-index-cli/src/main.rs\<close>).
  \<^item> \<open>Erc20\<close>, \<open>Example_Apps\<close>: the indexers of \<open>examples/erc20\<close>, \<open>examples/nft\<close> and
    \<open>examples/uniswap-v3\<close>, with their schemas, configurations and handlers.
    \<open>Erc20_Backfill\<close>: the backfill of the ERC-20 indexer from end to end.
  \<^item> \<open>App\<close>: the database manager (\<open>forge-index-db/src/manager.rs\<close>), the registry of handlers,
    the builder and the run of an indexer (\<open>forge-index/src/builder.rs\<close>, \<open>runner.rs\<close>).

  \<^bold>\<open>How code is modelled.\<close> Structures are records, enumerations are datatypes, integers keep
  their width. A function that can fail returns a sum whose left side is an error value or a
  panic; every panic the code can reach (indexing, arithmetic overflow with the checks of a
  debug build, \<open>unwrap\<close>) is such a value. A method that changes its object returns the new
  state beside its result, also when it fails, so that what is lost or kept on an error can be
  stated. A loop that need not end gives an option, with \<open>None\<close> for the run that never ends:
  the planner's loop is a partial function, and there is no fuel in the development other than
  lists that bound a walk: of clock readings in the rate limiter, of pages in the client of
  a paginated query and of file notifications in the development loop, and the number of ticks
  of the background flush. Handlers of users are arbitrary functions that may write, fail or panic.

  \<^bold>\<open>Code outside the repository.\<close> The RPC provider, the JSON library, hashing and hex, the
  database and the GraphQL library are arguments. What a result needs of one of them is a
  locale: the laws of SQL for the statements the buffer and the rollback send, the reading of
  page queries, of transactions and of the meta table, the JSON round trip of cursors, and the
  rounding error of floating-point numbers. Each locale is interpreted, the databases by servers
  that read the statement texts themselves. Floating-point numbers are reals with the
  rounding as an argument, interpreted by rounding to 53 bits.

  \<^bold>\<open>What is shown.\<close>

  \<^item> RPC: the retry loop refines its specification; the cache returns only blocks of its chain
    under any failures of the database; round trips of the cached data; in every interleaving of
    calls each caller gets an answer of the provider to its own request, whoever made it, and no
    task blocks another; the limiter
    grants what its rate allows, rounding included. The delays of a call that keeps failing take
    82 to 88 seconds together. The logs of a receipt agree with those of
    \<open>get_logs\<close> exactly for the first transaction of a block with logs.
  \<^item> ABI: parsing inverts printing, decoding inverts encoding, every decoded value has the form
    of its type, and elementary events other than 128-bit signed integers never cause a panic.
  \<^item> Configuration: validation accepts exactly the configurations that satisfy a declarative
    specification, and what it accepts can be wired to workers on every chain.
  \<^item> Storage: literals stay inside their quotes; inserts respect the bound of the buffer; a
    flush of rows with distinct keys has the effect of the operations in the order they were
    issued, and empties the buffer also when it fails; in every interleaving of flushes and
    handlers each row is in exactly one place, and with distinct keys the order of the
    statements does not matter, while of two updates of one key the older one may stay; a recorded insert is undone by a rollback
    and a recorded update is not.
  \<^item> Sync: a plan covers every block once; fetched ranges are complete and ordered; checkpoints
    follow the flush; a finished run resumes exactly behind it; the window of hashes is bounded,
    finds the fork and holds only blocks of the new branch afterwards; the live loop indexes
    every block of a chain without reorganisations, and loses the branch after one; the
    recorded progress of a backfill stays within its total.
  \<^item> API: a validated query is one read-only statement with its limit; the endpoint leaves the
    database as it was; the clause of a filter holds exactly the stated conditions whatever
    the texts, and selects the rows that match the filter; cursors decode to what they were made from; ascending pages show
    every row once, and descending pages do not; the readiness endpoint answers \<open>200\<close> exactly
    when the backfill of every chain succeeded; a server started with a key refuses SQL
    requests without it.
  \<^item> Command line: the development loop never has more than one process and leaves none; the
    generated fields hold every value of their type. An indexer that ends orderly got its signal
    after its backfill; signals during the backfill are lost once the server listens.
  \<^item> Applications: the backfill of the ERC20 indexer comes to an end whatever the provider does,
    and when it reports success every transfer of the indexed blocks is in the table once, with
    its addresses and value, and no other row has changed; with a provider that answers and a
    database that takes typed rows it succeeds. This joins the planner, the client with its
    cache and retries, the decoder, the handlers, the coordinator, the buffer, its statements
    and the laws of the database. The balances of that indexer stay zero. The handlers of the
    Uniswap indexer accept every event of their ABI.

  Statements about defects (lost logs, lost rows, panics on data, pages that repeat) are proved
  of the same definitions as the others.

  \<^bold>\<open>Interfaces.\<close> \<open>Core_Types\<close> has the laws of a hex codec and \<open>Pagination\<close> those of the JSON
  library. \<open>Rpc_Cache\<close> states when a cache is coherent with a provider, interpreted on the
  block cache, and \<open>Reorg_Detector\<close> what it needs of a source of blocks, interpreted on the
  cached client. \<open>Write_Buffer\<close> states the laws of a table as seen through SQL texts,
  \<open>Reorg_Store\<close> extends them by the shadow table and \<open>Sql_Tables\<close> by a law for the statements to
  other tables. \<open>Backfill_View\<close> states what a backfill needs of an application, its tables, the
  rows that its handlers write and their number, interpreted on the ERC-20 indexer. \<open>Shutdown\<close>
  has the laws of signal listeners, \<open>Graphql\<close> has the laws of page queries,
  \<open>Sql_Api\<close> those of transactions, \<open>App\<close> those of the meta table and \<open>Rate_Limiter\<close> those of
  rounding. The interpretations of the databases are on servers that read the very texts the
  model produces, apart from that of transactions, where statements are arbitrary functions.

  \<^bold>\<open>Not modelled.\<close> The web framework's dispatch beyond the choice of a route, the listening
  socket, the CORS headers and the text of the GraphQL playground; the installation of log
  subscribers and metric recorders; the parsing of command-line arguments; constructors that only
  store their arguments; benchmarks and tests. Validation of SQL
  is modelled for queries of ASCII characters, on which the case conversions of the standard
  library are defined in \<open>Std_Strings\<close>. Log lines have no state and are left out.
\<close>

end
